(* ===== verification/Kerosene_Prelude.thy ===== *)
theory Kerosene_Prelude
  imports Main "HOL-Library.Word" "HOL-Library.Multiset" "HOL-Library.Char_ord"
    "HOL-Library.List_Lexorder" "HOL-Library.AList"
begin

text \<open>
  Shared vocabulary of the development: Rust's machine integers and the operations of its
  standard library that the sources call (\<open>checked_add\<close>, \<open>saturating_sub\<close>,
  \<open>to_le_bytes\<close>, \<open>str::parse\<close>, \<open>format!\<close> of integers, \<open>split_once\<close>),
  \<open>Result\<close> as a sum with the error on the left, searching and updating vectors, and the
  record of the third-party cryptographic primitives that the ledger calls.
  The generic lemmas are collected in \<open>result_simps\<close>, \<open>rust_arith\<close> and
  \<open>vec_simps\<close>.
\<close>

named_theorems result_simps \<open>inversion of Result-returning computations\<close>
named_theorems rust_arith \<open>Rust integer operations read as natural numbers\<close>
named_theorems vec_simps \<open>searching and updating vectors\<close>

section \<open>Machine integers\<close>

type_synonym u8 = "8 word"
type_synonym u16 = "16 word"
type_synonym u32 = "32 word"
type_synonym u64 = "64 word"
type_synonym u128 = "128 word"
type_synonym bytes = "8 word list"

definition checked_add :: "'a::len word \<Rightarrow> 'a word \<Rightarrow> 'a word option" where
  "checked_add a b = (if unat a + unat b < 2 ^ LENGTH('a) then Some (a + b) else None)"

definition checked_sub :: "'a::len word \<Rightarrow> 'a word \<Rightarrow> 'a word option" where
  "checked_sub a b = (if b \<le> a then Some (a - b) else None)"

definition saturating_add :: "'a::len word \<Rightarrow> 'a word \<Rightarrow> 'a word" where
  "saturating_add a b = (if unat a + unat b < 2 ^ LENGTH('a) then a + b else - 1)"

definition saturating_sub :: "'a::len word \<Rightarrow> 'a word \<Rightarrow> 'a word" where
  "saturating_sub a b = (if b \<le> a then a - b else 0)"

definition abs_diff :: "'a::len word \<Rightarrow> 'a word \<Rightarrow> 'a word" where
  "abs_diff a b = (if b \<le> a then a - b else b - a)"

lemma abs_diff_le: "abs_diff a b \<le> m \<longleftrightarrow> \<bar>uint a - uint b\<bar> \<le> uint m" for a b m :: u64
proof (cases "b \<le> a")
  case True
  then have "uint (a - b) = uint a - uint b" "uint b \<le> uint a"
    by (simp_all add: word_le_def uint_sub_lem [symmetric])
  with True show ?thesis by (simp add: abs_diff_def word_le_def)
next
  case False
  then have "uint (b - a) = uint b - uint a" "uint a < uint b"
    by (simp_all add: word_le_def uint_sub_lem [symmetric])
  with False show ?thesis by (simp add: abs_diff_def word_le_def)
qed

lemma unat_plus_no_overflow:
  fixes a b :: "'a::len word"
  shows "unat a + unat b < 2 ^ LENGTH('a) \<Longrightarrow> unat (a + b) = unat a + unat b"
  by (rule unat_add_lem [THEN iffD1])

lemma checked_add_Some [rust_arith]:
  fixes a b c :: "'a::len word"
  shows "checked_add a b = Some c \<longleftrightarrow> unat c = unat a + unat b"
proof
  assume "checked_add a b = Some c"
  then show "unat c = unat a + unat b"
    by (auto simp: checked_add_def unat_plus_no_overflow split: if_splits)
next
  assume eq: "unat c = unat a + unat b"
  then have lt: "unat a + unat b < 2 ^ LENGTH('a)"
    by (metis unsigned_less)
  then have "unat (a + b) = unat c"
    using eq by (simp add: unat_plus_no_overflow)
  then have "a + b = c" by (simp only: unsigned_word_eqI)
  with lt show "checked_add a b = Some c"
    by (simp add: checked_add_def)
qed

lemma checked_add_None [rust_arith]:
  fixes a b :: "'a::len word"
  shows "checked_add a b = None \<longleftrightarrow> 2 ^ LENGTH('a) \<le> unat a + unat b"
  by (auto simp: checked_add_def)

lemma checked_sub_Some [rust_arith]:
  fixes a b c :: "'a::len word"
  shows "checked_sub a b = Some c \<longleftrightarrow> b \<le> a \<and> c = a - b"
  by (auto simp: checked_sub_def)

lemma checked_sub_None [rust_arith]: "checked_sub a b = None \<longleftrightarrow> a < b"
  by (auto simp: checked_sub_def not_le)

lemma unat_minus_le [rust_arith]:
  fixes a b :: "'a::len word"
  shows "b \<le> a \<Longrightarrow> unat (a - b) = unat a - unat b"
  by (rule unat_sub)

lemma unat_saturating_sub [rust_arith]:
  fixes a b :: "'a::len word"
  shows "unat (saturating_sub a b) = unat a - unat b"
  by (auto simp: saturating_sub_def unat_sub word_le_nat_alt)

lemma unat_max_word: "unat (- 1 :: 'a::len word) = 2 ^ LENGTH('a) - 1"
  by (simp add: unsigned_minus_1_eq_mask mask_eq_exp_minus_1)

lemma unat_saturating_add [rust_arith]:
  fixes a b :: "'a::len word"
  shows "unat (saturating_add a b) = min (unat a + unat b) (2 ^ LENGTH('a) - 1)"
  by (auto simp: saturating_add_def unat_plus_no_overflow unat_max_word min_def)

lemma saturating_add_ge: "a \<le> saturating_add a (b :: 'a::len word)"
proof -
  have "unat a < 2 ^ LENGTH('a)" by (rule unsigned_less)
  then have "unat a \<le> 2 ^ LENGTH('a) - 1" by linarith
  then show ?thesis by (simp add: word_le_nat_alt unat_saturating_add)
qed

lemma unat_abs_diff [rust_arith]:
  fixes a b :: "'a::len word"
  shows "int (unat (abs_diff a b)) = \<bar>int (unat a) - int (unat b)\<bar>"
proof (cases "b \<le> a")
  case True
  then have "unat b \<le> unat a" by (simp add: word_le_nat_alt)
  with True show ?thesis
    by (simp only: abs_diff_def if_True unat_minus_le of_nat_diff)
next
  case False
  then have "a \<le> b" "unat a \<le> unat b" by (simp_all add: word_le_nat_alt)
  with False show ?thesis
    by (simp only: abs_diff_def if_False unat_minus_le of_nat_diff)
qed

section \<open>Bytes and strings\<close>

text \<open>A Rust \<open>String\<close> is its UTF-8 bytes; a \<open>char\<close> of the model is one byte.\<close>

definition str_bytes :: "string \<Rightarrow> bytes" where
  "str_bytes s = map of_char s"

text \<open>\<open>to_le_bytes\<close> of an integer of \<open>n\<close> bytes.\<close>

definition le_bytes :: "nat \<Rightarrow> 'a::len word \<Rightarrow> bytes" where
  "le_bytes n w = map (\<lambda>i. ucast (drop_bit (8 * i) w)) [0..<n]"

definition u64_le :: "u64 \<Rightarrow> bytes" where
  "u64_le w = le_bytes 8 w"

definition u32_le :: "u32 \<Rightarrow> bytes" where
  "u32_le w = le_bytes 4 w"

definition usize_le :: "nat \<Rightarrow> bytes" where
  "usize_le n = u64_le (of_nat n)"

lemma length_le_bytes [simp]: "length (le_bytes n w) = n"
  by (simp add: le_bytes_def)

lemma length_u64_le [simp]: "length (u64_le w) = 8"
  by (simp add: u64_le_def)

lemma length_u32_le [simp]: "length (u32_le w) = 4"
  by (simp add: u32_le_def)

lemma length_usize_le [simp]: "length (usize_le n) = 8"
  by (simp add: usize_le_def)

lemma length_str_bytes [simp]: "length (str_bytes s) = length s"
  by (simp add: str_bytes_def)

lemma le_bytes_inject:
  fixes v w :: "'a::len word"
  assumes eq: "le_bytes n v = le_bytes n w" and len: "LENGTH('a) = 8 * n"
  shows "v = w"
proof (rule bit_eqI)
  fix k assume "possible_bit TYPE('a word) k"
  then have k: "k < 8 * n" using len by simp
  let ?i = "k div 8" and ?j = "k mod 8"
  have "?i < n" using k by simp
  then have "(ucast (drop_bit (8 * ?i) v) :: u8) = ucast (drop_bit (8 * ?i) w)"
    using arg_cong [OF eq, of "\<lambda>xs. xs ! ?i"] by (simp add: le_bytes_def)
  then have "bit (ucast (drop_bit (8 * ?i) v) :: u8) ?j = bit (ucast (drop_bit (8 * ?i) w) :: u8) ?j"
    by simp
  then show "bit v k = bit w k"
    by (simp add: bit_simps)
qed

lemma u64_le_inject [simp]: "u64_le v = u64_le w \<longleftrightarrow> v = w"
  by (auto simp: u64_le_def dest: le_bytes_inject)

lemma u32_le_inject [simp]: "u32_le v = u32_le w \<longleftrightarrow> v = w"
  by (auto simp: u32_le_def dest: le_bytes_inject)

lemma of_char_inj: "(of_char c :: u8) = of_char d \<longleftrightarrow> c = d"
proof
  assume eq: "(of_char c :: u8) = of_char d"
  have lt: "(of_char x :: nat) < 256" for x
    by simp
  have "unat (of_char x :: u8) = (of_char x :: nat)" for x
  proof -
    have "(of_char x :: u8) = of_nat (of_char x)"
      by (rule of_nat_of_char [symmetric])
    then show ?thesis
      using lt [of x] by (simp only: unat_of_nat) simp
  qed
  with eq have "(of_char c :: nat) = of_char d"
    by metis
  then show "c = d" by simp
qed simp

lemma str_bytes_inject [simp]: "str_bytes s = str_bytes t \<longleftrightarrow> s = t"
  by (simp add: str_bytes_def inj_map_eq_map inj_def of_char_inj)

lemma str_bytes_append: "str_bytes (s @ t) = str_bytes s @ str_bytes t"
  by (simp add: str_bytes_def)

text \<open>
  The length-prefixed encoding of a string: the length as a little-endian \<open>u64\<close>, then the
  bytes. A length fits its prefix when it is below \<open>2 ^ 64\<close>, which every Rust string is.
\<close>

definition encode_string :: "string \<Rightarrow> bytes" where
  "encode_string s = usize_le (length s) @ str_bytes s"

definition str_ok :: "string \<Rightarrow> bool" where
  "str_ok s \<longleftrightarrow> length s < 2 ^ 64"

lemma usize_le_inject:
  assumes "m < 2 ^ 64" and "n < 2 ^ 64"
  shows "usize_le m = usize_le n \<longleftrightarrow> m = n"
proof
  assume "usize_le m = usize_le n"
  then have "unat (of_nat m :: u64) = unat (of_nat n :: u64)"
    by (simp add: usize_le_def)
  with assms show "m = n"
    by (simp add: unat_of_nat)
qed simp

lemma encode_string_prefix:
  assumes "str_ok s" and "str_ok t" and "encode_string s @ xs = encode_string t @ ys"
  shows "s = t \<and> xs = ys"
proof -
  from assms(3) have "usize_le (length s) = usize_le (length t)"
    and rest: "str_bytes s @ xs = str_bytes t @ ys"
    by (auto simp: encode_string_def append_eq_append_conv)
  with assms(1,2) have "length s = length t"
    by (simp add: usize_le_inject str_ok_def)
  with rest show ?thesis
    by (auto simp: append_eq_append_conv)
qed

section \<open>Decimal numbers\<close>

definition digit_char :: "nat \<Rightarrow> char" where
  "digit_char d = char_of (48 + d)"

definition to_digit :: "char \<Rightarrow> nat option" where
  "to_digit c = (let n = of_char c :: nat in if 48 \<le> n \<and> n \<le> 57 then Some (n - 48) else None)"

fun show_nat :: "nat \<Rightarrow> string" where
  "show_nat n = (if n < 10 then [digit_char n] else show_nat (n div 10) @ [digit_char (n mod 10)])"

declare show_nat.simps [simp del]

definition show_word :: "'a::len word \<Rightarrow> string" where
  "show_word w = show_nat (unat w)"

definition show_int :: "int \<Rightarrow> string" where
  "show_int i = (if i < 0 then CHR ''-'' # show_nat (nat (- i)) else show_nat (nat i))"

datatype parse_int_error = Empty | InvalidDigit | PosOverflow

fun parse_int_error_display :: "parse_int_error \<Rightarrow> string" where
  "parse_int_error_display Empty = ''cannot parse integer from empty string''"
| "parse_int_error_display InvalidDigit = ''invalid digit found in string''"
| "parse_int_error_display PosOverflow = ''number too large to fit in target type''"

text \<open>
  \<open>str::parse\<close> for an unsigned integer type: an optional \<open>+\<close>, then decimal digits; the
  bound \<open>m\<close> is the first value that does not fit.
\<close>

fun parse_digits :: "nat \<Rightarrow> nat \<Rightarrow> string \<Rightarrow> parse_int_error + nat" where
  "parse_digits m acc [] = Inr acc"
| "parse_digits m acc (c # cs) =
     (case to_digit c of
        None \<Rightarrow> Inl InvalidDigit
      | Some d \<Rightarrow> if m \<le> acc * 10 + d then Inl PosOverflow else parse_digits m (acc * 10 + d) cs)"

definition parse_uint :: "nat \<Rightarrow> string \<Rightarrow> parse_int_error + nat" where
  "parse_uint m s =
     (if s = [] then Inl Empty
      else if s = ''+'' \<or> s = ''-'' then Inl InvalidDigit
      else if hd s = CHR ''+'' then parse_digits m 0 (tl s)
      else parse_digits m 0 s)"

definition parse_word :: "string \<Rightarrow> parse_int_error + 'a::len word" where
  "parse_word s = (case parse_uint (2 ^ LENGTH('a)) s of Inl e \<Rightarrow> Inl e | Inr n \<Rightarrow> Inr (of_nat n))"

lemma digit_char_simps [simp]:
  "digit_char 0 = CHR ''0''" "digit_char (Suc 0) = CHR ''1''" "digit_char 2 = CHR ''2''"
  "digit_char 3 = CHR ''3''" "digit_char 4 = CHR ''4''" "digit_char 5 = CHR ''5''"
  "digit_char 6 = CHR ''6''" "digit_char 7 = CHR ''7''" "digit_char 8 = CHR ''8''"
  "digit_char 9 = CHR ''9''"
  by code_simp+

lemma show_nat_digit: "n < 10 \<Longrightarrow> show_nat n = [digit_char n]"
  by (simp add: show_nat.simps)

lemma to_digit_char: "d < 10 \<Longrightarrow> to_digit (digit_char d) = Some d"
  by (simp add: to_digit_def digit_char_def Let_def)

lemma digit_char_neq:
  assumes "d < 10" and "to_digit c = None"
  shows "digit_char d \<noteq> c"
  using assms to_digit_char [of d] by auto

lemma show_nat_neq_Nil [simp]: "show_nat n \<noteq> []"
  by (subst show_nat.simps) simp

lemma show_nat_digits: "c \<in> set (show_nat n) \<Longrightarrow> to_digit c \<noteq> None"
proof (induction n rule: show_nat.induct)
  case (1 n)
  show ?case
  proof (cases "n < 10")
    case True
    then show ?thesis
      using "1.prems" by (simp add: show_nat.simps [of n] to_digit_char)
  next
    case False
    then have "c \<in> set (show_nat (n div 10)) \<or> c = digit_char (n mod 10)"
      using "1.prems" by (simp add: show_nat.simps [of n] disj_commute)
    then show ?thesis
      using "1.IH" [OF False] by (auto simp: to_digit_char)
  qed
qed

lemma parse_digits_append:
  "parse_digits m acc (s @ t) =
     (case parse_digits m acc s of Inl e \<Rightarrow> Inl e | Inr n \<Rightarrow> parse_digits m n t)"
  by (induction m acc s rule: parse_digits.induct) (auto split: option.splits)

lemma parse_digits_show_nat: "n < m \<Longrightarrow> parse_digits m 0 (show_nat n) = Inr n"
proof (induction n rule: show_nat.induct)
  case (1 n)
  show ?case
  proof (cases "n < 10")
    case True
    with "1.prems" show ?thesis
      by (simp add: show_nat.simps [of n] to_digit_char)
  next
    case False
    have "parse_digits m 0 (show_nat (n div 10)) = Inr (n div 10)"
      using "1.IH" [OF False] "1.prems" by simp
    moreover have "n div 10 * 10 + n mod 10 = n" by simp
    ultimately show ?thesis
      using False "1.prems"
      by (simp add: show_nat.simps [of n] parse_digits_append to_digit_char)
  qed
qed

lemma to_digit_sign [simp]: "to_digit CHR ''+'' = None" "to_digit CHR ''-'' = None"
    "to_digit CHR '':'' = None" "to_digit CHR ''|'' = None"
  by (simp_all add: to_digit_def)

lemma show_nat_not_sign: "c \<in> set (show_nat n) \<Longrightarrow> to_digit c = None \<Longrightarrow> False"
  using show_nat_digits by blast

lemma parse_uint_show_nat: "n < m \<Longrightarrow> parse_uint m (show_nat n) = Inr n"
proof -
  assume n: "n < m"
  have mem: "hd (show_nat n) \<in> set (show_nat n)" by simp
  have "hd (show_nat n) \<noteq> CHR ''+''" and "hd (show_nat n) \<noteq> CHR ''-''"
    using show_nat_not_sign [OF mem] by auto
  then have "show_nat n \<noteq> ''+''" and "show_nat n \<noteq> ''-''"
    and "hd (show_nat n) \<noteq> CHR ''+''"
    by (metis list.sel(1))+
  with n show ?thesis
    by (simp add: parse_uint_def parse_digits_show_nat)
qed

lemma parse_word_show_word [simp]: "parse_word (show_word w) = Inr w"
  by (simp add: parse_word_def show_word_def parse_uint_show_nat)

lemma show_word_inject [simp]: "show_word v = show_word w \<longleftrightarrow> v = w"
proof
  assume "show_word v = show_word w"
  then have "(parse_word (show_word v) :: parse_int_error + 'a word) = parse_word (show_word w)"
    by simp
  then show "v = w" by (simp only: parse_word_show_word sum.inject)
qed simp

lemma show_word_no_colon: "CHR '':'' \<notin> set (show_word w)"
  using show_nat_not_sign [of "CHR '':''"] by (auto simp: show_word_def)

section \<open>Splitting strings\<close>

text \<open>\<open>str::split_once\<close>: split at the first occurrence of the separator.\<close>

fun split_once :: "char \<Rightarrow> string \<Rightarrow> (string \<times> string) option" where
  "split_once sep [] = None"
| "split_once sep (c # cs) =
     (if c = sep then Some ([], cs)
      else map_option (\<lambda>(a, b). (c # a, b)) (split_once sep cs))"

lemma split_once_append:
  "sep \<notin> set a \<Longrightarrow> split_once sep (a @ sep # b) = Some (a, b)"
  by (induction a) auto

lemma split_at_sep:
  fixes a b x y :: string
  assumes "a @ sep # x = b @ sep # y" and "sep \<notin> set a" and "sep \<notin> set b"
  shows "a = b \<and> x = y"
proof -
  have "Some (a, x) = Some (b, y)"
    using split_once_append [OF assms(2), of x] split_once_append [OF assms(3), of y]
    by (simp only: assms(1))
  then show ?thesis by simp
qed

lemma split_once_Some: "split_once sep s = Some (a, b) \<Longrightarrow> s = a @ sep # b \<and> sep \<notin> set a"
  by (induction s arbitrary: a) (auto split: if_splits)

lemma split_once_None: "split_once sep s = None \<longleftrightarrow> sep \<notin> set s"
  by (induction s) auto

section \<open>Results\<close>

text \<open>
  \<open>Result<T, E>\<close> is the sum \<open>'e + 'a\<close>: \<open>Inl\<close> is \<open>Err\<close>, \<open>Inr\<close> is \<open>Ok\<close>.
  \<open>res_bind\<close> is the \<open>?\<close> operator of a function that only reads its arguments. A
  function that takes \<open>&mut self\<close> returns the result together with the state it leaves
  behind, on every path: a Rust function that fails half way keeps the writes it has made.
\<close>

definition res_bind :: "'e + 'a \<Rightarrow> ('a \<Rightarrow> 'e + 'b) \<Rightarrow> 'e + 'b" where
  "res_bind r f = (case r of Inl e \<Rightarrow> Inl e | Inr x \<Rightarrow> f x)"

definition require :: "bool \<Rightarrow> 'e \<Rightarrow> 'e + unit" where
  "require b e = (if b then Inr () else Inl e)"

definition ok_or :: "'a option \<Rightarrow> 'e \<Rightarrow> 'e + 'a" where
  "ok_or r e = (case r of None \<Rightarrow> Inl e | Some x \<Rightarrow> Inr x)"

definition unwrap_or :: "'a option \<Rightarrow> 'a \<Rightarrow> 'a" where
  "unwrap_or r d = (case r of None \<Rightarrow> d | Some x \<Rightarrow> x)"

definition res_unwrap_or :: "'e + 'a \<Rightarrow> 'a \<Rightarrow> 'a" where
  "res_unwrap_or r d = (case r of Inl _ \<Rightarrow> d | Inr x \<Rightarrow> x)"

definition is_ok :: "'e + 'a \<Rightarrow> bool" where
  "is_ok r = (case r of Inl _ \<Rightarrow> False | Inr _ \<Rightarrow> True)"

lemma res_bind_simps [simp]:
  "res_bind (Inl e) f = Inl e"
  "res_bind (Inr x) f = f x"
  by (simp_all add: res_bind_def)

lemma res_bind_Inr [result_simps]: "res_bind r f = Inr y \<longleftrightarrow> (\<exists>x. r = Inr x \<and> f x = Inr y)"
  by (cases r) simp_all

lemma res_bind_Inl [result_simps]:
  "res_bind r f = Inl e \<longleftrightarrow> r = Inl e \<or> (\<exists>x. r = Inr x \<and> f x = Inl e)"
  by (cases r) simp_all

lemma require_Inr [result_simps]: "require b e = Inr x \<longleftrightarrow> b"
  by (simp add: require_def)

lemma require_Inl [result_simps]: "require b e = Inl e' \<longleftrightarrow> \<not> b \<and> e' = e"
  by (auto simp: require_def)

lemma ok_or_simps [simp]: "ok_or None e = Inl e" "ok_or (Some x) e = Inr x"
  by (simp_all add: ok_or_def)

lemma ok_or_Inr [result_simps]: "ok_or r e = Inr x \<longleftrightarrow> r = Some x"
  by (cases r) simp_all

lemma ok_or_Inl [result_simps]: "ok_or r e = Inl e' \<longleftrightarrow> r = None \<and> e' = e"
  by (cases r) auto

lemma unwrap_or_simps [simp]: "unwrap_or None d = d" "unwrap_or (Some x) d = x"
  by (simp_all add: unwrap_or_def)

lemma res_unwrap_or_simps [simp]: "res_unwrap_or (Inl e) d = d" "res_unwrap_or (Inr x) d = x"
  by (simp_all add: res_unwrap_or_def)

lemma is_ok_simps [simp]: "\<not> is_ok (Inl e)" "is_ok (Inr x)"
  by (simp_all add: is_ok_def)

lemma is_ok_iff: "is_ok r \<longleftrightarrow> (\<exists>x. r = Inr x)"
  by (cases r) simp_all

text \<open>A validation loop: \<open>for x in xs \<open>{\<close> check(x)?; \<open>}\<close>\<close>.\<close>

fun check_all :: "('a \<Rightarrow> 'e + unit) \<Rightarrow> 'a list \<Rightarrow> 'e + unit" where
  "check_all f [] = Inr ()"
| "check_all f (x # xs) = res_bind (f x) (\<lambda>_. check_all f xs)"

lemma check_all_Inr [result_simps]: "check_all f xs = Inr u \<longleftrightarrow> (\<forall>x \<in> set xs. is_ok (f x))"
  by (induction xs) (auto simp: result_simps is_ok_iff)

section \<open>Vectors\<close>

text \<open>
  \<open>iter().find\<close> is \<open>List.find\<close>; \<open>iter_mut().find\<close> followed by a write updates the
  first element that satisfies the predicate.
\<close>

fun update_first :: "('a \<Rightarrow> bool) \<Rightarrow> ('a \<Rightarrow> 'a) \<Rightarrow> 'a list \<Rightarrow> 'a list" where
  "update_first P f [] = []"
| "update_first P f (x # xs) = (if P x then f x # xs else x # update_first P f xs)"

lemma find_Some_in [vec_simps]: "List.find P xs = Some x \<Longrightarrow> x \<in> set xs \<and> P x"
  by (induction xs) (auto split: if_splits)

lemma find_None_iff_all: "List.find P xs = None \<longleftrightarrow> (\<forall>x \<in> set xs. \<not> P x)"
  by (induction xs) auto

lemma length_update_first [simp]: "length (update_first P f xs) = length xs"
  by (induction xs) auto

lemma map_update_first [vec_simps]:
  "(\<And>x. g (f x) = g x) \<Longrightarrow> map g (update_first P f xs) = map g xs"
  by (induction xs) auto

lemma set_update_first:
  "x \<in> set (update_first P f xs) \<Longrightarrow> x \<in> set xs \<or> (\<exists>y. List.find P xs = Some y \<and> x = f y)"
  by (induction xs) (auto split: if_splits)

lemma update_first_split:
  "List.find P xs = Some x \<Longrightarrow> \<exists>us vs. xs = us @ x # vs \<and> (\<forall>u \<in> set us. \<not> P u) \<and>
     update_first P f xs = us @ f x # vs"
proof (induction xs)
  case (Cons y xs)
  show ?case
  proof (cases "P y")
    case True
    with Cons.prems show ?thesis by (intro exI [of _ "[]"] exI [of _ xs]) auto
  next
    case False
    with Cons obtain us vs where "xs = us @ x # vs" "\<forall>u \<in> set us. \<not> P u"
        "update_first P f xs = us @ f x # vs"
      by auto
    with False show ?thesis
      by (intro exI [of _ "y # us"] exI [of _ vs]) auto
  qed
qed simp

lemma find_update_first_same:
  "List.find P xs = Some x \<Longrightarrow> P (f x) \<Longrightarrow> List.find P (update_first P f xs) = Some (f x)"
  by (induction xs) (auto split: if_splits)

lemma find_update_first_other:
  "(\<And>x. P x \<Longrightarrow> \<not> Q x) \<Longrightarrow> (\<And>x. P x \<Longrightarrow> \<not> Q (f x)) \<Longrightarrow>
    List.find Q (update_first P f xs) = List.find Q xs"
  by (induction xs) auto

lemma update_first_none: "List.find P xs = None \<Longrightarrow> update_first P f xs = xs"
  by (induction xs) (auto split: if_splits)

lemma find_append [vec_simps]:
  "List.find P (xs @ ys) = (case List.find P xs of None \<Rightarrow> List.find P ys | Some x \<Rightarrow> Some x)"
  by (induction xs) auto

lemma sum_list_update_first:
  fixes g :: "'a \<Rightarrow> 'b::ab_group_add"
  shows "List.find P xs = Some x \<Longrightarrow>
    sum_list (map g (update_first P f xs)) = sum_list (map g xs) - g x + g (f x)"
  by (induction xs) (auto split: if_splits simp: algebra_simps)

section \<open>Hash maps\<close>

text \<open>
  A \<open>HashMap\<close> is an association list with distinct keys, in an unspecified order: the order
  in which the map is iterated. \<open>get\<close> is \<open>map_of\<close>, \<open>insert\<close> is
  \<open>AList.update\<close> and \<open>remove\<close> is \<open>AList.delete\<close>.
\<close>

type_synonym ('k, 'v) hashmap = "('k \<times> 'v) list"

definition hm_ok :: "('k, 'v) hashmap \<Rightarrow> bool" where
  "hm_ok m \<longleftrightarrow> distinct (map fst m)"

definition hm_insert :: "'k \<Rightarrow> 'v \<Rightarrow> ('k, 'v) hashmap \<Rightarrow> ('k, 'v) hashmap" where
  "hm_insert k v m = AList.update k v m"

definition hm_remove :: "'k \<Rightarrow> ('k, 'v) hashmap \<Rightarrow> ('k, 'v) hashmap" where
  "hm_remove k m = AList.delete k m"

lemma hm_get_insert [simp]: "map_of (hm_insert k v m) = (map_of m)(k \<mapsto> v)"
  by (simp add: hm_insert_def update_conv')

lemma hm_get_remove [simp]: "map_of (hm_remove k m) = (map_of m)(k := None)"
  by (simp add: hm_remove_def delete_conv')

lemma hm_ok_Nil [simp]: "hm_ok []"
  by (simp add: hm_ok_def)

lemma hm_ok_insert [simp]: "hm_ok m \<Longrightarrow> hm_ok (hm_insert k v m)"
  by (simp add: hm_ok_def hm_insert_def distinct_update)

lemma hm_ok_remove [simp]: "hm_ok m \<Longrightarrow> hm_ok (hm_remove k m)"
  by (simp add: hm_ok_def hm_remove_def distinct_delete)

lemma hm_insert_simps [simp]:
  "hm_insert k v [] = [(k, v)]"
  "hm_insert k v ((k', v') # m) = (if k' = k then (k, v) # m else (k', v') # hm_insert k v m)"
  by (simp_all add: hm_insert_def)

text \<open>A total over the values of a map.\<close>

definition hm_sum :: "('v \<Rightarrow> int) \<Rightarrow> ('k, 'v) hashmap \<Rightarrow> int" where
  "hm_sum g m = sum_list (map (\<lambda>kv. g (snd kv)) m)"

lemma hm_sum_insert:
  "hm_sum g (hm_insert k v m) =
     hm_sum g m + g v - (case map_of m k of None \<Rightarrow> 0 | Some w \<Rightarrow> g w)"
  by (induction m) (auto simp: hm_sum_def)

lemma in_hm_iff: "hm_ok m \<Longrightarrow> (k, v) \<in> set m \<longleftrightarrow> map_of m k = Some v"
  by (auto simp: hm_ok_def map_of_is_SomeI dest: map_of_SomeD)

section \<open>Third-party primitives\<close>

text \<open>
  The crates \<open>sha2\<close>, \<open>hex\<close> and \<open>ed25519_dalek\<close> are parameters of the model: the
  digest, the hexadecimal codec, the acceptance of a public key (\<open>None\<close>, or the message of
  the rejection) and signature verification under a key.
\<close>

record crypto =
  sha256 :: "bytes \<Rightarrow> bytes"
  hex_encode :: "bytes \<Rightarrow> string"
  hex_decode :: "string \<Rightarrow> bytes option"
  key_rejected :: "bytes \<Rightarrow> string option"
  sig_valid :: "bytes \<Rightarrow> bytes \<Rightarrow> bytes \<Rightarrow> bool"

text \<open>
  What the crates document: a digest has 32 bytes, decoding inverts encoding, and an encoding
  consists of hexadecimal digits.
\<close>

definition crypto_ok :: "crypto \<Rightarrow> bool" where
  "crypto_ok c \<longleftrightarrow> (\<forall>b. length (sha256 c b) = 32) \<and> (\<forall>b. hex_decode c (hex_encode c b) = Some b) \<and>
     (\<forall>b. set (hex_encode c b) \<subseteq> set ''0123456789abcdef'')"

lemma crypto_ok_length: "crypto_ok c \<Longrightarrow> length (sha256 c b) = 32"
  by (simp add: crypto_ok_def)

lemma crypto_ok_hex_inject: "crypto_ok c \<Longrightarrow> hex_encode c a = hex_encode c b \<longleftrightarrow> a = b"
  unfolding crypto_ok_def by (metis option.inject)

lemma crypto_ok_hex_digit:
  "crypto_ok c \<Longrightarrow> x \<notin> set ''0123456789abcdef'' \<Longrightarrow> x \<notin> set (hex_encode c b)"
  unfolding crypto_ok_def by blast

section \<open>Order-independent accumulators\<close>

text \<open>
  The roots of the ledger hash the sorted concatenation of 32-byte digests. Two facts carry
  every root: the sorted list depends on the multiset only, and, digests having a fixed
  length, the concatenation determines it.
\<close>

lemma concat_fixed_length:
  assumes "concat xs = concat ys" and "\<forall>x \<in> set xs \<union> set ys. length x = n" and "0 < n"
  shows "xs = ys"
  using assms
proof (induction xs arbitrary: ys)
  case Nil
  then show ?case by (cases ys) auto
next
  case (Cons x xs)
  then obtain y zs where "ys = y # zs" by (cases ys) auto
  with Cons show ?case by (auto simp: append_eq_append_conv)
qed

lemma sort_eq_iff_mset: "sort xs = sort ys \<longleftrightarrow> mset xs = mset ys"
  by (metis mset_sort properties_for_sort sorted_sort)

lemma mset_map_inject:
  assumes "mset (map f xs) = mset (map f ys)" and "inj_on f (set xs \<union> set ys)"
  shows "mset xs = mset ys"
  using assms(1) unfolding mset_map
  by (rule multiset.inj_map_strong [rotated]) (use assms(2) in \<open>auto dest: inj_onD\<close>)

lemma sorted_digest_cong:
  "mset hs = mset ks \<Longrightarrow> sha256 c (p @ concat (sort hs)) = sha256 c (p @ concat (sort ks))"
  by (metis sort_eq_iff_mset)

lemma sorted_digest_inject:
  assumes "sha256 c (p @ concat (sort hs)) = sha256 c (p @ concat (sort ks))"
    and "inj_on (sha256 c) T" and "p @ concat (sort hs) \<in> T" and "p @ concat (sort ks) \<in> T"
    and "\<forall>h \<in> set hs \<union> set ks. length h = 32"
  shows "mset hs = mset ks"
proof -
  have "concat (sort hs) = concat (sort ks)"
    using inj_onD [OF assms(2,1,3,4)] by simp
  then have "sort hs = sort ks"
    using assms(5) by (intro concat_fixed_length [where n = 32]) auto
  then show ?thesis by (simp add: sort_eq_iff_mset)
qed

text \<open>
  A concrete instance of the primitives, used to exhibit that hypotheses about them can hold:
  the digest of a text is its length, the codec is hexadecimal, a signature is the message
  twice.
\<close>

definition hex_digits :: string where
  "hex_digits = ''0123456789abcdef''"

fun hex_value :: "string \<Rightarrow> char \<Rightarrow> nat" where
  "hex_value [] c = 0"
| "hex_value (d # ds) c = (if c = d then 0 else Suc (hex_value ds c))"

definition demo_hex_encode :: "bytes \<Rightarrow> string" where
  "demo_hex_encode b = concat (map (\<lambda>w. [hex_digits ! (unat w div 16), hex_digits ! (unat w mod 16)]) b)"

fun demo_hex_decode :: "string \<Rightarrow> bytes option" where
  "demo_hex_decode [] = Some []"
| "demo_hex_decode [c] = None"
| "demo_hex_decode (c # d # cs) =
     map_option ((#) (of_nat (16 * hex_value hex_digits c + hex_value hex_digits d))) (demo_hex_decode cs)"

definition demo_crypto :: crypto where
  "demo_crypto = \<lparr>sha256 = (\<lambda>b. replicate 24 0 @ usize_le (length b)),
     hex_encode = demo_hex_encode, hex_decode = demo_hex_decode,
     key_rejected = (\<lambda>k. None), sig_valid = (\<lambda>k m s. s = m @ m)\<rparr>"

lemma hex_value_nth: "distinct ds \<Longrightarrow> n < length ds \<Longrightarrow> hex_value ds (ds ! n) = n"
proof (induction ds arbitrary: n)
  case (Cons d ds)
  then show ?case by (cases n) auto
qed simp

lemma hex_digits_facts: "distinct hex_digits" "length hex_digits = 16"
  by (simp_all add: hex_digits_def)

lemma byte_nibbles: "unat (w :: u8) div 16 < 16" "unat w mod 16 < 16"
  using unsigned_less [of w, where 'a = nat] by simp_all

lemma demo_hex_roundtrip: "demo_hex_decode (demo_hex_encode b) = Some b"
proof (induction b)
  case (Cons w b)
  have "(of_nat (16 * (unat w div 16) + unat w mod 16) :: u8) = of_nat (unat w)"
    by (simp only: mult_div_mod_eq)
  also have "\<dots> = w" by simp
  finally have "(of_nat (16 * (unat w div 16) + unat w mod 16) :: u8) = w" .
  with Cons show ?case
    by (simp add: demo_hex_encode_def hex_value_nth hex_digits_facts byte_nibbles)
qed (simp add: demo_hex_encode_def)

lemma length_demo_hex_encode: "length (demo_hex_encode b) = 2 * length b"
  by (induction b) (simp_all add: demo_hex_encode_def)

lemma demo_hex_encode_digits: "set (demo_hex_encode b) \<subseteq> set ''0123456789abcdef''"
proof -
  have "hex_digits ! n \<in> set ''0123456789abcdef''" if "n < 16" for n
    using nth_mem [of n hex_digits] that unfolding hex_digits_facts(2) by (simp only: hex_digits_def)
  then have "set [hex_digits ! (unat w div 16), hex_digits ! (unat w mod 16)] \<subseteq>
      set ''0123456789abcdef''" for w :: u8
    using byte_nibbles [of w] by simp
  then show ?thesis
    unfolding demo_hex_encode_def set_concat set_map by blast
qed

lemma demo_crypto_ok: "crypto_ok demo_crypto"
  using demo_hex_encode_digits by (simp add: crypto_ok_def demo_crypto_def demo_hex_roundtrip)

lemma demo_crypto_inj:
  assumes "\<forall>b \<in> B. length b < 2 ^ 64" and "inj_on length B"
  shows "inj_on (sha256 demo_crypto) B"
  using assms by (auto simp: demo_crypto_def inj_on_def usize_le_inject)

end
