(* ===== verification/Ledger_Types.thy ===== *)
theory Ledger_Types
  imports Kerosene_Prelude
begin

text \<open>
  The enumerations and the error type that the ledger components share: the chart of accounts
  (\<open>account.rs\<close>), the roles of \<open>membership.rs\<close>, the on-chain states of
  \<open>chain.rs\<close> and \<open>LedgerError\<close> of \<open>error.rs\<close>. The derived \<open>Ord\<close> of
  \<open>StandardAccount\<close> is the order of its variants and is given as a \<open>linorder\<close>
  instance, so that \<open>sort_by_key\<close> of the sources is the library's \<open>sort_key\<close>.
  Constructors carry a short prefix where two Rust enums share a variant name.
\<close>

section \<open>Chart of accounts\<close>

datatype account_class = Asset | Liability | Equity | Expense | Revenue

datatype standard_account =
    AssetCustodiedBtc | AssetColdBtc | AssetHotBtc
  | LiabilityUserBalances | LiabilityPendingWithdrawals | LiabilityInternalReserved
  | EquityPlatform | ExpenseMinerFees | RevenuePlatformFees

fun account_class_of :: "standard_account \<Rightarrow> account_class" where
  "account_class_of AssetCustodiedBtc = Asset"
| "account_class_of AssetColdBtc = Asset"
| "account_class_of AssetHotBtc = Asset"
| "account_class_of LiabilityUserBalances = Liability"
| "account_class_of LiabilityPendingWithdrawals = Liability"
| "account_class_of LiabilityInternalReserved = Liability"
| "account_class_of EquityPlatform = Equity"
| "account_class_of ExpenseMinerFees = Expense"
| "account_class_of RevenuePlatformFees = Revenue"

definition all_accounts :: "standard_account list" where
  "all_accounts = [AssetCustodiedBtc, AssetColdBtc, AssetHotBtc, LiabilityUserBalances,
     LiabilityPendingWithdrawals, LiabilityInternalReserved, EquityPlatform, ExpenseMinerFees,
     RevenuePlatformFees]"

lemma set_all_accounts [simp]: "set all_accounts = UNIV"
proof -
  have "a \<in> set all_accounts" for a
    by (cases a) (simp_all add: all_accounts_def)
  then show ?thesis by auto
qed

lemma distinct_all_accounts [simp]: "distinct all_accounts"
  by (simp add: all_accounts_def)

fun account_index :: "standard_account \<Rightarrow> nat" where
  "account_index AssetCustodiedBtc = 0"
| "account_index AssetColdBtc = 1"
| "account_index AssetHotBtc = 2"
| "account_index LiabilityUserBalances = 3"
| "account_index LiabilityPendingWithdrawals = 4"
| "account_index LiabilityInternalReserved = 5"
| "account_index EquityPlatform = 6"
| "account_index ExpenseMinerFees = 7"
| "account_index RevenuePlatformFees = 8"

lemma account_index_inject: "account_index a = account_index b \<longleftrightarrow> a = b"
  by (cases a; cases b) simp_all

instantiation standard_account :: linorder
begin

definition less_eq_standard_account :: "standard_account \<Rightarrow> standard_account \<Rightarrow> bool" where
  "less_eq_standard_account a b \<longleftrightarrow> account_index a \<le> account_index b"

definition less_standard_account :: "standard_account \<Rightarrow> standard_account \<Rightarrow> bool" where
  "less_standard_account a b \<longleftrightarrow> account_index a < account_index b"

instance
  by standard
    (auto simp: less_eq_standard_account_def less_standard_account_def account_index_inject)

end

lemma sorted_all_accounts [simp]: "sorted all_accounts"
  by (simp add: all_accounts_def less_eq_standard_account_def)

text \<open>The \<open>Debug\<close> name of an account, as \<open>format!("{:?}")\<close> prints it.\<close>

fun account_debug :: "standard_account \<Rightarrow> string" where
  "account_debug AssetCustodiedBtc = ''AssetCustodiedBtc''"
| "account_debug AssetColdBtc = ''AssetColdBtc''"
| "account_debug AssetHotBtc = ''AssetHotBtc''"
| "account_debug LiabilityUserBalances = ''LiabilityUserBalances''"
| "account_debug LiabilityPendingWithdrawals = ''LiabilityPendingWithdrawals''"
| "account_debug LiabilityInternalReserved = ''LiabilityInternalReserved''"
| "account_debug EquityPlatform = ''EquityPlatform''"
| "account_debug ExpenseMinerFees = ''ExpenseMinerFees''"
| "account_debug RevenuePlatformFees = ''RevenuePlatformFees''"

section \<open>Roles and on-chain states\<close>

datatype node_role = Untrusted | Observer | Learner | Voter

datatype onchain_state =
    OcSeen | OcInMempool | OcConfirming | OcSpendable | OcFinalizedByPolicy
  | OcReplaced | OcReorged | OcSpent

section \<open>Errors\<close>

datatype ledger_error =
    UnbalancedEntry u128 u128
  | EmptyEntry
  | NegativeBalance standard_account int
  | DuplicateSequence u64
  | SequenceGap u64 u64
  | AccountNotFound standard_account
  | InvalidHash string
  | InvariantViolation string
  | ReservedExceedsAvailable u64 u64
  | PendingOutgoingExceedsAvailable u64 u64
  | StateVersionRegression u64 u64
  | BalanceOverflow standard_account
  | DuplicateEntryId string
  | VersionConflict string u64 u64
  | InsufficientFunds string u64 u64
  | IdempotencyConflict string
  | ReservationNotFound string
  | ReservationAlreadyConsumed string
  | ReservationExpired string
  | AtomicTransferFailed string
  | UnknownCommand string
  | InvalidStateTransition string
  | SnapshotNotFound u64
  | InvalidSignature string
  | StateRootMismatch string string
  | SyncNotHealthy string
  | NotAVoter string node_role
  | CannotVote "string list"
  | NodeNotFound string
  | InvalidRoleTransition node_role node_role
  | UtxoNotFound string u32
  | InvalidUtxoTransition onchain_state onchain_state
  | UtxoAlreadyReserved string
  | UtxoNotReserved
  | InvalidUtxoData string
  | AuthorizationExpired u64 u64
  | AuthorizationInvalid string
  | PsbtMismatch string string
  | PolicyViolation string
  | WithdrawalNotFound string
  | GateBlocked string

text \<open>
  The state and the result of an operation with a mutable receiver, and the result of a
  read-only one.
\<close>

type_synonym ('s, 'a) mut_result = "(ledger_error + 'a) \<times> 's"
type_synonym 'a ledger_result = "ledger_error + 'a"

text \<open>
  Status machines. Several components move a record through an enumeration under a
  transition table, with some states declared terminal. The contract they share: a terminal
  state has no transition to another state.
\<close>

locale status_machine =
  fixes allowed :: "'s \<Rightarrow> 's \<Rightarrow> bool"
    and terminal :: "'s \<Rightarrow> bool"
  assumes terminal_stuck: "terminal s \<Longrightarrow> allowed s t \<Longrightarrow> t = s"
begin

lemma terminal_forever: "allowed\<^sup>*\<^sup>* s t \<Longrightarrow> terminal s \<Longrightarrow> t = s"
  by (induction rule: rtranclp_induct) (auto dest: terminal_stuck)

lemma closed_under_run:
  assumes "allowed\<^sup>*\<^sup>* s t" and "P s" and "\<And>a b. P a \<Longrightarrow> allowed a b \<Longrightarrow> P b"
  shows "P t"
  using assms(1,2) by (induction rule: rtranclp_induct) (auto intro: assms(3))

text \<open>
  If every way into \<open>S\<close> passes a gate state, a run from outside \<open>S\<close> that ends in
  \<open>S\<close> visits the gate.
\<close>

lemma passes_gate:
  assumes "allowed\<^sup>*\<^sup>* s t" and "\<not> S s" and "S t"
    and "\<And>a b. \<not> S a \<Longrightarrow> S b \<Longrightarrow> allowed a b \<Longrightarrow> a = g"
  shows "allowed\<^sup>*\<^sup>* s g \<and> allowed\<^sup>*\<^sup>* g t"
  using assms(1-3)
proof (induction rule: rtranclp_induct)
  case (step y z)
  show ?case
  proof (cases "S y")
    case True
    then show ?thesis using step by (meson rtranclp.rtrancl_into_rtrancl)
  next
    case False
    then have "y = g" using step.hyps(2) step.prems(2) assms(4) by blast
    then show ?thesis using step.hyps by blast
  qed
qed simp

end

section \<open>Printing\<close>

fun node_role_debug :: "node_role \<Rightarrow> string" where
  "node_role_debug Untrusted = ''Untrusted''"
| "node_role_debug Observer = ''Observer''"
| "node_role_debug Learner = ''Learner''"
| "node_role_debug Voter = ''Voter''"

fun onchain_state_debug :: "onchain_state \<Rightarrow> string" where
  "onchain_state_debug OcSeen = ''Seen''"
| "onchain_state_debug OcInMempool = ''InMempool''"
| "onchain_state_debug OcConfirming = ''Confirming''"
| "onchain_state_debug OcSpendable = ''Spendable''"
| "onchain_state_debug OcFinalizedByPolicy = ''FinalizedByPolicy''"
| "onchain_state_debug OcReplaced = ''Replaced''"
| "onchain_state_debug OcReorged = ''Reorged''"
| "onchain_state_debug OcSpent = ''Spent''"

fun join :: "string \<Rightarrow> string list \<Rightarrow> string" where
  "join sep [] = []"
| "join sep [x] = x"
| "join sep (x # y # ys) = x @ sep @ join sep (y # ys)"

text \<open>\<open>to_string\<close> of an error, from its \<open>#[error]\<close> attributes.\<close>

fun ledger_error_display :: "ledger_error \<Rightarrow> string" where
  "ledger_error_display (UnbalancedEntry d c) =
     ''unbalanced entry: debits '' @ show_word d @ '' != credits '' @ show_word c"
| "ledger_error_display EmptyEntry = ''entry must have at least one debit and one credit''"
| "ledger_error_display (NegativeBalance a b) =
     ''negative balance for '' @ account_debug a @ '': '' @ show_int b"
| "ledger_error_display (DuplicateSequence n) = ''duplicate sequence: '' @ show_word n"
| "ledger_error_display (SequenceGap e g) =
     ''sequence gap: expected '' @ show_word e @ '', got '' @ show_word g"
| "ledger_error_display (AccountNotFound a) = ''account not found: '' @ account_debug a"
| "ledger_error_display (InvalidHash h) = ''invalid hash: '' @ h"
| "ledger_error_display (InvariantViolation m) = ''invariant violation: '' @ m"
| "ledger_error_display (ReservedExceedsAvailable r a) =
     ''reserved '' @ show_word r @ '' exceeds available '' @ show_word a"
| "ledger_error_display (PendingOutgoingExceedsAvailable p a) =
     ''pending outgoing '' @ show_word p @ '' exceeds internal available '' @ show_word a"
| "ledger_error_display (StateVersionRegression p c) =
     ''state version regression: previous '' @ show_word p @ '', current '' @ show_word c"
| "ledger_error_display (BalanceOverflow a) = ''balance overflow for account '' @ account_debug a"
| "ledger_error_display (DuplicateEntryId i) = ''duplicate entry id: '' @ i"
| "ledger_error_display (VersionConflict a e c) =
     ''version conflict: account '' @ a @ '' expected version '' @ show_word e @ '', current '' @ show_word c"
| "ledger_error_display (InsufficientFunds a v n) =
     ''insufficient funds: account '' @ a @ '' has '' @ show_word v @ '', needs '' @ show_word n"
| "ledger_error_display (IdempotencyConflict c) =
     ''idempotency conflict: command '' @ c @ '' with different hash''"
| "ledger_error_display (ReservationNotFound r) = ''reservation not found: '' @ r"
| "ledger_error_display (ReservationAlreadyConsumed r) = ''reservation already consumed: '' @ r"
| "ledger_error_display (ReservationExpired r) = ''reservation expired: '' @ r"
| "ledger_error_display (AtomicTransferFailed m) = ''atomic transfer failed: '' @ m"
| "ledger_error_display (UnknownCommand m) = ''unknown command type: '' @ m"
| "ledger_error_display (InvalidStateTransition m) = ''invalid state transition: '' @ m"
| "ledger_error_display (SnapshotNotFound n) = ''snapshot not found at sequence '' @ show_word n"
| "ledger_error_display (InvalidSignature m) = ''invalid signature: '' @ m"
| "ledger_error_display (StateRootMismatch e g) =
     ''state root mismatch: expected '' @ e @ '', got '' @ g"
| "ledger_error_display (SyncNotHealthy m) = ''sync not healthy: '' @ m"
| "ledger_error_display (NotAVoter n r) =
     ''node '' @ n @ '' is not a voter (role: '' @ node_role_debug r @ '')''"
| "ledger_error_display (CannotVote rs) = ''cannot vote: '' @ join '', '' rs"
| "ledger_error_display (NodeNotFound n) = ''node not found: '' @ n"
| "ledger_error_display (InvalidRoleTransition f t) =
     ''invalid role transition: from '' @ node_role_debug f @ '' to '' @ node_role_debug t"
| "ledger_error_display (UtxoNotFound t v) = ''utxo not found: '' @ t @ '':'' @ show_word v"
| "ledger_error_display (InvalidUtxoTransition f t) =
     ''invalid utxo transition: from '' @ onchain_state_debug f @ '' to '' @ onchain_state_debug t"
| "ledger_error_display (UtxoAlreadyReserved r) = ''utxo already reserved by '' @ r"
| "ledger_error_display UtxoNotReserved = ''utxo not reserved''"
| "ledger_error_display (InvalidUtxoData m) = ''invalid utxo data: '' @ m"
| "ledger_error_display (AuthorizationExpired e n) =
     ''authorization expired at '' @ show_word e @ '', current time '' @ show_word n"
| "ledger_error_display (AuthorizationInvalid m) = ''authorization invalid: '' @ m"
| "ledger_error_display (PsbtMismatch e g) = ''PSBT hash mismatch: expected '' @ e @ '', got '' @ g"
| "ledger_error_display (PolicyViolation m) = ''policy violation: '' @ m"
| "ledger_error_display (WithdrawalNotFound w) = ''withdrawal not found: '' @ w"
| "ledger_error_display (GateBlocked r) = ''gate blocked: '' @ r"

end
