(* ===== verification/Account_State.thy ===== *)
theory Account_State
  imports Ledger_Types
begin

text \<open>
  A single account of the ledger and the data of the commands that change it:
  \<open>account_state.rs\<close>, \<open>command.rs\<close>, \<open>reservation.rs\<close> and
  \<open>idempotency.rs\<close>. Every operation takes \<open>&mut self\<close> and is modelled as a function
  to the result and the account it leaves, also when it fails: \<open>apply_reserve\<close> and
  \<open>apply_release_reservation\<close> write one balance before the second checked addition can
  fail. The counter \<open>version\<close> is a \<open>u64\<close> incremented with \<open>+= 1\<close>, which wraps in
  a release build.
  The lemmas relate the operations to an abstract account, a pair of natural numbers
  (\<open>spec_operation\<close>).
\<close>

section \<open>Accounts\<close>

record account_state =
  account_id :: string
  acc_version :: u64
  available_sats :: u64
  reserved_sats :: u64
  pending_incoming_sats :: u64
  pending_outgoing_sats :: u64
  last_committed_sequence :: u64

definition account_new :: "string \<Rightarrow> account_state" where
  "account_new i = \<lparr>account_id = i, acc_version = 0, available_sats = 0, reserved_sats = 0,
     pending_incoming_sats = 0, pending_outgoing_sats = 0, last_committed_sequence = 0\<rparr>"

definition spendable :: "account_state \<Rightarrow> u64" where
  "spendable a = available_sats a"

definition check_version :: "account_state \<Rightarrow> u64 \<Rightarrow> unit ledger_result" where
  "check_version a expected =
     (if acc_version a \<noteq> expected
      then Inl (VersionConflict (account_id a) expected (acc_version a)) else Inr ())"

definition bump_version :: "account_state \<Rightarrow> account_state" where
  "bump_version a = a\<lparr>acc_version := acc_version a + 1\<rparr>"

definition apply_credit :: "account_state \<Rightarrow> u64 \<Rightarrow> (account_state, unit) mut_result" where
  "apply_credit a amount =
     (case checked_add (available_sats a) amount of
        None \<Rightarrow> (Inl (InvariantViolation
                  (''balance overflow on credit for account '' @ account_id a)), a)
      | Some v \<Rightarrow> (Inr (), bump_version (a\<lparr>available_sats := v\<rparr>)))"

definition apply_debit :: "account_state \<Rightarrow> u64 \<Rightarrow> (account_state, unit) mut_result" where
  "apply_debit a amount =
     (if spendable a < amount
      then (Inl (InsufficientFunds (account_id a) (spendable a) amount), a)
      else case checked_sub (available_sats a) amount of
        None \<Rightarrow> (Inl (InvariantViolation
                  (''balance underflow on debit for account '' @ account_id a)), a)
      | Some v \<Rightarrow> (Inr (), bump_version (a\<lparr>available_sats := v\<rparr>)))"

definition apply_reserve :: "account_state \<Rightarrow> u64 \<Rightarrow> (account_state, unit) mut_result" where
  "apply_reserve a amount =
     (if spendable a < amount
      then (Inl (InsufficientFunds (account_id a) (spendable a) amount), a)
      else case checked_sub (available_sats a) amount of
        None \<Rightarrow> (Inl (InvariantViolation
                  (''balance underflow on reserve for account '' @ account_id a)), a)
      | Some v \<Rightarrow>
          let a1 = a\<lparr>available_sats := v\<rparr> in
          (case checked_add (reserved_sats a1) amount of
             None \<Rightarrow> (Inl (InvariantViolation
                       (''reserved overflow for account '' @ account_id a1)), a1)
           | Some r \<Rightarrow> (Inr (), bump_version (a1\<lparr>reserved_sats := r\<rparr>))))"

definition apply_release_reservation ::
    "account_state \<Rightarrow> u64 \<Rightarrow> (account_state, unit) mut_result" where
  "apply_release_reservation a amount =
     (if reserved_sats a < amount
      then (Inl (InvariantViolation (''cannot release '' @ show_word amount @
              '' from reserved (only '' @ show_word (reserved_sats a) @
              '' reserved) for account '' @ account_id a)), a)
      else case checked_sub (reserved_sats a) amount of
        None \<Rightarrow> (Inl (InvariantViolation
                  (''reserved underflow on release for account '' @ account_id a)), a)
      | Some r \<Rightarrow>
          let a1 = a\<lparr>reserved_sats := r\<rparr> in
          (case checked_add (available_sats a1) amount of
             None \<Rightarrow> (Inl (InvariantViolation
                       (''available overflow on release for account '' @ account_id a1)), a1)
           | Some v \<Rightarrow> (Inr (), bump_version (a1\<lparr>available_sats := v\<rparr>))))"

definition apply_consume_reservation ::
    "account_state \<Rightarrow> u64 \<Rightarrow> (account_state, unit) mut_result" where
  "apply_consume_reservation a amount =
     (if reserved_sats a < amount
      then (Inl (InvariantViolation (''cannot consume '' @ show_word amount @
              '' from reserved (only '' @ show_word (reserved_sats a) @
              '' reserved) for account '' @ account_id a)), a)
      else case checked_sub (reserved_sats a) amount of
        None \<Rightarrow> (Inl (InvariantViolation
                  (''reserved underflow on consume for account '' @ account_id a)), a)
      | Some r \<Rightarrow> (Inr (), bump_version (a\<lparr>reserved_sats := r\<rparr>)))"

definition set_last_committed_sequence :: "account_state \<Rightarrow> u64 \<Rightarrow> account_state" where
  "set_last_committed_sequence a sequence = bump_version (a\<lparr>last_committed_sequence := sequence\<rparr>)"

section \<open>Commands\<close>

datatype balance_operation = Credit | Debit | Reserve | ReleaseReservation

record balance_command =
  bc_command_id :: string
  bc_account_id :: string
  bc_expected_version :: u64
  bc_operation :: balance_operation
  bc_amount_sats :: u64
  bc_epoch :: u64
  bc_payload_hash :: string

record internal_transfer_command =
  it_command_id :: string
  source_account_id :: string
  source_expected_version :: u64
  destination_account_id :: string
  destination_expected_version :: u64
  it_amount_sats :: u64
  it_authorization_commitment :: string

definition balance_command_new ::
    "string \<Rightarrow> string \<Rightarrow> u64 \<Rightarrow> balance_operation \<Rightarrow> u64 \<Rightarrow> u64 \<Rightarrow> balance_command" where
  "balance_command_new cid aid ev op amount ep =
     \<lparr>bc_command_id = cid, bc_account_id = aid, bc_expected_version = ev, bc_operation = op,
      bc_amount_sats = amount, bc_epoch = ep, bc_payload_hash = []\<rparr>"

definition internal_transfer_command_new ::
    "string \<Rightarrow> string \<Rightarrow> u64 \<Rightarrow> string \<Rightarrow> u64 \<Rightarrow> u64 \<Rightarrow> string \<Rightarrow> internal_transfer_command" where
  "internal_transfer_command_new cid src sv dst dv amount auth =
     \<lparr>it_command_id = cid, source_account_id = src, source_expected_version = sv,
      destination_account_id = dst, destination_expected_version = dv, it_amount_sats = amount,
      it_authorization_commitment = auth\<rparr>"

text \<open>The \<open>match cmd.operation\<close> of both account stores.\<close>

fun apply_operation ::
    "balance_operation \<Rightarrow> account_state \<Rightarrow> u64 \<Rightarrow> (account_state, unit) mut_result" where
  "apply_operation Credit a amount = apply_credit a amount"
| "apply_operation Debit a amount = apply_debit a amount"
| "apply_operation Reserve a amount = apply_reserve a amount"
| "apply_operation ReleaseReservation a amount = apply_release_reservation a amount"

section \<open>Reservations and idempotency records\<close>

datatype reservation_state = RsPrepared | RsCommitted | RsConsumed | RsReleased | RsExpired

record reservation =
  reservation_id :: string
  rs_account_id :: string
  rs_amount_sats :: u64
  rs_state :: reservation_state
  rs_created_at_bucket :: u64
  rs_expires_at_bucket :: u64
  rs_committed_sequence :: u64
  rs_authorization_commitment :: string

definition reservation_new ::
    "string \<Rightarrow> string \<Rightarrow> u64 \<Rightarrow> u64 \<Rightarrow> u64 \<Rightarrow> string \<Rightarrow> reservation" where
  "reservation_new rid aid amount created expires auth =
     \<lparr>reservation_id = rid, rs_account_id = aid, rs_amount_sats = amount, rs_state = RsPrepared,
      rs_created_at_bucket = created, rs_expires_at_bucket = expires, rs_committed_sequence = 0,
      rs_authorization_commitment = auth\<rparr>"

definition reservation_is_terminal :: "reservation \<Rightarrow> bool" where
  "reservation_is_terminal r = (rs_state r \<in> {RsConsumed, RsReleased, RsExpired})"

definition reservation_is_expired :: "reservation \<Rightarrow> u64 \<Rightarrow> bool" where
  "reservation_is_expired r current = (rs_expires_at_bucket r \<le> current \<and> rs_state r \<noteq> RsConsumed)"

record idempotency_record =
  ir_command_id :: string
  ir_command_hash :: string
  ir_result_hash :: string
  ir_committed_sequence :: u64
  ir_resulting_state_root :: string

definition idempotency_record_new ::
    "string \<Rightarrow> string \<Rightarrow> string \<Rightarrow> u64 \<Rightarrow> string \<Rightarrow> idempotency_record" where
  "idempotency_record_new cid ch rh seq root =
     \<lparr>ir_command_id = cid, ir_command_hash = ch, ir_result_hash = rh,
      ir_committed_sequence = seq, ir_resulting_state_root = root\<rparr>"

section \<open>The abstract account\<close>

text \<open>An account as its owner sees it: an available and a reserved amount of satoshis.\<close>

type_synonym balance = "nat \<times> nat"

definition balance_of :: "account_state \<Rightarrow> balance" where
  "balance_of a = (unat (available_sats a), unat (reserved_sats a))"

definition acc_total :: "account_state \<Rightarrow> nat" where
  "acc_total a = unat (available_sats a) + unat (reserved_sats a)"

fun spec_operation :: "balance_operation \<Rightarrow> nat \<Rightarrow> balance \<Rightarrow> balance option" where
  "spec_operation Credit n (av, rs) = Some (av + n, rs)"
| "spec_operation Debit n (av, rs) = (if n \<le> av then Some (av - n, rs) else None)"
| "spec_operation Reserve n (av, rs) = (if n \<le> av then Some (av - n, rs + n) else None)"
| "spec_operation ReleaseReservation n (av, rs) =
     (if n \<le> rs then Some (av + n, rs - n) else None)"

definition fits :: "balance \<Rightarrow> bool" where
  "fits b \<longleftrightarrow> fst b < 2 ^ 64 \<and> snd b < 2 ^ 64"

lemmas account_op_defs = apply_credit_def apply_debit_def apply_reserve_def
  apply_release_reservation_def apply_consume_reservation_def bump_version_def spendable_def

lemma apply_credit_ok:
  "apply_credit a n = (Inr u, a') \<longleftrightarrow>
     unat (available_sats a) + unat n < 2 ^ 64 \<and>
     a' = a\<lparr>available_sats := available_sats a + n, acc_version := acc_version a + 1\<rparr>"
  by (auto simp: apply_credit_def bump_version_def checked_add_def)

lemma apply_debit_ok:
  "apply_debit a n = (Inr u, a') \<longleftrightarrow>
     n \<le> available_sats a \<and>
     a' = a\<lparr>available_sats := available_sats a - n, acc_version := acc_version a + 1\<rparr>"
  by (auto simp: apply_debit_def bump_version_def spendable_def checked_sub_def)

lemma apply_reserve_ok:
  "apply_reserve a n = (Inr u, a') \<longleftrightarrow>
     n \<le> available_sats a \<and> unat (reserved_sats a) + unat n < 2 ^ 64 \<and>
     a' = a\<lparr>available_sats := available_sats a - n, reserved_sats := reserved_sats a + n,
            acc_version := acc_version a + 1\<rparr>"
  by (auto simp: apply_reserve_def bump_version_def spendable_def checked_sub_def
      checked_add_def Let_def)

lemma apply_release_ok:
  "apply_release_reservation a n = (Inr u, a') \<longleftrightarrow>
     n \<le> reserved_sats a \<and> unat (available_sats a) + unat n < 2 ^ 64 \<and>
     a' = a\<lparr>available_sats := available_sats a + n, reserved_sats := reserved_sats a - n,
            acc_version := acc_version a + 1\<rparr>"
  by (auto simp: apply_release_reservation_def bump_version_def checked_sub_def
      checked_add_def Let_def)

lemma apply_consume_ok:
  "apply_consume_reservation a n = (Inr u, a') \<longleftrightarrow>
     n \<le> reserved_sats a \<and>
     a' = a\<lparr>reserved_sats := reserved_sats a - n, acc_version := acc_version a + 1\<rparr>"
  by (auto simp: apply_consume_reservation_def bump_version_def checked_sub_def)

lemmas account_op_ok = apply_credit_ok apply_debit_ok apply_reserve_ok apply_release_ok
  apply_consume_ok

lemma apply_operation_account_id [simp]:
  "account_id (snd (apply_operation op a n)) = account_id a"
  by (cases op) (auto simp: account_op_defs Let_def split: option.splits)

lemma apply_operation_version:
  "apply_operation op a n = (Inr u, a') \<Longrightarrow> acc_version a' = acc_version a + 1"
  by (cases op) (auto simp: account_op_ok)

lemma apply_operation_err_version:
  "apply_operation op a n = (Inl e, a') \<Longrightarrow> acc_version a' = acc_version a"
  by (cases op) (auto simp: account_op_defs Let_def split: option.splits if_splits)

lemma fits_balance_of [simp]: "fits (balance_of a)"
  using unsigned_less [of "available_sats a"] unsigned_less [of "reserved_sats a"]
  by (simp add: fits_def balance_of_def)

lemma apply_operation_Ok_spec:
  assumes "apply_operation op a n = (Inr u, a')"
  shows "spec_operation op (unat n) (balance_of a) = Some (balance_of a')"
  using assms
  by (cases op)
    (auto simp: account_op_ok balance_of_def unat_plus_no_overflow unat_minus_le word_le_nat_alt)

lemma apply_operation_spec_Ok:
  assumes "spec_operation op (unat n) (balance_of a) = Some b" and "fits b"
  shows "\<exists>a'. apply_operation op a n = (Inr (), a')"
  using assms
  by (cases op) (auto simp: account_op_ok balance_of_def fits_def word_le_nat_alt split: if_splits)

lemma acc_total_debit:
  "apply_debit a n = (Inr u, a') \<Longrightarrow> int (acc_total a') = int (acc_total a) - int (unat n)"
  by (auto simp: apply_debit_ok acc_total_def unat_minus_le word_le_nat_alt)

lemma acc_total_credit:
  "apply_credit a n = (Inr u, a') \<Longrightarrow> int (acc_total a') = int (acc_total a) + int (unat n)"
  by (auto simp: apply_credit_ok acc_total_def unat_plus_no_overflow)

lemma apply_credit_err: "apply_credit a n = (Inl e, a') \<Longrightarrow> a' = a"
  by (auto simp: apply_credit_def split: option.splits)

lemma apply_debit_err: "apply_debit a n = (Inl e, a') \<Longrightarrow> a' = a"
  by (auto simp: apply_debit_def split: option.splits if_splits)

text \<open>
  C17. Every balance operation on an account refines the abstract account: it succeeds exactly
  when the abstract operation is defined and its two amounts fit in a \<open>u64\<close>, and then the
  account's balances are the abstract result.
\<close>

theorem account_operation_refines:
  "(\<exists>u a'. apply_operation op a n = (Inr u, a') \<and> balance_of a' = b) \<longleftrightarrow>
     spec_operation op (unat n) (balance_of a) = Some b \<and> fits b"
proof
  assume "\<exists>u a'. apply_operation op a n = (Inr u, a') \<and> balance_of a' = b"
  then show "spec_operation op (unat n) (balance_of a) = Some b \<and> fits b"
    by (auto dest: apply_operation_Ok_spec)
next
  assume spec: "spec_operation op (unat n) (balance_of a) = Some b \<and> fits b"
  then obtain a' where ok: "apply_operation op a n = (Inr (), a')"
    using apply_operation_spec_Ok by blast
  then have "balance_of a' = b"
    using apply_operation_Ok_spec [OF ok] spec by simp
  with ok show "\<exists>u a'. apply_operation op a n = (Inr u, a') \<and> balance_of a' = b"
    by blast
qed

end
