(* ===== verification/Account_Stores.thy ===== *)
theory Account_Stores
  imports Account_State
begin

text \<open>
  The store ports of \<open>traits.rs\<close> and their in-memory implementations of
  \<open>in_memory.rs\<close>: versioned accounts, reservations and idempotency records, each a
  \<open>HashMap\<close> behind a mutex, so that one call is one atomic step.
  The port \<open>VersionedAccountStore\<close> is the locale \<open>versioned_account_store\<close>, whose
  laws are optimistic versioning; what a client gains from it (no lost update, a gap-free
  history of versions) is proved once inside the locale. \<open>IdempotencyStore\<close> is the
  locale \<open>idempotency_store\<close>. Both are interpreted on the in-memory stores.
\<close>

section \<open>The account store\<close>

type_synonym account_map = "(string, account_state) hashmap"

definition with_accounts :: "account_state list \<Rightarrow> account_map" where
  "with_accounts as = fold (\<lambda>a m. hm_insert (account_id a) a m) as []"

definition store_insert :: "account_map \<Rightarrow> account_state \<Rightarrow> account_map" where
  "store_insert m a = hm_insert (account_id a) a m"

definition im_get_account :: "account_map \<Rightarrow> string \<Rightarrow> account_state option" where
  "im_get_account m i = map_of m i"

text \<open>
  The tail of \<open>apply_command\<close>: the operation runs on the entry in place, so a failed
  operation leaves what it has written.
\<close>

definition im_run_operation ::
    "account_map \<Rightarrow> balance_command \<Rightarrow> account_state \<Rightarrow> (account_map, account_state) mut_result" where
  "im_run_operation m cmd a =
     (case apply_operation (bc_operation cmd) a (bc_amount_sats cmd) of
        (Inl e, a') \<Rightarrow> (Inl e, hm_insert (bc_account_id cmd) a' m)
      | (Inr _, a') \<Rightarrow> (Inr a', hm_insert (bc_account_id cmd) a' m))"

definition im_apply_command ::
    "account_map \<Rightarrow> balance_command \<Rightarrow> (account_map, account_state) mut_result" where
  "im_apply_command m cmd =
     (case map_of m (bc_account_id cmd) of
        Some a \<Rightarrow>
          (case check_version a (bc_expected_version cmd) of
             Inl e \<Rightarrow> (Inl e, m)
           | Inr _ \<Rightarrow> im_run_operation m cmd a)
      | None \<Rightarrow>
          (if bc_expected_version cmd \<noteq> 0
           then (Inl (VersionConflict (bc_account_id cmd) (bc_expected_version cmd) 0), m)
           else let a = account_new (bc_account_id cmd)
                in im_run_operation (hm_insert (bc_account_id cmd) a m) cmd a))"

text \<open>
  \<open>apply_transfer\<close> works on clones of both accounts and writes them back at the end, the
  source first, under the identifiers the records carry.
\<close>

definition im_apply_transfer ::
    "account_map \<Rightarrow> internal_transfer_command \<Rightarrow> (account_map, account_state \<times> account_state) mut_result" where
  "im_apply_transfer m cmd =
     (case map_of m (source_account_id cmd) of
        None \<Rightarrow> (Inl (AtomicTransferFailed
                  (''source account '' @ [CHR 0x27] @ source_account_id cmd @ [CHR 0x27] @
                   '' not found'')), m)
      | Some src \<Rightarrow>
     (case map_of m (destination_account_id cmd) of
        None \<Rightarrow> (Inl (AtomicTransferFailed
                  (''destination account '' @ [CHR 0x27] @ destination_account_id cmd @ [CHR 0x27] @
                   '' not found'')), m)
      | Some dst \<Rightarrow>
     (case check_version src (source_expected_version cmd) of
        Inl e \<Rightarrow> (Inl e, m)
      | Inr _ \<Rightarrow>
     (case check_version dst (destination_expected_version cmd) of
        Inl e \<Rightarrow> (Inl e, m)
      | Inr _ \<Rightarrow>
     (if spendable src < it_amount_sats cmd
      then (Inl (InsufficientFunds (account_id src) (spendable src) (it_amount_sats cmd)), m)
      else
     (case apply_debit src (it_amount_sats cmd) of
        (Inl e, _) \<Rightarrow> (Inl e, m)
      | (Inr _, src') \<Rightarrow>
     (case apply_credit dst (it_amount_sats cmd) of
        (Inl e, _) \<Rightarrow> (Inl e, m)
      | (Inr _, dst') \<Rightarrow>
          (Inr (src', dst'),
           hm_insert (account_id dst') dst' (hm_insert (account_id src') src' m)))))))))"

text \<open>Well-formed stores: distinct keys, and each entry under the identifier it carries.\<close>

definition account_map_ok :: "account_map \<Rightarrow> bool" where
  "account_map_ok m \<longleftrightarrow> hm_ok m \<and> (\<forall>i a. map_of m i = Some a \<longrightarrow> account_id a = i)"

definition store_total :: "account_map \<Rightarrow> int" where
  "store_total m = hm_sum (\<lambda>a. int (acc_total a)) m"

lemmas store_eval = im_apply_command_def im_run_operation_def im_apply_transfer_def
  account_op_defs checked_add_def checked_sub_def check_version_def account_new_def
  balance_command_new_def internal_transfer_command_new_def

section \<open>The port and its clients\<close>

definition version_in :: "('s \<Rightarrow> string \<Rightarrow> account_state option) \<Rightarrow> 's \<Rightarrow> string \<Rightarrow> u64" where
  "version_in get s i = (case get s i of None \<Rightarrow> 0 | Some a \<Rightarrow> acc_version a)"

definition account_or_new :: "('s \<Rightarrow> string \<Rightarrow> account_state option) \<Rightarrow> 's \<Rightarrow> string \<Rightarrow> account_state" where
  "account_or_new get s i = (case get s i of None \<Rightarrow> account_new i | Some a \<Rightarrow> a)"

text \<open>A run of commands, with the outcome of each.\<close>

fun run_commands ::
    "('s \<Rightarrow> 'c \<Rightarrow> ('s, 'a) mut_result) \<Rightarrow> 's \<Rightarrow> 'c list \<Rightarrow> ('c \<times> (ledger_error + 'a)) list \<times> 's" where
  "run_commands step s [] = ([], s)"
| "run_commands step s (c # cs) =
     (let (r, s1) = step s c; (log, s2) = run_commands step s1 cs in ((c, r) # log, s2))"

text \<open>The expected versions of the commands of a log that succeeded on account \<open>i\<close>.\<close>

definition committed_versions ::
    "string \<Rightarrow> (balance_command \<times> (ledger_error + 'a)) list \<Rightarrow> u64 list" where
  "committed_versions i log =
     map (\<lambda>(c, _). bc_expected_version c)
       (filter (\<lambda>(c, r). bc_account_id c = i \<and> is_ok r) log)"

text \<open>
  What every implementation gives, one that can fail included: a command that commits was sent
  against the current version and raises it by one. So no update is lost.
\<close>

locale optimistic_store =
  fixes get :: "'s \<Rightarrow> string \<Rightarrow> account_state option"
    and cmd :: "'s \<Rightarrow> balance_command \<Rightarrow> ('s, account_state) mut_result"
    and ok :: "'s \<Rightarrow> bool"
  assumes commit: "ok s \<Longrightarrow> cmd s c = (Inr a, s') \<Longrightarrow>
      bc_expected_version c = version_in get s (bc_account_id c) \<and>
      version_in get s' (bc_account_id c) = version_in get s (bc_account_id c) + 1 \<and> ok s'"
begin

lemma second_refused:
  assumes "ok s" and "cmd s c = (Inr a, s')"
    and "bc_account_id d = bc_account_id c" and "bc_expected_version d = bc_expected_version c"
  shows "\<not> is_ok (fst (cmd s' d))"
proof
  assume "is_ok (fst (cmd s' d))"
  then obtain b t where "cmd s' d = (Inr b, t)" by (metis is_ok_iff prod.collapse)
  then have "bc_expected_version d = version_in get s' (bc_account_id d)"
    using commit [of s' d b t] commit [OF assms(1,2)] by blast
  then have "bc_expected_version c = bc_expected_version c + 1"
    using commit [OF assms(1,2)] assms(3,4) by metis
  then show False by simp
qed

end

locale versioned_account_store =
  fixes get :: "'s \<Rightarrow> string \<Rightarrow> account_state option"
    and cmd :: "'s \<Rightarrow> balance_command \<Rightarrow> ('s, account_state) mut_result"
    and ok :: "'s \<Rightarrow> bool"
  assumes cmd_conflict:
      "ok s \<Longrightarrow> version_in get s (bc_account_id c) \<noteq> bc_expected_version c \<Longrightarrow>
         cmd s c = (Inl (VersionConflict (bc_account_id c) (bc_expected_version c)
                      (version_in get s (bc_account_id c))), s)"
    and cmd_commits:
      "ok s \<Longrightarrow> cmd s c = (Inr a, s') \<Longrightarrow>
         get s' (bc_account_id c) = Some a \<and>
         apply_operation (bc_operation c) (account_or_new get s (bc_account_id c))
           (bc_amount_sats c) = (Inr (), a)"
    and cmd_rejects:
      "ok s \<Longrightarrow> cmd s c = (Inl e, s') \<Longrightarrow>
         version_in get s' (bc_account_id c) = version_in get s (bc_account_id c)"
    and cmd_frame:
      "ok s \<Longrightarrow> i \<noteq> bc_account_id c \<Longrightarrow> get (snd (cmd s c)) i = get s i"
    and cmd_ok: "ok s \<Longrightarrow> ok (snd (cmd s c))"
begin

lemma commit_version:
  assumes "ok s" and "cmd s c = (Inr a, s')"
  shows "bc_expected_version c = version_in get s (bc_account_id c) \<and>
    version_in get s' (bc_account_id c) = version_in get s (bc_account_id c) + 1"
proof -
  have ev: "bc_expected_version c = version_in get s (bc_account_id c)"
    using cmd_conflict [OF assms(1), of c] assms(2) by (metis Inl_Inr_False prod.inject)
  have "acc_version a = acc_version (account_or_new get s (bc_account_id c)) + 1"
    using cmd_commits [OF assms] by (blast dest: apply_operation_version)
  moreover have "acc_version (account_or_new get s i) = version_in get s i" for i
    by (simp add: account_or_new_def version_in_def account_new_def split: option.split)
  ultimately show ?thesis
    using ev cmd_commits [OF assms] by (simp add: version_in_def)
qed

lemma no_lost_update:
  assumes "ok s" and "cmd s c = (Inr a, s')"
    and "bc_account_id d = bc_account_id c" and "bc_expected_version d = bc_expected_version c"
  shows "cmd s' d = (Inl (VersionConflict (bc_account_id d) (bc_expected_version d)
            (bc_expected_version d + 1)), s')"
proof -
  have "ok s'" using cmd_ok [OF assms(1), of c] assms(2) by simp
  moreover have "version_in get s' (bc_account_id d) = bc_expected_version d + 1"
    using commit_version [OF assms(1,2)] assms(3,4) by simp
  ultimately show ?thesis
    using cmd_conflict [of s' d] by simp
qed

lemma step_version:
  assumes "ok s" and "cmd s c = (r, s')"
  shows "version_in get s' i =
    (if bc_account_id c = i \<and> is_ok r then version_in get s i + 1 else version_in get s i)"
proof (cases "bc_account_id c = i")
  case True
  with assms show ?thesis
    by (cases r) (auto dest: commit_version cmd_rejects)
next
  case False
  with assms cmd_frame [of s i c] show ?thesis
    by (simp add: version_in_def)
qed

lemma consecutive_versions:
  assumes "ok s" and "run_commands cmd s cs = (log, s')"
  shows "committed_versions i log =
    map (\<lambda>k. version_in get s i + of_nat k) [0..<length (committed_versions i log)]"
  using assms
proof (induction cs arbitrary: s log s')
  case Nil
  then show ?case by (simp add: committed_versions_def)
next
  case (Cons c cs)
  obtain r s1 where c: "cmd s c = (r, s1)" by fastforce
  obtain log1 s2 where cs: "run_commands cmd s1 cs = (log1, s2)" by fastforce
  have log: "log = (c, r) # log1" using Cons.prems c cs by simp
  have "ok s1" using cmd_ok [OF Cons.prems(1), of c] c by simp
  note IH = Cons.IH [OF this cs]
  show ?case
  proof (cases "bc_account_id c = i \<and> is_ok r")
    case True
    then have "bc_expected_version c = version_in get s i"
      using c commit_version [OF Cons.prems(1)] by (auto simp: is_ok_iff)
    moreover have "version_in get s1 i = version_in get s i + 1"
      using step_version [OF Cons.prems(1) c] True by simp
    moreover have "committed_versions i log = bc_expected_version c # committed_versions i log1"
      using True log by (simp add: committed_versions_def)
    moreover have "map (\<lambda>k. version_in get s i + of_nat k) [0..<Suc n] =
        version_in get s i # map (\<lambda>k. version_in get s i + 1 + of_nat k) [0..<n]" for n
      by (simp add: map_upt_Suc algebra_simps del: upt_Suc)
    ultimately show ?thesis
      using IH by (simp del: upt_Suc)
  next
    case False
    then have "committed_versions i log = committed_versions i log1"
      using log by (auto simp: committed_versions_def)
    then show ?thesis
      using IH step_version [OF Cons.prems(1) c, of i] False by simp
  qed
qed

end

sublocale versioned_account_store \<subseteq> optimistic_store get cmd ok
proof
  fix s c a s'
  assume "ok s" "cmd s c = (Inr a, s')"
  then show "bc_expected_version c = version_in get s (bc_account_id c) \<and>
      version_in get s' (bc_account_id c) = version_in get s (bc_account_id c) + 1 \<and> ok s'"
    using commit_version [of s c a s'] cmd_ok [of s c] by simp
qed

section \<open>The in-memory store implements the port\<close>

lemma check_version_ok [result_simps]: "check_version a v = Inr u \<longleftrightarrow> acc_version a = v"
  by (auto simp: check_version_def)

lemma check_version_err [result_simps]:
  "check_version a v = Inl e \<longleftrightarrow>
     acc_version a \<noteq> v \<and> e = VersionConflict (account_id a) v (acc_version a)"
  by (auto simp: check_version_def)

lemma im_run_operation_snd:
  "snd (im_run_operation m c a) =
     hm_insert (bc_account_id c) (snd (apply_operation (bc_operation c) a (bc_amount_sats c))) m"
  by (auto simp: im_run_operation_def split: prod.split sum.split)

lemma im_apply_command_snd:
  "snd (im_apply_command m c) = m \<or>
   (\<exists>a m0. (m0 = m \<or> m0 = hm_insert (bc_account_id c) (account_new (bc_account_id c)) m) \<and>
      (map_of m (bc_account_id c) = Some a \<or> a = account_new (bc_account_id c)) \<and>
      snd (im_apply_command m c) =
        hm_insert (bc_account_id c) (snd (apply_operation (bc_operation c) a (bc_amount_sats c))) m0)"
  by (auto simp: im_apply_command_def im_run_operation_snd Let_def account_new_def
      split: option.split sum.split)

lemma account_map_ok_insert:
  "account_map_ok m \<Longrightarrow> account_id a = i \<Longrightarrow> account_map_ok (hm_insert i a m)"
  by (auto simp: account_map_ok_def split: if_splits)

lemma im_apply_command_wf: "account_map_ok m \<Longrightarrow> account_map_ok (snd (im_apply_command m c))"
  using im_apply_command_snd [of m c]
  by (auto intro!: account_map_ok_insert simp: account_map_ok_def account_new_def split: if_splits)

interpretation im_accounts: versioned_account_store im_get_account im_apply_command account_map_ok
proof
  fix s :: account_map and c :: balance_command
  assume "account_map_ok s"
    and "version_in im_get_account s (bc_account_id c) \<noteq> bc_expected_version c"
  then show "im_apply_command s c = (Inl (VersionConflict (bc_account_id c) (bc_expected_version c)
      (version_in im_get_account s (bc_account_id c))), s)"
    by (auto simp: im_apply_command_def version_in_def im_get_account_def check_version_def
        account_map_ok_def split: option.splits)
next
  fix s :: account_map and c :: balance_command and a s'
  assume "account_map_ok s" and "im_apply_command s c = (Inr a, s')"
  then show "im_get_account s' (bc_account_id c) = Some a \<and>
      apply_operation (bc_operation c) (account_or_new im_get_account s (bc_account_id c))
        (bc_amount_sats c) = (Inr (), a)"
    by (auto simp: im_apply_command_def im_run_operation_def im_get_account_def Let_def
        account_or_new_def split: option.splits sum.splits prod.splits if_splits)
next
  fix s :: account_map and c :: balance_command and e s'
  assume "account_map_ok s" and "im_apply_command s c = (Inl e, s')"
  then show "version_in im_get_account s' (bc_account_id c) =
      version_in im_get_account s (bc_account_id c)"
    by (auto simp: im_apply_command_def im_run_operation_def im_get_account_def version_in_def
        Let_def account_new_def dest: apply_operation_err_version
        split: option.splits sum.splits prod.splits if_splits)
next
  fix s :: account_map and i and c :: balance_command
  assume "i \<noteq> bc_account_id c"
  then show "im_get_account (snd (im_apply_command s c)) i = im_get_account s i"
    using im_apply_command_snd [of s c] by (auto simp: im_get_account_def)
next
  fix s :: account_map and c :: balance_command
  assume "account_map_ok s"
  then show "account_map_ok (snd (im_apply_command s c))" by (rule im_apply_command_wf)
qed

text \<open>
  Of two commands against the same version of an account, at most one commits: after a
  command has succeeded, every command with the same expected version is refused with a
  \<open>VersionConflict\<close> that names the version reached, and leaves the store as it is.
\<close>

theorem in_memory_no_lost_update:
  assumes "account_map_ok m" and "im_apply_command m c = (Inr a, m')"
    and "bc_account_id d = bc_account_id c" and "bc_expected_version d = bc_expected_version c"
  shows "im_apply_command m' d = (Inl (VersionConflict (bc_account_id d) (bc_expected_version d)
            (bc_expected_version d + 1)), m')"
  using assms by (rule im_accounts.no_lost_update)

definition demo_credit :: "u64 \<Rightarrow> u64 \<Rightarrow> balance_command" where
  "demo_credit v n = balance_command_new ''c'' ''alice'' v Credit n 0"

theorem in_memory_no_lost_update_witness:
  "im_apply_command (snd (im_apply_command [] (demo_credit 0 5))) (demo_credit 0 7) =
     (Inl (VersionConflict ''alice'' 0 1), snd (im_apply_command [] (demo_credit 0 5)))"
proof -
  let ?m = "snd (im_apply_command [] (demo_credit 0 5))"
  have "im_apply_command [] (demo_credit 0 5) =
      (Inr ((account_new ''alice'')\<lparr>acc_version := 1, available_sats := 5\<rparr>), ?m)"
    by (simp add: store_eval demo_credit_def)
  from in_memory_no_lost_update [OF _ this, of "demo_credit 0 7"] show ?thesis
    by (simp add: account_map_ok_def demo_credit_def balance_command_new_def)
qed

text \<open>
  The history of an account has no gaps and no repetitions: over any run of commands the
  commands that committed on an account carry consecutive expected versions, starting from
  the version the account had.
\<close>

theorem in_memory_consecutive_versions:
  assumes "account_map_ok m" and "run_commands im_apply_command m cs = (log, m')"
  shows "committed_versions i log =
    map (\<lambda>k. version_in im_get_account m i + of_nat k) [0..<length (committed_versions i log)]"
  using assms by (rule im_accounts.consecutive_versions)

theorem in_memory_consecutive_versions_witness:
  "committed_versions ''alice'' (fst (run_commands im_apply_command []
      [demo_credit 0 5, demo_credit 0 9, demo_credit 1 6])) = [0, 1]"
proof -
  obtain log m where r: "run_commands im_apply_command []
      [demo_credit 0 5, demo_credit 0 9, demo_credit 1 6] = (log, m)"
    by fastforce
  then have "length (committed_versions ''alice'' log) = 2"
    by (auto simp: store_eval demo_credit_def committed_versions_def)
  then show ?thesis
    using in_memory_consecutive_versions [OF _ r, of "''alice''"] r
    by (simp add: account_map_ok_def version_in_def im_get_account_def upt_rec del: run_commands.simps)
qed

section \<open>Transfers\<close>

text \<open>What a successful transfer has done, and that a refused one has done nothing.\<close>

lemma im_apply_transfer_err: "im_apply_transfer m c = (Inl e, m') \<Longrightarrow> m' = m"
  by (auto simp: im_apply_transfer_def split: option.splits sum.splits prod.splits if_splits)

lemma im_apply_transfer_cases:
  assumes "im_apply_transfer m c = (Inr (s', d'), m')"
  obtains s d where "map_of m (source_account_id c) = Some s"
    and "map_of m (destination_account_id c) = Some d"
    and "acc_version s = source_expected_version c"
    and "acc_version d = destination_expected_version c"
    and "apply_debit s (it_amount_sats c) = (Inr (), s')"
    and "apply_credit d (it_amount_sats c) = (Inr (), d')"
    and "m' = hm_insert (account_id d') d' (hm_insert (account_id s') s' m)"
  using assms
  by (auto simp: im_apply_transfer_def check_version_def
      split: option.splits sum.splits prod.splits if_splits)

lemma store_total_insert:
  "store_total (hm_insert i a m) = store_total m + int (acc_total a) -
     (case map_of m i of None \<Rightarrow> 0 | Some b \<Rightarrow> int (acc_total b))"
  by (simp add: store_total_def hm_sum_insert split: option.split)

text \<open>
  C34. A transfer is atomic. When it is refused, the store is unchanged. When it succeeds
  between two accounts, the source has lost and the destination has gained exactly the
  amount, both versions have advanced by one, no other account has changed, and the total
  over the store is conserved.
\<close>

theorem in_memory_transfer_atomic:
  assumes "account_map_ok m" and "source_account_id c \<noteq> destination_account_id c"
    and "im_apply_transfer m c = (r, m')"
  shows "case r of
      Inl _ \<Rightarrow> m' = m
    | Inr (s', d') \<Rightarrow>
        m' = hm_insert (destination_account_id c) d' (hm_insert (source_account_id c) s' m) \<and>
        store_total m' = store_total m \<and>
        (\<exists>s d. im_get_account m (source_account_id c) = Some s \<and>
          im_get_account m (destination_account_id c) = Some d \<and>
          it_amount_sats c \<le> available_sats s \<and>
          s' = s\<lparr>available_sats := available_sats s - it_amount_sats c,
                acc_version := source_expected_version c + 1\<rparr> \<and>
          unat (available_sats d') = unat (available_sats d) + unat (it_amount_sats c) \<and>
          d' = d\<lparr>available_sats := available_sats d',
                acc_version := destination_expected_version c + 1\<rparr>)"
proof (cases r)
  case (Inl e)
  with assms(3) show ?thesis by (auto dest: im_apply_transfer_err)
next
  case (Inr p)
  obtain s' d' where p: "p = (s', d')" by fastforce
  from assms(3) Inr p obtain s d where get: "map_of m (source_account_id c) = Some s"
      "map_of m (destination_account_id c) = Some d"
    and v: "acc_version s = source_expected_version c" "acc_version d = destination_expected_version c"
    and ops: "apply_debit s (it_amount_sats c) = (Inr (), s')"
      "apply_credit d (it_amount_sats c) = (Inr (), d')"
    and m': "m' = hm_insert (account_id d') d' (hm_insert (account_id s') s' m)"
    by (auto elim: im_apply_transfer_cases)
  have ids: "account_id s' = source_account_id c" "account_id d' = destination_account_id c"
    using assms(1) get ops by (auto simp: account_map_ok_def account_op_ok)
  have "store_total m' = store_total m"
    using assms(2) get ids acc_total_debit [OF ops(1)] acc_total_credit [OF ops(2)]
    by (simp add: m' store_total_insert)
  then show ?thesis
    using ids get v ops m' Inr p
    by (auto simp: im_get_account_def account_op_ok unat_plus_no_overflow)
qed

text \<open>
  A transfer from an account to itself passes every check and creates the amount: the second
  write replaces the debited record by the credited clone.
\<close>

theorem in_memory_self_transfer_mints:
  assumes "account_map_ok m" and "source_account_id c = destination_account_id c"
    and "im_apply_transfer m c = (Inr p, m')"
  shows "store_total m' = store_total m + int (unat (it_amount_sats c))"
proof -
  obtain s' d' where p: "p = (s', d')" by fastforce
  from assms(3) p obtain s d where get: "map_of m (source_account_id c) = Some s"
      "map_of m (destination_account_id c) = Some d"
    and ops: "apply_debit s (it_amount_sats c) = (Inr (), s')"
      "apply_credit d (it_amount_sats c) = (Inr (), d')"
    and m': "m' = hm_insert (account_id d') d' (hm_insert (account_id s') s' m)"
    by (auto elim: im_apply_transfer_cases)
  have ids: "account_id s' = source_account_id c" "account_id d' = source_account_id c"
    using assms(1,2) get ops by (auto simp: account_map_ok_def account_op_ok)
  show ?thesis
    using assms(2) get ids acc_total_credit [OF ops(2)]
    by (simp add: m' store_total_insert)
qed

definition demo_store :: account_map where
  "demo_store = with_accounts [(account_new ''alice'')\<lparr>available_sats := 10\<rparr>, account_new ''bob'']"

definition demo_transfer :: "string \<Rightarrow> internal_transfer_command" where
  "demo_transfer dst = internal_transfer_command_new ''t'' ''alice'' 0 dst 0 4 []"

lemma demo_store_eval: "demo_store =
    [(''alice'', (account_new ''alice'')\<lparr>available_sats := 10\<rparr>), (''bob'', account_new ''bob'')]"
  by (simp add: demo_store_def with_accounts_def account_new_def)

lemma demo_store_ok: "account_map_ok demo_store"
  by (auto simp: account_map_ok_def demo_store_eval hm_ok_def account_new_def split: if_splits)

theorem in_memory_transfer_atomic_witness:
  "store_total (snd (im_apply_transfer demo_store (demo_transfer ''bob''))) = store_total demo_store
   \<and> is_ok (fst (im_apply_transfer demo_store (demo_transfer ''bob'')))"
proof -
  obtain r m' where r: "im_apply_transfer demo_store (demo_transfer ''bob'') = (r, m')"
    by fastforce
  then have "is_ok r"
    by (auto simp: demo_store_eval store_eval demo_transfer_def)
  then show ?thesis
    using in_memory_transfer_atomic [OF demo_store_ok _ r] r
    by (auto simp: is_ok_iff demo_transfer_def internal_transfer_command_new_def)
qed

theorem in_memory_self_transfer_mints_witness:
  "store_total (snd (im_apply_transfer demo_store (demo_transfer ''alice''))) =
     store_total demo_store + 4"
proof -
  obtain r m' where r: "im_apply_transfer demo_store (demo_transfer ''alice'') = (r, m')"
    by fastforce
  then obtain p where "r = Inr p"
    by (auto simp: demo_store_eval store_eval demo_transfer_def)
  then show ?thesis
    using in_memory_self_transfer_mints [OF demo_store_ok, of "demo_transfer ''alice''" p m'] r
    by (simp add: demo_transfer_def internal_transfer_command_new_def)
qed

section \<open>The reservation store\<close>

type_synonym reservation_map = "(string, reservation) hashmap"

fun reservation_state_debug :: "reservation_state \<Rightarrow> string" where
  "reservation_state_debug RsPrepared = ''Prepared''"
| "reservation_state_debug RsCommitted = ''Committed''"
| "reservation_state_debug RsConsumed = ''Consumed''"
| "reservation_state_debug RsReleased = ''Released''"
| "reservation_state_debug RsExpired = ''Expired''"

definition create_reservation ::
    "reservation_map \<Rightarrow> reservation \<Rightarrow> (reservation_map, unit) mut_result" where
  "create_reservation m r =
     (if map_of m (reservation_id r) \<noteq> None
      then (Inl (InvariantViolation (''reservation '' @ [CHR 0x27] @ reservation_id r @ [CHR 0x27] @
              '' already exists'')), m)
      else (Inr (), hm_insert (reservation_id r) r m))"

definition get_reservation :: "reservation_map \<Rightarrow> string \<Rightarrow> reservation option" where
  "get_reservation m i = map_of m i"

definition reservation_transition ::
    "reservation_map \<Rightarrow> string \<Rightarrow> reservation_state \<Rightarrow> reservation_state \<Rightarrow>
       (reservation_map, unit) mut_result" where
  "reservation_transition m i from to =
     (case map_of m i of
        None \<Rightarrow> (Inl (ReservationNotFound i), m)
      | Some r \<Rightarrow>
          if rs_state r \<noteq> from
          then (Inl (InvariantViolation (''reservation '' @ [CHR 0x27] @ i @ [CHR 0x27] @
                  '' expected state '' @ reservation_state_debug from @ '', found '' @
                  reservation_state_debug (rs_state r))), m)
          else (Inr (), hm_insert i (r\<lparr>rs_state := to\<rparr>) m))"

definition stale_ids :: "reservation_map \<Rightarrow> u64 \<Rightarrow> string list" where
  "stale_ids m current =
     map fst (filter (\<lambda>(_, r). rs_expires_at_bucket r \<le> current \<and> \<not> reservation_is_terminal r) m)"

definition expire_one :: "string \<Rightarrow> u64 \<times> reservation_map \<Rightarrow> u64 \<times> reservation_map" where
  "expire_one i = (\<lambda>(n, m).
     case map_of m i of
       None \<Rightarrow> (n, m)
     | Some r \<Rightarrow> (n + 1, hm_insert i (r\<lparr>rs_state := RsExpired\<rparr>) m))"

definition expire_stale :: "reservation_map \<Rightarrow> u64 \<Rightarrow> (reservation_map, u64) mut_result" where
  "expire_stale m current =
     (case fold expire_one (stale_ids m current) (0, m) of (n, m') \<Rightarrow> (Inr n, m'))"

lemma fold_expire_get:
  "map_of (snd (fold expire_one is (n, m))) i =
     (if i \<in> set is then map_option (\<lambda>r. r\<lparr>rs_state := RsExpired\<rparr>) (map_of m i) else map_of m i)"
  by (induction "is" arbitrary: n m)
    (auto simp: expire_one_def option.map_comp o_def split: option.splits)

lemma fold_expire_count:
  "\<forall>i \<in> set is. map_of m i \<noteq> None \<Longrightarrow>
     fst (fold expire_one is (n, m)) = n + of_nat (length is)"
proof (induction "is" arbitrary: n m)
  case (Cons i "is")
  then obtain r where "map_of m i = Some r" by auto
  with Cons.prems show ?case
    using Cons.IH [of "hm_insert i (r\<lparr>rs_state := RsExpired\<rparr>) m" "n + 1"]
    by (auto simp: expire_one_def)
qed simp

lemma in_stale_ids:
  "hm_ok m \<Longrightarrow> i \<in> set (stale_ids m current) \<longleftrightarrow>
     (\<exists>r. map_of m i = Some r \<and> rs_expires_at_bucket r \<le> current \<and> \<not> reservation_is_terminal r)"
  by (force simp: stale_ids_def in_hm_iff)

text \<open>
  \<open>expire_stale\<close> expires exactly the reservations whose bucket has passed and that have
  not ended: those become \<open>Expired\<close>, every other one is untouched (a consumed or released
  reservation in particular), and the result counts them.
\<close>

theorem expire_stale_exact:
  assumes "hm_ok m"
  shows "fst (expire_stale m now) = Inr (of_nat (length (stale_ids m now))) \<and>
    get_reservation (snd (expire_stale m now)) i =
      (case get_reservation m i of
         None \<Rightarrow> None
       | Some r \<Rightarrow> Some (if rs_expires_at_bucket r \<le> now \<and> \<not> reservation_is_terminal r
                         then r\<lparr>rs_state := RsExpired\<rparr> else r))"
proof -
  have "\<forall>i \<in> set (stale_ids m now). map_of m i \<noteq> None"
    using assms by (auto simp: in_stale_ids)
  then have "fst (fold expire_one (stale_ids m now) (0, m)) = of_nat (length (stale_ids m now))"
    by (simp add: fold_expire_count)
  moreover have "map_of (snd (fold expire_one (stale_ids m now) (0, m))) i =
      (case map_of m i of
         None \<Rightarrow> None
       | Some r \<Rightarrow> Some (if rs_expires_at_bucket r \<le> now \<and> \<not> reservation_is_terminal r
                         then r\<lparr>rs_state := RsExpired\<rparr> else r))"
    using assms by (auto simp: fold_expire_get in_stale_ids split: option.split)
  ultimately show ?thesis
    by (auto simp: expire_stale_def get_reservation_def split: prod.split)
qed

theorem expire_stale_exact_witness:
  "let m = [(''a'', reservation_new ''a'' ''x'' 1 0 3 []),
            (''b'', (reservation_new ''b'' ''x'' 1 0 3 [])\<lparr>rs_state := RsConsumed\<rparr>)]
   in fst (expire_stale m 5) = Inr 1 \<and>
      get_reservation (snd (expire_stale m 5)) ''a'' =
        Some ((reservation_new ''a'' ''x'' 1 0 3 [])\<lparr>rs_state := RsExpired\<rparr>)"
  using expire_stale_exact [of "[(''a'', reservation_new ''a'' ''x'' 1 0 3 []),
            (''b'', (reservation_new ''b'' ''x'' 1 0 3 [])\<lparr>rs_state := RsConsumed\<rparr>)]" 5 "''a''"]
  by (simp add: hm_ok_def stale_ids_def get_reservation_def reservation_new_def
      reservation_is_terminal_def)

section \<open>The idempotency store\<close>

type_synonym idempotency_map = "(string, idempotency_record) hashmap"

definition im_check ::
    "idempotency_map \<Rightarrow> string \<Rightarrow> string \<Rightarrow> idempotency_record option ledger_result" where
  "im_check m command_id command_hash =
     (case map_of m command_id of
        Some existing \<Rightarrow>
          if ir_command_hash existing = command_hash then Inr (Some existing)
          else Inl (IdempotencyConflict command_id)
      | None \<Rightarrow> Inr None)"

definition im_record :: "idempotency_map \<Rightarrow> idempotency_record \<Rightarrow> (idempotency_map, unit) mut_result" where
  "im_record m r = (Inr (), hm_insert (ir_command_id r) r m)"

locale idempotency_store =
  fixes check :: "'s \<Rightarrow> string \<Rightarrow> string \<Rightarrow> idempotency_record option ledger_result"
    and put :: "'s \<Rightarrow> idempotency_record \<Rightarrow> ('s, unit) mut_result"
  assumes check_same:
      "check (snd (put s r)) (ir_command_id r) h =
         (if h = ir_command_hash r then Inr (Some r) else Inl (IdempotencyConflict (ir_command_id r)))"
    and check_other: "i \<noteq> ir_command_id r \<Longrightarrow> check (snd (put s r)) i h = check s i h"
begin

text \<open>A committed record answers every later replay, whatever is recorded for other commands.\<close>

lemma replay:
  assumes "\<forall>q \<in> set rs. ir_command_id q \<noteq> ir_command_id r"
  shows "check (fold (\<lambda>q t. snd (put t q)) rs (snd (put s r))) (ir_command_id r) h =
    (if h = ir_command_hash r then Inr (Some r) else Inl (IdempotencyConflict (ir_command_id r)))"
proof -
  have "check (fold (\<lambda>q t. snd (put t q)) rs t) (ir_command_id r) h = check t (ir_command_id r) h" for t
    using assms by (induction rs arbitrary: t) (auto simp: check_other)
  then show ?thesis by (simp add: check_same)
qed

end

interpretation im_idempotency: idempotency_store im_check im_record
  by unfold_locales (simp_all add: im_check_def im_record_def)

text \<open>
  A recorded command is never executed again: after its record has been stored, and
  whatever is recorded afterwards for other commands, checking its identifier returns the
  stored record when the payload hash agrees and an \<open>IdempotencyConflict\<close> when it differs.
\<close>

theorem idempotent_replay:
  assumes "\<forall>q \<in> set rs. ir_command_id q \<noteq> ir_command_id r"
  shows "im_check (fold (\<lambda>q m. snd (im_record m q)) rs (snd (im_record m r))) (ir_command_id r) h =
    (if h = ir_command_hash r then Inr (Some r) else Inl (IdempotencyConflict (ir_command_id r)))"
  using assms by (rule im_idempotency.replay)

theorem idempotent_replay_witness:
  "im_check (snd (im_record (snd (im_record [] (idempotency_record_new ''c'' ''h'' ''r'' 1 ''s'')))
      (idempotency_record_new ''d'' ''k'' ''r'' 2 ''s''))) ''c'' ''other'' = Inl (IdempotencyConflict ''c'')"
  using idempotent_replay [of "[idempotency_record_new ''d'' ''k'' ''r'' 2 ''s'']"
      "idempotency_record_new ''c'' ''h'' ''r'' 1 ''s''" "[]" "''other''"]
  by (simp add: idempotency_record_new_def)

end
