(* ===== verification/Chain.thy ===== *)
theory Chain
  imports Ledger_Types
begin

text \<open>
  On-chain outputs (\<open>chain.rs\<close>): outpoints and their canonical strings, the entries and
  the table of allowed state transitions, chain reorganisations, replacement by fee and the
  root over all entries. The transition table is an instance of \<open>status_machine\<close>.
  \<open>sort_by\<close> of the sources is stable and compares strings bytewise: \<open>sort_key\<close>
  under the lexicographic order.
\<close>

section \<open>Outpoints\<close>

record outpoint =
  txid :: string
  vout :: u32

definition outpoint_new :: "string \<Rightarrow> u32 \<Rightarrow> outpoint" where
  "outpoint_new t v = \<lparr>txid = t, vout = v\<rparr>"

definition to_canonical_string :: "outpoint \<Rightarrow> string" where
  "to_canonical_string p = txid p @ '':'' @ show_word (vout p)"

definition from_canonical_string :: "string \<Rightarrow> outpoint ledger_result" where
  "from_canonical_string s =
     (case split_once (CHR '':'') s of
        None \<Rightarrow> Inl (InvalidUtxoData (''cannot parse outpoint from '' @ [CHR 0x27] @ s @ [CHR 0x27] @
                  '': expected txid:vout''))
      | Some (t, vs) \<Rightarrow>
          (case parse_word vs :: parse_int_error + u32 of
             Inl e \<Rightarrow> Inl (InvalidUtxoData (''invalid vout '' @ [CHR 0x27] @ vs @ [CHR 0x27] @ '': '' @
                        parse_int_error_display e))
           | Inr v \<Rightarrow> Inr (outpoint_new t v)))"

section \<open>Entries\<close>

record utxo_entry =
  outpoint_of :: outpoint
  value_sats :: u64
  address :: string
  ut_state :: onchain_state
  block_height :: "u64 option"
  detected_at_bucket :: u64
  confirmed_at_bucket :: "u64 option"
  reserved_by :: "string option"
  reserved_at_bucket :: "u64 option"
  spent_at_bucket :: "u64 option"
  spent_by_txid :: "string option"

definition new_seen :: "outpoint \<Rightarrow> u64 \<Rightarrow> string \<Rightarrow> u64 \<Rightarrow> utxo_entry" where
  "new_seen p v a b = \<lparr>outpoint_of = p, value_sats = v, address = a, ut_state = OcSeen,
     block_height = None, detected_at_bucket = b, confirmed_at_bucket = None, reserved_by = None,
     reserved_at_bucket = None, spent_at_bucket = None, spent_by_txid = None\<rparr>"

definition canonical_key :: "utxo_entry \<Rightarrow> string" where
  "canonical_key u = to_canonical_string (outpoint_of u)"

definition utxo_is_terminal :: "utxo_entry \<Rightarrow> bool" where
  "utxo_is_terminal u = (ut_state u \<in> {OcReplaced, OcSpent})"

definition is_available :: "utxo_entry \<Rightarrow> bool" where
  "is_available u = (ut_state u \<in> {OcSpendable, OcFinalizedByPolicy} \<and> reserved_by u = None)"

datatype chain_observation_type =
    TransactionSeen | TransactionReplaced | UtxoDetected | UtxoConfirmed | UtxoSpent
  | BlockDisconnected | ChainReorganization

record observation =
  observation_id :: string
  observation_type :: chain_observation_type
  ob_outpoint :: outpoint
  ob_value_sats :: u64
  ob_address :: string
  ob_block_height :: "u64 option"
  ob_detected_at_bucket :: u64

section \<open>The transition gate\<close>

fun transition_allowed :: "onchain_state \<Rightarrow> onchain_state \<Rightarrow> bool" where
  "transition_allowed OcSeen OcInMempool = True"
| "transition_allowed OcInMempool OcSeen = True"
| "transition_allowed OcSeen OcReplaced = True"
| "transition_allowed OcInMempool OcConfirming = True"
| "transition_allowed OcInMempool OcReplaced = True"
| "transition_allowed OcConfirming OcSpendable = True"
| "transition_allowed OcConfirming OcReorged = True"
| "transition_allowed OcSpendable OcFinalizedByPolicy = True"
| "transition_allowed OcSpendable OcSpent = True"
| "transition_allowed OcReorged OcSeen = True"
| "transition_allowed _ _ = False"

definition validate_transition :: "onchain_state \<Rightarrow> onchain_state \<Rightarrow> unit ledger_result" where
  "validate_transition current target =
     (if \<not> transition_allowed current target then Inl (InvalidUtxoTransition current target)
      else Inr ())"

section \<open>Reorganisations and replacements\<close>

definition reorg_hits :: "string list \<Rightarrow> utxo_entry \<Rightarrow> bool" where
  "reorg_hits txids u \<longleftrightarrow> txid (outpoint_of u) \<in> set txids \<and>
     ut_state u \<in> {OcConfirming, OcSpendable, OcFinalizedByPolicy}"

definition mark_reorged :: "utxo_entry \<Rightarrow> utxo_entry" where
  "mark_reorged u = u\<lparr>ut_state := OcReorged, block_height := None, confirmed_at_bucket := None\<rparr>"

text \<open>Both handlers append the outputs of the new transactions that are not known yet.\<close>

definition has_key :: "utxo_entry list \<Rightarrow> string \<Rightarrow> bool" where
  "has_key us k \<longleftrightarrow> (\<exists>u \<in> set us. canonical_key u = k)"

fun add_reorg_utxos ::
    "u64 \<Rightarrow> utxo_entry list \<Rightarrow> utxo_entry list \<Rightarrow> string list \<Rightarrow> utxo_entry list \<times> string list" where
  "add_reorg_utxos bucket us [] affected = (us, affected)"
| "add_reorg_utxos bucket us (n # ns) affected =
     (if has_key us (canonical_key n) then add_reorg_utxos bucket us ns affected
      else add_reorg_utxos bucket (us @ [n\<lparr>ut_state := OcSeen, detected_at_bucket := bucket\<rparr>]) ns
             (affected @ [canonical_key n]))"

definition apply_reorg ::
    "utxo_entry list \<Rightarrow> string list \<Rightarrow> utxo_entry list \<Rightarrow> u64 \<Rightarrow>
       (utxo_entry list, string list) mut_result" where
  "apply_reorg us txids new_utxos bucket =
     (let affected = map canonical_key (filter (reorg_hits txids) us);
          us1 = map (\<lambda>u. if reorg_hits txids u then mark_reorged u else u) us;
          (us2, affected2) = add_reorg_utxos bucket us1 new_utxos affected
      in (Inr affected2, us2))"

definition rbf_hits :: "string \<Rightarrow> utxo_entry \<Rightarrow> bool" where
  "rbf_hits t u \<longleftrightarrow> txid (outpoint_of u) = t \<and> ut_state u \<noteq> OcReplaced"

definition mark_replaced :: "utxo_entry \<Rightarrow> utxo_entry" where
  "mark_replaced u =
     (let u1 = (case reserved_by u of None \<Rightarrow> u
                | Some _ \<Rightarrow> u\<lparr>reserved_by := None, reserved_at_bucket := None\<rparr>)
      in u1\<lparr>ut_state := OcReplaced\<rparr>)"

fun add_replacement_utxos :: "utxo_entry list \<Rightarrow> utxo_entry list \<Rightarrow> utxo_entry list" where
  "add_replacement_utxos us [] = us"
| "add_replacement_utxos us (n # ns) =
     (if has_key us (canonical_key n) then add_replacement_utxos us ns
      else add_replacement_utxos (us @ [n\<lparr>ut_state := OcSeen\<rparr>]) ns)"

definition apply_rbf_replacement ::
    "utxo_entry list \<Rightarrow> string \<Rightarrow> utxo_entry list \<Rightarrow> (utxo_entry list, string list) mut_result" where
  "apply_rbf_replacement us t replacements =
     (let released = List.map_filter (\<lambda>u. if rbf_hits t u then reserved_by u else None) us;
          us1 = map (\<lambda>u. if rbf_hits t u then mark_replaced u else u) us
      in (Inr released, add_replacement_utxos us1 replacements))"

section \<open>The root over all outputs\<close>

definition encode_block_height :: "u64 option \<Rightarrow> bytes" where
  "encode_block_height h = (case h of None \<Rightarrow> [0] | Some v \<Rightarrow> 1 # u64_le v)"

definition encode_option_bucket :: "u64 option \<Rightarrow> bytes" where
  "encode_option_bucket b = (case b of None \<Rightarrow> [0] | Some v \<Rightarrow> 1 # u64_le v)"

definition encode_option_string_fn :: "string option \<Rightarrow> bytes" where
  "encode_option_string_fn v = (case v of None \<Rightarrow> [0] | Some s \<Rightarrow> 1 # encode_string s)"

fun onchain_state_code :: "onchain_state \<Rightarrow> u8" where
  "onchain_state_code OcSeen = 0"
| "onchain_state_code OcInMempool = 1"
| "onchain_state_code OcConfirming = 2"
| "onchain_state_code OcSpendable = 3"
| "onchain_state_code OcFinalizedByPolicy = 4"
| "onchain_state_code OcReplaced = 5"
| "onchain_state_code OcReorged = 6"
| "onchain_state_code OcSpent = 7"

definition encode_utxo :: "utxo_entry \<Rightarrow> bytes" where
  "encode_utxo u = [onchain_state_code (ut_state u)] @ u64_le (value_sats u) @
     u32_le (vout (outpoint_of u)) @ u64_le (detected_at_bucket u) @
     encode_block_height (block_height u) @ encode_option_bucket (confirmed_at_bucket u) @
     encode_option_bucket (reserved_at_bucket u) @ encode_option_bucket (spent_at_bucket u) @
     encode_option_string_fn (reserved_by u) @ encode_option_string_fn (spent_by_txid u) @
     encode_string (txid (outpoint_of u)) @ encode_string (address u) @
     encode_string (canonical_key u)"

definition utxo_root_buf :: "crypto \<Rightarrow> utxo_entry list \<Rightarrow> bytes" where
  "utxo_root_buf c us =
     (let item_hashes = map (\<lambda>u. sha256 c (encode_utxo u)) (sort_key canonical_key us)
      in str_bytes ''KROOTv1:utxos'' @ concat (sort item_hashes))"

definition compute_utxo_root :: "crypto \<Rightarrow> utxo_entry list \<Rightarrow> string" where
  "compute_utxo_root c us = hex_encode c (sha256 c (utxo_root_buf c us))"

record utxo_set =
  us_entries :: "utxo_entry list"
  root_hash :: string

definition from_entries :: "crypto \<Rightarrow> utxo_entry list \<Rightarrow> utxo_set" where
  "from_entries c us = \<lparr>us_entries = us, root_hash = compute_utxo_root c us\<rparr>"

section \<open>Payloads of commands\<close>

record detect_utxo_payload =
  dp_value_sats :: u64
  dp_address :: string

record reorg_payload =
  disconnected_txids :: "string list"
  rp_new_utxos :: "utxo_entry list"

section \<open>Outpoint strings\<close>

lemma to_canonical_string_inject [simp]:
  "to_canonical_string p = to_canonical_string q \<longleftrightarrow> p = q"
proof
  let ?colon = "CHR '':''"
  have split: "split_once ?colon (rev (to_canonical_string r)) =
      Some (rev (show_word (vout r)), rev (txid r))" for r
    using split_once_append [of ?colon "rev (show_word (vout r))"]
    by (simp add: to_canonical_string_def show_word_no_colon)
  assume "to_canonical_string p = to_canonical_string q"
  then have "show_word (vout p) = show_word (vout q) \<and> txid p = txid q"
    using split [of p] split [of q] by simp
  then show "p = q" by simp
qed simp

lemma from_to_canonical_string:
  "CHR '':'' \<notin> set (txid p) \<Longrightarrow> from_canonical_string (to_canonical_string p) = Inr p"
  by (simp add: from_canonical_string_def to_canonical_string_def split_once_append
      outpoint_new_def)

lemma from_canonical_string_txid:
  "from_canonical_string s = Inr p \<Longrightarrow> CHR '':'' \<notin> set (txid p)"
  by (auto simp: from_canonical_string_def outpoint_new_def dest: split_once_Some
      split: option.splits prod.splits sum.splits)

text \<open>
  Printing an outpoint and parsing it again gives it back exactly when its transaction id
  contains no colon; printing is injective on all outpoints, so the canonical key under which
  the stores and the roots file an output identifies it.
\<close>

theorem outpoint_roundtrip:
  "(from_canonical_string (to_canonical_string p) = Inr p \<longleftrightarrow> CHR '':'' \<notin> set (txid p)) \<and>
   (to_canonical_string p = to_canonical_string q \<longleftrightarrow> p = q)"
  by (auto simp: from_to_canonical_string dest: from_canonical_string_txid)

lemma canonical_key_eq: "canonical_key u = canonical_key v \<longleftrightarrow> outpoint_of u = outpoint_of v"
  by (simp add: canonical_key_def)

section \<open>The gate is a status machine\<close>

lemma validate_transition_ok [result_simps]:
  "validate_transition a b = Inr u \<longleftrightarrow> transition_allowed a b"
  by (simp add: validate_transition_def)

lemma validate_transition_err [result_simps]:
  "validate_transition a b = Inl e \<longleftrightarrow> \<not> transition_allowed a b \<and> e = InvalidUtxoTransition a b"
  by (auto simp: validate_transition_def)

interpretation utxo_gate: status_machine transition_allowed "\<lambda>s. s \<in> {OcReplaced, OcSpent}"
  by unfold_locales auto

definition on_chain :: "onchain_state \<Rightarrow> bool" where
  "on_chain s \<longleftrightarrow> s \<in> {OcSpendable, OcFinalizedByPolicy, OcSpent}"

lemma gate_into_on_chain:
  "\<not> on_chain a \<Longrightarrow> on_chain b \<Longrightarrow> transition_allowed a b \<Longrightarrow> a = OcConfirming"
  by (cases a; cases b) (simp_all add: on_chain_def)

text \<open>
  Under the gate a spent or replaced output never changes state again, and an output that
  was not spendable becomes spendable, final or spent only through \<open>Confirming\<close>.
\<close>

theorem utxo_gate_lifecycle:
  assumes "transition_allowed\<^sup>*\<^sup>* s t"
  shows "(s \<in> {OcReplaced, OcSpent} \<longrightarrow> t = s) \<and>
    (\<not> on_chain s \<and> on_chain t \<longrightarrow>
       transition_allowed\<^sup>*\<^sup>* s OcConfirming \<and> transition_allowed\<^sup>*\<^sup>* OcConfirming t)"
  using utxo_gate.terminal_forever [OF assms]
    utxo_gate.passes_gate [OF assms, of on_chain OcConfirming] gate_into_on_chain
  by blast

theorem utxo_gate_lifecycle_witness:
  "transition_allowed\<^sup>*\<^sup>* OcSeen OcSpendable \<and> transition_allowed\<^sup>*\<^sup>* OcConfirming OcSpendable"
proof -
  have "transition_allowed\<^sup>*\<^sup>* OcSeen OcSpendable"
    by (meson r_into_rtranclp rtranclp_trans transition_allowed.simps(1,4,6))
  with utxo_gate_lifecycle [OF this] show ?thesis
    by (simp add: on_chain_def)
qed

section \<open>Reorganisations and replacements, specified\<close>

definition utxos_distinct :: "utxo_entry list \<Rightarrow> bool" where
  "utxos_distinct us \<longleftrightarrow> distinct (map canonical_key us)"

lemma canonical_key_mark [simp]:
  "canonical_key (mark_reorged u) = canonical_key u"
  "canonical_key (mark_replaced u) = canonical_key u"
  "canonical_key (u\<lparr>ut_state := s\<rparr>) = canonical_key u"
  "canonical_key (u\<lparr>ut_state := s, detected_at_bucket := b\<rparr>) = canonical_key u"
  by (simp_all add: canonical_key_def mark_reorged_def mark_replaced_def Let_def split: option.split)

lemma map_canonical_key_mark [simp]:
  "map (canonical_key \<circ> (\<lambda>u. if P u then mark_reorged u else u)) us = map canonical_key us"
  "map (canonical_key \<circ> (\<lambda>u. if P u then mark_replaced u else u)) us = map canonical_key us"
  by (induction us) simp_all

lemma has_key_iff: "has_key us k \<longleftrightarrow> k \<in> set (map canonical_key us)"
  by (auto simp: has_key_def)

lemma keys_mark:
  "canonical_key ` set (map (\<lambda>u. if P u then mark_reorged u else u) us) = canonical_key ` set us"
  "canonical_key ` set (map (\<lambda>u. if P u then mark_replaced u else u) us) = canonical_key ` set us"
  by (metis list.set_map map_map map_canonical_key_mark)+

lemma key_in_image: "u \<in> set us \<Longrightarrow> canonical_key u \<in> canonical_key ` set us"
  by simp

text \<open>
  The appended entries of a reorganisation: fresh keys, all of them asked for, none twice.
\<close>

lemma add_reorg_utxos_spec:
  "\<exists>ns. add_reorg_utxos b us new aff = (us @ ns, aff @ map canonical_key ns) \<and>
     (\<forall>n \<in> set ns. \<not> has_key us (canonical_key n) \<and> ut_state n = OcSeen \<and> detected_at_bucket n = b) \<and>
     utxos_distinct ns \<and> canonical_key ` set new \<subseteq> canonical_key ` set (us @ ns) \<and>
     canonical_key ` set ns \<subseteq> canonical_key ` set new"
proof (induction b us new aff rule: add_reorg_utxos.induct)
  case (1 b us aff)
  then show ?case by (intro exI [of _ "[]"]) (simp add: utxos_distinct_def)
next
  case (2 b us n new aff)
  let ?n = "n\<lparr>ut_state := OcSeen, detected_at_bucket := b\<rparr>"
  show ?case
  proof (cases "has_key us (canonical_key n)")
    case True
    then obtain ns where "add_reorg_utxos b us (n # new) aff = (us @ ns, aff @ map canonical_key ns)"
      and "\<forall>n \<in> set ns. \<not> has_key us (canonical_key n) \<and> ut_state n = OcSeen \<and> detected_at_bucket n = b"
      and "utxos_distinct ns" "canonical_key ` set new \<subseteq> canonical_key ` set (us @ ns)"
        "canonical_key ` set ns \<subseteq> canonical_key ` set new"
      using "2.IH"(1) by auto
    with True show ?thesis
      by (intro exI [of _ ns]) (auto simp: has_key_iff)
  next
    case False
    then obtain ns where "add_reorg_utxos b us (n # new) aff =
          ((us @ [?n]) @ ns, (aff @ [canonical_key n]) @ map canonical_key ns)"
      and "\<forall>m \<in> set ns. \<not> has_key (us @ [?n]) (canonical_key m) \<and> ut_state m = OcSeen \<and>
             detected_at_bucket m = b"
      and "utxos_distinct ns" "canonical_key ` set new \<subseteq> canonical_key ` set ((us @ [?n]) @ ns)"
        "canonical_key ` set ns \<subseteq> canonical_key ` set new"
      using "2.IH"(2) by auto
    with False show ?thesis
      by (intro exI [of _ "?n # ns"]) (auto simp: has_key_iff utxos_distinct_def)
  qed
qed

lemma apply_reorg_spec:
  obtains ns where "apply_reorg us txids new b =
      (Inr (map canonical_key (filter (reorg_hits txids) us) @ map canonical_key ns),
       map (\<lambda>u. if reorg_hits txids u then mark_reorged u else u) us @ ns)"
    and "\<forall>n \<in> set ns. \<not> has_key us (canonical_key n) \<and> ut_state n = OcSeen \<and> detected_at_bucket n = b"
    and "utxos_distinct ns" and "canonical_key ` set new \<subseteq> canonical_key ` set (us @ ns)"
proof -
  let ?us = "map (\<lambda>u. if reorg_hits txids u then mark_reorged u else u) us"
  obtain ns where "add_reorg_utxos b ?us new (map canonical_key (filter (reorg_hits txids) us)) =
      (?us @ ns, map canonical_key (filter (reorg_hits txids) us) @ map canonical_key ns)"
    and "\<forall>n \<in> set ns. \<not> has_key ?us (canonical_key n) \<and> ut_state n = OcSeen \<and> detected_at_bucket n = b"
    and "utxos_distinct ns" and "canonical_key ` set new \<subseteq> canonical_key ` set (?us @ ns)"
    using add_reorg_utxos_spec by blast
  moreover have "has_key ?us k \<longleftrightarrow> has_key us k" for k
    using keys_mark(1) [of "reorg_hits txids" us] by (simp only: has_key_iff set_map)
  moreover have "canonical_key ` set (?us @ ns) = canonical_key ` set (us @ ns)"
    by (simp only: set_append image_Un keys_mark)
  ultimately show ?thesis
    by (intro that [of ns]) (auto simp: apply_reorg_def)
qed

text \<open>
  C40. After a reorganisation no output of a disconnected transaction counts as confirming,
  spendable or final; every output of the new chain is tracked; an output that was not
  affected is unchanged; keys stay distinct; and the handler reports exactly the keys of the
  entries that differ from before.
\<close>

theorem reorg_correct:
  assumes "utxos_distinct us" and "apply_reorg us txids new b = (Inr affected, us')"
  shows "utxos_distinct us' \<and>
    (\<forall>u \<in> set us'. txid (outpoint_of u) \<in> set txids \<longrightarrow>
       ut_state u \<notin> {OcConfirming, OcSpendable, OcFinalizedByPolicy}) \<and>
    (\<forall>n \<in> set new. has_key us' (canonical_key n)) \<and>
    (\<forall>u \<in> set us. \<not> reorg_hits txids u \<longrightarrow> u \<in> set us') \<and>
    set affected = canonical_key ` (set us' - set us)"
proof -
  let ?m = "\<lambda>u. if reorg_hits txids u then mark_reorged u else u"
  obtain ns where run: "apply_reorg us txids new b =
      (Inr (map canonical_key (filter (reorg_hits txids) us) @ map canonical_key ns), map ?m us @ ns)"
    and ns: "\<forall>n \<in> set ns. \<not> has_key us (canonical_key n) \<and> ut_state n = OcSeen \<and> detected_at_bucket n = b"
    and dist: "utxos_distinct ns" and new: "canonical_key ` set new \<subseteq> canonical_key ` set (us @ ns)"
    by (rule apply_reorg_spec)
  have res: "affected = map canonical_key (filter (reorg_hits txids) us) @ map canonical_key ns"
      "us' = map ?m us @ ns"
    using run assms(2) by simp_all
  have inj: "u = v" if "u \<in> set us" "v \<in> set us" "canonical_key u = canonical_key v" for u v
    using assms(1) that by (auto simp: utxos_distinct_def distinct_map dest: inj_onD)
  have "\<not> reorg_hits txids (mark_reorged u)" for u
    by (simp add: reorg_hits_def mark_reorged_def)
  then have changed: "?m u \<notin> set us" if "u \<in> set us" "reorg_hits txids u" for u
    using inj [of "mark_reorged u" u] that by (metis canonical_key_mark(1))
  have fresh: "n \<notin> set us" if "n \<in> set ns" for n
    using ns that key_in_image [of n us] by (auto simp: has_key_iff)
  have "set us' - set us = mark_reorged ` {u \<in> set us. reorg_hits txids u} \<union> set ns"
    using changed fresh by (auto simp: res)
  then have "set affected = canonical_key ` (set us' - set us)"
    by (simp add: res image_Un image_image)
  moreover have keys: "map canonical_key us' = map canonical_key us @ map canonical_key ns"
    by (simp add: res)
  then have "utxos_distinct us'"
    using assms(1) dist ns by (auto simp: utxos_distinct_def has_key_iff) (metis key_in_image)
  moreover have "\<forall>n \<in> set new. has_key us' (canonical_key n)"
    using new by (auto simp: keys has_key_iff)
  moreover have "\<forall>u \<in> set us'. txid (outpoint_of u) \<in> set txids \<longrightarrow>
       ut_state u \<notin> {OcConfirming, OcSpendable, OcFinalizedByPolicy}"
    using ns by (auto simp: res reorg_hits_def mark_reorged_def)
  moreover have "\<forall>u \<in> set us. \<not> reorg_hits txids u \<longrightarrow> u \<in> set us'"
    by (force simp: res)
  ultimately show ?thesis by blast
qed

definition demo_utxo :: "string \<Rightarrow> onchain_state \<Rightarrow> utxo_entry" where
  "demo_utxo t s = (new_seen (outpoint_new t 0) 100 ''addr'' 1)\<lparr>ut_state := s\<rparr>"

theorem reorg_correct_witness:
  "set (map canonical_key (snd (apply_reorg [demo_utxo ''t'' OcSpendable] [''t'']
       [demo_utxo ''uu'' OcConfirming] 7))) = {''t:0'', ''uu:0''} \<and>
   canonical_key ` (set (snd (apply_reorg [demo_utxo ''t'' OcSpendable] [''t'']
       [demo_utxo ''uu'' OcConfirming] 7)) - {demo_utxo ''t'' OcSpendable}) = {''t:0'', ''uu:0''}"
proof -
  let ?us = "[demo_utxo ''t'' OcSpendable]" and ?new = "[demo_utxo ''uu'' OcConfirming]"
  have run: "apply_reorg ?us [''t''] ?new 7 = (Inr [''t:0'', ''uu:0''],
      [mark_reorged (demo_utxo ''t'' OcSpendable),
       (demo_utxo ''uu'' OcSeen)\<lparr>detected_at_bucket := 7\<rparr>])"
    by (simp add: apply_reorg_def reorg_hits_def has_key_def canonical_key_def mark_reorged_def
        to_canonical_string_def demo_utxo_def new_seen_def outpoint_new_def show_word_def
        show_nat_digit)
  have "utxos_distinct ?us" by (simp add: utxos_distinct_def)
  from reorg_correct [OF this run]
  have "set [''t:0'', ''uu:0''] = canonical_key ` (set (snd (apply_reorg ?us [''t''] ?new 7)) - set ?us)"
    by (simp only: run snd_conv)
  then show ?thesis
    by (simp add: run) (simp add: canonical_key_def to_canonical_string_def demo_utxo_def new_seen_def
        outpoint_new_def show_word_def show_nat_digit)
qed

lemma add_replacement_utxos_spec:
  "\<exists>ns. add_replacement_utxos us new = us @ ns \<and>
     (\<forall>n \<in> set ns. \<not> has_key us (canonical_key n) \<and> ut_state n = OcSeen) \<and>
     utxos_distinct ns \<and> canonical_key ` set new \<subseteq> canonical_key ` set (us @ ns)"
proof (induction us new rule: add_replacement_utxos.induct)
  case (1 us)
  then show ?case by (intro exI [of _ "[]"]) (simp add: utxos_distinct_def)
next
  case (2 us n new)
  let ?n = "n\<lparr>ut_state := OcSeen\<rparr>"
  show ?case
  proof (cases "has_key us (canonical_key n)")
    case True
    then obtain ns where "add_replacement_utxos us (n # new) = us @ ns"
      and "\<forall>n \<in> set ns. \<not> has_key us (canonical_key n) \<and> ut_state n = OcSeen"
      and "utxos_distinct ns" "canonical_key ` set new \<subseteq> canonical_key ` set (us @ ns)"
      using "2.IH"(1) by auto
    with True show ?thesis
      by (intro exI [of _ ns]) (auto simp: has_key_iff)
  next
    case False
    then obtain ns where "add_replacement_utxos us (n # new) = (us @ [?n]) @ ns"
      and "\<forall>m \<in> set ns. \<not> has_key (us @ [?n]) (canonical_key m) \<and> ut_state m = OcSeen"
      and "utxos_distinct ns" "canonical_key ` set new \<subseteq> canonical_key ` set ((us @ [?n]) @ ns)"
      using "2.IH"(2) by auto
    with False show ?thesis
      by (intro exI [of _ "?n # ns"]) (auto simp: has_key_iff utxos_distinct_def)
  qed
qed

lemma apply_rbf_total: "\<exists>released us'. apply_rbf_replacement us t new = (Inr released, us')"
  by (simp add: apply_rbf_replacement_def Let_def)

lemma mark_replaced_released:
  "ut_state (mark_replaced u) = OcReplaced" "reserved_by (mark_replaced u) = None"
  by (simp_all add: mark_replaced_def Let_def split: option.split)

text \<open>
  After a replacement every tracked output of the replaced transaction is
  \<open>Replaced\<close>, and holds no reservation unless it was replaced before; the returned list
  names the reservations that were held by the outputs replaced now; outputs of other
  transactions are unchanged; every output of the replacement is tracked; keys stay distinct.
\<close>

theorem rbf_correct:
  assumes "utxos_distinct us" and "apply_rbf_replacement us t new = (Inr released, us')"
  shows "utxos_distinct us' \<and>
    (\<forall>u \<in> set us. txid (outpoint_of u) = t \<longrightarrow>
       (\<exists>v \<in> set us'. canonical_key v = canonical_key u \<and> ut_state v = OcReplaced \<and>
          (ut_state u \<noteq> OcReplaced \<longrightarrow> reserved_by v = None))) \<and>
    set released = {r. \<exists>u \<in> set us. txid (outpoint_of u) = t \<and> ut_state u \<noteq> OcReplaced \<and>
                         reserved_by u = Some r} \<and>
    (\<forall>u \<in> set us. txid (outpoint_of u) \<noteq> t \<longrightarrow> u \<in> set us') \<and>
    (\<forall>n \<in> set new. has_key us' (canonical_key n))"
proof -
  let ?m = "\<lambda>u. if rbf_hits t u then mark_replaced u else u"
  obtain ns where us': "add_replacement_utxos (map ?m us) new = map ?m us @ ns"
    and ns: "\<forall>n \<in> set ns. \<not> has_key (map ?m us) (canonical_key n) \<and> ut_state n = OcSeen"
    and dist: "utxos_distinct ns"
    and new: "canonical_key ` set new \<subseteq> canonical_key ` set (map ?m us @ ns)"
    using add_replacement_utxos_spec by blast
  have res: "us' = map ?m us @ ns"
    "released = List.map_filter (\<lambda>u. if rbf_hits t u then reserved_by u else None) us"
    using assms(2) us' by (simp_all add: apply_rbf_replacement_def)
  have keys: "map canonical_key us' = map canonical_key us @ map canonical_key ns"
    by (simp add: res)
  have "has_key (map ?m us) k \<longleftrightarrow> has_key us k" for k
    using keys_mark(2) [of "rbf_hits t" us] by (simp only: has_key_iff set_map)
  then have "\<forall>n \<in> set ns. canonical_key n \<notin> canonical_key ` set us"
    using ns by (simp add: has_key_iff)
  then have "utxos_distinct us'"
    using assms(1) dist keys by (auto simp: utxos_distinct_def) (metis key_in_image)
  moreover have "\<forall>n \<in> set new. has_key us' (canonical_key n)"
    using new by (auto simp: res has_key_iff)
  moreover have "\<exists>v \<in> set us'. canonical_key v = canonical_key u \<and> ut_state v = OcReplaced \<and>
      (ut_state u \<noteq> OcReplaced \<longrightarrow> reserved_by v = None)"
    if "u \<in> set us" "txid (outpoint_of u) = t" for u
    using that mark_replaced_released
    by (intro bexI [of _ "?m u"]) (auto simp: res rbf_hits_def)
  moreover have "set released = {r. \<exists>u \<in> set us. txid (outpoint_of u) = t \<and>
      ut_state u \<noteq> OcReplaced \<and> reserved_by u = Some r}"
    by (auto simp: res map_filter_def rbf_hits_def image_iff split: if_splits) force
  moreover have "\<forall>u \<in> set us. txid (outpoint_of u) \<noteq> t \<longrightarrow> u \<in> set us'"
    by (force simp: res rbf_hits_def)
  ultimately show ?thesis by blast
qed

definition demo_reserved :: utxo_entry where
  "demo_reserved = (demo_utxo ''t'' OcInMempool)\<lparr>reserved_by := Some ''w1''\<rparr>"

theorem rbf_correct_witness:
  "set (res_unwrap_or (fst (apply_rbf_replacement [demo_reserved] ''t'' [demo_utxo ''uu'' OcSeen])) [])
     = {''w1''}"
proof -
  obtain rel us' where run: "apply_rbf_replacement [demo_reserved] ''t'' [demo_utxo ''uu'' OcSeen] =
      (Inr rel, us')"
    using apply_rbf_total by blast
  have "utxos_distinct [demo_reserved]" by (simp add: utxos_distinct_def)
  from rbf_correct [OF this run]
  have "set rel = {r. \<exists>u \<in> set [demo_reserved]. txid (outpoint_of u) = ''t'' \<and>
      ut_state u \<noteq> OcReplaced \<and> reserved_by u = Some r}"
    by (elim conjE)
  then show ?thesis
    by (simp only: run fst_conv res_unwrap_or_simps)
      (simp add: demo_reserved_def demo_utxo_def new_seen_def outpoint_new_def)
qed

section \<open>The root determines the outputs\<close>

text \<open>Each encoding is prefix free: an encoded value determines itself and what follows.\<close>

lemma u64_le_prefix: "u64_le a @ xs = u64_le b @ ys \<Longrightarrow> a = b \<and> xs = ys"
  by (simp add: append_eq_append_conv)

lemma u32_le_prefix: "u32_le a @ xs = u32_le b @ ys \<Longrightarrow> a = b \<and> xs = ys"
  by (simp add: append_eq_append_conv)

lemma encode_option_bucket_prefix:
  "encode_option_bucket a @ xs = encode_option_bucket b @ ys \<Longrightarrow> a = b \<and> xs = ys"
  by (auto simp: encode_option_bucket_def dest: u64_le_prefix split: option.splits)

lemma encode_block_height_prefix:
  "encode_block_height a @ xs = encode_block_height b @ ys \<Longrightarrow> a = b \<and> xs = ys"
  by (auto simp: encode_block_height_def dest: u64_le_prefix split: option.splits)

lemma encode_option_string_prefix:
  assumes "encode_option_string_fn a @ xs = encode_option_string_fn b @ ys"
    and "pred_option str_ok a" and "pred_option str_ok b"
  shows "a = b \<and> xs = ys"
  using assms by (auto simp: encode_option_string_fn_def dest: encode_string_prefix split: option.splits)

lemma onchain_state_code_inject: "onchain_state_code a = onchain_state_code b \<longleftrightarrow> a = b"
  by (cases a; cases b) simp_all

definition utxo_strings_ok :: "utxo_entry \<Rightarrow> bool" where
  "utxo_strings_ok u \<longleftrightarrow> str_ok (canonical_key u) \<and> str_ok (address u) \<and>
     pred_option str_ok (reserved_by u) \<and> pred_option str_ok (spent_by_txid u)"

lemma utxo_strings_ok_txid: "utxo_strings_ok u \<Longrightarrow> str_ok (txid (outpoint_of u))"
  by (simp add: utxo_strings_ok_def canonical_key_def to_canonical_string_def str_ok_def)

lemma encode_utxo_inject:
  assumes "encode_utxo u = encode_utxo v" and "utxo_strings_ok u" and "utxo_strings_ok v"
  shows "u = v"
proof -
  have st: "ut_state u = ut_state v"
    and "u64_le (value_sats u) @ u32_le (vout (outpoint_of u)) @ u64_le (detected_at_bucket u) @
      encode_block_height (block_height u) @ encode_option_bucket (confirmed_at_bucket u) @
      encode_option_bucket (reserved_at_bucket u) @ encode_option_bucket (spent_at_bucket u) @
      encode_option_string_fn (reserved_by u) @ encode_option_string_fn (spent_by_txid u) @
      encode_string (txid (outpoint_of u)) @ encode_string (address u) @
      encode_string (canonical_key u) =
      u64_le (value_sats v) @ u32_le (vout (outpoint_of v)) @ u64_le (detected_at_bucket v) @
      encode_block_height (block_height v) @ encode_option_bucket (confirmed_at_bucket v) @
      encode_option_bucket (reserved_at_bucket v) @ encode_option_bucket (spent_at_bucket v) @
      encode_option_string_fn (reserved_by v) @ encode_option_string_fn (spent_by_txid v) @
      encode_string (txid (outpoint_of v)) @ encode_string (address v) @
      encode_string (canonical_key v)"
    using assms(1) by (simp_all add: encode_utxo_def onchain_state_code_inject)
  note fields = u64_le_prefix [OF this(2)]
  note fields = fields u32_le_prefix [OF fields [THEN conjunct2]]
  note fields = fields u64_le_prefix [OF fields(2) [THEN conjunct2]]
  note fields = fields encode_block_height_prefix [OF fields(3) [THEN conjunct2]]
  note fields = fields encode_option_bucket_prefix [OF fields(4) [THEN conjunct2]]
  note fields = fields encode_option_bucket_prefix [OF fields(5) [THEN conjunct2]]
  note fields = fields encode_option_bucket_prefix [OF fields(6) [THEN conjunct2]]
  have ok: "pred_option str_ok (reserved_by u)" "pred_option str_ok (reserved_by v)"
      "pred_option str_ok (spent_by_txid u)" "pred_option str_ok (spent_by_txid v)"
      "str_ok (address u)" "str_ok (address v)"
    using assms(2,3) by (simp_all add: utxo_strings_ok_def)
  note fields = fields encode_option_string_prefix [OF fields(7) [THEN conjunct2] ok(1,2)]
  note fields = fields encode_option_string_prefix [OF fields(8) [THEN conjunct2] ok(3,4)]
  note fields = fields encode_string_prefix [OF utxo_strings_ok_txid utxo_strings_ok_txid,
      OF assms(2,3) fields(9) [THEN conjunct2]]
  note fields = fields encode_string_prefix [OF ok(5,6) fields(10) [THEN conjunct2]]
  show ?thesis
    using fields st by (intro utxo_entry.equality outpoint.equality) simp_all
qed

text \<open>The texts whose digests enter the root of a list of entries.\<close>

definition utxo_root_texts :: "crypto \<Rightarrow> utxo_entry list \<Rightarrow> bytes set" where
  "utxo_root_texts c us = set (map encode_utxo us) \<union> {utxo_root_buf c us}"

lemma mset_utxo_hashes:
  "mset (map f (sort_key canonical_key us)) = mset (map f us)"
  by simp

lemma compute_utxo_root_inject:
  assumes "crypto_ok c" and "inj_on (sha256 c) (utxo_root_texts c us \<union> utxo_root_texts c vs)"
    and "\<forall>u \<in> set us \<union> set vs. utxo_strings_ok u"
    and "compute_utxo_root c us = compute_utxo_root c vs"
  shows "mset us = mset vs"
proof -
  let ?h = "\<lambda>u. sha256 c (encode_utxo u)"
  have "sha256 c (utxo_root_buf c us) = sha256 c (utxo_root_buf c vs)"
    using assms(1,4) by (simp add: compute_utxo_root_def crypto_ok_hex_inject)
  then have "mset (map ?h (sort_key canonical_key us)) = mset (map ?h (sort_key canonical_key vs))"
    unfolding utxo_root_buf_def Let_def
    by (rule sorted_digest_inject [OF _ assms(2)])
      (use assms(1) in \<open>auto simp: crypto_ok_length utxo_root_texts_def utxo_root_buf_def Let_def\<close>)
  then have "mset (map ?h us) = mset (map ?h vs)"
    by (simp only: mset_utxo_hashes)
  moreover have "inj_on ?h (set us \<union> set vs)"
  proof (rule inj_onI)
    fix u v assume uv: "u \<in> set us \<union> set vs" "v \<in> set us \<union> set vs" "?h u = ?h v"
    have "encode_utxo u = encode_utxo v"
      by (rule inj_onD [OF assms(2) uv(3)]) (use uv(1,2) in \<open>auto simp: utxo_root_texts_def\<close>)
    then show "u = v"
      by (rule encode_utxo_inject [OF _ bspec [OF assms(3) uv(1)] bspec [OF assms(3) uv(2)]])
  qed
  ultimately show ?thesis by (rule mset_map_inject)
qed

lemma utxo_root_buf_perm: "mset us = mset vs \<Longrightarrow> utxo_root_buf c us = utxo_root_buf c vs"
  unfolding utxo_root_buf_def Let_def
  by (intro arg_cong [where f = "\<lambda>hs. str_bytes ''KROOTv1:utxos'' @ concat hs"])
    (simp add: sort_eq_iff_mset)

lemma compute_utxo_root_perm: "mset us = mset vs \<Longrightarrow> compute_utxo_root c us = compute_utxo_root c vs"
  by (simp only: compute_utxo_root_def utxo_root_buf_perm [of us vs])

text \<open>
  The root over the outputs is a commitment: as long as SHA-256 has no collision among
  the texts hashed for the two lists, two lists of entries have the same root exactly when
  they hold the same entries, in any order.
\<close>

theorem utxo_root_commits:
  assumes "crypto_ok c" and "inj_on (sha256 c) (utxo_root_texts c us \<union> utxo_root_texts c vs)"
    and "\<forall>u \<in> set us \<union> set vs. utxo_strings_ok u"
  shows "compute_utxo_root c us = compute_utxo_root c vs \<longleftrightarrow> mset us = mset vs"
  using compute_utxo_root_inject [OF assms] compute_utxo_root_perm by blast

theorem utxo_root_commits_witness:
  "compute_utxo_root demo_crypto [demo_utxo ''t'' OcSeen, demo_utxo ''uu'' OcSpent] =
   compute_utxo_root demo_crypto [demo_utxo ''uu'' OcSpent, demo_utxo ''t'' OcSeen]"
proof -
  let ?u = "demo_utxo ''t'' OcSeen" and ?v = "demo_utxo ''uu'' OcSpent"
  have hash_len: "length (sha256 demo_crypto b) = 32" for b
    by (rule crypto_ok_length [OF demo_crypto_ok])
  have len: "length (utxo_root_buf demo_crypto [?u, ?v]) = 77"
      "length (utxo_root_buf demo_crypto [?v, ?u]) = 77"
    by (simp_all add: utxo_root_buf_def length_concat hash_len sum_list_triv o_def
        flip: sum_mset_sum_list mset_map)
  have same: "utxo_root_buf demo_crypto [?u, ?v] = utxo_root_buf demo_crypto [?v, ?u]"
    by (rule utxo_root_buf_perm) (simp add: add_mset_commute)
  have enc: "length (encode_utxo ?u) = 59" "length (encode_utxo ?v) = 61"
    by (simp_all add: encode_utxo_def encode_string_def canonical_key_def to_canonical_string_def
        encode_block_height_def encode_option_bucket_def encode_option_string_fn_def demo_utxo_def
        new_seen_def outpoint_new_def show_word_def show_nat_digit)
  have "inj_on (sha256 demo_crypto)
      (utxo_root_texts demo_crypto [?u, ?v] \<union> utxo_root_texts demo_crypto [?v, ?u])"
    by (rule demo_crypto_inj) (auto simp: utxo_root_texts_def same len enc)
  moreover have "\<forall>u \<in> set [?u, ?v] \<union> set [?v, ?u]. utxo_strings_ok u"
    by (simp add: utxo_strings_ok_def canonical_key_def to_canonical_string_def str_ok_def
        demo_utxo_def new_seen_def outpoint_new_def show_word_def show_nat_digit)
  ultimately show ?thesis
    using utxo_root_commits [OF demo_crypto_ok] by (simp add: add_mset_commute)
qed

end
