(* ===== verification/Utxo_Store.thy ===== *)
theory Utxo_Store
  imports Chain
begin

text \<open>
  The port \<open>UtxoStore\<close> and its in-memory implementation (\<open>utxo_store.rs\<close>), a vector
  of entries searched by canonical key behind a mutex. The contract of the port is the locale
  \<open>utxo_store\<close>; from it follows, for any sequence of state updates, that an entry moves
  along the transition gate only.
\<close>

section \<open>The in-memory store\<close>

type_synonym utxo_vec = "utxo_entry list"

definition find_utxo :: "outpoint \<Rightarrow> utxo_vec \<Rightarrow> utxo_entry option" where
  "find_utxo p es = List.find (\<lambda>e. canonical_key e = to_canonical_string p) es"

definition update_utxo :: "outpoint \<Rightarrow> (utxo_entry \<Rightarrow> utxo_entry) \<Rightarrow> utxo_vec \<Rightarrow> utxo_vec" where
  "update_utxo p f es = update_first (\<lambda>e. canonical_key e = to_canonical_string p) f es"

definition add_utxo :: "utxo_vec \<Rightarrow> utxo_entry \<Rightarrow> (utxo_vec, unit) mut_result" where
  "add_utxo es u = (if has_key es (canonical_key u) then (Inr (), es) else (Inr (), es @ [u]))"

definition get_utxo :: "utxo_vec \<Rightarrow> outpoint \<Rightarrow> utxo_entry option" where
  "get_utxo es p = find_utxo p es"

definition list_by_state :: "utxo_vec \<Rightarrow> onchain_state \<Rightarrow> utxo_entry list" where
  "list_by_state es s = sort_key canonical_key (filter (\<lambda>e. ut_state e = s) es)"

definition list_all_utxos :: "utxo_vec \<Rightarrow> utxo_entry list" where
  "list_all_utxos es = sort_key canonical_key es"

definition update_state :: "utxo_vec \<Rightarrow> outpoint \<Rightarrow> onchain_state \<Rightarrow> (utxo_vec, unit) mut_result" where
  "update_state es p new_state =
     (case find_utxo p es of
        None \<Rightarrow> (Inl (UtxoNotFound (txid p) (vout p)), es)
      | Some e \<Rightarrow>
          (case validate_transition (ut_state e) new_state of
             Inl err \<Rightarrow> (Inl err, es)
           | Inr _ \<Rightarrow> (Inr (), update_utxo p (\<lambda>e. e\<lparr>ut_state := new_state\<rparr>) es)))"

definition reserve_utxo :: "utxo_vec \<Rightarrow> outpoint \<Rightarrow> string \<Rightarrow> u64 \<Rightarrow> (utxo_vec, unit) mut_result" where
  "reserve_utxo es p by_id bucket =
     (case find_utxo p es of
        None \<Rightarrow> (Inl (UtxoNotFound (txid p) (vout p)), es)
      | Some e \<Rightarrow>
          if ut_state e \<notin> {OcSpendable, OcFinalizedByPolicy}
          then (Inl (InvalidUtxoTransition (ut_state e) (ut_state e)), es)
          else (case reserved_by e of
             Some existing \<Rightarrow> (Inl (UtxoAlreadyReserved existing), es)
           | None \<Rightarrow> (Inr (), update_utxo p
               (\<lambda>e. e\<lparr>reserved_by := Some by_id, reserved_at_bucket := Some bucket\<rparr>) es)))"

definition release_utxo :: "utxo_vec \<Rightarrow> outpoint \<Rightarrow> (utxo_vec, unit) mut_result" where
  "release_utxo es p =
     (case find_utxo p es of
        None \<Rightarrow> (Inl (UtxoNotFound (txid p) (vout p)), es)
      | Some e \<Rightarrow>
          if reserved_by e = None then (Inl UtxoNotReserved, es)
          else (Inr (), update_utxo p (\<lambda>e. e\<lparr>reserved_by := None, reserved_at_bucket := None\<rparr>) es))"

definition compute_utxo_root_hash :: "crypto \<Rightarrow> utxo_vec \<Rightarrow> string" where
  "compute_utxo_root_hash c es = compute_utxo_root c es"

section \<open>The contract\<close>

definition state_at :: "('s \<Rightarrow> outpoint \<Rightarrow> utxo_entry option) \<Rightarrow> 's \<Rightarrow> outpoint \<Rightarrow> onchain_state option" where
  "state_at get s p = map_option ut_state (get s p)"

locale utxo_store =
  fixes get :: "'s \<Rightarrow> outpoint \<Rightarrow> utxo_entry option"
    and upd :: "'s \<Rightarrow> outpoint \<Rightarrow> onchain_state \<Rightarrow> ('s, unit) mut_result"
    and rsv :: "'s \<Rightarrow> outpoint \<Rightarrow> string \<Rightarrow> u64 \<Rightarrow> ('s, unit) mut_result"
    and rel :: "'s \<Rightarrow> outpoint \<Rightarrow> ('s, unit) mut_result"
  assumes upd_ok: "upd s p t = (Inr u, s') \<Longrightarrow>
      \<exists>e. get s p = Some e \<and> transition_allowed (ut_state e) t \<and>
        get s' = (get s)(p \<mapsto> e\<lparr>ut_state := t\<rparr>)"
    and upd_err: "upd s p t = (Inl err, s') \<Longrightarrow> get s' = get s \<or>
      (\<exists>e. get s p = Some e \<and> transition_allowed (ut_state e) t \<and> get s' = (get s)(p \<mapsto> e\<lparr>ut_state := t\<rparr>))"
    and rsv_ok: "rsv s p i b = (Inr u, s') \<Longrightarrow>
      \<exists>e. get s p = Some e \<and> is_available e \<and>
        get s' = (get s)(p \<mapsto> e\<lparr>reserved_by := Some i, reserved_at_bucket := Some b\<rparr>)"
    and rsv_held: "get s p = Some e \<Longrightarrow> reserved_by e \<noteq> None \<Longrightarrow>
      \<exists>err s'. rsv s p i b = (Inl err, s') \<and> get s' = get s"
    and rel_ok: "rel s p = (Inr u, s') \<Longrightarrow>
      \<exists>e. get s p = Some e \<and> reserved_by e \<noteq> None \<and>
        get s' = (get s)(p \<mapsto> e\<lparr>reserved_by := None, reserved_at_bucket := None\<rparr>)"
begin

text \<open>A second reservation of a reserved output is refused until it is released.\<close>

lemma exclusive:
  assumes "rsv s p i b = (Inr u, s')"
  shows "\<exists>err t. rsv s' p j c = (Inl err, t) \<and> get t = get s'"
proof -
  obtain e where "get s' = (get s)(p \<mapsto> e\<lparr>reserved_by := Some i, reserved_at_bucket := Some b\<rparr>)"
    using rsv_ok [OF assms] by blast
  then show ?thesis
    by (intro rsv_held) auto
qed

text \<open>A run of state updates, successful or not, moves every entry along the gate.\<close>

lemma run_along_gate:
  "state_at get s p = Some a \<Longrightarrow>
    \<exists>b. state_at get (fold (\<lambda>(q, t) s. snd (upd s q t)) us s) p = Some b \<and>
      transition_allowed\<^sup>*\<^sup>* a b"
proof (induction us arbitrary: s a)
  case (Cons x us)
  obtain q t where x: "x = (q, t)" by fastforce
  obtain r s1 where up: "upd s q t = (r, s1)" by fastforce
  have "get s1 = get s \<or> (\<exists>e. get s q = Some e \<and> transition_allowed (ut_state e) t \<and>
      get s1 = (get s)(q \<mapsto> e\<lparr>ut_state := t\<rparr>))"
    using upd_ok [of s q t _ s1] upd_err [of s q t _ s1] up by (cases r) auto
  then have "\<exists>a'. state_at get s1 p = Some a' \<and> transition_allowed\<^sup>*\<^sup>* a a'"
    using Cons.prems by (auto simp: state_at_def)
  then obtain a' where "state_at get s1 p = Some a'" "transition_allowed\<^sup>*\<^sup>* a a'" by blast
  then show ?case
    using Cons.IH [of s1 a'] by (fastforce simp: x up intro: rtranclp_trans)
qed simp

end

section \<open>The in-memory store implements the contract\<close>

lemma find_utxo_Some: "find_utxo p es = Some e \<Longrightarrow> outpoint_of e = p \<and> e \<in> set es"
  by (auto simp: find_utxo_def canonical_key_def dest: find_Some_in)

lemma find_update_utxo:
  assumes "find_utxo p es = Some e" and "\<And>e. outpoint_of (f e) = outpoint_of e"
  shows "(\<lambda>q. find_utxo q (update_utxo p f es)) = (\<lambda>q. find_utxo q es)(p \<mapsto> f e)"
proof
  fix q
  let ?P = "\<lambda>e. canonical_key e = to_canonical_string p"
  have key: "canonical_key (f e) = canonical_key e" for e
    using assms(2) by (simp add: canonical_key_def)
  show "find_utxo q (update_utxo p f es) = ((\<lambda>q. find_utxo q es)(p \<mapsto> f e)) q"
  proof (cases "q = p")
    case True
    have "?P (f e)"
      using find_utxo_Some [OF assms(1)] key by (simp add: canonical_key_def)
    with assms(1) True show ?thesis
      by (simp add: find_utxo_def update_utxo_def find_update_first_same)
  next
    case False
    then have "List.find (\<lambda>e. canonical_key e = to_canonical_string q) (update_first ?P f es) =
        List.find (\<lambda>e. canonical_key e = to_canonical_string q) es"
      by (intro find_update_first_other) (simp_all add: key)
    with False show ?thesis
      by (simp add: find_utxo_def update_utxo_def)
  qed
qed

interpretation im_utxos: utxo_store "\<lambda>es p. get_utxo es p" update_state reserve_utxo release_utxo
proof
  fix es p t u es'
  assume "update_state es p t = (Inr u, es')"
  then show "\<exists>e. get_utxo es p = Some e \<and> transition_allowed (ut_state e) t \<and>
      get_utxo es' = (get_utxo es)(p \<mapsto> e\<lparr>ut_state := t\<rparr>)"
    by (auto simp: update_state_def get_utxo_def [abs_def] find_update_utxo validate_transition_def
        split: option.splits sum.splits if_splits)
next
  fix es p t err es'
  assume "update_state es p t = (Inl err, es')"
  then have "es' = es" by (auto simp: update_state_def split: option.splits sum.splits)
  then show "get_utxo es' = get_utxo es \<or> (\<exists>e. get_utxo es p = Some e \<and> transition_allowed (ut_state e) t \<and>
      get_utxo es' = (get_utxo es)(p \<mapsto> e\<lparr>ut_state := t\<rparr>))" by simp
next
  fix es p i b u es'
  assume "reserve_utxo es p i b = (Inr u, es')"
  then show "\<exists>e. get_utxo es p = Some e \<and> is_available e \<and>
      get_utxo es' = (get_utxo es)(p \<mapsto> e\<lparr>reserved_by := Some i, reserved_at_bucket := Some b\<rparr>)"
    by (auto simp: reserve_utxo_def get_utxo_def [abs_def] find_update_utxo is_available_def
        split: option.splits if_splits)
next
  fix es p e i b
  assume "get_utxo es p = Some e" "reserved_by e \<noteq> None"
  then show "\<exists>err es'. reserve_utxo es p i b = (Inl err, es') \<and> get_utxo es' = get_utxo es"
    by (auto simp: reserve_utxo_def get_utxo_def)
next
  fix es p u es'
  assume "release_utxo es p = (Inr u, es')"
  then show "\<exists>e. get_utxo es p = Some e \<and> reserved_by e \<noteq> None \<and>
      get_utxo es' = (get_utxo es)(p \<mapsto> e\<lparr>reserved_by := None, reserved_at_bucket := None\<rparr>)"
    by (auto simp: release_utxo_def get_utxo_def [abs_def] find_update_utxo
        split: option.splits if_splits)
qed

text \<open>
  Whatever sequence of state updates the store receives, and whichever of them it
  refuses, an output it holds stays in the store and its state moves along the gate only; an
  output that is spent or replaced keeps that state for ever.
\<close>

theorem utxo_store_follows_gate:
  assumes "get_utxo es p = Some e"
  shows "\<exists>e'. get_utxo (fold (\<lambda>(q, t) s. snd (update_state s q t)) us es) p = Some e' \<and>
    transition_allowed\<^sup>*\<^sup>* (ut_state e) (ut_state e') \<and>
    (utxo_is_terminal e \<longrightarrow> ut_state e' = ut_state e)"
  using im_utxos.run_along_gate [of es p "ut_state e" us] assms utxo_gate.terminal_forever
  by (auto simp: state_at_def utxo_is_terminal_def)

theorem utxo_store_follows_gate_witness:
  "\<exists>e'. get_utxo (snd (update_state [demo_utxo ''t'' OcSpent] (outpoint_new ''t'' 0) OcSeen))
      (outpoint_new ''t'' 0) = Some e' \<and> ut_state e' = OcSpent"
  using utxo_store_follows_gate [of "[demo_utxo ''t'' OcSpent]" "outpoint_new ''t'' 0"
      "demo_utxo ''t'' OcSpent" "[(outpoint_new ''t'' 0, OcSeen)]"]
  by (auto simp: get_utxo_def find_utxo_def canonical_key_def utxo_is_terminal_def demo_utxo_def
      new_seen_def)

text \<open>
  An output is reserved at most once at a time: after a reservation has succeeded, every
  further reservation of that output is refused and leaves the store as it is, and releasing
  it makes it available again.
\<close>

theorem utxo_reservation_exclusive:
  assumes "reserve_utxo es p i b = (Inr u, es')"
  shows "(\<exists>err t. reserve_utxo es' p j c = (Inl err, t) \<and> get_utxo t = get_utxo es') \<and>
    (\<forall>es'' v. release_utxo es' p = (Inr v, es'') \<longrightarrow>
       (\<exists>e. get_utxo es'' p = Some e \<and> is_available e))"
proof -
  obtain e where e: "get_utxo es p = Some e" "is_available e"
      "get_utxo es' = (get_utxo es)(p \<mapsto> e\<lparr>reserved_by := Some i, reserved_at_bucket := Some b\<rparr>)"
    using im_utxos.rsv_ok [OF assms] by auto
  then have "\<exists>e. get_utxo es'' p = Some e \<and> is_available e" if "release_utxo es' p = (Inr v, es'')" for es'' v
    using im_utxos.rel_ok [OF that] by (auto simp: is_available_def)
  moreover have "\<exists>err t. reserve_utxo es' p j c = (Inl err, t) \<and> get_utxo t = get_utxo es'"
    by (rule im_utxos.exclusive [OF assms])
  ultimately show ?thesis by blast
qed

theorem utxo_reservation_exclusive_witness:
  "\<exists>err t. reserve_utxo (snd (reserve_utxo [demo_utxo ''t'' OcSpendable] (outpoint_new ''t'' 0) ''a'' 1))
      (outpoint_new ''t'' 0) ''b'' 2 = (Inl err, t)"
proof -
  let ?s = "snd (reserve_utxo [demo_utxo ''t'' OcSpendable] (outpoint_new ''t'' 0) ''a'' 1)"
  have "reserve_utxo [demo_utxo ''t'' OcSpendable] (outpoint_new ''t'' 0) ''a'' 1 = (Inr (), ?s)"
    by (simp add: reserve_utxo_def find_utxo_def canonical_key_def demo_utxo_def new_seen_def)
  from utxo_reservation_exclusive [OF this, of "''b''" 2] show ?thesis by blast
qed

end
