(* ===== verification/Double_Entry.thy ===== *)
theory Double_Entry
  imports Ledger_Types
begin

text \<open>
  The double-entry journal (\<open>double_entry.rs\<close>): postings, hash-chained entries, the
  in-memory ledger with its balances and receipts, and \<open>post_entry\<close>. The contract of the
  port \<open>LedgerPort\<close> is the locale \<open>ledger_port\<close>. Amounts are summed as \<open>u128\<close>; the
  net balance is an \<open>i128\<close>, an integer with the bounds of the type written out. The balances
  are a finite map; the order in which \<open>HashMap::values\<close> and \<open>keys\<close> visit it is not specified,
  so every operation that visits it takes the order as an argument, and what is proved holds
  for every order. An entry that is refused after the balances have been written keeps those
  writes.
\<close>

section \<open>Entries\<close>

record posting =
  po_account :: standard_account
  po_amount_sats :: u64

record journal_entry =
  entry_id :: string
  je_sequence :: u64
  description :: string
  debits :: "posting list"
  credits :: "posting list"
  timestamp_bucket :: u64
  entry_hash :: string
  previous_entry_hash :: "string option"

definition postings_buf :: "posting list \<Rightarrow> bytes" where
  "postings_buf ps = concat (map (\<lambda>p. str_bytes (account_debug (po_account p)) @ str_bytes '':'' @
     u64_le (po_amount_sats p) @ str_bytes '','') ps)"

definition hash_postings :: "crypto \<Rightarrow> posting list \<Rightarrow> string" where
  "hash_postings c ps = hex_encode c (sha256 c (postings_buf ps))"

definition entry_material ::
    "crypto \<Rightarrow> string \<Rightarrow> u64 \<Rightarrow> string \<Rightarrow> posting list \<Rightarrow> posting list \<Rightarrow> u64 \<Rightarrow> string option \<Rightarrow> string" where
  "entry_material c eid seq desc ds cs ts prev =
     eid @ ''|'' @ show_word seq @ ''|'' @ desc @ ''|'' @ hash_postings c ds @ ''|'' @
     hash_postings c cs @ ''|'' @ unwrap_or prev [] @ ''|'' @ show_word ts"

definition compute_entry_hash ::
    "crypto \<Rightarrow> string \<Rightarrow> u64 \<Rightarrow> string \<Rightarrow> posting list \<Rightarrow> posting list \<Rightarrow> u64 \<Rightarrow> string option \<Rightarrow> string" where
  "compute_entry_hash c eid seq desc ds cs ts prev =
     hex_encode c (sha256 c (str_bytes (entry_material c eid seq desc ds cs ts prev)))"

section \<open>Balances and receipts\<close>

record account_balance =
  ab_account :: standard_account
  ab_class :: account_class
  total_debits_sats :: u128
  total_credits_sats :: u128
  net_balance_sats :: int

record journal_receipt =
  jr_sequence :: u64
  jr_entry_hash :: string
  jr_previous_entry_hash :: "string option"
  jr_account_balances :: "account_balance list"
  jr_trial_balance_hash :: string

text \<open>
  The balances are a map from accounts. A list \<open>it\<close> of accounts is an order in which the map
  may be visited when it holds each of its keys once.
\<close>

type_synonym balances = "standard_account \<rightharpoonup> account_balance"

definition visits :: "standard_account list \<Rightarrow> balances \<Rightarrow> bool" where
  "visits it m \<longleftrightarrow> distinct it \<and> set it = dom m"

definition balance_values :: "standard_account list \<Rightarrow> balances \<Rightarrow> account_balance list" where
  "balance_values it m = List.map_filter m it"

definition balance_keys :: "standard_account list \<Rightarrow> balances \<Rightarrow> standard_account list" where
  "balance_keys it m = filter (\<lambda>a. m a \<noteq> None) it"

record in_memory_ledger =
  il_entries :: "journal_entry list"
  il_balances :: balances
  il_receipts :: "(string, journal_receipt) hashmap"

definition initial_balances :: balances where
  "initial_balances = (\<lambda>a. if a \<in> set all_accounts
     then Some \<lparr>ab_account = a, ab_class = account_class_of a, total_debits_sats = 0,
       total_credits_sats = 0, net_balance_sats = 0\<rparr>
     else None)"

definition ledger_new :: in_memory_ledger where
  "ledger_new = \<lparr>il_entries = [], il_balances = initial_balances, il_receipts = []\<rparr>"

definition trial_balance_line :: "standard_account \<Rightarrow> account_balance \<Rightarrow> bytes" where
  "trial_balance_line a b = str_bytes (account_debug a @ ''|'' @ show_word (total_debits_sats b) @
     ''|'' @ show_word (total_credits_sats b) @ ''|'' @ show_int (net_balance_sats b)) @ [10]"

definition compute_trial_balance_hash :: "crypto \<Rightarrow> standard_account list \<Rightarrow> balances \<Rightarrow> string" where
  "compute_trial_balance_hash c it m =
     hex_encode c (sha256 c (concat (map (\<lambda>a.
       case m a of Some b \<Rightarrow> trial_balance_line a b | None \<Rightarrow> []) (sort (balance_keys it m)))))"

section \<open>Posting\<close>

text \<open>\<open>i128::checked_sub\<close>, on integers within the bounds of the type.\<close>

definition i128_checked_sub :: "int \<Rightarrow> int \<Rightarrow> int option" where
  "i128_checked_sub a b = (let r = a - b in if - (2 ^ 127) \<le> r \<and> r < 2 ^ 127 then Some r else None)"

definition net_of :: "account_balance \<Rightarrow> int option" where
  "net_of b = i128_checked_sub (sint (total_debits_sats b)) (sint (total_credits_sats b))"

text \<open>
  The body of the two posting loops. The total is written first, the net balance second, each
  only when its checked operation succeeds.
\<close>

definition refresh_net :: "standard_account \<Rightarrow> account_balance \<Rightarrow> balances \<Rightarrow> (balances, unit) mut_result" where
  "refresh_net a b m =
     (case net_of b of
        None \<Rightarrow> (Inl (BalanceOverflow a), m(a \<mapsto> b))
      | Some n \<Rightarrow> (Inr (), m(a \<mapsto> b\<lparr>net_balance_sats := n\<rparr>)))"

definition apply_debit_posting :: "posting \<Rightarrow> balances \<Rightarrow> (balances, unit) mut_result" where
  "apply_debit_posting p m =
     (case m (po_account p) of
        None \<Rightarrow> (Inl (AccountNotFound (po_account p)), m)
      | Some b \<Rightarrow>
          (case checked_add (total_debits_sats b) (ucast (po_amount_sats p)) of
             None \<Rightarrow> (Inl (BalanceOverflow (po_account p)), m)
           | Some t \<Rightarrow> refresh_net (po_account p) (b\<lparr>total_debits_sats := t\<rparr>) m))"

definition apply_credit_posting :: "posting \<Rightarrow> balances \<Rightarrow> (balances, unit) mut_result" where
  "apply_credit_posting p m =
     (case m (po_account p) of
        None \<Rightarrow> (Inl (AccountNotFound (po_account p)), m)
      | Some b \<Rightarrow>
          (case checked_add (total_credits_sats b) (ucast (po_amount_sats p)) of
             None \<Rightarrow> (Inl (BalanceOverflow (po_account p)), m)
           | Some t \<Rightarrow> refresh_net (po_account p) (b\<lparr>total_credits_sats := t\<rparr>) m))"

text \<open>A loop that stops at the first error and keeps what was written until then.\<close>

fun try_fold :: "('a \<Rightarrow> 's \<Rightarrow> ('s, unit) mut_result) \<Rightarrow> 'a list \<Rightarrow> 's \<Rightarrow> ('s, unit) mut_result" where
  "try_fold f [] s = (Inr (), s)"
| "try_fold f (x # xs) s = (case f x s of (Inl e, s') \<Rightarrow> (Inl e, s') | (Inr _, s') \<Rightarrow> try_fold f xs s')"

definition check_balance_sign :: "account_balance \<Rightarrow> unit ledger_result" where
  "check_balance_sign b =
     (case ab_class b of
        Asset \<Rightarrow> require (\<not> net_balance_sats b < 0) (NegativeBalance (ab_account b) (net_balance_sats b))
      | Expense \<Rightarrow> require (\<not> net_balance_sats b < 0) (NegativeBalance (ab_account b) (net_balance_sats b))
      | _ \<Rightarrow> require (\<not> net_balance_sats b > 0) (NegativeBalance (ab_account b) (net_balance_sats b)))"

definition posting_sum :: "posting list \<Rightarrow> u128" where
  "posting_sum ps = sum_list (map (\<lambda>p. ucast (po_amount_sats p)) ps)"

definition head_hash :: "in_memory_ledger \<Rightarrow> string option" where
  "head_hash s = (if il_entries s = [] then None else Some (entry_hash (last (il_entries s))))"

text \<open>Validation, steps 1 to 6, before anything is written.\<close>

definition check_previous :: "string option \<Rightarrow> string option \<Rightarrow> unit ledger_result" where
  "check_previous prev given =
     (case (prev, given) of
        (Some expected_prev, Some given_prev) \<Rightarrow>
          require (given_prev = expected_prev)
            (InvalidHash (''previous_entry_hash mismatch: expected '' @ expected_prev @ '', got '' @ given_prev))
      | (None, Some _) \<Rightarrow> Inl (InvalidHash ''genesis entry should have previous_entry_hash = None'')
      | (Some _, None) \<Rightarrow> Inl (InvalidHash ''non-genesis entry must have a previous_entry_hash'')
      | (None, None) \<Rightarrow> Inr ())"

definition entry_computed_hash :: "crypto \<Rightarrow> journal_entry \<Rightarrow> string option \<Rightarrow> string" where
  "entry_computed_hash c e prev = compute_entry_hash c (entry_id e) (je_sequence e) (description e)
     (debits e) (credits e) (timestamp_bucket e) prev"

definition validate_entry :: "crypto \<Rightarrow> in_memory_ledger \<Rightarrow> journal_entry \<Rightarrow> unit ledger_result" where
  "validate_entry c s e =
     (let expected_seq = of_nat (length (il_entries s)) :: u64;
          computed = entry_computed_hash c e (head_hash s)
      in res_bind (require (debits e \<noteq> [] \<and> credits e \<noteq> []) EmptyEntry) (\<lambda>_.
         res_bind (require (posting_sum (debits e) = posting_sum (credits e))
           (UnbalancedEntry (posting_sum (debits e)) (posting_sum (credits e)))) (\<lambda>_.
         res_bind (require (je_sequence e = expected_seq) (SequenceGap expected_seq (je_sequence e))) (\<lambda>_.
         res_bind (require (\<not> je_sequence e < expected_seq) (DuplicateSequence (je_sequence e))) (\<lambda>_.
         res_bind (require (entry_hash e = computed) (InvalidHash computed)) (\<lambda>_.
         check_previous (head_hash s) (previous_entry_hash e)))))))"

definition sorted_balances :: "standard_account list \<Rightarrow> balances \<Rightarrow> account_balance list" where
  "sorted_balances it m = sort_key ab_account (balance_values it m)"

text \<open>The two posting loops, and the whole call, which visits the map in the order \<open>it\<close>.\<close>

definition apply_postings :: "journal_entry \<Rightarrow> balances \<Rightarrow> (balances, unit) mut_result" where
  "apply_postings e m =
     (case try_fold apply_debit_posting (debits e) m of
        (Inl err, m') \<Rightarrow> (Inl err, m')
      | (Inr _, m') \<Rightarrow> try_fold apply_credit_posting (credits e) m')"

definition post_entry :: "crypto \<Rightarrow> standard_account list \<Rightarrow> in_memory_ledger \<Rightarrow> journal_entry \<Rightarrow>
    (in_memory_ledger, journal_receipt) mut_result" where
  "post_entry c it s e =
     (case map_of (il_receipts s) (entry_id e) of
        Some existing \<Rightarrow> (Inr existing, s)
      | None \<Rightarrow>
     (case validate_entry c s e of
        Inl err \<Rightarrow> (Inl err, s)
      | Inr _ \<Rightarrow>
     (case apply_postings e (il_balances s) of
        (Inl err, m) \<Rightarrow> (Inl err, s\<lparr>il_balances := m\<rparr>)
      | (Inr _, m) \<Rightarrow>
     (case check_all check_balance_sign (balance_values it m) of
        Inl err \<Rightarrow> (Inl err, s\<lparr>il_balances := m\<rparr>)
      | Inr _ \<Rightarrow>
          let receipt = \<lparr>jr_sequence = je_sequence e, jr_entry_hash = entry_hash e,
                jr_previous_entry_hash = previous_entry_hash e,
                jr_account_balances = sorted_balances it m,
                jr_trial_balance_hash = compute_trial_balance_hash c it m\<rparr>
          in (Inr receipt,
              s\<lparr>il_balances := m, il_entries := il_entries s @ [e],
                il_receipts := hm_insert (entry_id e) receipt (il_receipts s)\<rparr>)))))"

definition ledger_account_balance :: "in_memory_ledger \<Rightarrow> standard_account \<Rightarrow> account_balance ledger_result" where
  "ledger_account_balance s a = ok_or (il_balances s a) (AccountNotFound a)"

definition trial_balance :: "standard_account list \<Rightarrow> in_memory_ledger \<Rightarrow> account_balance list" where
  "trial_balance it s = sorted_balances it (il_balances s)"

definition get_entry :: "in_memory_ledger \<Rightarrow> u64 \<Rightarrow> journal_entry option" where
  "get_entry s n = (if unat n < length (il_entries s) then Some (il_entries s ! unat n) else None)"

definition entry_count :: "in_memory_ledger \<Rightarrow> u64" where
  "entry_count s = of_nat (length (il_entries s))"

section \<open>The books\<close>

text \<open>
  What the journal says of an account: the sums of the debits and of the credits posted to it.
\<close>

definition posted :: "standard_account \<Rightarrow> posting list \<Rightarrow> nat" where
  "posted a ps = sum_list (map (\<lambda>p. if po_account p = a then unat (po_amount_sats p) else 0) ps)"

definition volume :: "posting list \<Rightarrow> nat" where
  "volume ps = sum_list (map (\<lambda>p. unat (po_amount_sats p)) ps)"

definition journal_debits :: "journal_entry list \<Rightarrow> standard_account \<Rightarrow> nat" where
  "journal_debits es a = sum_list (map (\<lambda>e. posted a (debits e)) es)"

definition journal_credits :: "journal_entry list \<Rightarrow> standard_account \<Rightarrow> nat" where
  "journal_credits es a = sum_list (map (\<lambda>e. posted a (credits e)) es)"

text \<open>The balances \<open>m\<close> record the debits \<open>D\<close> and the credits \<open>C\<close> of every account.\<close>

definition books :: "(standard_account \<Rightarrow> nat) \<Rightarrow> (standard_account \<Rightarrow> nat) \<Rightarrow> balances \<Rightarrow> bool" where
  "books D C m \<longleftrightarrow> (\<forall>a. \<exists>b. m a = Some b \<and> ab_account b = a \<and>
     ab_class b = account_class_of a \<and> unat (total_debits_sats b) = D a \<and>
     unat (total_credits_sats b) = C a \<and>
     net_balance_sats b = sint (total_debits_sats b) - sint (total_credits_sats b))"

lemma books_initial: "books (\<lambda>_. 0) (\<lambda>_. 0) initial_balances"
  by (simp add: books_def initial_balances_def)

lemma refresh_net_ok:
  "refresh_net a b m = (Inr u, m') \<Longrightarrow>
     m' = m(a \<mapsto> b\<lparr>net_balance_sats := sint (total_debits_sats b) - sint (total_credits_sats b)\<rparr>)"
  by (auto simp: refresh_net_def net_of_def i128_checked_sub_def Let_def split: if_splits)

lemma unat_ucast_u64 [simp]: "unat (ucast (w :: u64) :: u128) = unat w"
  using unsigned_less [of w, where 'a = nat] by (simp add: unsigned_ucast_eq take_bit_nat_eq_self)

lemma books_debit_posting:
  assumes "books D C m" and "apply_debit_posting p m = (Inr u, m')"
  shows "books (D(po_account p := D (po_account p) + unat (po_amount_sats p))) C m'"
proof -
  let ?a = "po_account p"
  obtain b where b: "m ?a = Some b" "ab_account b = ?a" "ab_class b = account_class_of ?a"
      "unat (total_debits_sats b) = D ?a" "unat (total_credits_sats b) = C ?a"
    using assms(1) unfolding books_def by blast
  with assms(2) obtain t where t: "checked_add (total_debits_sats b) (ucast (po_amount_sats p)) = Some t"
      "refresh_net ?a (b\<lparr>total_debits_sats := t\<rparr>) m = (Inr u, m')"
    by (auto simp: apply_debit_posting_def split: option.splits)
  have "unat t = D ?a + unat (po_amount_sats p)"
    using t(1) b(4) by (simp add: checked_add_Some)
  then show ?thesis
    using assms(1) b refresh_net_ok [OF t(2)] unfolding books_def by auto
qed

lemma books_credit_posting:
  assumes "books D C m" and "apply_credit_posting p m = (Inr u, m')"
  shows "books D (C(po_account p := C (po_account p) + unat (po_amount_sats p))) m'"
proof -
  let ?a = "po_account p"
  obtain b where b: "m ?a = Some b" "ab_account b = ?a" "ab_class b = account_class_of ?a"
      "unat (total_debits_sats b) = D ?a" "unat (total_credits_sats b) = C ?a"
    using assms(1) unfolding books_def by blast
  with assms(2) obtain t where t: "checked_add (total_credits_sats b) (ucast (po_amount_sats p)) = Some t"
      "refresh_net ?a (b\<lparr>total_credits_sats := t\<rparr>) m = (Inr u, m')"
    by (auto simp: apply_credit_posting_def split: option.splits)
  have "unat t = C ?a + unat (po_amount_sats p)"
    using t(1) b(5) by (simp add: checked_add_Some)
  then show ?thesis
    using assms(1) b refresh_net_ok [OF t(2)] unfolding books_def by auto
qed

lemma posted_simps [simp]:
  "posted a [] = 0"
  "posted a (p # ps) = (if po_account p = a then unat (po_amount_sats p) else 0) + posted a ps"
  by (simp_all add: posted_def)

lemma books_debits:
  "books D C m \<Longrightarrow> try_fold apply_debit_posting ps m = (Inr u, m') \<Longrightarrow>
     books (\<lambda>a. D a + posted a ps) C m'"
proof (induction ps arbitrary: D m)
  case (Cons p ps)
  then obtain v m1 where m1: "apply_debit_posting p m = (Inr v, m1)"
      "try_fold apply_debit_posting ps m1 = (Inr u, m')"
    by (auto split: prod.splits sum.splits)
  have "books (\<lambda>a. (D(po_account p := D (po_account p) + unat (po_amount_sats p))) a + posted a ps) C m'"
    by (rule Cons.IH [OF books_debit_posting [OF Cons.prems(1) m1(1)] m1(2)])
  moreover have "(\<lambda>a. (D(po_account p := D (po_account p) + unat (po_amount_sats p))) a + posted a ps) =
      (\<lambda>a. D a + posted a (p # ps))"
    by auto
  ultimately show ?case by simp
qed simp

lemma books_credits:
  "books D C m \<Longrightarrow> try_fold apply_credit_posting ps m = (Inr u, m') \<Longrightarrow>
     books D (\<lambda>a. C a + posted a ps) m'"
proof (induction ps arbitrary: C m)
  case (Cons p ps)
  then obtain v m1 where m1: "apply_credit_posting p m = (Inr v, m1)"
      "try_fold apply_credit_posting ps m1 = (Inr u, m')"
    by (auto split: prod.splits sum.splits)
  have "books D (\<lambda>a. (C(po_account p := C (po_account p) + unat (po_amount_sats p))) a + posted a ps) m'"
    by (rule Cons.IH [OF books_credit_posting [OF Cons.prems(1) m1(1)] m1(2)])
  moreover have "(\<lambda>a. (C(po_account p := C (po_account p) + unat (po_amount_sats p))) a + posted a ps) =
      (\<lambda>a. C a + posted a (p # ps))"
    by auto
  ultimately show ?case by simp
qed simp

lemma books_apply:
  assumes "books D C m" and "apply_postings e m = (Inr u, m')"
  shows "books (\<lambda>a. D a + posted a (debits e)) (\<lambda>a. C a + posted a (credits e)) m'"
proof -
  obtain m1 v where "try_fold apply_debit_posting (debits e) m = (Inr v, m1)"
      "try_fold apply_credit_posting (credits e) m1 = (Inr u, m')"
    using assms(2) by (auto simp: apply_postings_def split: prod.splits sum.splits)
  then show ?thesis
    using books_credits [OF books_debits [OF assms(1)]] by blast
qed

text \<open>The postings of an entry are distributed over the accounts without loss.\<close>

lemma sum_posted: "sum_list (map (\<lambda>a. posted a ps) all_accounts) = volume ps"
proof (induction ps)
  case (Cons p ps)
  have "sum_list (map (\<lambda>a. if x = a then n else (0 :: nat)) all_accounts) = n" for x n
    by (cases x) (simp_all add: all_accounts_def)
  with Cons show ?case by (simp add: sum_list_addf volume_def)
qed (simp add: volume_def)

lemma unat_sum_u128:
  "sum_list (map (\<lambda>p. unat (f p)) ps) < 2 ^ 128 \<Longrightarrow>
     unat (sum_list (map f ps) :: u128) = sum_list (map (\<lambda>p. unat (f p)) ps)"
  by (induction ps) (simp_all add: unat_plus_no_overflow)

section \<open>The hash chain\<close>

fun chain_from :: "crypto \<Rightarrow> nat \<Rightarrow> string option \<Rightarrow> journal_entry list \<Rightarrow> bool" where
  "chain_from c n prev [] = True"
| "chain_from c n prev (e # es) \<longleftrightarrow> je_sequence e = of_nat n \<and> previous_entry_hash e = prev \<and>
     entry_hash e = entry_computed_hash c e prev \<and> chain_from c (Suc n) (Some (entry_hash e)) es"

definition last_hash :: "string option \<Rightarrow> journal_entry list \<Rightarrow> string option" where
  "last_hash prev es = (if es = [] then prev else Some (entry_hash (last es)))"

lemma chain_from_snoc:
  "chain_from c n prev (es @ [e]) \<longleftrightarrow> chain_from c n prev es \<and>
     je_sequence e = of_nat (n + length es) \<and> previous_entry_hash e = last_hash prev es \<and>
     entry_hash e = entry_computed_hash c e (last_hash prev es)"
  by (induction es arbitrary: n prev) (auto simp: last_hash_def)

section \<open>What a posting does\<close>

definition sign_ok :: "account_balance \<Rightarrow> bool" where
  "sign_ok b \<longleftrightarrow> (if ab_class b \<in> {Asset, Expense} then 0 \<le> net_balance_sats b else net_balance_sats b \<le> 0)"

lemma check_balance_sign_ok [result_simps]: "is_ok (check_balance_sign b) \<longleftrightarrow> sign_ok b"
  by (auto simp: check_balance_sign_def sign_ok_def require_def split: account_class.splits)

lemma validate_entry_ok:
  "validate_entry c s e = Inr u \<longleftrightarrow> debits e \<noteq> [] \<and> credits e \<noteq> [] \<and>
     posting_sum (debits e) = posting_sum (credits e) \<and>
     je_sequence e = of_nat (length (il_entries s)) \<and>
     entry_hash e = entry_computed_hash c e (head_hash s) \<and> previous_entry_hash e = head_hash s"
  by (auto simp: validate_entry_def check_previous_def Let_def result_simps split: option.splits)

lemma post_entry_replay:
  "map_of (il_receipts s) (entry_id e) = Some r \<Longrightarrow> post_entry c it s e = (Inr r, s)"
  by (simp add: post_entry_def)

text \<open>
  The five outcomes of a call: the receipt of an earlier entry, a refusal by validation, a
  refusal by the posting loops, a refusal for a sign, and an acceptance.
\<close>

lemma post_entry_outcome:
  assumes "post_entry c it s e = (r, s')"
  obtains
    (replay) r' where "map_of (il_receipts s) (entry_id e) = Some r'" "r = Inr r'" "s' = s"
  | (invalid) err where "validate_entry c s e = Inl err" "r = Inl err" "s' = s"
  | (unposted) err m where "validate_entry c s e = Inr ()"
      "apply_postings e (il_balances s) = (Inl err, m)" "r = Inl err" "s' = s\<lparr>il_balances := m\<rparr>"
  | (sign) err m where "validate_entry c s e = Inr ()"
      "apply_postings e (il_balances s) = (Inr (), m)"
      "check_all check_balance_sign (balance_values it m) = Inl err" "r = Inl err" "s' = s\<lparr>il_balances := m\<rparr>"
  | (accept) r' m where "map_of (il_receipts s) (entry_id e) = None" "validate_entry c s e = Inr ()"
      "apply_postings e (il_balances s) = (Inr (), m)" "\<forall>b \<in> set (balance_values it m). sign_ok b"
      "r' = \<lparr>jr_sequence = je_sequence e, jr_entry_hash = entry_hash e,
         jr_previous_entry_hash = previous_entry_hash e, jr_account_balances = sorted_balances it m,
         jr_trial_balance_hash = compute_trial_balance_hash c it m\<rparr>" "r = Inr r'"
      "s' = s\<lparr>il_balances := m, il_entries := il_entries s @ [e],
         il_receipts := hm_insert (entry_id e) r' (il_receipts s)\<rparr>"
proof (cases "map_of (il_receipts s) (entry_id e)")
  case None
  show thesis
  proof (cases "validate_entry c s e")
    case (Inl err)
    with None assms show thesis by (intro invalid [of err]) (simp_all add: post_entry_def)
  next
    case (Inr u)
    obtain x m where m: "apply_postings e (il_balances s) = (x, m)" by (rule prod.exhaust)
    show thesis
    proof (cases x)
      case (Inl err)
      with None Inr m assms show thesis by (intro unposted [of err m]) (simp_all add: post_entry_def)
    next
      case x: (Inr v)
      show thesis
      proof (cases "check_all check_balance_sign (balance_values it m)")
        case (Inl err)
        with None Inr m x assms show thesis by (intro sign [of m err]) (simp_all add: post_entry_def)
      next
        case chk: (Inr w)
        then have "\<forall>b \<in> set (balance_values it m). sign_ok b"
          by (simp add: check_all_Inr check_balance_sign_ok)
        with None Inr m x chk assms show thesis
          by (intro accept) (auto simp: post_entry_def Let_def)
      qed
    qed
  qed
next
  case (Some r')
  with assms show thesis by (intro replay [of r']) (simp_all add: post_entry_def)
qed

text \<open>The posting loops add no account to the map and change no account's name or class.\<close>

definition labels :: "balances \<Rightarrow> standard_account \<Rightarrow> (standard_account \<times> account_class) option" where
  "labels m a = map_option (\<lambda>b. (ab_account b, ab_class b)) (m a)"

lemma posting_keeps_labels:
  "labels (snd (apply_debit_posting p m)) = labels m" "labels (snd (apply_credit_posting p m)) = labels m"
  by (auto simp: apply_debit_posting_def apply_credit_posting_def refresh_net_def labels_def
      split: option.splits)

lemma try_fold_keeps:
  fixes g :: "'s \<Rightarrow> 'b"
  shows "(\<And>x s. g (snd (f x s)) = g s) \<Longrightarrow> g (snd (try_fold f xs s)) = g s"
proof (induction xs arbitrary: s)
  case (Cons x xs)
  obtain r s1 where "f x s = (r, s1)" by (rule prod.exhaust)
  with Cons.IH [OF Cons.prems, of s1] Cons.prems [of x s] show ?case by (cases r) simp_all
qed simp

lemma apply_postings_labels: "apply_postings e m = (r, m') \<Longrightarrow> labels m' = labels m"
  using try_fold_keeps [of labels apply_debit_posting "debits e" m, OF posting_keeps_labels(1)]
    try_fold_keeps [of labels apply_credit_posting "credits e", OF posting_keeps_labels(2)]
  by (auto simp: apply_postings_def split: prod.splits sum.splits) (metis snd_conv)+

lemma labels_dom: "dom (labels m) = dom m"
  by (auto simp: labels_def dom_def)

lemma apply_postings_dom: "apply_postings e m = (r, m') \<Longrightarrow> dom m' = dom m"
  using apply_postings_labels [of e m r m'] labels_dom by metis

lemma balance_values_set: "visits it m \<Longrightarrow> set (balance_values it m) = ran m"
  by (force simp: visits_def balance_values_def List.map_filter_def ran_def dom_def)

text \<open>An error keeps the journal and the receipts; before the postings it keeps everything.\<close>

definition late_error :: "ledger_error \<Rightarrow> bool" where
  "late_error err \<longleftrightarrow> (case err of NegativeBalance _ _ \<Rightarrow> True | BalanceOverflow _ \<Rightarrow> True
     | AccountNotFound _ \<Rightarrow> True | _ \<Rightarrow> False)"

lemma validate_error_early: "validate_entry c s e = Inl err \<Longrightarrow> \<not> late_error err"
  by (auto simp: validate_entry_def check_previous_def Let_def result_simps late_error_def
      split: option.splits)

lemma post_entry_err_keeps:
  assumes "post_entry c it s e = (Inl err, s')"
  shows "il_entries s' = il_entries s \<and> il_receipts s' = il_receipts s"
  using assms by (cases rule: post_entry_outcome) simp_all

text \<open>The errors of the posting loops and of the sign check.\<close>

definition posting_error :: "balances \<Rightarrow> ledger_error \<Rightarrow> bool" where
  "posting_error m err \<longleftrightarrow> (\<exists>a. err = BalanceOverflow a \<or> err = AccountNotFound a \<and> a \<notin> dom m)"

lemma posting_errors:
  "apply_debit_posting p m = (Inl err, m') \<Longrightarrow> posting_error m err"
  "apply_credit_posting p m = (Inl err, m') \<Longrightarrow> posting_error m err"
  by (auto simp: apply_debit_posting_def apply_credit_posting_def refresh_net_def posting_error_def
      split: option.splits)

lemma try_fold_posting_error:
  assumes "\<And>p m err m'. f p m = (Inl err, m') \<Longrightarrow> posting_error m err"
    and "\<And>p m. dom (snd (f p m)) = dom m"
  shows "try_fold f ps m = (Inl err, m') \<Longrightarrow> posting_error m err"
proof (induction ps arbitrary: m)
  case (Cons p ps)
  obtain r m1 where f: "f p m = (r, m1)" by (rule prod.exhaust)
  then have "dom m1 = dom m" using assms(2) [of p m] by simp
  then have "posting_error m1 = posting_error m" by (simp add: posting_error_def fun_eq_iff)
  with Cons.prems Cons.IH [of m1] f assms(1) [of p m] show ?case
    by (cases r) auto
qed simp

lemma posting_keeps_dom:
  "dom (snd (apply_debit_posting p m)) = dom m" "dom (snd (apply_credit_posting p m)) = dom m"
  using posting_keeps_labels labels_dom by metis+

lemma apply_postings_error:
  assumes "apply_postings e m = (Inl err, m')"
  shows "posting_error m err"
proof (cases "try_fold apply_debit_posting (debits e) m")
  case (Pair r m1)
  have "dom m1 = dom m"
    using try_fold_keeps [of dom apply_debit_posting "debits e" m, OF posting_keeps_dom(1)] Pair by simp
  then show ?thesis
    using assms Pair try_fold_posting_error [of apply_debit_posting "debits e" m, OF posting_errors(1) posting_keeps_dom(1)]
      try_fold_posting_error [of apply_credit_posting "credits e" m1, OF posting_errors(2) posting_keeps_dom(2)]
    by (auto simp: apply_postings_def posting_error_def split: sum.splits)
qed

lemma sign_error:
  "check_all check_balance_sign bs = Inl err \<Longrightarrow>
     \<exists>b \<in> set bs. \<not> sign_ok b \<and> err = NegativeBalance (ab_account b) (net_balance_sats b)"
  by (induction bs)
    (auto simp: result_simps check_balance_sign_def sign_ok_def require_def
      split: account_class.splits if_splits)

lemma post_entry_early_err:
  assumes "post_entry c it s e = (Inl err, s')" and "\<not> late_error err"
  shows "s' = s"
  using assms(1)
proof (cases rule: post_entry_outcome)
  case (unposted err' m)
  then show ?thesis using assms(2) apply_postings_error by (fastforce simp: posting_error_def late_error_def)
next
  case (sign err' m)
  then show ?thesis using assms(2) sign_error by (fastforce simp: late_error_def)
qed simp_all

section \<open>Reachable ledgers\<close>

text \<open>
  A ledger is reached by a history of calls, each with its answer, accepted or refused, each
  visiting the balances in an order of its own. The entries that were refused for a sign have
  kept their postings; a \<open>BalanceOverflow\<close> has kept some of them.
\<close>

type_synonym ledger_call = "journal_entry \<times> (ledger_error + journal_receipt)"

inductive ledger_reach :: "crypto \<Rightarrow> ledger_call list \<Rightarrow> in_memory_ledger \<Rightarrow> bool" for c where
  ledger_start: "ledger_reach c [] ledger_new"
| ledger_post: "ledger_reach c h s \<Longrightarrow> visits it (il_balances s) \<Longrightarrow> post_entry c it s e = (r, s') \<Longrightarrow>
     ledger_reach c (h @ [(e, r)]) s'"

definition is_sign_refusal :: "ledger_error + 'a \<Rightarrow> bool" where
  "is_sign_refusal r = (case r of Inl (NegativeBalance _ _) \<Rightarrow> True | _ \<Rightarrow> False)"

definition is_overflow :: "ledger_error + 'a \<Rightarrow> bool" where
  "is_overflow r = (case r of Inl (BalanceOverflow _) \<Rightarrow> True | _ \<Rightarrow> False)"

definition sign_refused :: "ledger_call list \<Rightarrow> journal_entry list" where
  "sign_refused h = map fst (filter (\<lambda>(e, r). is_sign_refusal r) h)"

definition overflowed :: "ledger_call list \<Rightarrow> bool" where
  "overflowed h = (\<exists>(e, r) \<in> set h. is_overflow r)"

lemma refusal_simps [simp]:
  "is_sign_refusal (Inr x) = False" "is_overflow (Inr x) = False"
  "is_sign_refusal (Inl (NegativeBalance a n)) = True" "is_overflow (Inl (BalanceOverflow a)) = True"
  "is_sign_refusal (Inl (BalanceOverflow a)) = False" "is_overflow (Inl (NegativeBalance a n)) = False"
  by (simp_all add: is_sign_refusal_def is_overflow_def)

lemma early_refusal [simp]:
  "\<not> late_error err \<Longrightarrow> \<not> is_sign_refusal (Inl err)" "\<not> late_error err \<Longrightarrow> \<not> is_overflow (Inl err)"
  by (auto simp: is_sign_refusal_def is_overflow_def late_error_def split: ledger_error.splits)

lemma sign_refused_simps [simp]:
  "sign_refused [] = []"
  "sign_refused (h @ [(e, r)]) = sign_refused h @ (if is_sign_refusal r then [e] else [])"
  by (simp_all add: sign_refused_def)

lemma overflowed_simps [simp]:
  "\<not> overflowed []" "overflowed (h @ [(e, r)]) \<longleftrightarrow> overflowed h \<or> is_overflow r"
  by (auto simp: overflowed_def)

text \<open>What holds of every ledger that can be reached.\<close>

definition ledger_inv :: "crypto \<Rightarrow> in_memory_ledger \<Rightarrow> bool" where
  "ledger_inv c s \<longleftrightarrow> labels (il_balances s) = (\<lambda>a. Some (a, account_class_of a)) \<and>
     chain_from c 0 None (il_entries s) \<and> distinct (map entry_id (il_entries s)) \<and>
     dom (map_of (il_receipts s)) = entry_id ` set (il_entries s)"

lemma ledger_inv_new: "ledger_inv c ledger_new"
  by (simp add: ledger_inv_def ledger_new_def initial_balances_def labels_def fun_eq_iff)

lemma ledger_inv_post:
  assumes "ledger_inv c s" and "post_entry c it s e = (r, s')"
  shows "ledger_inv c s'"
  using assms(2)
proof (cases rule: post_entry_outcome)
  case (accept r' m)
  have "head_hash s = last_hash None (il_entries s)"
    by (simp add: head_hash_def last_hash_def)
  moreover have "entry_id e \<notin> set (map entry_id (il_entries s))"
    using accept(1) assms(1) unfolding ledger_inv_def by (metis domIff set_map)
  ultimately show ?thesis
    using assms(1) accept apply_postings_labels [OF accept(3)]
    by (auto simp: ledger_inv_def validate_entry_ok chain_from_snoc)
qed (use assms(1) in \<open>auto simp: ledger_inv_def dest: apply_postings_labels\<close>)

lemma ledger_reach_inv: "ledger_reach c h s \<Longrightarrow> ledger_inv c s"
  by (induction rule: ledger_reach.induct) (auto intro: ledger_inv_new ledger_inv_post)

lemma ledger_inv_dom: "ledger_inv c s \<Longrightarrow> dom (il_balances s) = UNIV"
  using labels_dom [of "il_balances s"] by (auto simp: ledger_inv_def dom_def)

text \<open>
  The books of a history without an overflow: the journal and the entries refused for a sign
  together, all of them balanced, each of them one that was posted.
\<close>

definition on_books :: "ledger_call list \<Rightarrow> in_memory_ledger \<Rightarrow> journal_entry list" where
  "on_books h s = il_entries s @ sign_refused h"

definition books_inv :: "ledger_call list \<Rightarrow> in_memory_ledger \<Rightarrow> bool" where
  "books_inv h s \<longleftrightarrow>
     books (journal_debits (on_books h s)) (journal_credits (on_books h s)) (il_balances s) \<and>
     (\<forall>e \<in> set (on_books h s). posting_sum (debits e) = posting_sum (credits e)) \<and>
     mset (on_books h s) \<subseteq># mset (map fst h) \<and>
     (sign_refused h = [] \<longrightarrow> (\<forall>b \<in> ran (il_balances s). sign_ok b))"

lemma journal_append [simp]:
  "journal_debits (es @ fs) a = journal_debits es a + journal_debits fs a"
  "journal_credits (es @ fs) a = journal_credits es a + journal_credits fs a"
  "journal_debits [] a = 0" "journal_credits [] a = 0"
  "journal_debits (e # es) a = posted a (debits e) + journal_debits es a"
  "journal_credits (e # es) a = posted a (credits e) + journal_credits es a"
  by (simp_all add: journal_debits_def journal_credits_def)

lemma books_cong:
  "books D C m \<Longrightarrow> (\<And>a. D a = D' a) \<Longrightarrow> (\<And>a. C a = C' a) \<Longrightarrow> books D' C' m"
  by (simp add: books_def)

lemma books_inv_extend:
  assumes "books_inv h s" and "validate_entry c s e = Inr ()"
    and "apply_postings e (il_balances s) = (Inr (), m)" and "il_balances s' = m"
    and "mset (on_books (h @ [(e, r)]) s') = add_mset e (mset (on_books h s))"
    and "sign_refused (h @ [(e, r)]) = [] \<Longrightarrow> \<forall>b \<in> ran m. sign_ok b"
  shows "books_inv (h @ [(e, r)]) s'"
proof -
  let ?n = "on_books (h @ [(e, r)]) s'"
  have sum: "journal_debits ?n a = journal_debits (on_books h s) a + posted a (debits e)"
    "journal_credits ?n a = journal_credits (on_books h s) a + posted a (credits e)" for a
    using arg_cong [OF assms(5), of "\<lambda>M. sum_mset (image_mset (\<lambda>e. posted a (debits e)) M)"]
      arg_cong [OF assms(5), of "\<lambda>M. sum_mset (image_mset (\<lambda>e. posted a (credits e)) M)"]
    by (simp_all add: journal_debits_def journal_credits_def flip: sum_mset_sum_list)
  have "books (journal_debits ?n) (journal_credits ?n) (il_balances s')"
    using books_apply [OF _ assms(3)] assms(1,4) by (fastforce simp: books_inv_def sum intro: books_cong)
  moreover have "set ?n = insert e (set (on_books h s))"
    using arg_cong [OF assms(5), of set_mset] by simp
  ultimately show ?thesis
    using assms(1,2,4-6) by (auto simp: books_inv_def validate_entry_ok)
qed

lemma books_inv_new: "books_inv [] ledger_new"
proof -
  have "\<forall>b \<in> ran initial_balances. sign_ok b"
    by (auto simp: initial_balances_def ran_def sign_ok_def)
  moreover have "books (journal_debits []) (journal_credits []) initial_balances"
    by (rule books_cong [OF books_initial]) simp_all
  ultimately show ?thesis
    by (simp add: books_inv_def on_books_def ledger_new_def)
qed

lemma books_inv_post:
  assumes "ledger_inv c s" and "books_inv h s" and "visits it (il_balances s)"
    and "post_entry c it s e = (r, s')" and "\<not> is_overflow r"
  shows "books_inv (h @ [(e, r)]) s'"
  using assms(4)
proof (cases rule: post_entry_outcome)
  case (unposted err m)
  then show ?thesis
    using apply_postings_error [OF unposted(2)] assms(1,5) ledger_inv_dom by (auto simp: posting_error_def)
next
  case (sign err m)
  then obtain a n where err: "err = NegativeBalance a n" using sign_error by blast
  show ?thesis
    by (rule books_inv_extend [OF assms(2) sign(1,2)]) (simp_all add: sign err on_books_def)
next
  case (accept r' m)
  have "visits it m"
    using assms(3) apply_postings_dom [OF accept(3)] by (simp add: visits_def)
  then have "\<forall>b \<in> ran m. sign_ok b"
    using accept(4) by (simp add: balance_values_set)
  then show ?thesis
    by (intro books_inv_extend [OF assms(2) accept(2,3)]) (simp_all add: accept on_books_def)
next
  case (replay r')
  then show ?thesis
    using assms(2) by (auto simp: books_inv_def on_books_def intro: subset_mset.order_trans)
next
  case (invalid err)
  then show ?thesis
    using assms(2) validate_error_early [OF invalid(1)]
    by (auto simp: books_inv_def on_books_def intro: subset_mset.order_trans)
qed

lemma ledger_reach_books: "ledger_reach c h s \<Longrightarrow> \<not> overflowed h \<Longrightarrow> books_inv h s"
  by (induction rule: ledger_reach.induct)
    (auto intro: books_inv_new books_inv_post ledger_reach_inv)

text \<open>
  C3. In every ledger that can be reached by posting entries, whatever was refused on the way
  and in whatever order the balances were visited, the entries form an unbroken hash chain
  numbered from zero, no entry identifier occurs twice and the receipts are those of the
  journal. As long as no call has been answered \<open>BalanceOverflow\<close>, each account's totals are
  exactly the sums of the postings of the journal and of the entries that were refused with
  \<open>NegativeBalance\<close>, which keep their postings, and its net balance is the difference; and if
  there has been no such refusal, the totals are those of the journal alone and every balance
  has the sign of its class.
\<close>

theorem ledger_books_match_journal:
  assumes "ledger_reach c h s"
  shows "chain_from c 0 None (il_entries s) \<and> distinct (map entry_id (il_entries s)) \<and>
    dom (map_of (il_receipts s)) = entry_id ` set (il_entries s) \<and>
    (\<not> overflowed h \<longrightarrow> (\<exists>b. ledger_account_balance s a = Inr b \<and>
      unat (total_debits_sats b) = journal_debits (il_entries s @ sign_refused h) a \<and>
      unat (total_credits_sats b) = journal_credits (il_entries s @ sign_refused h) a \<and>
      net_balance_sats b = sint (total_debits_sats b) - sint (total_credits_sats b) \<and>
      (sign_refused h = [] \<longrightarrow> sign_ok b)))"
proof -
  have "\<exists>b. ledger_account_balance s a = Inr b \<and>
      unat (total_debits_sats b) = journal_debits (il_entries s @ sign_refused h) a \<and>
      unat (total_credits_sats b) = journal_credits (il_entries s @ sign_refused h) a \<and>
      net_balance_sats b = sint (total_debits_sats b) - sint (total_credits_sats b) \<and>
      (sign_refused h = [] \<longrightarrow> sign_ok b)" if "\<not> overflowed h"
  proof -
    have inv: "books_inv h s" using assms that by (rule ledger_reach_books)
    then obtain b where "il_balances s a = Some b"
        "unat (total_debits_sats b) = journal_debits (il_entries s @ sign_refused h) a"
        "unat (total_credits_sats b) = journal_credits (il_entries s @ sign_refused h) a"
        "net_balance_sats b = sint (total_debits_sats b) - sint (total_credits_sats b)"
      unfolding books_inv_def books_def on_books_def by blast
    with inv show ?thesis
      by (auto simp: ledger_account_balance_def books_inv_def ran_def)
  qed
  with ledger_reach_inv [OF assms] show ?thesis by (simp add: ledger_inv_def)
qed

definition demo_entry :: journal_entry where
  "demo_entry = (let e = \<lparr>entry_id = ''e1'', je_sequence = 0, description = ''deposit'',
      debits = [\<lparr>po_account = AssetHotBtc, po_amount_sats = 5\<rparr>],
      credits = [\<lparr>po_account = LiabilityUserBalances, po_amount_sats = 5\<rparr>],
      timestamp_bucket = 9, entry_hash = [], previous_entry_hash = None\<rparr>
    in e\<lparr>entry_hash := entry_computed_hash demo_crypto e None\<rparr>)"

definition demo_bad_entry :: journal_entry where
  "demo_bad_entry = (let e = \<lparr>entry_id = ''e2'', je_sequence = 0, description = ''overdraft'',
      debits = [\<lparr>po_account = LiabilityUserBalances, po_amount_sats = 5\<rparr>],
      credits = [\<lparr>po_account = AssetHotBtc, po_amount_sats = 5\<rparr>],
      timestamp_bucket = 9, entry_hash = [], previous_entry_hash = None\<rparr>
    in e\<lparr>entry_hash := entry_computed_hash demo_crypto e None\<rparr>)"

lemma demo_entry_fields [simp]:
  "entry_id demo_entry = ''e1''"
  "debits demo_entry = [\<lparr>po_account = AssetHotBtc, po_amount_sats = 5\<rparr>]"
  "credits demo_entry = [\<lparr>po_account = LiabilityUserBalances, po_amount_sats = 5\<rparr>]"
  "entry_id demo_bad_entry = ''e2''"
  "debits demo_bad_entry = [\<lparr>po_account = LiabilityUserBalances, po_amount_sats = 5\<rparr>]"
  "credits demo_bad_entry = [\<lparr>po_account = AssetHotBtc, po_amount_sats = 5\<rparr>]"
  by (simp_all add: demo_entry_def demo_bad_entry_def Let_def)

lemma ledger_new_fields [simp]:
  "il_entries ledger_new = []" "il_balances ledger_new = initial_balances" "il_receipts ledger_new = []"
  by (simp_all add: ledger_new_def)

lemma visits_initial [simp]: "visits all_accounts initial_balances"
  by (auto simp: visits_def initial_balances_def)

lemmas posting_eval = initial_balances_def apply_postings_def apply_debit_posting_def
  apply_credit_posting_def refresh_net_def net_of_def i128_checked_sub_def checked_add_def
  check_balance_sign_def require_def balance_values_def

lemma demo_entries_valid:
  "validate_entry demo_crypto ledger_new demo_entry = Inr ()"
  "validate_entry demo_crypto ledger_new demo_bad_entry = Inr ()"
  by (simp_all add: validate_entry_ok head_hash_def posting_sum_def)
    (simp_all add: demo_entry_def demo_bad_entry_def Let_def entry_computed_hash_def)

lemma demo_entry_posts:
  "\<exists>r. fst (post_entry demo_crypto all_accounts ledger_new demo_entry) = Inr r \<and>
    il_entries (snd (post_entry demo_crypto all_accounts ledger_new demo_entry)) = [demo_entry]"
  by (simp add: post_entry_def demo_entries_valid posting_eval)
    (simp add: all_accounts_def check_balance_sign_def require_def Let_def)

lemma demo_bad_entry_refused:
  "\<exists>a n. fst (post_entry demo_crypto all_accounts ledger_new demo_bad_entry) = Inl (NegativeBalance a n)"
  by (simp add: post_entry_def demo_entries_valid posting_eval Let_def)
    (simp add: all_accounts_def check_balance_sign_def require_def)

text \<open>The ledgers after an accepted and after a refused entry.\<close>

definition demo_ledger :: in_memory_ledger where
  "demo_ledger = snd (post_entry demo_crypto all_accounts ledger_new demo_entry)"

definition demo_bad_ledger :: in_memory_ledger where
  "demo_bad_ledger = snd (post_entry demo_crypto all_accounts ledger_new demo_bad_entry)"

lemma demo_ledger_reach: "\<exists>r. ledger_reach demo_crypto [(demo_entry, Inr r)] demo_ledger"
  using demo_entry_posts ledger_post [OF ledger_start, of all_accounts demo_crypto demo_entry]
  by (fastforce simp: demo_ledger_def intro: prod_eqI)

lemma demo_bad_ledger_reach:
  "\<exists>a n. ledger_reach demo_crypto [(demo_bad_entry, Inl (NegativeBalance a n))] demo_bad_ledger"
  using demo_bad_entry_refused ledger_post [OF ledger_start, of all_accounts demo_crypto demo_bad_entry]
  by (fastforce simp: demo_bad_ledger_def intro: prod_eqI)

theorem ledger_books_match_journal_witness:
  "\<exists>b. ledger_account_balance demo_bad_ledger LiabilityUserBalances = Inr b \<and> unat (total_debits_sats b) = 5 \<and>
     il_entries demo_bad_ledger = []"
proof -
  obtain a n where reach: "ledger_reach demo_crypto [(demo_bad_entry, Inl (NegativeBalance a n))] demo_bad_ledger"
    using demo_bad_ledger_reach by blast
  obtain a' n' where "post_entry demo_crypto all_accounts ledger_new demo_bad_entry =
      (Inl (NegativeBalance a' n'), demo_bad_ledger)"
    using demo_bad_entry_refused by (metis demo_bad_ledger_def prod.collapse)
  then have es: "il_entries demo_bad_ledger = []"
    using post_entry_err_keeps by fastforce
  have h: "sign_refused [(demo_bad_entry, Inl (NegativeBalance a n))] = [demo_bad_entry]"
    "\<not> overflowed [(demo_bad_entry, Inl (NegativeBalance a n))]"
    by (simp_all add: sign_refused_def overflowed_def)
  show ?thesis
    using ledger_books_match_journal [OF reach, of LiabilityUserBalances] h(2) unfolding es h(1) by auto
qed

section \<open>The trial balance\<close>

text \<open>Amounts that total below \<open>2 ^ 127\<close> never overflow a balance.\<close>

lemma sint_small:
  assumes "unat (w :: u128) < 2 ^ 127"
  shows "0 \<le> sint w \<and> sint w < 2 ^ 127"
proof -
  have "int (unat w) < int (2 ^ 127)" using assms by (simp only: of_nat_less_iff)
  then have "uint w < 2 ^ 127" by simp
  then have "sint w = uint w"
    by (simp add: sint_uint signed_take_bit_int_eq_self order.trans [OF _ uint_ge_0])
  then show ?thesis using \<open>uint w < 2 ^ 127\<close> by simp
qed

lemma net_of_small:
  "unat (total_debits_sats b) < 2 ^ 127 \<Longrightarrow> unat (total_credits_sats b) < 2 ^ 127 \<Longrightarrow> net_of b \<noteq> None"
  using sint_small [of "total_debits_sats b"] sint_small [of "total_credits_sats b"]
  unfolding net_of_def i128_checked_sub_def Let_def by (auto split: if_splits)

lemma debit_posting_fits:
  assumes "books D C m" and "D (po_account p) + unat (po_amount_sats p) < 2 ^ 127" and "C (po_account p) < 2 ^ 127"
  shows "\<exists>m'. apply_debit_posting p m = (Inr (), m')"
proof -
  obtain b where b: "m (po_account p) = Some b"
      "unat (total_debits_sats b) = D (po_account p)" "unat (total_credits_sats b) = C (po_account p)"
    using assms(1) unfolding books_def by blast
  then obtain t where t: "checked_add (total_debits_sats b) (ucast (po_amount_sats p)) = Some t"
      "unat t = D (po_account p) + unat (po_amount_sats p)"
    using assms(2) by (cases "checked_add (total_debits_sats b) (ucast (po_amount_sats p))")
      (auto simp: checked_add_Some checked_add_None)
  then have "net_of (b\<lparr>total_debits_sats := t\<rparr>) \<noteq> None"
    using assms b by (intro net_of_small) simp_all
  then show ?thesis by (auto simp: apply_debit_posting_def b t refresh_net_def)
qed

lemma credit_posting_fits:
  assumes "books D C m" and "C (po_account p) + unat (po_amount_sats p) < 2 ^ 127" and "D (po_account p) < 2 ^ 127"
  shows "\<exists>m'. apply_credit_posting p m = (Inr (), m')"
proof -
  obtain b where b: "m (po_account p) = Some b"
      "unat (total_debits_sats b) = D (po_account p)" "unat (total_credits_sats b) = C (po_account p)"
    using assms(1) unfolding books_def by blast
  then obtain t where t: "checked_add (total_credits_sats b) (ucast (po_amount_sats p)) = Some t"
      "unat t = C (po_account p) + unat (po_amount_sats p)"
    using assms(2) by (cases "checked_add (total_credits_sats b) (ucast (po_amount_sats p))")
      (auto simp: checked_add_Some checked_add_None)
  then have "net_of (b\<lparr>total_credits_sats := t\<rparr>) \<noteq> None"
    using assms b by (intro net_of_small) simp_all
  then show ?thesis by (auto simp: apply_credit_posting_def b t refresh_net_def)
qed

lemma debits_fit:
  "books D C m \<Longrightarrow> (\<And>a. D a + posted a ps < 2 ^ 127) \<Longrightarrow> (\<And>a. C a < 2 ^ 127) \<Longrightarrow>
     \<exists>m'. try_fold apply_debit_posting ps m = (Inr (), m')"
proof (induction ps arbitrary: D m)
  case (Cons p ps)
  have "D (po_account p) + unat (po_amount_sats p) < 2 ^ 127"
    using Cons.prems(2) [of "po_account p"] by simp
  then obtain m1 where m1: "apply_debit_posting p m = (Inr (), m1)"
    using debit_posting_fits [OF Cons.prems(1)] Cons.prems(3) by blast
  have "(D(po_account p := D (po_account p) + unat (po_amount_sats p))) a + posted a ps < 2 ^ 127" for a
    using Cons.prems(2) [of a] by (auto simp: ac_simps)
  then show ?case
    using Cons.IH [OF books_debit_posting [OF Cons.prems(1) m1]] Cons.prems(3) m1 by simp
qed simp

lemma credits_fit:
  "books D C m \<Longrightarrow> (\<And>a. C a + posted a ps < 2 ^ 127) \<Longrightarrow> (\<And>a. D a < 2 ^ 127) \<Longrightarrow>
     \<exists>m'. try_fold apply_credit_posting ps m = (Inr (), m')"
proof (induction ps arbitrary: C m)
  case (Cons p ps)
  have "C (po_account p) + unat (po_amount_sats p) < 2 ^ 127"
    using Cons.prems(2) [of "po_account p"] by simp
  then obtain m1 where m1: "apply_credit_posting p m = (Inr (), m1)"
    using credit_posting_fits [OF Cons.prems(1)] Cons.prems(3) by blast
  have "(C(po_account p := C (po_account p) + unat (po_amount_sats p))) a + posted a ps < 2 ^ 127" for a
    using Cons.prems(2) [of a] by (auto simp: ac_simps)
  then show ?case
    using Cons.IH [OF books_credit_posting [OF Cons.prems(1) m1]] Cons.prems(3) m1 by simp
qed simp

lemma apply_postings_fit:
  assumes "books D C m" and "\<And>a. D a + posted a (debits e) < 2 ^ 127" and "\<And>a. C a + posted a (credits e) < 2 ^ 127"
  shows "\<exists>m'. apply_postings e m = (Inr (), m')"
proof -
  have "C a < 2 ^ 127" for a using assms(3) [of a] by simp
  then obtain m1 where m1: "try_fold apply_debit_posting (debits e) m = (Inr (), m1)"
    using debits_fit [OF assms(1,2)] by blast
  from credits_fit [OF books_debits [OF assms(1) m1] assms(3,2)] m1 show ?thesis
    by (auto simp: apply_postings_def)
qed

text \<open>The turnover of a history: all amounts of all entries posted, accepted or not.\<close>

definition entry_volume :: "journal_entry \<Rightarrow> nat" where
  "entry_volume e = volume (debits e) + volume (credits e)"

definition turnover :: "ledger_call list \<Rightarrow> nat" where
  "turnover h = sum_list (map (\<lambda>(e, r). entry_volume e) h)"

lemma posted_le_volume: "posted a ps \<le> volume ps"
  by (induction ps) (auto simp: volume_def)

lemma journal_le_volume:
  "journal_debits es a + journal_credits es a \<le> sum_list (map entry_volume es)"
proof (induction es)
  case (Cons e es)
  then show ?case
    using posted_le_volume [of a "debits e"] posted_le_volume [of a "credits e"]
    by (simp add: entry_volume_def)
qed simp

lemma on_books_volume:
  assumes "books_inv h s"
  shows "sum_list (map entry_volume (on_books h s)) \<le> turnover h"
proof -
  obtain M where "mset (map fst h) = mset (on_books h s) + M"
    using assms unfolding books_inv_def by (meson mset_subset_eq_exists_conv)
  then have "sum_mset (image_mset entry_volume (mset (on_books h s))) \<le>
      sum_mset (image_mset entry_volume (mset (map fst h)))"
    by simp
  then have "sum_list (map entry_volume (on_books h s)) \<le> sum_list (map entry_volume (map fst h))"
    by (simp only: sum_mset_sum_list flip: mset_map)
  also have "map entry_volume (map fst h) = map (\<lambda>(e, r). entry_volume e) h" by auto
  finally show ?thesis by (simp add: turnover_def)
qed

lemma no_overflow_post:
  assumes "books_inv h s" and "turnover (h @ [(e, r)]) < 2 ^ 127" and "post_entry c it s e = (r, s')"
  shows "\<not> is_overflow r"
proof -
  have room: "journal_debits (on_books h s) a + journal_credits (on_books h s) a +
      posted a (debits e) + posted a (credits e) < 2 ^ 127" for a
    using assms(2) on_books_volume [OF assms(1)] journal_le_volume [of "on_books h s" a]
      posted_le_volume [of a "debits e"] posted_le_volume [of a "credits e"]
    by (simp add: turnover_def entry_volume_def)
  have "journal_debits (on_books h s) a + posted a (debits e) < 2 ^ 127"
    "journal_credits (on_books h s) a + posted a (credits e) < 2 ^ 127" for a
    using room [of a] by simp_all
  then obtain m where "apply_postings e (il_balances s) = (Inr (), m)"
    using apply_postings_fit assms(1) unfolding books_inv_def by blast
  with assms(3) show ?thesis
    by (cases rule: post_entry_outcome) (auto dest: sign_error validate_error_early)
qed

lemma small_turnover_no_overflow: "ledger_reach c h s \<Longrightarrow> turnover h < 2 ^ 127 \<Longrightarrow> \<not> overflowed h"
proof (induction rule: ledger_reach.induct)
  case (ledger_post h s it e r s')
  then have "\<not> overflowed h" by (simp add: turnover_def)
  with ledger_post show ?case
    using no_overflow_post [OF ledger_reach_books] by simp
qed simp

text \<open>
  What the visiting order does not change: the sorted balances and the trial balance hash.
\<close>

lemma sorted_balances_eq:
  assumes "labels m = (\<lambda>a. Some (a, account_class_of a))" and "visits it m"
  shows "sorted_balances it m = map (\<lambda>a. the (m a)) all_accounts"
proof -
  have name: "m a \<noteq> None" "ab_account (the (m a)) = a" for a
    using fun_cong [OF assms(1), of a] by (auto simp: labels_def)
  have vals: "balance_values it m = map (\<lambda>a. the (m a)) it"
    by (auto simp: balance_values_def List.map_filter_def name(1) o_def)
  have "mset it = mset all_accounts"
    using assms(2) name(1) by (intro set_eq_iff_mset_eq_distinct [THEN iffD1]) (auto simp: visits_def dom_def)
  then have "mset (map (\<lambda>a. the (m a)) it) = mset (map (\<lambda>a. the (m a)) all_accounts)" by simp
  moreover have "inj_on ab_account (set (map (\<lambda>a. the (m a)) it))"
    by (auto simp: inj_on_def name(2))
  ultimately show ?thesis
    unfolding sorted_balances_def vals
    by (intro sort_key_inj_key_eq) (simp_all add: o_def name(2))
qed

lemma trial_balance_hash_order:
  assumes "dom m = UNIV" and "visits it m" and "visits it' m"
  shows "compute_trial_balance_hash c it m = compute_trial_balance_hash c it' m"
proof -
  have "mset it = mset it'"
    using assms by (intro set_eq_iff_mset_eq_distinct [THEN iffD1]) (auto simp: visits_def)
  then have "sort (balance_keys it m) = sort (balance_keys it' m)"
    unfolding balance_keys_def by (intro properties_for_sort) simp_all
  then show ?thesis by (simp add: compute_trial_balance_hash_def)
qed

lemma sum_journal:
  "sum_list (map (journal_debits es) all_accounts) = sum_list (map (\<lambda>e. volume (debits e)) es)"
  "sum_list (map (journal_credits es) all_accounts) = sum_list (map (\<lambda>e. volume (credits e)) es)"
  by (induction es)
    (simp_all add: journal_debits_def [abs_def] journal_credits_def [abs_def] sum_list_addf sum_posted)

lemma books_sum:
  assumes "books D C m"
  shows "sum_list (map (\<lambda>a. unat (total_debits_sats (the (m a)))) all_accounts) = sum_list (map D all_accounts) \<and>
    sum_list (map (\<lambda>a. unat (total_credits_sats (the (m a)))) all_accounts) = sum_list (map C all_accounts)"
proof -
  have "unat (total_debits_sats (the (m a))) = D a \<and> unat (total_credits_sats (the (m a))) = C a" for a
    using assms unfolding books_def by (metis option.sel)
  then show ?thesis by simp
qed

lemma unat_posting_sum: "volume ps < 2 ^ 128 \<Longrightarrow> unat (posting_sum ps) = volume ps"
  unfolding posting_sum_def volume_def by (subst unat_sum_u128) simp_all

lemma volume_balanced:
  assumes "books_inv h s" and "turnover h < 2 ^ 127" and "e \<in> set (on_books h s)"
  shows "volume (debits e) = volume (credits e)"
proof -
  have "entry_volume e \<le> sum_list (map entry_volume (on_books h s))"
    using assms(3) by (intro member_le_sum_list) auto
  then have "volume (debits e) < 2 ^ 128" "volume (credits e) < 2 ^ 128"
    using assms(2) on_books_volume [OF assms(1)] by (simp_all add: entry_volume_def)
  then show ?thesis
    using assms(1,3) unat_posting_sum [of "debits e"] unat_posting_sum [of "credits e"]
    by (simp add: books_inv_def)
qed

text \<open>
  C37. The trial balance balances, refusals included: in every ledger reached by a history of
  calls, accepted or refused, whose amounts total below \<open>2 ^ 127\<close> satoshis, no call was answered
  \<open>BalanceOverflow\<close>, the trial balance lists each account once, in order, whatever the order
  the map was visited in, and the debits over all accounts equal the credits over all accounts.
\<close>

theorem trial_balance_balances:
  assumes "ledger_reach c h s" and "turnover h < 2 ^ 127" and "visits it (il_balances s)"
  shows "\<not> overflowed h \<and> map ab_account (trial_balance it s) = all_accounts \<and>
    sum_list (map (\<lambda>b. unat (total_debits_sats b)) (trial_balance it s)) =
    sum_list (map (\<lambda>b. unat (total_credits_sats b)) (trial_balance it s))"
proof -
  have no: "\<not> overflowed h" using assms(1,2) by (rule small_turnover_no_overflow)
  have inv: "books_inv h s" using assms(1) no by (rule ledger_reach_books)
  have lab: "labels (il_balances s) = (\<lambda>a. Some (a, account_class_of a))"
    using ledger_reach_inv [OF assms(1)] by (simp add: ledger_inv_def)
  have tb: "trial_balance it s = map (\<lambda>a. the (il_balances s a)) all_accounts"
    unfolding trial_balance_def by (rule sorted_balances_eq [OF lab assms(3)])
  have "map (\<lambda>e. volume (debits e)) (on_books h s) = map (\<lambda>e. volume (credits e)) (on_books h s)"
    using volume_balanced [OF inv assms(2)] by simp
  then have "sum_list (map (journal_debits (on_books h s)) all_accounts) =
      sum_list (map (journal_credits (on_books h s)) all_accounts)"
    by (simp only: sum_journal)
  moreover have "ab_account (the (il_balances s a)) = a" for a
    using fun_cong [OF lab, of a] by (auto simp: labels_def)
  ultimately show ?thesis
    using no books_sum [of _ _ "il_balances s"] inv unfolding tb books_inv_def by (simp add: o_def) metis
qed

theorem trial_balance_balances_witness:
  "sum_list (map (\<lambda>b. unat (total_debits_sats b)) (trial_balance all_accounts demo_bad_ledger)) =
   sum_list (map (\<lambda>b. unat (total_credits_sats b)) (trial_balance all_accounts demo_bad_ledger))"
proof -
  obtain a n where reach: "ledger_reach demo_crypto [(demo_bad_entry, Inl (NegativeBalance a n))] demo_bad_ledger"
    using demo_bad_ledger_reach by blast
  have "visits all_accounts (il_balances demo_bad_ledger)"
    using ledger_inv_dom [OF ledger_reach_inv [OF reach]] by (simp add: visits_def)
  from trial_balance_balances [OF reach _ this] show ?thesis
    by (simp add: turnover_def entry_volume_def volume_def)
qed

section \<open>The port\<close>

text \<open>
  A call may depend on something beside the state and the entry, here the order in which the
  map is visited; each call of a sequence has its own.
\<close>

locale ledger_port =
  fixes post :: "'o \<Rightarrow> 's \<Rightarrow> journal_entry \<Rightarrow> ('s, journal_receipt) mut_result"
    and receipt :: "'s \<Rightarrow> string \<Rightarrow> journal_receipt option"
    and journal :: "'s \<Rightarrow> journal_entry list"
  assumes replays: "receipt s (entry_id e) = Some r \<Longrightarrow> post i s e = (Inr r, s)"
    and commits: "receipt s (entry_id e) = None \<Longrightarrow> post i s e = (Inr r, s') \<Longrightarrow>
      journal s' = journal s @ [e] \<and> receipt s' = (receipt s)(entry_id e \<mapsto> r)"
    and refuses: "post i s e = (Inl err, s') \<Longrightarrow> journal s' = journal s \<and> receipt s' = receipt s"
begin

lemma post_extends:
  "(\<exists>es. journal (snd (post i s e)) = journal s @ es) \<and>
   (receipt s k = Some r \<longrightarrow> receipt (snd (post i s e)) k = Some r)"
proof (cases "post i s e")
  case (Pair res s')
  show ?thesis
  proof (cases "receipt s (entry_id e)")
    case None
    with Pair show ?thesis
      using commits [OF None, of i _ s'] refuses [of i s e _ s'] by (cases res) auto
  next
    case (Some r')
    then show ?thesis by (simp add: replays)
  qed
qed

lemma journal_append_only:
  "\<exists>es. journal (fold (\<lambda>(i, e) s. snd (post i s e)) qs s) = journal s @ es"
proof (induction qs arbitrary: s)
  case (Cons q qs)
  obtain i e where q: "q = (i, e)" by (rule prod.exhaust)
  obtain es fs where "journal (snd (post i s e)) = journal s @ es"
      "journal (fold (\<lambda>(i, e) s. snd (post i s e)) qs (snd (post i s e))) = journal (snd (post i s e)) @ fs"
    using post_extends Cons.IH by blast
  then show ?case by (simp add: q)
qed simp

lemma post_once:
  assumes "post i s e = (Inr r, s')" and "entry_id f = entry_id e"
  shows "post j (fold (\<lambda>(i, q) t. snd (post i t q)) qs s') f =
    (Inr r, fold (\<lambda>(i, q) t. snd (post i t q)) qs s')"
proof -
  have "receipt s' (entry_id e) = Some r"
    using assms(1) replays [of s e _ i] commits [of s e i r s'] by (cases "receipt s (entry_id e)") auto
  then have "receipt (fold (\<lambda>(i, q) t. snd (post i t q)) qs s') (entry_id f) = Some r"
    unfolding assms(2) using post_extends by (induction qs arbitrary: s') auto
  then show ?thesis by (rule replays)
qed

end

interpretation im_ledger: ledger_port "post_entry c" "\<lambda>s. map_of (il_receipts s)" il_entries for c
proof
  fix s e i r s'
  assume none: "map_of (il_receipts s) (entry_id e) = None" and "post_entry c i s e = (Inr r, s')"
  from this(2) show "il_entries s' = il_entries s @ [e] \<and>
      map_of (il_receipts s') = (map_of (il_receipts s))(entry_id e \<mapsto> r)"
    by (cases rule: post_entry_outcome) (use none in simp_all)
qed (auto simp: post_entry_replay dest: post_entry_err_keeps)

text \<open>
  Posting is idempotent: once an entry has been accepted, posting any entry with the same
  identifier, after any number of other posts, returns the receipt of the first and changes
  nothing; and the journal only ever grows at its end.
\<close>

theorem post_entry_idempotent:
  assumes "post_entry c it s e = (Inr r, s')" and "entry_id f = entry_id e"
  shows "post_entry c it' (fold (\<lambda>(i, q) t. snd (post_entry c i t q)) qs s') f =
      (Inr r, fold (\<lambda>(i, q) t. snd (post_entry c i t q)) qs s') \<and>
    (\<exists>es. il_entries (fold (\<lambda>(i, q) t. snd (post_entry c i t q)) qs s') = il_entries s' @ es)"
  using im_ledger.post_once [OF assms] im_ledger.journal_append_only by auto

theorem post_entry_idempotent_witness:
  "fst (post_entry demo_crypto (rev all_accounts) demo_ledger (demo_entry\<lparr>description := ''other''\<rparr>)) =
     fst (post_entry demo_crypto all_accounts ledger_new demo_entry)"
proof -
  obtain r where r: "post_entry demo_crypto all_accounts ledger_new demo_entry = (Inr r, demo_ledger)"
    using demo_entry_posts by (metis demo_ledger_def prod.collapse)
  from post_entry_idempotent [OF r, of "demo_entry\<lparr>description := ''other''\<rparr>" "rev all_accounts" "[]"]
  show ?thesis by (simp add: r)
qed

section \<open>The head hash commits to the journal\<close>

lemma account_debug_colon: "CHR '':'' \<notin> set (account_debug a)"
  by (cases a) simp_all

lemma account_debug_inject: "account_debug a = account_debug b \<longleftrightarrow> a = b"
  by (cases a; cases b) simp_all

lemma postings_buf_simps:
  "postings_buf [] = []"
  "postings_buf (p # ps) = str_bytes (account_debug (po_account p) @ '':'') @
     u64_le (po_amount_sats p) @ str_bytes '','' @ postings_buf ps"
  by (simp_all add: postings_buf_def str_bytes_append)

lemma bytes_split_at:
  assumes "str_bytes (a @ [k]) @ x = str_bytes (b @ [k]) @ y" and "k \<notin> set a" and "k \<notin> set b"
  shows "a = b \<and> x = y"
  using assms
proof (induction a arbitrary: b)
  case Nil
  then show ?case by (cases b) (auto simp: str_bytes_def of_char_inj)
next
  case (Cons z a)
  then show ?case by (cases b) (auto simp: str_bytes_def of_char_inj)
qed

lemma postings_buf_inject: "postings_buf ps = postings_buf qs \<Longrightarrow> ps = qs"
proof (induction ps arbitrary: qs)
  case Nil
  then show ?case by (cases qs) (simp_all add: postings_buf_simps str_bytes_def)
next
  case (Cons p ps)
  then obtain q qs' where qs: "qs = q # qs'"
    by (cases qs) (simp_all add: postings_buf_simps str_bytes_def)
  have "account_debug (po_account p) = account_debug (po_account q) \<and>
      u64_le (po_amount_sats p) @ str_bytes '','' @ postings_buf ps =
      u64_le (po_amount_sats q) @ str_bytes '','' @ postings_buf qs'"
    using Cons.prems unfolding qs postings_buf_simps
    by (rule bytes_split_at) (rule account_debug_colon)+
  then have "po_account p = po_account q" "po_amount_sats p = po_amount_sats q"
      "postings_buf ps = postings_buf qs'"
    by (auto simp: account_debug_inject append_eq_append_conv)
  with Cons.IH [of qs'] show ?case by (simp add: qs)
qed

definition no_bar :: "string \<Rightarrow> bool" where
  "no_bar s \<longleftrightarrow> CHR ''|'' \<notin> set s"

lemma no_bar_hex: "crypto_ok c \<Longrightarrow> no_bar (hex_encode c b)"
  by (simp add: no_bar_def crypto_ok_hex_digit)

lemma no_bar_show: "no_bar (show_word w)"
  using show_nat_not_sign [of "CHR ''|''"] by (auto simp: no_bar_def show_word_def)

lemma bar_split: "a @ ''|'' @ x = b @ ''|'' @ y \<Longrightarrow> no_bar a \<Longrightarrow> no_bar b \<Longrightarrow> a = b \<and> x = y"
  using split_at_sep [of a "CHR ''|''" x b y] by (simp add: no_bar_def)

text \<open>The texts hashed for one entry, and for a journal.\<close>

definition entry_text :: "crypto \<Rightarrow> journal_entry \<Rightarrow> string" where
  "entry_text c e = entry_material c (entry_id e) (je_sequence e) (description e) (debits e)
     (credits e) (timestamp_bucket e) (previous_entry_hash e)"

definition entry_texts :: "crypto \<Rightarrow> journal_entry \<Rightarrow> bytes set" where
  "entry_texts c e = {postings_buf (debits e), postings_buf (credits e), str_bytes (entry_text c e)}"

lemma entry_text_inject:
  assumes "crypto_ok c" and "entry_text c e = entry_text c f"
    and "inj_on (sha256 c) T" and "entry_texts c e \<subseteq> T" and "entry_texts c f \<subseteq> T"
    and "no_bar (entry_id e)" "no_bar (entry_id f)" "no_bar (description e)" "no_bar (description f)"
    and "pred_option no_bar (previous_entry_hash e)" "pred_option no_bar (previous_entry_hash f)"
  shows "entry_id e = entry_id f \<and> je_sequence e = je_sequence f \<and> description e = description f \<and>
    debits e = debits f \<and> credits e = credits f \<and> timestamp_bucket e = timestamp_bucket f \<and>
    unwrap_or (previous_entry_hash e) [] = unwrap_or (previous_entry_hash f) []"
proof -
  have prev: "no_bar (unwrap_or (previous_entry_hash e) [])" "no_bar (unwrap_or (previous_entry_hash f) [])"
    using assms(10,11) by (cases "previous_entry_hash e"; cases "previous_entry_hash f";
        simp add: no_bar_def)+
  note m = assms(2) [unfolded entry_text_def entry_material_def]
  note f1 = bar_split [OF m assms(6,7)]
  note f2 = bar_split [OF f1 [THEN conjunct2] no_bar_show no_bar_show]
  note f3 = bar_split [OF f2 [THEN conjunct2] assms(8,9)]
  note f4 = bar_split [OF f3 [THEN conjunct2, unfolded hash_postings_def] no_bar_hex [OF assms(1)] no_bar_hex [OF assms(1)]]
  note f5 = bar_split [OF f4 [THEN conjunct2] no_bar_hex [OF assms(1)] no_bar_hex [OF assms(1)]]
  note f6 = bar_split [OF f5 [THEN conjunct2] prev]
  have "sha256 c (postings_buf (debits e)) = sha256 c (postings_buf (debits f))"
    "sha256 c (postings_buf (credits e)) = sha256 c (postings_buf (credits f))"
    using f4 f5 by (simp_all add: crypto_ok_hex_inject [OF assms(1)])
  then have "postings_buf (debits e) = postings_buf (debits f)"
    "postings_buf (credits e) = postings_buf (credits f)"
    using assms(4,5) inj_onD [OF assms(3)] by (auto simp: entry_texts_def)
  then show ?thesis
    using f1 f2 f3 f6 by (simp add: postings_buf_inject)
qed

lemma last_hash_no_bar:
  "crypto_ok c \<Longrightarrow> chain_from c n None es \<Longrightarrow> pred_option no_bar (last_hash None es)"
  by (cases es rule: rev_cases)
    (auto simp: last_hash_def chain_from_snoc entry_computed_hash_def compute_entry_hash_def no_bar_hex)

lemma chain_determined:
  assumes "crypto_ok c" and "inj_on (sha256 c) T"
  shows "chain_from c 0 None es \<Longrightarrow> chain_from c 0 None fs \<Longrightarrow> last_hash None es = last_hash None fs \<Longrightarrow>
    length es < 2 ^ 64 \<Longrightarrow> length fs < 2 ^ 64 \<Longrightarrow>
    (\<forall>e \<in> set es \<union> set fs. entry_texts c e \<subseteq> T \<and> no_bar (entry_id e) \<and> no_bar (description e)) \<Longrightarrow> es = fs"
proof (induction es arbitrary: fs rule: rev_induct)
  case Nil
  then show ?case by (cases fs) (auto simp: last_hash_def)
next
  case (snoc e es)
  then obtain f fs' where fs: "fs = fs' @ [f]"
    by (cases fs rule: rev_cases) (auto simp: last_hash_def)
  have e: "chain_from c 0 None es" "je_sequence e = of_nat (length es)"
      "previous_entry_hash e = last_hash None es" "entry_hash e = entry_computed_hash c e (last_hash None es)"
    and f: "chain_from c 0 None fs'" "je_sequence f = of_nat (length fs')"
      "previous_entry_hash f = last_hash None fs'" "entry_hash f = entry_computed_hash c f (last_hash None fs')"
    using snoc.prems(1,2) by (auto simp: fs chain_from_snoc)
  have hash: "entry_hash e = entry_hash f"
    using snoc.prems(3) by (simp add: last_hash_def fs)
  have "sha256 c (str_bytes (entry_text c e)) = sha256 c (str_bytes (entry_text c f))"
    using hash e(3,4) f(3,4)
    by (simp add: entry_computed_hash_def compute_entry_hash_def entry_text_def
        crypto_ok_hex_inject [OF assms(1)])
  from inj_onD [OF assms(2) this] have "str_bytes (entry_text c e) = str_bytes (entry_text c f)"
    using snoc.prems(6) by (auto simp: fs entry_texts_def)
  then have "entry_text c e = entry_text c f" by simp
  then have fields: "entry_id e = entry_id f \<and> je_sequence e = je_sequence f \<and>
      description e = description f \<and> debits e = debits f \<and> credits e = credits f \<and>
      timestamp_bucket e = timestamp_bucket f \<and>
      unwrap_or (previous_entry_hash e) [] = unwrap_or (previous_entry_hash f) []"
    using snoc.prems(6) last_hash_no_bar [OF assms(1) e(1)] last_hash_no_bar [OF assms(1) f(1)]
    by (intro entry_text_inject [OF assms(1) _ assms(2)]) (auto simp: fs e(3) f(3))
  have "unat (of_nat (length es) :: u64) = unat (of_nat (length fs') :: u64)"
    using fields e(2) f(2) by simp
  then have len: "length es = length fs'"
    using snoc.prems(4,5) by (simp add: fs unat_of_nat)
  have prev: "last_hash None es = last_hash None fs'"
    using fields e(3) f(3) len by (auto simp: last_hash_def split: if_splits)
  have "es = fs'"
    using snoc.IH [OF e(1) f(1) prev] snoc.prems(4-6) by (auto simp: fs)
  moreover have "e = f"
    using fields hash prev e(3) f(3) by (intro journal_entry.equality) auto
  ultimately show ?case by (simp add: fs)
qed

text \<open>
  The head hash commits to the whole journal: two reachable ledgers whose entry
  identifiers and descriptions contain no \<open>|\<close> have the same head hash exactly when they have
  the same journal, as long as SHA-256 has no collision among the texts of their entries.
\<close>

theorem head_hash_commits:
  assumes "crypto_ok c" and "ledger_reach c h s" and "ledger_reach c k t"
    and "length (il_entries s) < 2 ^ 64" and "length (il_entries t) < 2 ^ 64"
    and "inj_on (sha256 c) (\<Union>e \<in> set (il_entries s) \<union> set (il_entries t). entry_texts c e)"
    and "\<forall>e \<in> set (il_entries s) \<union> set (il_entries t). no_bar (entry_id e) \<and> no_bar (description e)"
  shows "head_hash s = head_hash t \<longleftrightarrow> il_entries s = il_entries t"
proof
  assume "head_hash s = head_hash t"
  then have "last_hash None (il_entries s) = last_hash None (il_entries t)"
    by (simp add: head_hash_def last_hash_def)
  moreover have "chain_from c 0 None (il_entries s)" "chain_from c 0 None (il_entries t)"
    using assms(2,3) by (auto dest!: ledger_reach_inv simp: ledger_inv_def)
  ultimately show "il_entries s = il_entries t"
    using assms by (intro chain_determined [OF assms(1,6)]) auto
qed (simp add: head_hash_def)

theorem head_hash_commits_witness: "head_hash demo_ledger \<noteq> head_hash ledger_new"
proof -
  have es: "il_entries demo_ledger = [demo_entry]" using demo_entry_posts by (auto simp: demo_ledger_def)
  obtain r where reach: "ledger_reach demo_crypto [(demo_entry, Inr r)] demo_ledger"
    using demo_ledger_reach by blast
  have hex: "length (hex_encode demo_crypto (sha256 demo_crypto b)) = 64" for b
    by (simp add: demo_crypto_def length_demo_hex_encode)
  have "length (postings_buf (debits demo_entry)) = 21" "length (postings_buf (credits demo_entry)) = 31"
    by (simp_all add: postings_buf_def)
  moreover have "length (entry_text demo_crypto demo_entry) = 145"
    by (simp add: entry_text_def entry_material_def hash_postings_def hex)
      (simp add: demo_entry_def Let_def show_word_def show_nat_digit)
  ultimately have "inj_on (sha256 demo_crypto) (entry_texts demo_crypto demo_entry)"
    by (intro demo_crypto_inj) (auto simp: entry_texts_def)
  moreover have "no_bar (entry_id demo_entry)" "no_bar (description demo_entry)"
    by (simp_all add: no_bar_def demo_entry_def Let_def)
  ultimately show ?thesis
    using head_hash_commits [OF demo_crypto_ok reach ledger_start] by (simp add: es)
qed

section \<open>Refusals after the balances have been written\<close>

lemma sign_check_order:
  assumes "visits it m" and "visits it' m"
  shows "is_ok (check_all check_balance_sign (balance_values it m)) \<longleftrightarrow>
    is_ok (check_all check_balance_sign (balance_values it' m))"
proof -
  have "set (balance_values it m) = set (balance_values it' m)"
    using assms by (simp add: balance_values_set)
  then show ?thesis by (simp add: is_ok_iff check_all_Inr)
qed

lemma refusal_of_order:
  assumes "visits it (il_balances s)" and "visits it' (il_balances s)" and "post_entry c it s e = (Inl err, s')"
  shows "\<exists>err'. post_entry c it' s e = (Inl err', s') \<and>
    (err' = err \<or> is_sign_refusal (Inl err) \<and> is_sign_refusal (Inl err'))"
  using assms(3)
proof (cases rule: post_entry_outcome)
  case (sign err0 m)
  have "visits it m" "visits it' m"
    using assms(1,2) apply_postings_dom [OF sign(2)] by (simp_all add: visits_def)
  then obtain err' where err': "check_all check_balance_sign (balance_values it' m) = Inl err'"
    using sign(3) sign_check_order [of it m it'] by (cases "check_all check_balance_sign (balance_values it' m)") (auto simp: is_ok_iff)
  have "map_of (il_receipts s) (entry_id e) = None"
    using assms(3) by (cases "map_of (il_receipts s) (entry_id e)") (simp_all add: post_entry_replay)
  then show ?thesis
    using sign err' sign_error [OF sign(3)] sign_error [OF err'] by (auto simp: post_entry_def)
qed (use assms(3) in \<open>auto simp: post_entry_def split: option.splits\<close>)

text \<open>
  C38. What a refusal leaves behind, in every reachable ledger and for every order in which
  the balances are visited. A refused entry never reaches the journal or the receipts, and a
  refusal by validation leaves the ledger as it is. A refusal for a sign comes after all the
  postings and keeps them; the account it names is one whose balance has the wrong sign in the
  ledger it leaves. When the map is visited in another order the entry is refused again, with
  the same ledger left behind; only which of the wrong accounts is named depends on the order.
\<close>

theorem post_entry_refusal:
  assumes "ledger_reach c h s" and "visits it (il_balances s)" and "visits it' (il_balances s)"
    and "post_entry c it s e = (Inl err, s')"
  shows "il_entries s' = il_entries s \<and> il_receipts s' = il_receipts s \<and>
    (\<not> late_error err \<longrightarrow> s' = s) \<and>
    (\<forall>a n. err = NegativeBalance a n \<longrightarrow>
       apply_postings e (il_balances s) = (Inr (), il_balances s') \<and>
       (\<exists>b. ledger_account_balance s' a = Inr b \<and> net_balance_sats b = n \<and> \<not> sign_ok b)) \<and>
    (\<exists>err'. post_entry c it' s e = (Inl err', s') \<and>
       (err' = err \<or> is_sign_refusal (Inl err) \<and> is_sign_refusal (Inl err')))"
proof -
  have "apply_postings e (il_balances s) = (Inr (), il_balances s') \<and>
      (\<exists>b. ledger_account_balance s' a = Inr b \<and> net_balance_sats b = n \<and> \<not> sign_ok b)"
    if err: "err = NegativeBalance a n" for a n
    using assms(4)
  proof (cases rule: post_entry_outcome)
    case (sign err' m)
    have "visits it m" using assms(2) apply_postings_dom [OF sign(2)] by (simp add: visits_def)
    then obtain b where b: "b \<in> ran m" "\<not> sign_ok b" "ab_account b = a" "net_balance_sats b = n"
      using sign_error [OF sign(3)] sign(4) err by (auto simp: balance_values_set)
    then obtain a' where a': "m a' = Some b" by (auto simp: ran_def)
    have "labels m = (\<lambda>a. Some (a, account_class_of a))"
      using apply_postings_labels [OF sign(2)] ledger_reach_inv [OF assms(1)] by (simp add: ledger_inv_def)
    from fun_cong [OF this, of a'] have "a' = a" using a' b(3) by (simp add: labels_def)
    with a' b sign show ?thesis by (auto simp: ledger_account_balance_def)
  next
    case (unposted err' m)
    then show ?thesis using apply_postings_error err by (fastforce simp: posting_error_def)
  next
    case (invalid err')
    then show ?thesis using validate_error_early err by (fastforce simp: late_error_def)
  qed simp_all
  then show ?thesis
    using post_entry_err_keeps [OF assms(4)] post_entry_early_err [OF assms(4)]
      refusal_of_order [OF assms(2-4)] by blast
qed

text \<open>The overdraft of the empty ledger is refused, and what it posted is still there.\<close>

theorem post_entry_refusal_witness:
  "\<exists>a n b. post_entry demo_crypto all_accounts ledger_new demo_bad_entry =
       (Inl (NegativeBalance a n), demo_bad_ledger) \<and> il_entries demo_bad_ledger = [] \<and>
     ledger_account_balance demo_bad_ledger a = Inr b \<and> \<not> sign_ok b \<and>
     snd (post_entry demo_crypto (rev all_accounts) ledger_new demo_bad_entry) = demo_bad_ledger"
proof -
  obtain a n where run: "post_entry demo_crypto all_accounts ledger_new demo_bad_entry =
      (Inl (NegativeBalance a n), demo_bad_ledger)"
    using demo_bad_entry_refused by (metis demo_bad_ledger_def prod.collapse)
  have "visits all_accounts (il_balances ledger_new)" "visits (rev all_accounts) (il_balances ledger_new)"
    using visits_initial by (simp_all add: visits_def)
  from post_entry_refusal [OF ledger_start this run] run show ?thesis by auto
qed

end
