(* ===== verification/Ledger_State.thy ===== *)
theory Ledger_State
  imports Account_State Chain Double_Entry
begin

text \<open>
  The replicated state of the ledger and its commands (\<open>state_machine.rs\<close>, the data part)
  and the canonical state root over it (\<open>state_root.rs\<close>). The roots are shown to depend on
  the contents of the collections only, not on their order, and to determine them as long as
  SHA-256 has no collision among the texts that were hashed.
\<close>

section \<open>Commands\<close>

datatype ledger_command_type =
    CreditInternalBalance | DebitInternalBalance | ReserveBalance | CtReleaseReservation
  | CommitInternalTransfer | DetectUtxo | ConfirmUtxo | MarkUtxoSpendable | ReserveUtxo
  | ReleaseUtxo | MarkUtxoSpent | PrepareWithdrawal | AuthorizeWithdrawal | BroadcastWithdrawal
  | ConfirmWithdrawal | FailWithdrawal | ApplyChainReorganization | ConsumeIntent | ExpireIntent
  | AddObserverNode | PromoteVotingNode | RemoveNode | InstallSnapshot

text \<open>\<open>command_type as u8\<close>: the position of the variant.\<close>

fun command_type_code :: "ledger_command_type \<Rightarrow> u8" where
  "command_type_code CreditInternalBalance = 0"
| "command_type_code DebitInternalBalance = 1"
| "command_type_code ReserveBalance = 2"
| "command_type_code CtReleaseReservation = 3"
| "command_type_code CommitInternalTransfer = 4"
| "command_type_code DetectUtxo = 5"
| "command_type_code ConfirmUtxo = 6"
| "command_type_code MarkUtxoSpendable = 7"
| "command_type_code ReserveUtxo = 8"
| "command_type_code ReleaseUtxo = 9"
| "command_type_code MarkUtxoSpent = 10"
| "command_type_code PrepareWithdrawal = 11"
| "command_type_code AuthorizeWithdrawal = 12"
| "command_type_code BroadcastWithdrawal = 13"
| "command_type_code ConfirmWithdrawal = 14"
| "command_type_code FailWithdrawal = 15"
| "command_type_code ApplyChainReorganization = 16"
| "command_type_code ConsumeIntent = 17"
| "command_type_code ExpireIntent = 18"
| "command_type_code AddObserverNode = 19"
| "command_type_code PromoteVotingNode = 20"
| "command_type_code RemoveNode = 21"
| "command_type_code InstallSnapshot = 22"

record ledger_command =
  command_id :: string
  command_type :: ledger_command_type
  partition_key :: string
  expected_version :: "u64 option"
  payload_hash :: string
  authorization_commitment :: string
  lc_epoch :: u64
  created_at_bucket :: u64

definition payload_buf :: "ledger_command \<Rightarrow> bytes" where
  "payload_buf cmd = str_bytes ''KROOTv1:LedgerCommand'' @ [command_type_code (command_type cmd)] @
     (case expected_version cmd of Some v \<Rightarrow> 1 # u64_le v | None \<Rightarrow> [0]) @
     usize_le (length (partition_key cmd)) @ str_bytes (partition_key cmd) @
     usize_le (length (authorization_commitment cmd)) @ str_bytes (authorization_commitment cmd) @
     u64_le (lc_epoch cmd) @ u64_le (created_at_bucket cmd)"

definition compute_payload_hash :: "crypto \<Rightarrow> ledger_command \<Rightarrow> string" where
  "compute_payload_hash c cmd = hex_encode c (sha256 c (payload_buf cmd))"

definition ledger_command_new ::
    "crypto \<Rightarrow> string \<Rightarrow> ledger_command_type \<Rightarrow> string \<Rightarrow> u64 option \<Rightarrow> string \<Rightarrow> u64 \<Rightarrow> u64 \<Rightarrow> ledger_command" where
  "ledger_command_new c cid ty key ev auth ep bucket =
     (let cmd = \<lparr>command_id = cid, command_type = ty, partition_key = key, expected_version = ev,
            payload_hash = [], authorization_commitment = auth, lc_epoch = ep, created_at_bucket = bucket\<rparr>
      in cmd\<lparr>payload_hash := compute_payload_hash c cmd\<rparr>)"

section \<open>State\<close>

datatype consensus_profile = Single | HaCrash | BftF1 | BftF2

record membership_view =
  cluster_id :: string
  nodes :: "string list"
  active_profile :: consensus_profile

definition single_node :: "string \<Rightarrow> string \<Rightarrow> membership_view" where
  "single_node cid nid = \<lparr>cluster_id = cid, nodes = [nid], active_profile = Single\<rparr>"

record ledger_state =
  ls_version :: u64
  accounts :: "account_state list"
  journal :: "journal_entry list"
  reservations :: "reservation list"
  consumed_intents :: "string list"
  membership :: membership_view
  utxos :: "utxo_entry list"

definition ledger_state_empty :: "membership_view \<Rightarrow> ledger_state" where
  "ledger_state_empty m = \<lparr>ls_version = 0, accounts = [], journal = [], reservations = [],
     consumed_intents = [], membership = m, utxos = []\<rparr>"

definition find_account :: "ledger_state \<Rightarrow> string \<Rightarrow> account_state option" where
  "find_account s i = List.find (\<lambda>a. account_id a = i) (accounts s)"

text \<open>\<open>get_or_create_account\<close>: the account and the state, with the account added if missing.\<close>

definition get_or_create_account :: "ledger_state \<Rightarrow> string \<Rightarrow> account_state \<times> ledger_state" where
  "get_or_create_account s i =
     (case find_account s i of
        Some a \<Rightarrow> (a, s)
      | None \<Rightarrow> (account_new i, s\<lparr>accounts := accounts s @ [account_new i]\<rparr>))"

text \<open>Writing through the mutable reference to the account.\<close>

definition put_account :: "string \<Rightarrow> account_state \<Rightarrow> ledger_state \<Rightarrow> ledger_state" where
  "put_account i a s = s\<lparr>accounts := update_first (\<lambda>b. account_id b = i) (\<lambda>_. a) (accounts s)\<rparr>"

definition find_reservation :: "ledger_state \<Rightarrow> string \<Rightarrow> reservation option" where
  "find_reservation s i = List.find (\<lambda>r. reservation_id r = i) (reservations s)"

record state_transition_receipt =
  st_sequence :: u64
  st_command_hash :: string
  previous_state_root :: string
  resulting_state_root :: string
  affected_accounts :: "string list"

section \<open>The state root\<close>

definition hash_with_domain :: "crypto \<Rightarrow> string \<Rightarrow> bytes \<Rightarrow> bytes" where
  "hash_with_domain c tag payload = sha256 c (str_bytes tag @ str_bytes '':'' @ payload)"

fun encode_consensus_profile :: "consensus_profile \<Rightarrow> u8" where
  "encode_consensus_profile Single = 0"
| "encode_consensus_profile HaCrash = 1"
| "encode_consensus_profile BftF1 = 2"
| "encode_consensus_profile BftF2 = 3"

fun reservation_state_code :: "reservation_state \<Rightarrow> u8" where
  "reservation_state_code RsPrepared = 0"
| "reservation_state_code RsCommitted = 1"
| "reservation_state_code RsConsumed = 2"
| "reservation_state_code RsReleased = 3"
| "reservation_state_code RsExpired = 4"

definition account_buf :: "account_state \<Rightarrow> bytes" where
  "account_buf a = u64_le (acc_version a) @ u64_le (available_sats a) @ u64_le (reserved_sats a) @
     u64_le (pending_incoming_sats a) @ u64_le (pending_outgoing_sats a) @
     u64_le (last_committed_sequence a) @ str_bytes (account_id a)"

definition hash_account :: "crypto \<Rightarrow> account_state \<Rightarrow> bytes" where
  "hash_account c a = hash_with_domain c ''KROOTv1:acct'' (account_buf a)"

definition hash_journal_entry :: "crypto \<Rightarrow> journal_entry \<Rightarrow> bytes" where
  "hash_journal_entry c e = hash_with_domain c ''KROOTv1:jent'' (str_bytes (entry_hash e))"

definition reservation_buf :: "reservation \<Rightarrow> bytes" where
  "reservation_buf r = u64_le (rs_amount_sats r) @ u64_le (rs_created_at_bucket r) @
     u64_le (rs_expires_at_bucket r) @ u64_le (rs_committed_sequence r) @
     [reservation_state_code (rs_state r)] @ str_bytes (rs_account_id r) @
     str_bytes (reservation_id r) @ str_bytes (rs_authorization_commitment r)"

definition hash_reservation :: "crypto \<Rightarrow> reservation \<Rightarrow> bytes" where
  "hash_reservation c r = hash_with_domain c ''KROOTv1:resv'' (reservation_buf r)"

definition hash_intent :: "crypto \<Rightarrow> string \<Rightarrow> bytes" where
  "hash_intent c i = hash_with_domain c ''KROOTv1:intent'' (str_bytes i)"

definition encode_membership :: "membership_view \<Rightarrow> bytes" where
  "encode_membership m =
     (let sorted_nodes = sort (nodes m)
      in [encode_consensus_profile (active_profile m)] @ encode_string (cluster_id m) @
         usize_le (length sorted_nodes) @ concat (map encode_string sorted_nodes))"

definition sorted_items_buf :: "string \<Rightarrow> bytes list \<Rightarrow> bytes" where
  "sorted_items_buf tag hashes = str_bytes tag @ str_bytes '':'' @ concat (sort hashes)"

definition hash_sorted_items :: "crypto \<Rightarrow> 'a list \<Rightarrow> string \<Rightarrow> ('a \<Rightarrow> bytes) \<Rightarrow> bytes" where
  "hash_sorted_items c items tag hash_fn = sha256 c (sorted_items_buf tag (map hash_fn items))"

definition hash_membership :: "crypto \<Rightarrow> membership_view \<Rightarrow> bytes" where
  "hash_membership c m = hash_with_domain c ''KROOTv1:mem'' (encode_membership m)"

definition state_root_buf :: "crypto \<Rightarrow> ledger_state \<Rightarrow> bytes" where
  "state_root_buf c s =
     str_bytes ''KROOTv1:version'' @ str_bytes '':'' @ u64_le (ls_version s) @
     str_bytes ''KROOTv1:accounts'' @ str_bytes '':'' @
       hash_sorted_items c (accounts s) ''KROOTv1:accounts'' (hash_account c) @
     str_bytes ''KROOTv1:journal'' @ str_bytes '':'' @
       hash_sorted_items c (journal s) ''KROOTv1:journal'' (hash_journal_entry c) @
     str_bytes ''KROOTv1:reservations'' @ str_bytes '':'' @
       hash_sorted_items c (reservations s) ''KROOTv1:reservations'' (hash_reservation c) @
     str_bytes ''KROOTv1:intents'' @ str_bytes '':'' @
       hash_sorted_items c (consumed_intents s) ''KROOTv1:intents'' (hash_intent c) @
     str_bytes ''KROOTv1:membership'' @ str_bytes '':'' @ hash_membership c (membership s) @
     str_bytes ''KROOTv1:utxos'' @ str_bytes '':'' @
       hash_with_domain c ''KROOTv1:utxos'' (str_bytes (compute_utxo_root c (utxos s)))"

definition compute_state_root :: "crypto \<Rightarrow> ledger_state \<Rightarrow> string" where
  "compute_state_root c s = hex_encode c (sha256 c (state_root_buf c s))"

definition compute_accounts_root :: "crypto \<Rightarrow> account_state list \<Rightarrow> string" where
  "compute_accounts_root c as = hex_encode c (hash_sorted_items c as ''KROOTv1:accounts'' (hash_account c))"

definition compute_journal_root :: "crypto \<Rightarrow> journal_entry list \<Rightarrow> string" where
  "compute_journal_root c es = hex_encode c (hash_sorted_items c es ''KROOTv1:journal'' (hash_journal_entry c))"

definition compute_reservations_root :: "crypto \<Rightarrow> reservation list \<Rightarrow> string" where
  "compute_reservations_root c rs =
     hex_encode c (hash_sorted_items c rs ''KROOTv1:reservations'' (hash_reservation c))"

definition compute_intents_root :: "crypto \<Rightarrow> string list \<Rightarrow> string" where
  "compute_intents_root c is = hex_encode c (hash_sorted_items c is ''KROOTv1:intents'' (hash_intent c))"

definition compute_membership_hash :: "crypto \<Rightarrow> membership_view \<Rightarrow> string" where
  "compute_membership_hash c m = hex_encode c (hash_membership c m)"

section \<open>The root commits to the state\<close>

text \<open>
  The content of a state, up to the order in which its collections hold it; and what the root
  can distinguish: of a journal entry the root sees only its hash, of a reservation only the
  text that is hashed for it.
\<close>

definition same_content :: "ledger_state \<Rightarrow> ledger_state \<Rightarrow> bool" where
  "same_content s t \<longleftrightarrow> ls_version s = ls_version t \<and> mset (accounts s) = mset (accounts t) \<and>
     mset (journal s) = mset (journal t) \<and> mset (reservations s) = mset (reservations t) \<and>
     mset (consumed_intents s) = mset (consumed_intents t) \<and>
     cluster_id (membership s) = cluster_id (membership t) \<and>
     active_profile (membership s) = active_profile (membership t) \<and>
     mset (nodes (membership s)) = mset (nodes (membership t)) \<and> mset (utxos s) = mset (utxos t)"

definition same_encoding :: "ledger_state \<Rightarrow> ledger_state \<Rightarrow> bool" where
  "same_encoding s t \<longleftrightarrow> ls_version s = ls_version t \<and> mset (accounts s) = mset (accounts t) \<and>
     mset (map entry_hash (journal s)) = mset (map entry_hash (journal t)) \<and>
     mset (map reservation_buf (reservations s)) = mset (map reservation_buf (reservations t)) \<and>
     mset (consumed_intents s) = mset (consumed_intents t) \<and>
     cluster_id (membership s) = cluster_id (membership t) \<and>
     active_profile (membership s) = active_profile (membership t) \<and>
     mset (nodes (membership s)) = mset (nodes (membership t)) \<and> mset (utxos s) = mset (utxos t)"

text \<open>
  Two states are unambiguous when different journal entries of theirs have different hashes and
  different reservations of theirs have different texts.
\<close>

definition unambiguous :: "ledger_state \<Rightarrow> ledger_state \<Rightarrow> bool" where
  "unambiguous s t \<longleftrightarrow> inj_on entry_hash (set (journal s) \<union> set (journal t)) \<and>
     inj_on reservation_buf (set (reservations s) \<union> set (reservations t))"

lemma mset_map_inj:
  assumes "inj_on f (set xs \<union> set ys)" and "mset (map f xs) = mset (map f ys)"
  shows "mset xs = mset ys"
proof -
  let ?g = "inv_into (set xs \<union> set ys) f"
  have "map ?g (map f xs) = xs" "map ?g (map f ys) = ys"
    using assms(1) by (auto intro!: map_idI)
  moreover have "mset (map ?g (map f xs)) = mset (map ?g (map f ys))"
    unfolding mset_map [of ?g] by (simp only: assms(2))
  ultimately show ?thesis by simp
qed

lemma same_content_encoding: "same_content s t \<Longrightarrow> same_encoding s t"
  by (simp add: same_content_def same_encoding_def)

lemma same_encoding_content: "unambiguous s t \<Longrightarrow> same_encoding s t \<Longrightarrow> same_content s t"
  by (auto simp: unambiguous_def same_content_def same_encoding_def dest: mset_map_inj)

text \<open>Reservations whose account and identifier have fixed widths have different texts.\<close>

lemma reservation_state_code_inject: "reservation_state_code a = reservation_state_code b \<longleftrightarrow> a = b"
  by (cases a; cases b) simp_all

lemma fixed_width_reservations:
  assumes "\<forall>r \<in> R. length (rs_account_id r) = m \<and> length (reservation_id r) = n"
  shows "inj_on reservation_buf R"
proof (rule inj_onI)
  fix r q :: reservation
  assume rq: "r \<in> R" "q \<in> R" and "reservation_buf r = reservation_buf q"
  then have "u64_le (rs_amount_sats r) = u64_le (rs_amount_sats q) \<and>
      u64_le (rs_created_at_bucket r) = u64_le (rs_created_at_bucket q) \<and>
      u64_le (rs_expires_at_bucket r) = u64_le (rs_expires_at_bucket q) \<and>
      u64_le (rs_committed_sequence r) = u64_le (rs_committed_sequence q) \<and>
      rs_state r = rs_state q \<and> rs_account_id r = rs_account_id q \<and>
      reservation_id r = reservation_id q \<and> rs_authorization_commitment r = rs_authorization_commitment q"
    using assms by (simp add: reservation_buf_def append_eq_append_conv reservation_state_code_inject)
  then show "r = q" by (intro reservation.equality) simp_all
qed

definition domain_text :: "string \<Rightarrow> bytes \<Rightarrow> bytes" where
  "domain_text tag payload = str_bytes tag @ str_bytes '':'' @ payload"

text \<open>The texts that are hashed on the way to the root of a state.\<close>

definition state_root_texts :: "crypto \<Rightarrow> ledger_state \<Rightarrow> bytes set" where
  "state_root_texts c s =
     {state_root_buf c s,
      sorted_items_buf ''KROOTv1:accounts'' (map (hash_account c) (accounts s)),
      sorted_items_buf ''KROOTv1:journal'' (map (hash_journal_entry c) (journal s)),
      sorted_items_buf ''KROOTv1:reservations'' (map (hash_reservation c) (reservations s)),
      sorted_items_buf ''KROOTv1:intents'' (map (hash_intent c) (consumed_intents s)),
      domain_text ''KROOTv1:mem'' (encode_membership (membership s)),
      domain_text ''KROOTv1:utxos'' (str_bytes (compute_utxo_root c (utxos s)))} \<union>
     (\<lambda>a. domain_text ''KROOTv1:acct'' (account_buf a)) ` set (accounts s) \<union>
     (\<lambda>e. domain_text ''KROOTv1:jent'' (str_bytes (entry_hash e))) ` set (journal s) \<union>
     (\<lambda>r. domain_text ''KROOTv1:resv'' (reservation_buf r)) ` set (reservations s) \<union>
     (\<lambda>i. domain_text ''KROOTv1:intent'' (str_bytes i)) ` set (consumed_intents s) \<union>
     utxo_root_texts c (utxos s)"

definition state_strings_ok :: "ledger_state \<Rightarrow> bool" where
  "state_strings_ok s \<longleftrightarrow> (\<forall>u \<in> set (utxos s). utxo_strings_ok u) \<and> str_ok (cluster_id (membership s)) \<and>
     (\<forall>n \<in> set (nodes (membership s)). str_ok n) \<and> length (nodes (membership s)) < 2 ^ 64"

lemma same_length_split: "a @ x = b @ y \<Longrightarrow> length a = length b \<Longrightarrow> a = b \<and> x = y"
  by simp

lemma hash_items_cong:
  assumes "mset (map f xs) = mset (map f ys)"
  shows "hash_sorted_items c xs tag f = hash_sorted_items c ys tag f"
proof -
  have "sort (map f xs) = sort (map f ys)" using assms by (simp only: sort_eq_iff_mset)
  then show ?thesis by (simp only: hash_sorted_items_def sorted_items_buf_def)
qed

lemma hash_items_inject:
  assumes "crypto_ok c" and "inj_on (sha256 c) T"
    and "hash_sorted_items c xs tag (\<lambda>x. hash_with_domain c t (buf x)) =
      hash_sorted_items c ys tag (\<lambda>x. hash_with_domain c t (buf x))"
    and "sorted_items_buf tag (map (\<lambda>x. hash_with_domain c t (buf x)) xs) \<in> T"
    and "sorted_items_buf tag (map (\<lambda>x. hash_with_domain c t (buf x)) ys) \<in> T"
    and "(\<lambda>x. domain_text t (buf x)) ` (set xs \<union> set ys) \<subseteq> T"
  shows "mset (map buf xs) = mset (map buf ys)"
proof -
  let ?h = "\<lambda>b. sha256 c (domain_text t b)"
  have h: "hash_with_domain c t b = ?h b" for b
    by (simp add: hash_with_domain_def domain_text_def)
  have "mset (map (\<lambda>x. ?h (buf x)) xs) = mset (map (\<lambda>x. ?h (buf x)) ys)"
  proof (rule sorted_digest_inject [OF _ assms(2)])
    show "sha256 c ((str_bytes tag @ str_bytes '':'') @ concat (sort (map (\<lambda>x. ?h (buf x)) xs))) =
        sha256 c ((str_bytes tag @ str_bytes '':'') @ concat (sort (map (\<lambda>x. ?h (buf x)) ys)))"
      "(str_bytes tag @ str_bytes '':'') @ concat (sort (map (\<lambda>x. ?h (buf x)) xs)) \<in> T"
      "(str_bytes tag @ str_bytes '':'') @ concat (sort (map (\<lambda>x. ?h (buf x)) ys)) \<in> T"
      using assms(3-5) by (simp_all add: hash_sorted_items_def sorted_items_buf_def h)
  qed (auto simp: crypto_ok_length [OF assms(1)])
  then have "mset (map ?h (map buf xs)) = mset (map ?h (map buf ys))"
    by (simp only: map_map o_def)
  moreover have "inj_on ?h (set (map buf xs) \<union> set (map buf ys))"
  proof (rule inj_onI)
    fix a b assume "a \<in> set (map buf xs) \<union> set (map buf ys)" "b \<in> set (map buf xs) \<union> set (map buf ys)"
      and "?h a = ?h b"
    moreover from this have "domain_text t a \<in> T" "domain_text t b \<in> T"
      using assms(6) by auto
    ultimately have "domain_text t a = domain_text t b"
      using inj_onD [OF assms(2)] by blast
    then show "a = b" by (simp add: domain_text_def)
  qed
  ultimately show ?thesis by (rule mset_map_inject)
qed

lemma account_buf_inject: "account_buf a = account_buf b \<Longrightarrow> a = b"
  by (auto simp: account_buf_def append_eq_append_conv intro!: account_state.equality)

lemma encode_strings_inject:
  "concat (map encode_string xs) = concat (map encode_string ys) \<Longrightarrow> length xs = length ys \<Longrightarrow>
    \<forall>x \<in> set xs \<union> set ys. str_ok x \<Longrightarrow> xs = ys"
proof (induction xs arbitrary: ys)
  case (Cons x xs)
  then obtain y zs where ys: "ys = y # zs" by (cases ys) auto
  have "x = y \<and> concat (map encode_string xs) = concat (map encode_string zs)"
    using Cons.prems by (intro encode_string_prefix) (auto simp: ys)
  with Cons show ?case by (auto simp: ys)
qed simp

lemma encode_consensus_profile_inject:
  "encode_consensus_profile a = encode_consensus_profile b \<longleftrightarrow> a = b"
  by (cases a; cases b) simp_all

lemma encode_membership_inject:
  assumes "encode_membership m = encode_membership n"
    and "str_ok (cluster_id m)" "\<forall>x \<in> set (nodes m). str_ok x" "length (nodes m) < 2 ^ 64"
    and "str_ok (cluster_id n)" "\<forall>x \<in> set (nodes n). str_ok x" "length (nodes n) < 2 ^ 64"
  shows "cluster_id m = cluster_id n \<and> active_profile m = active_profile n \<and>
    mset (nodes m) = mset (nodes n)"
proof -
  have prof: "active_profile m = active_profile n" and rest:
    "encode_string (cluster_id m) @ usize_le (length (nodes m)) @ concat (map encode_string (sort (nodes m))) =
     encode_string (cluster_id n) @ usize_le (length (nodes n)) @ concat (map encode_string (sort (nodes n)))"
    using assms(1) by (simp_all add: encode_membership_def Let_def encode_consensus_profile_inject)
  note f = encode_string_prefix [OF assms(2,5) rest]
  have "usize_le (length (nodes m)) = usize_le (length (nodes n)) \<and>
      concat (map encode_string (sort (nodes m))) = concat (map encode_string (sort (nodes n)))"
    using f [THEN conjunct2] by simp
  moreover from this have "length (nodes m) = length (nodes n)"
    using assms(4,7) by (simp add: usize_le_inject)
  ultimately have "sort (nodes m) = sort (nodes n)"
    using assms(3,6) by (intro encode_strings_inject) auto
  then show ?thesis using f prof by (simp add: sort_eq_iff_mset)
qed

lemma mset_map_comp:
  assumes "mset (map g xs) = mset (map g ys)"
  shows "mset (map (\<lambda>x. f (g x)) xs) = mset (map (\<lambda>x. f (g x)) ys)"
proof -
  have "image_mset f (mset (map g xs)) = image_mset f (mset (map g ys))" using assms by (rule arg_cong)
  then show ?thesis by (simp add: image_mset.compositionality o_def)
qed

lemma state_root_buf_cong:
  assumes "same_encoding s t"
  shows "state_root_buf c s = state_root_buf c t"
proof -
  have acc: "mset (map (hash_account c) (accounts s)) = mset (map (hash_account c) (accounts t))"
    and int: "mset (map (hash_intent c) (consumed_intents s)) = mset (map (hash_intent c) (consumed_intents t))"
    using assms by (simp_all add: same_encoding_def)
  have jou: "mset (map (hash_journal_entry c) (journal s)) = mset (map (hash_journal_entry c) (journal t))"
    unfolding hash_journal_entry_def [abs_def]
    by (rule mset_map_comp) (use assms in \<open>simp only: same_encoding_def\<close>)
  have res: "mset (map (hash_reservation c) (reservations s)) = mset (map (hash_reservation c) (reservations t))"
    unfolding hash_reservation_def [abs_def]
    by (rule mset_map_comp) (use assms in \<open>simp only: same_encoding_def\<close>)
  have "sort (nodes (membership s)) = sort (nodes (membership t))"
    using assms by (simp add: same_encoding_def sort_eq_iff_mset)
  then have "encode_membership (membership s) = encode_membership (membership t)"
    using assms by (simp only: encode_membership_def same_encoding_def)
  moreover have "compute_utxo_root c (utxos s) = compute_utxo_root c (utxos t)"
    using assms by (intro compute_utxo_root_perm) (simp only: same_encoding_def)
  moreover have "ls_version s = ls_version t"
    using assms by (simp only: same_encoding_def)
  ultimately show ?thesis
    using hash_items_cong [OF acc] hash_items_cong [OF jou] hash_items_cong [OF res]
      hash_items_cong [OF int]
    by (simp only: state_root_buf_def hash_membership_def)
qed

lemma hash_lengths:
  "crypto_ok c \<Longrightarrow> length (hash_sorted_items c xs tag f) = 32"
  "crypto_ok c \<Longrightarrow> length (hash_with_domain c tag b) = 32"
  "crypto_ok c \<Longrightarrow> length (hash_membership c m) = 32"
  by (simp_all add: hash_sorted_items_def hash_with_domain_def hash_membership_def crypto_ok_length)

lemma state_root_buf_split:
  assumes "crypto_ok c" and "state_root_buf c s = state_root_buf c t"
  shows "ls_version s = ls_version t \<and>
    hash_sorted_items c (accounts s) ''KROOTv1:accounts'' (hash_account c) =
      hash_sorted_items c (accounts t) ''KROOTv1:accounts'' (hash_account c) \<and>
    hash_sorted_items c (journal s) ''KROOTv1:journal'' (hash_journal_entry c) =
      hash_sorted_items c (journal t) ''KROOTv1:journal'' (hash_journal_entry c) \<and>
    hash_sorted_items c (reservations s) ''KROOTv1:reservations'' (hash_reservation c) =
      hash_sorted_items c (reservations t) ''KROOTv1:reservations'' (hash_reservation c) \<and>
    hash_sorted_items c (consumed_intents s) ''KROOTv1:intents'' (hash_intent c) =
      hash_sorted_items c (consumed_intents t) ''KROOTv1:intents'' (hash_intent c) \<and>
    hash_membership c (membership s) = hash_membership c (membership t) \<and>
    hash_with_domain c ''KROOTv1:utxos'' (str_bytes (compute_utxo_root c (utxos s))) =
      hash_with_domain c ''KROOTv1:utxos'' (str_bytes (compute_utxo_root c (utxos t)))"
  using assms(2) unfolding state_root_buf_def by (simp add: hash_lengths [OF assms(1)])

lemma state_root_inject:
  assumes "crypto_ok c" and "inj_on (sha256 c) (state_root_texts c s \<union> state_root_texts c t)"
    and "state_strings_ok s" and "state_strings_ok t"
    and "compute_state_root c s = compute_state_root c t"
  shows "same_encoding s t"
proof -
  let ?T = "state_root_texts c s \<union> state_root_texts c t"
  note inj = inj_onD [OF assms(2)]
  have "sha256 c (state_root_buf c s) = sha256 c (state_root_buf c t)"
    using assms(1,5) by (simp add: compute_state_root_def crypto_ok_hex_inject)
  then have "state_root_buf c s = state_root_buf c t"
    by (rule inj) (simp_all add: state_root_texts_def)
  note parts = state_root_buf_split [OF assms(1) this]
  have "mset (map account_buf (accounts s)) = mset (map account_buf (accounts t))"
    by (rule hash_items_inject [OF assms(1,2), where tag = "''KROOTv1:accounts''" and t = "''KROOTv1:acct''"])
      (use parts in \<open>auto simp: state_root_texts_def hash_account_def [abs_def]\<close>)
  then have acc: "mset (accounts s) = mset (accounts t)"
    by (rule mset_map_inject) (auto intro: inj_onI account_buf_inject)
  have jou: "mset (map (\<lambda>e. str_bytes (entry_hash e)) (journal s)) =
      mset (map (\<lambda>e. str_bytes (entry_hash e)) (journal t))"
    by (rule hash_items_inject [OF assms(1,2), where tag = "''KROOTv1:journal''" and t = "''KROOTv1:jent''"])
      (use parts in \<open>auto simp: state_root_texts_def hash_journal_entry_def [abs_def]\<close>)
  have "mset (map str_bytes (map entry_hash (journal s))) = mset (map str_bytes (map entry_hash (journal t)))"
    using jou by (simp only: map_map o_def)
  then have jou': "mset (map entry_hash (journal s)) = mset (map entry_hash (journal t))"
    by (rule mset_map_inject) (simp add: inj_on_def)
  have res: "mset (map reservation_buf (reservations s)) = mset (map reservation_buf (reservations t))"
    by (rule hash_items_inject [OF assms(1,2), where tag = "''KROOTv1:reservations''" and t = "''KROOTv1:resv''"])
      (use parts in \<open>auto simp: state_root_texts_def hash_reservation_def [abs_def]\<close>)
  have "mset (map str_bytes (consumed_intents s)) = mset (map str_bytes (consumed_intents t))"
    by (rule hash_items_inject [OF assms(1,2), where tag = "''KROOTv1:intents''" and t = "''KROOTv1:intent''"])
      (use parts in \<open>auto simp: state_root_texts_def hash_intent_def [abs_def]\<close>)
  then have int: "mset (consumed_intents s) = mset (consumed_intents t)"
    by (rule mset_map_inject) (simp add: inj_on_def)
  have "domain_text ''KROOTv1:mem'' (encode_membership (membership s)) =
      domain_text ''KROOTv1:mem'' (encode_membership (membership t))"
    using parts by (intro inj [of "domain_text _ _"])
      (simp_all add: hash_membership_def hash_with_domain_def domain_text_def state_root_texts_def)
  then have "encode_membership (membership s) = encode_membership (membership t)"
    by (simp add: domain_text_def)
  then have mem: "cluster_id (membership s) = cluster_id (membership t) \<and>
      active_profile (membership s) = active_profile (membership t) \<and>
      mset (nodes (membership s)) = mset (nodes (membership t))"
    by (rule encode_membership_inject) (use assms(3,4) in \<open>simp_all add: state_strings_ok_def\<close>)
  have "domain_text ''KROOTv1:utxos'' (str_bytes (compute_utxo_root c (utxos s))) =
      domain_text ''KROOTv1:utxos'' (str_bytes (compute_utxo_root c (utxos t)))"
    using parts by (intro inj [of "domain_text _ _"])
      (simp_all add: hash_with_domain_def domain_text_def state_root_texts_def)
  then have "compute_utxo_root c (utxos s) = compute_utxo_root c (utxos t)"
    by (simp add: domain_text_def)
  then have "mset (utxos s) = mset (utxos t)"
    by (rule compute_utxo_root_inject [OF assms(1), rotated 2])
      (use assms(2-4) in \<open>auto simp: state_root_texts_def state_strings_ok_def elim!: inj_on_subset\<close>)
  then show ?thesis
    using acc jou' res int mem parts by (simp add: same_encoding_def)
qed

text \<open>
  C16. The state root is a commitment to the state: as long as SHA-256 has no collision among
  the texts hashed for the two states, and different journal entries of theirs have different
  hashes and different reservations different texts, they have the same root exactly when they
  have the same version, accounts, journal entries, reservations, consumed intents, membership
  and outputs, whatever the order in which the collections hold them. Without the proviso on
  the reservations this fails: account, identifier and authorization are hashed without length
  prefixes. It holds, for instance, when the accounts and the identifiers have fixed widths.
\<close>

theorem state_root_commits:
  assumes "crypto_ok c" and "inj_on (sha256 c) (state_root_texts c s \<union> state_root_texts c t)"
    and "state_strings_ok s" and "state_strings_ok t" and "unambiguous s t"
  shows "compute_state_root c s = compute_state_root c t \<longleftrightarrow> same_content s t"
proof
  assume "same_content s t"
  then show "compute_state_root c s = compute_state_root c t"
    by (simp only: compute_state_root_def state_root_buf_cong [OF same_content_encoding])
qed (rule same_encoding_content [OF assms(5) state_root_inject [OF assms(1-4)]])

definition demo_state :: "string list \<Rightarrow> ledger_state" where
  "demo_state is = (ledger_state_empty (single_node ''c'' ''n''))\<lparr>consumed_intents := is\<rparr>"

lemma demo_state_fields [simp]:
  "ls_version (demo_state is) = 0" "accounts (demo_state is) = []" "journal (demo_state is) = []"
  "reservations (demo_state is) = []" "consumed_intents (demo_state is) = is"
  "membership (demo_state is) = single_node ''c'' ''n''" "utxos (demo_state is) = []"
  by (simp_all add: demo_state_def ledger_state_empty_def)

lemma demo_states_same: "same_content (demo_state [''abc'', ''abcd'']) (demo_state [''abcd'', ''abc''])"
  by (simp add: same_content_def add_mset_commute)

lemma demo_states_unambiguous: "unambiguous (demo_state is) (demo_state js)"
  by (simp add: unambiguous_def)

lemma demo_state_strings: "state_strings_ok (demo_state is)"
  by (simp add: state_strings_ok_def single_node_def str_ok_def)

lemma demo_states_inj:
  "inj_on (sha256 demo_crypto) (state_root_texts demo_crypto (demo_state [''abc'', ''abcd'']) \<union>
     state_root_texts demo_crypto (demo_state [''abcd'', ''abc'']))"
proof -
  let ?s = "demo_state [''abc'', ''abcd'']" and ?t = "demo_state [''abcd'', ''abc'']"
  note same = same_content_encoding [OF demo_states_same]
  have hash: "length (sha256 demo_crypto b) = 32" for b
    by (rule crypto_ok_length [OF demo_crypto_ok])
  have hex: "length (hex_encode demo_crypto (sha256 demo_crypto b)) = 64" for b
    by (simp add: demo_crypto_def length_demo_hex_encode)
  have two: "length (concat (sort [sha256 demo_crypto a, sha256 demo_crypto b])) = 64" for a b
    by (simp add: hash)
  have root: "length (state_root_buf demo_crypto ?s) = 319"
    by (simp add: state_root_buf_def hash_lengths [OF demo_crypto_ok])
  have items:
    "length (sorted_items_buf ''KROOTv1:intents'' (map (hash_intent demo_crypto) [''abc'', ''abcd''])) = 80"
    "length (sorted_items_buf ''KROOTv1:intents'' (map (hash_intent demo_crypto) [''abcd'', ''abc''])) = 80"
    using two by (simp_all add: sorted_items_buf_def hash_intent_def hash_with_domain_def del: sort_key_simps)
  have len: "length (domain_text ''KROOTv1:mem'' (encode_membership (single_node ''c'' ''n''))) = 39"
    "length (domain_text ''KROOTv1:utxos'' (str_bytes (compute_utxo_root demo_crypto []))) = 78"
    "length (utxo_root_buf demo_crypto []) = 13"
    "length (domain_text ''KROOTv1:intent'' (str_bytes ''abc'')) = 18"
    "length (domain_text ''KROOTv1:intent'' (str_bytes ''abcd'')) = 19"
    "length (sorted_items_buf ''KROOTv1:accounts'' []) = 17"
    "length (sorted_items_buf ''KROOTv1:journal'' []) = 16"
    "length (sorted_items_buf ''KROOTv1:reservations'' []) = 21"
    by (simp_all add: domain_text_def encode_membership_def single_node_def sorted_items_buf_def
        encode_string_def compute_utxo_root_def hex utxo_root_buf_def)
  have "sort (map (hash_intent demo_crypto) [''abcd'', ''abc'']) =
      sort (map (hash_intent demo_crypto) [''abc'', ''abcd''])"
    unfolding sort_eq_iff_mset by (simp add: add_mset_commute)
  then have perm: "sorted_items_buf ''KROOTv1:intents'' (map (hash_intent demo_crypto) [''abcd'', ''abc'']) =
      sorted_items_buf ''KROOTv1:intents'' (map (hash_intent demo_crypto) [''abc'', ''abcd''])"
    by (simp only: sorted_items_buf_def)
  show ?thesis
    by (rule demo_crypto_inj)
      (use root items len in \<open>auto simp: state_root_texts_def utxo_root_texts_def perm [simplified] state_root_buf_cong [OF same]\<close>)
qed

theorem state_root_commits_witness:
  "compute_state_root demo_crypto (demo_state [''abc'', ''abcd'']) =
   compute_state_root demo_crypto (demo_state [''abcd'', ''abc''])"
  using state_root_commits [OF demo_crypto_ok demo_states_inj demo_state_strings demo_state_strings]
    demo_states_same demo_states_unambiguous by blast

text \<open>
  The encoding of a reservation concatenates account, identifier and authorization without
  length prefixes, so the root does not separate reservations that differ only in where these
  strings are cut: for every state there are two reservations, of different accounts, that give
  it the same root.
\<close>

theorem reservation_root_ambiguous:
  "\<exists>r q. rs_account_id r \<noteq> rs_account_id q \<and> reservation_id r \<noteq> reservation_id q \<and>
     (\<forall>c s. compute_state_root c (s\<lparr>reservations := [r]\<rparr>) = compute_state_root c (s\<lparr>reservations := [q]\<rparr>))"
proof -
  let ?r = "reservation_new ''1'' ''acct-2'' 5 0 9 []" and ?q = "reservation_new ''-21'' ''acct'' 5 0 9 []"
  have buf: "reservation_buf ?r = reservation_buf ?q"
    by (simp add: reservation_buf_def reservation_new_def str_bytes_def)
  have "compute_state_root c (s\<lparr>reservations := [?r]\<rparr>) = compute_state_root c (s\<lparr>reservations := [?q]\<rparr>)" for c s
    unfolding compute_state_root_def
    by (rule arg_cong [where f = "\<lambda>b. hex_encode c (sha256 c b)"], rule state_root_buf_cong)
      (simp add: same_encoding_def buf)
  then show ?thesis
    by (intro exI [of _ ?r] exI [of _ ?q]) (simp add: reservation_new_def)
qed

section \<open>The payload hash\<close>

lemma command_type_code_inject: "command_type_code a = command_type_code b \<longleftrightarrow> a = b"
  by (cases a; cases b) simp_all

lemma payload_buf_inject:
  assumes "payload_buf a = payload_buf b"
    and "str_ok (partition_key a)" "str_ok (authorization_commitment a)"
    and "str_ok (partition_key b)" "str_ok (authorization_commitment b)"
  shows "command_type a = command_type b \<and> expected_version a = expected_version b \<and>
    partition_key a = partition_key b \<and> authorization_commitment a = authorization_commitment b \<and>
    lc_epoch a = lc_epoch b \<and> created_at_bucket a = created_at_bucket b"
proof -
  have buf: "payload_buf x = str_bytes ''KROOTv1:LedgerCommand'' @ [command_type_code (command_type x)] @
     encode_option_bucket (expected_version x) @ encode_string (partition_key x) @
     encode_string (authorization_commitment x) @ u64_le (lc_epoch x) @ u64_le (created_at_bucket x)" for x
    by (simp add: payload_buf_def encode_option_bucket_def encode_string_def split: option.split)
  have ty: "command_type a = command_type b" and rest:
     "encode_option_bucket (expected_version a) @ encode_string (partition_key a) @
     encode_string (authorization_commitment a) @ u64_le (lc_epoch a) @ u64_le (created_at_bucket a) =
     encode_option_bucket (expected_version b) @ encode_string (partition_key b) @
     encode_string (authorization_commitment b) @ u64_le (lc_epoch b) @ u64_le (created_at_bucket b)"
    using assms(1) unfolding buf by (simp_all add: command_type_code_inject)
  note f1 = encode_option_bucket_prefix [OF rest]
  note f2 = encode_string_prefix [OF assms(2,4) f1 [THEN conjunct2]]
  note f3 = encode_string_prefix [OF assms(3,5) f2 [THEN conjunct2]]
  show ?thesis using ty f1 f2 f3 by simp
qed

text \<open>
  The payload hash of a command binds every field it stands for: as long as SHA-256 does
  not collide on the two encodings, commands with the same payload hash agree in type, expected
  version, partition key, authorization, epoch and time bucket.
\<close>

theorem payload_hash_binds:
  assumes "crypto_ok c" and "inj_on (sha256 c) {payload_buf a, payload_buf b}"
    and "str_ok (partition_key a)" "str_ok (authorization_commitment a)"
    and "str_ok (partition_key b)" "str_ok (authorization_commitment b)"
  shows "compute_payload_hash c a = compute_payload_hash c b \<longleftrightarrow>
    command_type a = command_type b \<and> expected_version a = expected_version b \<and>
    partition_key a = partition_key b \<and> authorization_commitment a = authorization_commitment b \<and>
    lc_epoch a = lc_epoch b \<and> created_at_bucket a = created_at_bucket b"
proof
  assume "compute_payload_hash c a = compute_payload_hash c b"
  then have "sha256 c (payload_buf a) = sha256 c (payload_buf b)"
    by (simp add: compute_payload_hash_def crypto_ok_hex_inject [OF assms(1)])
  then have "payload_buf a = payload_buf b"
    by (rule inj_onD [OF assms(2)]) simp_all
  then show "command_type a = command_type b \<and> expected_version a = expected_version b \<and>
    partition_key a = partition_key b \<and> authorization_commitment a = authorization_commitment b \<and>
    lc_epoch a = lc_epoch b \<and> created_at_bucket a = created_at_bucket b"
    using assms(3-6) by (rule payload_buf_inject)
qed (simp add: compute_payload_hash_def payload_buf_def)

theorem payload_hash_binds_witness:
  "compute_payload_hash demo_crypto (ledger_command_new demo_crypto ''i'' ConsumeIntent ''k'' None ''a'' 0 0) \<noteq>
   compute_payload_hash demo_crypto (ledger_command_new demo_crypto ''j'' ConsumeIntent ''kk'' None ''a'' 0 0)"
proof -
  let ?a = "ledger_command_new demo_crypto ''i'' ConsumeIntent ''k'' None ''a'' 0 0"
  let ?b = "ledger_command_new demo_crypto ''j'' ConsumeIntent ''kk'' None ''a'' 0 0"
  have "inj_on (sha256 demo_crypto) {payload_buf ?a, payload_buf ?b}"
    by (rule demo_crypto_inj) (auto simp: payload_buf_def ledger_command_new_def Let_def)
  then show ?thesis
    using payload_hash_binds [OF demo_crypto_ok, of ?a ?b]
    by (simp add: ledger_command_new_def Let_def str_ok_def)
qed

end
