(* ===== verification/State_Machine.thy ===== *)
theory State_Machine
  imports Ledger_State
begin

text \<open>
  The deterministic state machine (\<open>state_machine.rs\<close>, \<open>StateMachine\<close>): validation and
  application of every command type, one definition per arm of the \<open>match\<close>. The JSON parser
  of \<open>serde_json\<close> is a parameter (\<open>json\<close>): it gives the payload or the text of its
  error. An arm that fails keeps what it has written to the state, as the code does.
\<close>

section \<open>Parsers\<close>

record json =
  parse_detect :: "string \<Rightarrow> string + detect_utxo_payload"
  parse_reorg :: "string \<Rightarrow> string + reorg_payload"

definition detect_payload :: "json \<Rightarrow> ledger_command \<Rightarrow> detect_utxo_payload ledger_result" where
  "detect_payload j cmd =
     (case parse_detect j (authorization_commitment cmd) of
        Inl e \<Rightarrow> Inl (InvalidUtxoData (''invalid DetectUtxo payload: '' @ e))
      | Inr p \<Rightarrow> Inr p)"

definition reorg_payload_of :: "json \<Rightarrow> ledger_command \<Rightarrow> reorg_payload ledger_result" where
  "reorg_payload_of j cmd =
     (case parse_reorg j (authorization_commitment cmd) of
        Inl e \<Rightarrow> Inl (InvalidUtxoData (''invalid ReorgPayload: '' @ e))
      | Inr p \<Rightarrow> Inr p)"

definition parse_height :: "ledger_command \<Rightarrow> u64 ledger_result" where
  "parse_height cmd =
     (case parse_word (authorization_commitment cmd) of
        Inl e \<Rightarrow> Inl (InvalidUtxoData
          ''ConfirmUtxo authorization_commitment must be a valid block height'')
      | Inr h \<Rightarrow> Inr h)"

definition command_amount :: "ledger_command \<Rightarrow> u64" where
  "command_amount cmd = res_unwrap_or (parse_word (authorization_commitment cmd)) 0"

section \<open>Validation\<close>

definition validate_credit :: "ledger_state \<Rightarrow> ledger_command \<Rightarrow> unit ledger_result" where
  "validate_credit s cmd =
     (case expected_version cmd of
        None \<Rightarrow> Inr ()
      | Some ev \<Rightarrow>
          (case find_account s (partition_key cmd) of
             Some a \<Rightarrow> check_version a ev
           | None \<Rightarrow> require (ev = 0) (VersionConflict (partition_key cmd) ev 0)))"

definition validate_existing :: "ledger_state \<Rightarrow> ledger_command \<Rightarrow> unit ledger_result" where
  "validate_existing s cmd =
     (case find_account s (partition_key cmd) of
        None \<Rightarrow> Inl (VersionConflict (partition_key cmd) (unwrap_or (expected_version cmd) 0) 0)
      | Some a \<Rightarrow> (case expected_version cmd of None \<Rightarrow> Inr () | Some ev \<Rightarrow> check_version a ev))"

definition validate_debit :: "ledger_state \<Rightarrow> ledger_command \<Rightarrow> unit ledger_result" where
  "validate_debit s cmd = validate_existing s cmd"

definition validate_reserve :: "ledger_state \<Rightarrow> ledger_command \<Rightarrow> unit ledger_result" where
  "validate_reserve s cmd = validate_existing s cmd"

definition validate_release_reservation :: "ledger_state \<Rightarrow> ledger_command \<Rightarrow> unit ledger_result" where
  "validate_release_reservation s cmd =
     (case expected_version cmd of
        None \<Rightarrow> Inr ()
      | Some ev \<Rightarrow>
          (case find_account s (partition_key cmd) of
             Some a \<Rightarrow> check_version a ev
           | None \<Rightarrow> Inl (VersionConflict (partition_key cmd) ev 0)))"

definition validate_transfer :: "ledger_state \<Rightarrow> ledger_command \<Rightarrow> unit ledger_result" where
  "validate_transfer s cmd = Inr ()"

definition utxo_at :: "ledger_state \<Rightarrow> outpoint \<Rightarrow> utxo_entry option" where
  "utxo_at s p = List.find (\<lambda>u. outpoint_of u = p) (utxos s)"

text \<open>The common shape of the output commands: parse the key, find the output, check it.\<close>

definition with_utxo ::
    "ledger_state \<Rightarrow> outpoint \<Rightarrow> (utxo_entry \<Rightarrow> 'a ledger_result) \<Rightarrow> 'a ledger_result" where
  "with_utxo s p f = (case utxo_at s p of None \<Rightarrow> Inl (UtxoNotFound (txid p) (vout p)) | Some u \<Rightarrow> f u)"

definition check_reservable :: "utxo_entry \<Rightarrow> unit ledger_result" where
  "check_reservable u =
     (if ut_state u \<notin> {OcSpendable, OcFinalizedByPolicy}
      then Inl (InvalidUtxoTransition (ut_state u) (ut_state u))
      else case reserved_by u of Some existing \<Rightarrow> Inl (UtxoAlreadyReserved existing) | None \<Rightarrow> Inr ())"

definition check_reserved :: "utxo_entry \<Rightarrow> unit ledger_result" where
  "check_reserved u = require (reserved_by u \<noteq> None) UtxoNotReserved"

fun validate :: "json \<Rightarrow> ledger_state \<Rightarrow> ledger_command \<Rightarrow> unit ledger_result" where
  "validate j s cmd =
     (case command_type cmd of
        CreditInternalBalance \<Rightarrow> validate_credit s cmd
      | DebitInternalBalance \<Rightarrow> validate_debit s cmd
      | ReserveBalance \<Rightarrow> validate_reserve s cmd
      | CtReleaseReservation \<Rightarrow> validate_release_reservation s cmd
      | CommitInternalTransfer \<Rightarrow> validate_transfer s cmd
      | DetectUtxo \<Rightarrow>
          res_bind (from_canonical_string (partition_key cmd)) (\<lambda>_.
          res_bind (detect_payload j cmd) (\<lambda>p.
          res_bind (require (dp_value_sats p \<noteq> 0)
            (InvalidUtxoData ''DetectUtxo value_sats must be > 0'')) (\<lambda>_.
          require (dp_address p \<noteq> []) (InvalidUtxoData ''DetectUtxo address must not be empty''))))
      | ConfirmUtxo \<Rightarrow>
          res_bind (from_canonical_string (partition_key cmd)) (\<lambda>p.
          res_bind (parse_height cmd) (\<lambda>_.
          with_utxo s p (\<lambda>u. validate_transition (ut_state u) OcConfirming)))
      | MarkUtxoSpendable \<Rightarrow>
          res_bind (from_canonical_string (partition_key cmd)) (\<lambda>p.
          with_utxo s p (\<lambda>u. validate_transition (ut_state u) OcSpendable))
      | ReserveUtxo \<Rightarrow>
          res_bind (from_canonical_string (partition_key cmd)) (\<lambda>p.
          res_bind (require (authorization_commitment cmd \<noteq> [])
            (InvalidUtxoData ''ReserveUtxo authorization_commitment must specify reserved_by'')) (\<lambda>_.
          with_utxo s p check_reservable))
      | ReleaseUtxo \<Rightarrow>
          res_bind (from_canonical_string (partition_key cmd)) (\<lambda>p. with_utxo s p check_reserved)
      | MarkUtxoSpent \<Rightarrow>
          res_bind (from_canonical_string (partition_key cmd)) (\<lambda>p.
          with_utxo s p (\<lambda>u. validate_transition (ut_state u) OcSpent))
      | ApplyChainReorganization \<Rightarrow> res_bind (reorg_payload_of j cmd) (\<lambda>_. Inr ())
      | _ \<Rightarrow> Inr ())"

declare validate.simps [simp del]

section \<open>Application\<close>

text \<open>
  \<open>get_or_create_account\<close>, an operation on the reference, and the identifier of the account.
\<close>

definition on_account ::
    "string \<Rightarrow> (account_state \<Rightarrow> (account_state, unit) mut_result) \<Rightarrow> ledger_state \<Rightarrow>
       (ledger_state, string) mut_result" where
  "on_account i f s =
     (case get_or_create_account s i of (a, s1) \<Rightarrow>
        (case f a of
           (Inl e, a') \<Rightarrow> (Inl e, put_account i a' s1)
         | (Inr _, a') \<Rightarrow> (Inr (account_id a'), put_account i a' s1)))"

definition credit_amount :: "ledger_command \<Rightarrow> u64" where
  "credit_amount cmd = (case expected_version cmd of Some _ \<Rightarrow> command_amount cmd | None \<Rightarrow> 0)"

definition one_account ::
    "(ledger_state, string) mut_result \<Rightarrow> (ledger_state, string list) mut_result" where
  "one_account r = (case r of (Inl e, s) \<Rightarrow> (Inl e, s) | (Inr i, s) \<Rightarrow> (Inr [i], s))"

definition transfer_effect :: "ledger_state \<Rightarrow> ledger_command \<Rightarrow> (ledger_state, string list) mut_result" where
  "transfer_effect s cmd =
     (case split_once (CHR ''|'') (partition_key cmd) of
        None \<Rightarrow> (Inl (AtomicTransferFailed (''CommitInternalTransfer: partition_key must be '' @
                  [CHR 0x27] @ ''source|dest'' @ [CHR 0x27])), s)
      | Some (source_id, dest_id) \<Rightarrow>
          (case on_account source_id (\<lambda>a. apply_debit a (command_amount cmd)) s of
             (Inl e, s1) \<Rightarrow> (Inl e, s1)
           | (Inr a1, s1) \<Rightarrow>
               (case on_account dest_id (\<lambda>a. apply_credit a (command_amount cmd)) s1 of
                  (Inl e, s2) \<Rightarrow> (Inl e, s2)
                | (Inr a2, s2) \<Rightarrow> (Inr [a1, a2], s2))))"

definition put_utxo :: "outpoint \<Rightarrow> (utxo_entry \<Rightarrow> utxo_entry) \<Rightarrow> ledger_state \<Rightarrow> ledger_state" where
  "put_utxo p f s = s\<lparr>utxos := update_first (\<lambda>u. outpoint_of u = p) f (utxos s)\<rparr>"

text \<open>An output command: the checks of the arm, then a write to the output.\<close>

definition utxo_effect ::
    "ledger_state \<Rightarrow> outpoint ledger_result \<Rightarrow> (utxo_entry \<Rightarrow> unit ledger_result) \<Rightarrow>
       (utxo_entry \<Rightarrow> utxo_entry) \<Rightarrow> (ledger_state, string list) mut_result" where
  "utxo_effect s key check f =
     (case key of
        Inl e \<Rightarrow> (Inl e, s)
      | Inr p \<Rightarrow>
          (case with_utxo s p check of
             Inl e \<Rightarrow> (Inl e, s)
           | Inr _ \<Rightarrow> (Inr [''utxo''], put_utxo p f s)))"

definition detect_effect :: "json \<Rightarrow> ledger_state \<Rightarrow> ledger_command \<Rightarrow> (ledger_state, string list) mut_result" where
  "detect_effect j s cmd =
     (case from_canonical_string (partition_key cmd) of
        Inl e \<Rightarrow> (Inl e, s)
      | Inr p \<Rightarrow>
     (case detect_payload j cmd of
        Inl e \<Rightarrow> (Inl e, s)
      | Inr payload \<Rightarrow>
     (case utxo_at s p of
        Some u \<Rightarrow>
          if ut_state u = OcReorged
          then (case validate_transition (ut_state u) OcSeen of
                  Inl e \<Rightarrow> (Inl e, s)
                | Inr _ \<Rightarrow> (Inr [''utxo''],
                    put_utxo p (\<lambda>u. u\<lparr>ut_state := OcSeen, detected_at_bucket := created_at_bucket cmd\<rparr>) s))
          else (Inr [''utxo''], s)
      | None \<Rightarrow> (Inr [''utxo''],
          s\<lparr>utxos := utxos s @ [new_seen p (dp_value_sats payload) (dp_address payload)
                                   (created_at_bucket cmd)]\<rparr>))))"

definition confirm_effect :: "ledger_state \<Rightarrow> ledger_command \<Rightarrow> (ledger_state, string list) mut_result" where
  "confirm_effect s cmd =
     (case from_canonical_string (partition_key cmd) of
        Inl e \<Rightarrow> (Inl e, s)
      | Inr p \<Rightarrow>
     (case parse_height cmd of
        Inl e \<Rightarrow> (Inl e, s)
      | Inr h \<Rightarrow>
          utxo_effect s (Inr p) (\<lambda>u. validate_transition (ut_state u) OcConfirming)
            (\<lambda>u. u\<lparr>ut_state := OcConfirming, block_height := Some h,
                   confirmed_at_bucket := Some (created_at_bucket cmd)\<rparr>)))"

definition spend_write :: "ledger_command \<Rightarrow> utxo_entry \<Rightarrow> utxo_entry" where
  "spend_write cmd u = u\<lparr>reserved_by := None, reserved_at_bucket := None, ut_state := OcSpent,
     spent_at_bucket := Some (created_at_bucket cmd),
     spent_by_txid := (if authorization_commitment cmd = [] then None else Some (authorization_commitment cmd))\<rparr>"

definition reorg_effect :: "json \<Rightarrow> ledger_state \<Rightarrow> ledger_command \<Rightarrow> (ledger_state, string list) mut_result" where
  "reorg_effect j s cmd =
     (case reorg_payload_of j cmd of
        Inl e \<Rightarrow> (Inl e, s)
      | Inr p \<Rightarrow>
          (case apply_reorg (utxos s) (disconnected_txids p) (rp_new_utxos p) (created_at_bucket cmd) of
             (Inl e, us) \<Rightarrow> (Inl e, s\<lparr>utxos := us\<rparr>)
           | (Inr _, us) \<Rightarrow> (Inr [''utxo''], s\<lparr>utxos := us\<rparr>)))"

definition intent_effect :: "ledger_state \<Rightarrow> ledger_command \<Rightarrow> (ledger_state, string list) mut_result" where
  "intent_effect s cmd =
     (Inr [partition_key cmd],
      if partition_key cmd \<in> set (consumed_intents s) then s
      else s\<lparr>consumed_intents := consumed_intents s @ [partition_key cmd]\<rparr>)"

definition set_nodes :: "string list \<Rightarrow> ledger_state \<Rightarrow> ledger_state" where
  "set_nodes ns s = s\<lparr>membership := (membership s)\<lparr>nodes := ns\<rparr>\<rparr>"

definition effect :: "json \<Rightarrow> ledger_state \<Rightarrow> ledger_command \<Rightarrow> (ledger_state, string list) mut_result" where
  "effect j s cmd =
     (case command_type cmd of
        CreditInternalBalance \<Rightarrow>
          one_account (on_account (partition_key cmd) (\<lambda>a. apply_credit a (credit_amount cmd)) s)
      | DebitInternalBalance \<Rightarrow>
          one_account (on_account (partition_key cmd) (\<lambda>a. apply_debit a (command_amount cmd)) s)
      | ReserveBalance \<Rightarrow>
          one_account (on_account (partition_key cmd) (\<lambda>a. apply_reserve a (command_amount cmd)) s)
      | CtReleaseReservation \<Rightarrow>
          one_account (on_account (partition_key cmd)
            (\<lambda>a. apply_release_reservation a (command_amount cmd)) s)
      | CommitInternalTransfer \<Rightarrow> transfer_effect s cmd
      | DetectUtxo \<Rightarrow> detect_effect j s cmd
      | ConfirmUtxo \<Rightarrow> confirm_effect s cmd
      | MarkUtxoSpendable \<Rightarrow>
          utxo_effect s (from_canonical_string (partition_key cmd))
            (\<lambda>u. validate_transition (ut_state u) OcSpendable) (\<lambda>u. u\<lparr>ut_state := OcSpendable\<rparr>)
      | ReserveUtxo \<Rightarrow>
          utxo_effect s (from_canonical_string (partition_key cmd)) check_reservable
            (\<lambda>u. u\<lparr>reserved_by := Some (authorization_commitment cmd),
                   reserved_at_bucket := Some (created_at_bucket cmd)\<rparr>)
      | ReleaseUtxo \<Rightarrow>
          utxo_effect s (from_canonical_string (partition_key cmd)) check_reserved
            (\<lambda>u. u\<lparr>reserved_by := None, reserved_at_bucket := None\<rparr>)
      | MarkUtxoSpent \<Rightarrow>
          utxo_effect s (from_canonical_string (partition_key cmd))
            (\<lambda>u. validate_transition (ut_state u) OcSpent) (spend_write cmd)
      | ApplyChainReorganization \<Rightarrow> reorg_effect j s cmd
      | ConsumeIntent \<Rightarrow> intent_effect s cmd
      | ExpireIntent \<Rightarrow> intent_effect s cmd
      | AddObserverNode \<Rightarrow>
          (Inr [''membership''],
           if partition_key cmd \<in> set (nodes (membership s)) then s
           else set_nodes (nodes (membership s) @ [partition_key cmd]) s)
      | PromoteVotingNode \<Rightarrow> (Inr [''membership''], s)
      | RemoveNode \<Rightarrow>
          (Inr [''membership''], set_nodes (filter (\<lambda>n. n \<noteq> partition_key cmd) (nodes (membership s))) s)
      | InstallSnapshot \<Rightarrow> (Inr [''snapshot''], s)
      | _ \<Rightarrow> (Inr [partition_key cmd], s))"

definition bump_state :: "ledger_state \<Rightarrow> ledger_state" where
  "bump_state s = s\<lparr>ls_version := ls_version s + 1\<rparr>"

definition sm_apply ::
    "crypto \<Rightarrow> json \<Rightarrow> ledger_state \<Rightarrow> ledger_command \<Rightarrow> (ledger_state, state_transition_receipt) mut_result" where
  "sm_apply c j s cmd =
     (case validate j s cmd of
        Inl e \<Rightarrow> (Inl e, s)
      | Inr _ \<Rightarrow>
          (case effect j s cmd of
             (Inl e, s1) \<Rightarrow> (Inl e, s1)
           | (Inr affected, s1) \<Rightarrow>
               let s2 = bump_state s1 in
               (Inr \<lparr>st_sequence = ls_version s, st_command_hash = payload_hash cmd,
                     previous_state_root = compute_state_root c s,
                     resulting_state_root = compute_state_root c s2,
                     affected_accounts = affected\<rparr>, s2)))"

section \<open>Writes to one account\<close>

definition ledger_total :: "ledger_state \<Rightarrow> int" where
  "ledger_total s = sum_list (map (\<lambda>a. int (acc_total a)) (accounts s))"

definition sm_account :: "ledger_state \<Rightarrow> string \<Rightarrow> account_state" where
  "sm_account s i = (case find_account s i of Some a \<Rightarrow> a | None \<Rightarrow> account_new i)"

lemma acc_total_new [simp]: "acc_total (account_new i) = 0"
  by (simp add: acc_total_def account_new_def)

lemma account_id_new [simp]: "account_id (account_new i) = i"
  by (simp add: account_new_def)

lemma sm_account_id [simp]: "account_id (sm_account s i) = i"
  by (auto simp: sm_account_def find_account_def split: option.split dest: find_Some_in)

lemma get_or_create_account_spec:
  obtains s1 where "get_or_create_account s i = (sm_account s i, s1)"
    and "find_account s1 i = Some (sm_account s i)" and "ledger_total s1 = ledger_total s"
    and "accounts s1 = accounts s \<or> find_account s i = None \<and> accounts s1 = accounts s @ [account_new i]"
    and "s1 = s\<lparr>accounts := accounts s1\<rparr>"
proof (cases "find_account s i")
  case None
  then have "find_account (s\<lparr>accounts := accounts s @ [account_new i]\<rparr>) i = Some (account_new i)"
    by (simp add: find_account_def find_append)
  with None show ?thesis
    by (intro that [of "s\<lparr>accounts := accounts s @ [account_new i]\<rparr>"])
      (simp_all add: get_or_create_account_def sm_account_def ledger_total_def)
qed (auto simp: get_or_create_account_def sm_account_def intro!: that [of s])

lemma on_account_cases:
  obtains s1 where "on_account i f s =
      (case f (sm_account s i) of
         (Inl e, a') \<Rightarrow> (Inl e, put_account i a' s1)
       | (Inr _, a') \<Rightarrow> (Inr (account_id a'), put_account i a' s1))"
    and "find_account s1 i = Some (sm_account s i)" and "ledger_total s1 = ledger_total s"
    and "accounts s1 = accounts s \<or> find_account s i = None \<and> accounts s1 = accounts s @ [account_new i]"
    and "s1 = s\<lparr>accounts := accounts s1\<rparr>"
  by (rule get_or_create_account_spec [of s i], rule that) (simp_all add: on_account_def)

lemma put_account_total:
  "find_account s i = Some a \<Longrightarrow>
     ledger_total (put_account i b s) = ledger_total s - int (acc_total a) + int (acc_total b)"
  by (simp add: ledger_total_def put_account_def find_account_def sum_list_update_first)

lemma on_account_fst:
  "fst (on_account i f s) = (case fst (f (sm_account s i)) of Inl e \<Rightarrow> Inl e
     | Inr _ \<Rightarrow> Inr (account_id (snd (f (sm_account s i)))))"
  by (rule on_account_cases [of i f s]) (auto split: prod.split sum.split)

lemma on_account_total:
  "ledger_total (snd (on_account i f s)) = ledger_total s - int (acc_total (sm_account s i)) +
     int (acc_total (snd (f (sm_account s i))))"
  by (rule on_account_cases [of i f s]) (auto simp: put_account_total split: prod.split sum.split)

lemma sum_list_int_nonneg: "(\<And>y. 0 \<le> (g y :: int)) \<Longrightarrow> 0 \<le> sum_list (map g xs)"
  by (induction xs) (simp_all add: add_nonneg_nonneg)

lemma ledger_total_nonneg: "0 \<le> ledger_total s"
  unfolding ledger_total_def by (rule sum_list_int_nonneg) simp

lemma find_sum_le:
  "List.find P xs = Some x \<Longrightarrow> (\<And>y. 0 \<le> (g y :: int)) \<Longrightarrow> g x \<le> sum_list (map g xs)"
proof (induction xs)
  case (Cons y xs)
  have "0 \<le> sum_list (map g xs)" using Cons.prems(2) by (rule sum_list_int_nonneg)
  then show ?case
    using Cons.prems(1) Cons.IH [OF _ Cons.prems(2)] Cons.prems(2) [of y] by (auto split: if_splits)
qed simp

lemma sm_account_total_le: "int (acc_total (sm_account s i)) \<le> ledger_total s"
proof (cases "find_account s i")
  case (Some a)
  then show ?thesis
    unfolding ledger_total_def sm_account_def find_account_def
    by (auto intro: find_sum_le [where g = "\<lambda>a. int (acc_total a)"])
qed (simp add: sm_account_def ledger_total_nonneg)

section \<open>Conservation\<close>

text \<open>How an operation changes the total of the account, in both outcomes.\<close>

lemma credit_total:
  "apply_credit a n = (r, a') \<Longrightarrow> int (acc_total a') = int (acc_total a) + (if is_ok r then int (unat n) else 0)"
  by (cases r) (auto dest: acc_total_credit apply_credit_err)

lemma debit_total:
  "apply_debit a n = (r, a') \<Longrightarrow> int (acc_total a') = int (acc_total a) - (if is_ok r then int (unat n) else 0)"
  by (cases r) (auto dest: acc_total_debit apply_debit_err)

lemma reserve_total:
  assumes "apply_reserve a n = (r, a')"
  shows "acc_total a' = acc_total a \<or> \<not> is_ok r \<and> acc_total a' \<le> acc_total a \<and> 2 ^ 64 \<le> acc_total a"
  using assms
  by (cases r) (auto simp: apply_reserve_def bump_version_def acc_total_def checked_add_def checked_sub_def
      spendable_def unat_minus_le unat_plus_no_overflow word_le_nat_alt Let_def split: if_splits)

lemma release_total:
  assumes "apply_release_reservation a n = (r, a')"
  shows "acc_total a' = acc_total a \<or> \<not> is_ok r \<and> acc_total a' \<le> acc_total a \<and> 2 ^ 64 \<le> acc_total a"
  using assms
  by (cases r) (auto simp: apply_release_reservation_def bump_version_def acc_total_def checked_add_def
      checked_sub_def unat_minus_le unat_plus_no_overflow word_le_nat_alt Let_def split: if_splits)

text \<open>The change of the total that a command asks for.\<close>

definition command_delta :: "ledger_command \<Rightarrow> int" where
  "command_delta cmd =
     (case command_type cmd of
        CreditInternalBalance \<Rightarrow> int (unat (credit_amount cmd))
      | DebitInternalBalance \<Rightarrow> - int (unat (command_amount cmd))
      | _ \<Rightarrow> 0)"

definition conserves :: "int \<Rightarrow> ledger_state \<Rightarrow> (ledger_state, 'a) mut_result \<Rightarrow> bool" where
  "conserves d s = (\<lambda>(r, s'). if is_ok r then ledger_total s' = ledger_total s + d
     else ledger_total s' \<le> ledger_total s \<and> (ledger_total s < 2 ^ 64 \<longrightarrow> ledger_total s' = ledger_total s))"

lemma conserves_one_account:
  assumes "conserves d s (on_account i f s)"
  shows "conserves d s (one_account (on_account i f s))"
  using assms by (auto simp: conserves_def one_account_def split: prod.splits sum.splits)

lemma conserves_on_account:
  assumes "\<And>r a'. f (sm_account s i) = (r, a') \<Longrightarrow>
      if is_ok r then int (acc_total a') = int (acc_total (sm_account s i)) + d
      else acc_total a' = acc_total (sm_account s i) \<or>
        acc_total a' \<le> acc_total (sm_account s i) \<and> 2 ^ 64 \<le> acc_total (sm_account s i)"
  shows "conserves d s (on_account i f s)"
proof -
  obtain r a' where f: "f (sm_account s i) = (r, a')" by fastforce
  obtain r' s' where run: "on_account i f s = (r', s')" by fastforce
  have ok: "is_ok r' \<longleftrightarrow> is_ok r"
    using on_account_fst [of i f s] f run by (auto split: sum.splits)
  have "ledger_total s' = ledger_total s - int (acc_total (sm_account s i)) + int (acc_total a')"
    using on_account_total [of i f s] f run by simp
  moreover have "int (acc_total (sm_account s i)) \<le> ledger_total s"
    by (rule sm_account_total_le)
  ultimately show ?thesis
    using assms [OF f] ok run by (auto simp: conserves_def split: if_splits)
qed

lemma find_account_put:
  "find_account s1 i = Some a \<Longrightarrow> account_id b = i \<Longrightarrow>
     find_account (put_account i b s1) j = (if j = i then Some b else find_account s1 j)"
  by (auto simp: find_account_def put_account_def find_update_first_same
      intro!: find_update_first_other)

lemma sm_account_after:
  assumes "\<And>a. account_id (snd (f a)) = account_id a"
  shows "sm_account (snd (on_account i f s)) j =
    (if j = i then snd (f (sm_account s i)) else sm_account s j)"
proof (rule on_account_cases [of i f s])
  fix s1
  assume run: "on_account i f s =
      (case f (sm_account s i) of
         (Inl e, a') \<Rightarrow> (Inl e, put_account i a' s1)
       | (Inr _, a') \<Rightarrow> (Inr (account_id a'), put_account i a' s1))"
    and find: "find_account s1 i = Some (sm_account s i)"
    and acc: "accounts s1 = accounts s \<or>
      find_account s i = None \<and> accounts s1 = accounts s @ [account_new i]"
  have "account_id (snd (f (sm_account s i))) = i"
    using assms [of "sm_account s i"] by simp
  moreover have "snd (on_account i f s) = put_account i (snd (f (sm_account s i))) s1"
    using run by (auto split: prod.splits sum.splits)
  moreover have "find_account s1 j = find_account s j" if "j \<noteq> i"
    using acc that by (auto simp: find_account_def find_append split: option.split)
  ultimately show ?thesis
    by (auto simp: sm_account_def [of _ j] find_account_put [OF find])
qed

lemma account_ops_keep_id [simp]:
  "account_id (snd (apply_credit a n)) = account_id a" "account_id (snd (apply_debit a n)) = account_id a"
  "account_id (snd (apply_reserve a n)) = account_id a"
  "account_id (snd (apply_release_reservation a n)) = account_id a"
  using apply_operation_account_id [of Credit a n] apply_operation_account_id [of Debit a n]
    apply_operation_account_id [of Reserve a n] apply_operation_account_id [of ReleaseReservation a n]
  by simp_all

text \<open>
  A transfer conserves the total. If the credit overflows after the debit, the destination
  holds at least \<open>2 ^ 64 - n\<close> and the source held \<open>n\<close>.
\<close>

lemma two_accounts_le:
  assumes "i \<noteq> j"
  shows "int (acc_total (sm_account s i)) + int (acc_total (sm_account s j)) \<le> ledger_total s"
proof -
  let ?s = "snd (on_account i (\<lambda>a. (Inr (), a\<lparr>available_sats := 0, reserved_sats := 0\<rparr>)) s)"
  have "int (acc_total (sm_account ?s j)) \<le> ledger_total ?s"
    by (rule sm_account_total_le)
  moreover have "sm_account ?s j = sm_account s j"
    using assms by (subst sm_account_after) auto
  moreover have "ledger_total ?s = ledger_total s - int (acc_total (sm_account s i))"
    by (subst on_account_total) (simp add: acc_total_def)
  ultimately show ?thesis by simp
qed

lemma transfer_credit_overflow:
  assumes deb: "apply_debit (sm_account s i) n = (Inr u, a')"
    and cre: "apply_credit (sm_account (snd (on_account i (\<lambda>a. apply_debit a n) s)) j) n = (Inl e, b')"
  shows "2 ^ 64 \<le> ledger_total s"
proof -
  let ?s1 = "snd (on_account i (\<lambda>a. apply_debit a n) s)"
  have le: "n \<le> available_sats (sm_account s i)"
    and a': "a' = (sm_account s i)\<lparr>available_sats := available_sats (sm_account s i) - n,
       acc_version := acc_version (sm_account s i) + 1\<rparr>"
    using deb by (auto simp: apply_debit_ok)
  have over: "2 ^ 64 \<le> unat (available_sats (sm_account ?s1 j)) + unat n"
    using cre by (auto simp: apply_credit_def checked_add_def split: if_splits)
  have s1j: "sm_account ?s1 j = (if j = i then a' else sm_account s j)"
    using sm_account_after [of "\<lambda>a. apply_debit a n" i s j] deb by simp
  have "j \<noteq> i"
  proof
    assume "j = i"
    then have "unat (available_sats (sm_account ?s1 j)) + unat n = unat (available_sats (sm_account s i))"
      using s1j le a' by (simp add: unat_minus_le word_le_nat_alt)
    with over show False
      using unsigned_less [of "available_sats (sm_account s i)", where 'a = nat] by simp
  qed
  then have "2 ^ 64 \<le> acc_total (sm_account s i) + acc_total (sm_account s j)"
    using over s1j le by (simp add: acc_total_def word_le_nat_alt)
  moreover have "int (acc_total (sm_account s i)) + int (acc_total (sm_account s j)) \<le> ledger_total s"
    using two_accounts_le \<open>j \<noteq> i\<close> by metis
  ultimately show ?thesis by simp
qed

lemma transfer_conserves: "conserves 0 s (transfer_effect s cmd)"
proof (cases "split_once (CHR ''|'') (partition_key cmd)")
  case None
  then show ?thesis by (simp add: transfer_effect_def conserves_def)
next
  case (Some p)
  obtain i j where p: "p = (i, j)" by fastforce
  let ?n = "command_amount cmd"
  let ?d = "\<lambda>a. apply_debit a ?n" and ?c = "\<lambda>a. apply_credit a ?n"
  obtain r1 s1 where run1: "on_account i ?d s = (r1, s1)" by fastforce
  obtain d a' where dr: "apply_debit (sm_account s i) ?n = (d, a')" by fastforce
  have ok1: "is_ok r1 \<longleftrightarrow> is_ok d"
    using on_account_fst [of i ?d s] run1 dr by (auto split: sum.splits)
  have t1: "ledger_total s1 = ledger_total s - (if is_ok r1 then int (unat ?n) else 0)"
    using on_account_total [of i ?d s] run1 dr debit_total [OF dr] ok1 by simp
  show ?thesis
  proof (cases r1)
    case (Inl e)
    then show ?thesis
      using t1 run1 by (simp add: transfer_effect_def Some p conserves_def)
  next
    case (Inr x)
    obtain r2 s2 where run2: "on_account j ?c s1 = (r2, s2)" by fastforce
    obtain e b' where cr: "apply_credit (sm_account s1 j) ?n = (e, b')" by fastforce
    have ok2: "is_ok r2 \<longleftrightarrow> is_ok e"
      using on_account_fst [of j ?c s1] run2 cr by (auto split: sum.splits)
    have t2: "ledger_total s2 = ledger_total s1 + (if is_ok r2 then int (unat ?n) else 0)"
      using on_account_total [of j ?c s1] run2 cr credit_total [OF cr] ok2 by simp
    have res: "transfer_effect s cmd = (case r2 of Inl e \<Rightarrow> (Inl e, s2) | Inr a2 \<Rightarrow> (Inr [x, a2], s2))"
      using run1 run2 Inr by (simp add: transfer_effect_def Some p)
    have "2 ^ 64 \<le> ledger_total s" if "\<not> is_ok r2"
      using transfer_credit_overflow [of s i ?n _ a' j] dr ok1 Inr cr ok2 that run1
      by (cases d; cases e) auto
    then show ?thesis
      using t1 t2 res Inr by (cases r2) (auto simp: conserves_def)
  qed
qed

text \<open>The commands that do not touch balances leave the accounts alone.\<close>

lemma utxo_effect_accounts [simp]: "accounts (snd (utxo_effect s key check f)) = accounts s"
  by (auto simp: utxo_effect_def put_utxo_def split: sum.split)

lemma other_effects_accounts [simp]:
  "accounts (snd (detect_effect j s cmd)) = accounts s"
  "accounts (snd (confirm_effect s cmd)) = accounts s"
  "accounts (snd (reorg_effect j s cmd)) = accounts s"
  "accounts (snd (intent_effect s cmd)) = accounts s"
  "accounts (set_nodes ns s) = accounts s"
  by (auto simp: detect_effect_def confirm_effect_def reorg_effect_def intent_effect_def set_nodes_def
      put_utxo_def split: sum.split option.split prod.split)

lemma conserves_same_accounts: "accounts (snd r) = accounts s \<Longrightarrow> conserves 0 s r"
  by (cases r) (simp add: conserves_def ledger_total_def)

lemma effect_conserves: "conserves (command_delta cmd) s (effect j s cmd)"
proof -
  have cre: "conserves (int (unat n)) s (on_account i (\<lambda>a. apply_credit a n) s)" for n i
    by (rule conserves_on_account) (auto dest: credit_total)
  have deb: "conserves (- int (unat n)) s (on_account i (\<lambda>a. apply_debit a n) s)" for n i
    by (rule conserves_on_account) (auto dest: debit_total)
  have res: "conserves 0 s (on_account i (\<lambda>a. apply_reserve a n) s)" for n i
    by (rule conserves_on_account) (auto dest: reserve_total)
  have rel: "conserves 0 s (on_account i (\<lambda>a. apply_release_reservation a n) s)" for n i
    by (rule conserves_on_account) (auto dest: release_total)
  show ?thesis
    using cre deb res rel transfer_conserves [of s cmd]
    by (cases "command_type cmd")
      (simp_all add: effect_def command_delta_def conserves_one_account conserves_same_accounts)
qed

text \<open>
  C2. Value is neither created nor destroyed except as commanded. A command that succeeds
  changes the total over all accounts by exactly its credit or debit, and by nothing when it
  is any other command (transfers, also to the same account, reservations and releases
  included). A command that fails never increases the total; and it leaves the total
  unchanged whenever the total is below \<open>2 ^ 64\<close>, which is far above the number of
  satoshis.
\<close>

theorem state_machine_conserves:
  assumes "sm_apply c j s cmd = (r, s')"
  shows "if is_ok r then ledger_total s' = ledger_total s + command_delta cmd
    else ledger_total s' \<le> ledger_total s \<and> (ledger_total s < 2 ^ 64 \<longrightarrow> ledger_total s' = ledger_total s)"
proof (cases "validate j s cmd")
  case (Inl e)
  with assms show ?thesis by (auto simp: sm_apply_def)
next
  case (Inr u)
  obtain r1 s1 where run: "effect j s cmd = (r1, s1)" by fastforce
  have "ledger_total (bump_state t) = ledger_total t" for t
    by (simp add: bump_state_def ledger_total_def)
  then show ?thesis
    using assms effect_conserves [of cmd s j] Inr run
    by (cases r1) (auto simp: sm_apply_def conserves_def Let_def)
qed

definition demo_json :: json where
  "demo_json = \<lparr>parse_detect = (\<lambda>s. if s = ''u'' then Inr \<lparr>dp_value_sats = 5, dp_address = ''a''\<rparr>
       else Inl ''expected value''),
     parse_reorg = (\<lambda>s. if s = ''r'' then Inr \<lparr>disconnected_txids = [''t''], rp_new_utxos = []\<rparr>
       else Inl ''expected value'')\<rparr>"

definition demo_command :: "ledger_command_type \<Rightarrow> string \<Rightarrow> u64 option \<Rightarrow> string \<Rightarrow> ledger_command" where
  "demo_command ty key ev auth = ledger_command_new demo_crypto ''id'' ty key ev auth 0 7"

lemma demo_command_fields [simp]:
  "command_type (demo_command ty key ev auth) = ty" "partition_key (demo_command ty key ev auth) = key"
  "expected_version (demo_command ty key ev auth) = ev"
  "authorization_commitment (demo_command ty key ev auth) = auth"
  "created_at_bucket (demo_command ty key ev auth) = 7"
  by (simp_all add: demo_command_def ledger_command_new_def Let_def)

lemma command_amount_digit: "command_amount (demo_command ty key ev ''9'') = 9"
proof -
  have "parse_word ''9'' = Inr (9 :: u64)"
    using parse_word_show_word [of "9 :: u64"] by (simp add: show_word_def show_nat_digit)
  then show ?thesis by (simp add: command_amount_def)
qed

lemma demo_credit_effect:
  "effect demo_json (demo_state []) (demo_command CreditInternalBalance ''alice'' (Some 0) ''9'') =
     (Inr [''alice''], (demo_state [])\<lparr>accounts := [(account_new ''alice'')\<lparr>available_sats := 9, acc_version := 1\<rparr>]\<rparr>)"
  by (simp add: effect_def one_account_def on_account_def get_or_create_account_def find_account_def
      credit_amount_def command_amount_digit apply_credit_def checked_add_def bump_version_def
      put_account_def) (simp add: account_new_def)

lemma demo_credit_validates:
  "validate demo_json (demo_state []) (demo_command CreditInternalBalance ''alice'' (Some 0) ''9'') = Inr ()"
  by (simp add: validate.simps validate_credit_def find_account_def require_def)

theorem state_machine_conserves_witness:
  "ledger_total (snd (sm_apply demo_crypto demo_json (demo_state [])
     (demo_command CreditInternalBalance ''alice'' (Some 0) ''9''))) = 9"
proof -
  obtain r s' where run: "sm_apply demo_crypto demo_json (demo_state [])
      (demo_command CreditInternalBalance ''alice'' (Some 0) ''9'') = (r, s')" by fastforce
  moreover have "is_ok r"
    using run by (auto simp: sm_apply_def demo_credit_validates demo_credit_effect Let_def)
  ultimately show ?thesis
    using state_machine_conserves [OF run]
    by (simp add: command_delta_def credit_amount_def command_amount_digit ledger_total_def)
qed

section \<open>Replaying commands\<close>

text \<open>Applying a list of commands, stopping at the first that is refused.\<close>

fun apply_all ::
    "('s \<Rightarrow> 'c \<Rightarrow> ('s, 'r) mut_result) \<Rightarrow> 's \<Rightarrow> 'c list \<Rightarrow> ('s, 'r list) mut_result" where
  "apply_all f s [] = (Inr [], s)"
| "apply_all f s (c # cs) =
     (case f s c of
        (Inl e, s') \<Rightarrow> (Inl e, s')
      | (Inr r, s') \<Rightarrow>
          (case apply_all f s' cs of
             (Inl e, s'') \<Rightarrow> (Inl e, s'')
           | (Inr rs, s'') \<Rightarrow> (Inr (r # rs), s'')))"

text \<open>Receipts that continue one another, from a version and a root to a root.\<close>

fun receipt_chain :: "u64 \<Rightarrow> string \<Rightarrow> state_transition_receipt list \<Rightarrow> string \<Rightarrow> bool" where
  "receipt_chain v root [] final \<longleftrightarrow> root = final"
| "receipt_chain v root (r # rs) final \<longleftrightarrow> st_sequence r = v \<and> previous_state_root r = root \<and>
     receipt_chain (v + 1) (resulting_state_root r) rs final"

text \<open>
  The contract of \<open>DeterministicStateMachine\<close>: \<open>apply\<close> validates first and refuses
  without effect what does not validate, and its receipt carries the version and the roots
  around the transition.
\<close>

locale deterministic_state_machine =
  fixes val :: "'s \<Rightarrow> ledger_command \<Rightarrow> unit ledger_result"
    and app :: "'s \<Rightarrow> ledger_command \<Rightarrow> ('s, state_transition_receipt) mut_result"
    and ver :: "'s \<Rightarrow> u64"
    and root :: "'s \<Rightarrow> string"
  assumes app_invalid: "val s cmd = Inl e \<Longrightarrow> app s cmd = (Inl e, s)"
    and app_receipt: "app s cmd = (Inr r, s') \<Longrightarrow> st_sequence r = ver s \<and> ver s' = ver s + 1 \<and>
      st_command_hash r = payload_hash cmd \<and> previous_state_root r = root s \<and> resulting_state_root r = root s'"
begin

lemma app_validated: "app s cmd = (Inr r, s') \<Longrightarrow> val s cmd = Inr ()"
  using app_invalid [of s cmd] by (cases "val s cmd") auto

lemma replay_chain:
  "apply_all app s cmds = (Inr rs, s') \<Longrightarrow>
     receipt_chain (ver s) (root s) rs (root s') \<and> map st_command_hash rs = map payload_hash cmds \<and>
     ver s' = ver s + of_nat (length cmds)"
proof (induction cmds arbitrary: s rs)
  case (Cons cmd cmds)
  then obtain r s1 rs' where step: "app s cmd = (Inr r, s1)" "apply_all app s1 cmds = (Inr rs', s')"
      "rs = r # rs'"
    by (auto split: prod.splits sum.splits)
  then show ?case
    using Cons.IH [OF step(2)] app_receipt [OF step(1)] by (simp add: algebra_simps)
qed simp

lemma replay_append:
  "apply_all app s (xs @ ys) =
     (case apply_all app s xs of
        (Inl e, s1) \<Rightarrow> (Inl e, s1)
      | (Inr rs, s1) \<Rightarrow> (case apply_all app s1 ys of (Inl e, s2) \<Rightarrow> (Inl e, s2) | (Inr qs, s2) \<Rightarrow> (Inr (rs @ qs), s2)))"
  by (induction xs arbitrary: s) (auto split: prod.split sum.split)

end

lemma on_account_snd:
  "snd (on_account i f s) = put_account i (snd (f (sm_account s i))) (snd (get_or_create_account s i))"
  by (auto simp: on_account_def get_or_create_account_def sm_account_def
      split: option.split prod.split sum.split)

text \<open>The state a transfer leaves: as it was, after the debit, or after debit and credit.\<close>

lemma transfer_effect_states:
  obtains "snd (transfer_effect s cmd) = s"
  | i n where "snd (transfer_effect s cmd) = snd (on_account i (\<lambda>a. apply_debit a n) s)"
  | i k n where "snd (transfer_effect s cmd) =
      snd (on_account k (\<lambda>a. apply_credit a n) (snd (on_account i (\<lambda>a. apply_debit a n) s)))"
proof (cases "split_once (CHR ''|'') (partition_key cmd)")
  case None
  then show ?thesis by (intro that(1)) (simp add: transfer_effect_def)
next
  case (Some p)
  obtain i k where p: "p = (i, k)" by fastforce
  let ?n = "command_amount cmd"
  obtain r1 s1 where 1: "on_account i (\<lambda>a. apply_debit a ?n) s = (r1, s1)" by fastforce
  obtain r2 s2 where 2: "on_account k (\<lambda>a. apply_credit a ?n) s1 = (r2, s2)" by fastforce
  show ?thesis
  proof (cases r1)
    case (Inl e)
    then show ?thesis
      by (intro that(2) [of i ?n]) (simp add: transfer_effect_def Some p 1)
  next
    case (Inr x)
    then show ?thesis
      by (intro that(3) [of k ?n i]) (simp add: transfer_effect_def Some p 1 2 split: sum.split)
  qed
qed

lemma on_account_version [simp]: "ls_version (snd (on_account i f s)) = ls_version s"
  by (auto simp: on_account_def put_account_def get_or_create_account_def
      split: prod.split sum.split option.split)

lemma one_account_snd [simp]: "snd (one_account r) = snd r"
  by (auto simp: one_account_def split: prod.split sum.split)

lemma transfer_effect_version [simp]: "ls_version (snd (transfer_effect s cmd)) = ls_version s"
  by (rule transfer_effect_states [of s cmd]) simp_all

lemma other_effects_version [simp]:
  "ls_version (snd (utxo_effect s key check f)) = ls_version s"
  "ls_version (snd (detect_effect j s cmd)) = ls_version s"
  "ls_version (snd (confirm_effect s cmd)) = ls_version s"
  "ls_version (snd (reorg_effect j s cmd)) = ls_version s"
  "ls_version (snd (intent_effect s cmd)) = ls_version s"
  "ls_version (set_nodes ns s) = ls_version s"
  by (auto simp: utxo_effect_def detect_effect_def confirm_effect_def reorg_effect_def intent_effect_def
      set_nodes_def put_utxo_def split: sum.split option.split prod.split)

lemma effect_version: "ls_version (snd (effect j s cmd)) = ls_version s"
  by (cases "command_type cmd") (simp_all add: effect_def)

interpretation ledger_machine:
  deterministic_state_machine "validate j" "sm_apply c j" ls_version "compute_state_root c" for c j
proof
  fix s cmd r s'
  assume "sm_apply c j s cmd = (Inr r, s')"
  then show "st_sequence r = ls_version s \<and> ls_version s' = ls_version s + 1 \<and>
      st_command_hash r = payload_hash cmd \<and> previous_state_root r = compute_state_root c s \<and>
      resulting_state_root r = compute_state_root c s'"
    using effect_version [of j s cmd]
    by (auto simp: sm_apply_def Let_def bump_state_def split: sum.splits prod.splits)
qed (simp add: sm_apply_def)

text \<open>
  C35. The receipts of a replay are a chain: when a list of commands applies without error, the
  receipts carry the consecutive versions from the version of the state, name the commands in
  order, each starts at the root where the previous one ended, the first at the root of the
  initial state and the last ends at the root of the final state.
\<close>

theorem replay_receipts_chain:
  assumes "apply_all (sm_apply c j) s cmds = (Inr rs, s')"
  shows "receipt_chain (ls_version s) (compute_state_root c s) rs (compute_state_root c s') \<and>
    map st_command_hash rs = map payload_hash cmds \<and> ls_version s' = ls_version s + of_nat (length cmds)"
  using assms by (rule ledger_machine.replay_chain)

theorem replay_receipts_chain_witness:
  "ls_version (snd (apply_all (sm_apply demo_crypto demo_json) (demo_state [])
      [demo_command ConsumeIntent ''a'' None [], demo_command ConsumeIntent ''b'' None []])) = 2"
proof -
  let ?cmds = "[demo_command ConsumeIntent ''a'' None [], demo_command ConsumeIntent ''b'' None []]"
  obtain rs s' where "apply_all (sm_apply demo_crypto demo_json) (demo_state []) ?cmds = (Inr rs, s')"
    by (simp add: sm_apply_def validate.simps effect_def intent_effect_def Let_def)
  from replay_receipts_chain [OF this] this show ?thesis by simp
qed

section \<open>Reachable states\<close>

text \<open>
  The states a replica can be in: every command it is given, accepted or refused, starting
  from the empty ledger of some cluster.
\<close>

inductive sm_reach :: "crypto \<Rightarrow> json \<Rightarrow> membership_view \<Rightarrow> ledger_state \<Rightarrow> bool" for c j m where
  sm_start: "sm_reach c j m (ledger_state_empty m)"
| sm_step: "sm_reach c j m s \<Longrightarrow> sm_apply c j s cmd = (r, s') \<Longrightarrow> sm_reach c j m s'"

text \<open>
  A condition on states that every effect keeps, successful or not, and that does not look at
  the version, holds of every reachable state.
\<close>

lemma sm_reach_invariant:
  assumes "sm_reach c j m s" and "P (ledger_state_empty m)"
    and "\<And>s cmd. P s \<Longrightarrow> P (snd (effect j s cmd))" and "\<And>s. P s \<Longrightarrow> P (bump_state s)"
  shows "P s"
  using assms(1)
proof (induction rule: sm_reach.induct)
  case (sm_step s cmd r s')
  have "s' = s \<or> s' = snd (effect j s cmd) \<or> s' = bump_state (snd (effect j s cmd))"
    using sm_step.hyps(2) by (auto simp: sm_apply_def Let_def split: sum.splits prod.splits)
  with sm_step.IH assms(3,4) show ?case by metis
qed (rule assms(2))

definition accounts_distinct :: "ledger_state \<Rightarrow> bool" where
  "accounts_distinct s \<longleftrightarrow> distinct (map account_id (accounts s))"

lemma map_update_first_id:
  "(\<And>x. P x \<Longrightarrow> g (f x) = g x) \<Longrightarrow> map g (update_first P f xs) = map g xs"
  by (induction xs) auto

lemma put_account_ids:
  "account_id a = i \<Longrightarrow> map account_id (accounts (put_account i a s)) = map account_id (accounts s)"
  by (simp add: put_account_def map_update_first_id)

lemma on_account_ids:
  assumes "\<And>a. account_id (snd (f a)) = account_id a"
  shows "map account_id (accounts (snd (on_account i f s))) =
    map account_id (accounts s) @ (if find_account s i = None then [i] else [])"
proof -
  have "account_id (snd (f (sm_account s i))) = i" using assms [of "sm_account s i"] by simp
  then show ?thesis
    by (simp add: on_account_snd put_account_ids get_or_create_account_def split: option.split)
qed

lemma find_account_None: "find_account s i = None \<longleftrightarrow> i \<notin> set (map account_id (accounts s))"
  by (auto simp: find_account_def find_None_iff_all)

lemma on_account_distinct:
  assumes "accounts_distinct s" and "\<And>a. account_id (snd (f a)) = account_id a"
  shows "accounts_distinct (snd (on_account i f s))"
  using assms(1) unfolding accounts_distinct_def on_account_ids [OF assms(2)]
  by (simp add: find_account_None)

lemma transfer_distinct: "accounts_distinct s \<Longrightarrow> accounts_distinct (snd (transfer_effect s cmd))"
  by (rule transfer_effect_states [of s cmd]) (simp_all add: on_account_distinct)

lemma effect_accounts_distinct: "accounts_distinct s \<Longrightarrow> accounts_distinct (snd (effect j s cmd))"
  by (cases "command_type cmd")
    (simp_all add: effect_def on_account_distinct transfer_distinct, simp_all add: accounts_distinct_def)

text \<open>The outputs and everything else, for the commands on accounts.\<close>

lemma on_account_rest:
  "utxos (snd (on_account i f s)) = utxos s \<and> journal (snd (on_account i f s)) = journal s \<and>
   reservations (snd (on_account i f s)) = reservations s \<and>
   consumed_intents (snd (on_account i f s)) = consumed_intents s \<and>
   membership (snd (on_account i f s)) = membership s"
  by (auto simp: on_account_def put_account_def get_or_create_account_def
      split: prod.split sum.split option.split)

lemma transfer_rest:
  "utxos (snd (transfer_effect s cmd)) = utxos s \<and> journal (snd (transfer_effect s cmd)) = journal s \<and>
   reservations (snd (transfer_effect s cmd)) = reservations s \<and>
   consumed_intents (snd (transfer_effect s cmd)) = consumed_intents s \<and>
   membership (snd (transfer_effect s cmd)) = membership s"
  by (rule transfer_effect_states [of s cmd]) (simp_all add: on_account_rest)

lemmas account_effects_rest = on_account_rest transfer_rest

section \<open>Outputs\<close>

text \<open>
  What may happen to one output in one command: it keeps its identity, value and address, and
  its state stays, moves along the gate, or falls back to \<open>Reorged\<close>.
\<close>

definition utxo_step :: "utxo_entry \<Rightarrow> utxo_entry \<Rightarrow> bool" where
  "utxo_step u v \<longleftrightarrow> outpoint_of v = outpoint_of u \<and> value_sats v = value_sats u \<and> address v = address u \<and>
     (ut_state v = ut_state u \<or> transition_allowed (ut_state u) (ut_state v) \<or>
      ut_state u \<in> {OcConfirming, OcSpendable, OcFinalizedByPolicy} \<and> ut_state v = OcReorged)"

definition utxos_evolve :: "utxo_entry list \<Rightarrow> utxo_entry list \<Rightarrow> bool" where
  "utxos_evolve us vs \<longleftrightarrow> (\<exists>ws ns. vs = ws @ ns \<and> list_all2 utxo_step us ws \<and>
     (\<forall>n \<in> set ns. ut_state n = OcSeen \<and> \<not> has_key us (canonical_key n)) \<and> utxos_distinct ns)"

lemma utxo_step_refl [simp]: "utxo_step u u"
  by (simp add: utxo_step_def)

lemma utxos_evolveI:
  "list_all2 utxo_step us ws \<Longrightarrow> (\<forall>n \<in> set ns. ut_state n = OcSeen \<and> \<not> has_key us (canonical_key n)) \<Longrightarrow>
     utxos_distinct ns \<Longrightarrow> utxos_evolve us (ws @ ns)"
  by (auto simp: utxos_evolve_def)

lemma utxos_evolve_all2: "list_all2 utxo_step us ws \<Longrightarrow> utxos_evolve us ws"
  using utxos_evolveI [of us ws "[]"] by (simp add: utxos_distinct_def)

lemma utxos_evolve_refl [simp]: "utxos_evolve us us"
  by (rule utxos_evolve_all2) (simp add: list_all2_refl)

lemma list_all2_update_first:
  assumes "\<And>x. R x x" and "\<And>x. List.find P xs = Some x \<Longrightarrow> R x (f x)"
  shows "list_all2 R xs (update_first P f xs)"
  using assms(2) by (induction xs) (auto simp: assms(1) list_all2_refl)

lemma utxo_effect_evolve:
  assumes "\<And>u. check u = Inr () \<Longrightarrow> utxo_step u (f u)"
  shows "utxos_evolve (utxos s) (utxos (snd (utxo_effect s key check f)))"
proof (cases "\<exists>p u. key = Inr p \<and> utxo_at s p = Some u \<and> check u = Inr ()")
  case True
  then obtain p u where p: "key = Inr p" "utxo_at s p = Some u" "check u = Inr ()" by blast
  then have "utxos (snd (utxo_effect s key check f)) = update_first (\<lambda>u. outpoint_of u = p) f (utxos s)"
    by (simp add: utxo_effect_def with_utxo_def put_utxo_def)
  then show ?thesis
    using p assms by (auto simp: utxo_at_def intro!: utxos_evolve_all2 list_all2_update_first)
next
  case False
  then have "snd (utxo_effect s key check f) = s"
    by (auto simp: utxo_effect_def with_utxo_def split: sum.split option.split)
  then show ?thesis by simp
qed

lemma detect_evolve: "utxos_evolve (utxos s) (utxos (snd (detect_effect j s cmd)))"
proof -
  have "utxos_evolve (utxos s) (utxos s @ [new_seen p v a b])" if "utxo_at s p = None" for p v a b
    using that
    by (intro utxos_evolveI)
      (auto simp: list_all2_refl utxos_distinct_def has_key_def canonical_key_eq utxo_at_def
        find_None_iff_all new_seen_def)
  moreover have "utxos_evolve (utxos s) (utxos (put_utxo p
      (\<lambda>u. u\<lparr>ut_state := OcSeen, detected_at_bucket := b\<rparr>) s))"
    if "utxo_at s p = Some u" "ut_state u = OcReorged" for p u b
    using that unfolding put_utxo_def utxo_at_def
    by (auto intro!: utxos_evolve_all2 list_all2_update_first simp: utxo_step_def)
  ultimately show ?thesis
    by (auto simp: detect_effect_def split: sum.split option.split)
qed

lemma confirm_evolve: "utxos_evolve (utxos s) (utxos (snd (confirm_effect s cmd)))"
  by (auto simp: confirm_effect_def utxo_step_def validate_transition_ok
      split: sum.split intro!: utxo_effect_evolve)

lemma reorg_evolve: "utxos_evolve (utxos s) (utxos (snd (reorg_effect j s cmd)))"
proof (cases "reorg_payload_of j cmd")
  case (Inr p)
  let ?t = "disconnected_txids p"
  obtain ns where run: "apply_reorg (utxos s) ?t (rp_new_utxos p) (created_at_bucket cmd) =
      (Inr (map canonical_key (filter (reorg_hits ?t) (utxos s)) @ map canonical_key ns),
       map (\<lambda>u. if reorg_hits ?t u then mark_reorged u else u) (utxos s) @ ns)"
    and ns: "\<forall>n \<in> set ns. \<not> has_key (utxos s) (canonical_key n) \<and> ut_state n = OcSeen \<and>
      detected_at_bucket n = created_at_bucket cmd" "utxos_distinct ns"
    by (rule apply_reorg_spec)
  have "list_all2 utxo_step (utxos s) (map (\<lambda>u. if reorg_hits ?t u then mark_reorged u else u) (utxos s))"
    by (auto simp: list.rel_map list_all2_refl utxo_step_def reorg_hits_def mark_reorged_def
        intro!: list.rel_refl_strong)
  with ns show ?thesis
    by (auto simp: reorg_effect_def Inr run intro!: utxos_evolveI)
qed (simp add: reorg_effect_def)

lemma effect_evolve: "utxos_evolve (utxos s) (utxos (snd (effect j s cmd)))"
proof -
  have "utxos_evolve (utxos s) (utxos (snd (utxo_effect s key
      (\<lambda>u. validate_transition (ut_state u) OcSpendable) (\<lambda>u. u\<lparr>ut_state := OcSpendable\<rparr>))))" for key
    by (rule utxo_effect_evolve) (simp add: utxo_step_def validate_transition_ok)
  moreover have "utxos_evolve (utxos s) (utxos (snd (utxo_effect s key check_reservable
      (\<lambda>u. u\<lparr>reserved_by := Some i, reserved_at_bucket := Some b\<rparr>))))" for key i b
    by (rule utxo_effect_evolve) (simp add: utxo_step_def)
  moreover have "utxos_evolve (utxos s) (utxos (snd (utxo_effect s key check_reserved
      (\<lambda>u. u\<lparr>reserved_by := None, reserved_at_bucket := None\<rparr>))))" for key
    by (rule utxo_effect_evolve) (simp add: utxo_step_def)
  moreover have "utxos_evolve (utxos s) (utxos (snd (utxo_effect s key
      (\<lambda>u. validate_transition (ut_state u) OcSpent) (spend_write cmd))))" for key
    by (rule utxo_effect_evolve) (simp add: utxo_step_def validate_transition_ok spend_write_def)
  ultimately show ?thesis
    by (cases "command_type cmd")
      (simp_all add: effect_def account_effects_rest detect_evolve confirm_evolve reorg_evolve
        intent_effect_def set_nodes_def)
qed

text \<open>
  C20. No command, accepted or refused, loses an output or changes its identity, value or
  address: the outputs known before are still there, in place; each has kept its state, moved
  along the transition gate, or been set back to \<open>Reorged\<close>; and outputs that are new are
  \<open>Seen\<close> and were not known.
\<close>

theorem state_machine_outputs:
  assumes "sm_apply c j s cmd = (r, s')"
  shows "utxos_evolve (utxos s) (utxos s')"
proof -
  have "s' = s \<or> utxos s' = utxos (snd (effect j s cmd))"
    using assms by (auto simp: sm_apply_def Let_def bump_state_def split: sum.splits prod.splits)
  then show ?thesis using effect_evolve [of s j cmd] by auto
qed

theorem state_machine_outputs_witness:
  "utxos_evolve [demo_utxo ''t'' OcSpendable]
    (utxos (snd (sm_apply demo_crypto demo_json ((demo_state [])\<lparr>utxos := [demo_utxo ''t'' OcSpendable]\<rparr>)
      (demo_command MarkUtxoSpent ''t:0'' None ''spender''))))"
proof -
  let ?s = "(demo_state [])\<lparr>utxos := [demo_utxo ''t'' OcSpendable]\<rparr>"
  obtain r s' where run: "sm_apply demo_crypto demo_json ?s
      (demo_command MarkUtxoSpent ''t:0'' None ''spender'') = (r, s')" by fastforce
  from state_machine_outputs [OF run] show ?thesis by (simp only: run snd_conv) simp
qed

lemma utxos_evolve_distinct:
  assumes "utxos_evolve us vs" and "utxos_distinct us"
  shows "utxos_distinct vs"
proof -
  obtain ws ns where vs: "vs = ws @ ns" and all2: "list_all2 utxo_step us ws"
    and ns: "\<forall>n \<in> set ns. ut_state n = OcSeen \<and> \<not> has_key us (canonical_key n)" "utxos_distinct ns"
    using assms(1) unfolding utxos_evolve_def by blast
  have "map canonical_key ws = map canonical_key us"
    using all2 by (induction rule: list_all2_induct) (auto simp: utxo_step_def canonical_key_def)
  then show ?thesis
    using assms(2) ns by (auto simp: vs utxos_distinct_def has_key_iff) (metis key_in_image list.set_map)
qed

definition all_seen :: "ledger_state \<Rightarrow> bool" where
  "all_seen s \<longleftrightarrow> (\<forall>u \<in> set (utxos s). ut_state u = OcSeen)"

lemma utxo_effect_seen:
  assumes "all_seen s" and "\<And>u. ut_state u = OcSeen \<Longrightarrow> check u = Inr () \<Longrightarrow> ut_state (f u) = OcSeen"
  shows "all_seen (snd (utxo_effect s key check f))"
proof (cases "\<exists>p u. key = Inr p \<and> utxo_at s p = Some u \<and> check u = Inr ()")
  case True
  then obtain p u where p: "key = Inr p" "utxo_at s p = Some u" "check u = Inr ()" by blast
  moreover from p(2) have "ut_state u = OcSeen"
    using assms(1) by (auto simp: utxo_at_def all_seen_def dest: find_Some_in)
  ultimately show ?thesis
    using assms
    by (auto simp: utxo_effect_def with_utxo_def put_utxo_def all_seen_def utxo_at_def
        dest!: set_update_first)
next
  case False
  then have "snd (utxo_effect s key check f) = s"
    by (auto simp: utxo_effect_def with_utxo_def split: sum.split option.split)
  then show ?thesis using assms(1) by simp
qed

lemma detect_seen: "all_seen s \<Longrightarrow> all_seen (snd (detect_effect j s cmd))"
  by (auto simp: detect_effect_def all_seen_def put_utxo_def new_seen_def
      split: sum.split option.split dest!: set_update_first)

lemma confirm_seen: "all_seen s \<Longrightarrow> all_seen (snd (confirm_effect s cmd))"
  by (auto simp: confirm_effect_def validate_transition_def split: sum.split intro!: utxo_effect_seen)

lemma reorg_seen:
  assumes "all_seen s"
  shows "all_seen (snd (reorg_effect j s cmd))"
proof (cases "reorg_payload_of j cmd")
  case (Inr p)
  let ?t = "disconnected_txids p"
  obtain ns where run: "apply_reorg (utxos s) ?t (rp_new_utxos p) (created_at_bucket cmd) =
      (Inr (map canonical_key (filter (reorg_hits ?t) (utxos s)) @ map canonical_key ns),
       map (\<lambda>u. if reorg_hits ?t u then mark_reorged u else u) (utxos s) @ ns)"
    and ns: "\<forall>n \<in> set ns. \<not> has_key (utxos s) (canonical_key n) \<and> ut_state n = OcSeen \<and>
      detected_at_bucket n = created_at_bucket cmd"
    by (rule apply_reorg_spec)
  then show ?thesis
    using assms by (auto simp: reorg_effect_def Inr all_seen_def reorg_hits_def)
qed (use assms in \<open>simp add: reorg_effect_def\<close>)

lemma effect_seen: "all_seen s \<Longrightarrow> all_seen (snd (effect j s cmd))"
proof -
  assume s: "all_seen s"
  then have "all_seen t" if "utxos t = utxos s" for t
    using that by (simp add: all_seen_def)
  note same = this
  have "all_seen (snd (utxo_effect s key (\<lambda>u. validate_transition (ut_state u) OcSpendable)
      (\<lambda>u. u\<lparr>ut_state := OcSpendable\<rparr>)))"
    "all_seen (snd (utxo_effect s key check_reservable
      (\<lambda>u. u\<lparr>reserved_by := Some i, reserved_at_bucket := Some b\<rparr>)))"
    "all_seen (snd (utxo_effect s key check_reserved
      (\<lambda>u. u\<lparr>reserved_by := None, reserved_at_bucket := None\<rparr>)))"
    "all_seen (snd (utxo_effect s key (\<lambda>u. validate_transition (ut_state u) OcSpent) (spend_write cmd)))"
    for key i b
    by (rule utxo_effect_seen [OF s], simp add: validate_transition_def check_reservable_def)+
  then show ?thesis
    using s detect_seen confirm_seen reorg_seen same
    by (cases "command_type cmd")
      (simp_all add: effect_def account_effects_rest intent_effect_def set_nodes_def)
qed

lemma effect_history:
  "journal (snd (effect j s cmd)) = journal s \<and> reservations (snd (effect j s cmd)) = reservations s"
proof -
  have "journal (snd (utxo_effect s key check f)) = journal s \<and>
      reservations (snd (utxo_effect s key check f)) = reservations s" for key check f
    by (auto simp: utxo_effect_def put_utxo_def split: sum.split)
  then show ?thesis
    by (cases "command_type cmd")
      (auto simp: effect_def account_effects_rest intent_effect_def set_nodes_def detect_effect_def
        confirm_effect_def reorg_effect_def put_utxo_def split: sum.split option.split prod.split)
qed

lemma effect_intents:
  "consumed_intents (snd (effect j s cmd)) =
    (if command_type cmd \<in> {ConsumeIntent, ExpireIntent} \<and> partition_key cmd \<notin> set (consumed_intents s)
     then consumed_intents s @ [partition_key cmd] else consumed_intents s)"
proof -
  have "consumed_intents (snd (utxo_effect s key check f)) = consumed_intents s" for key check f
    by (auto simp: utxo_effect_def put_utxo_def split: sum.split)
  then show ?thesis
    by (cases "command_type cmd")
      (auto simp: effect_def account_effects_rest intent_effect_def set_nodes_def detect_effect_def
        confirm_effect_def reorg_effect_def put_utxo_def split: sum.split option.split prod.split)
qed

definition sm_inv :: "ledger_state \<Rightarrow> bool" where
  "sm_inv s \<longleftrightarrow> accounts_distinct s \<and> utxos_distinct (utxos s) \<and> distinct (consumed_intents s) \<and>
     all_seen s \<and> journal s = [] \<and> reservations s = []"

lemma sm_reach_inv: "sm_reach c j m s \<Longrightarrow> sm_inv s"
proof (erule sm_reach_invariant)
  show "sm_inv (ledger_state_empty m)"
    by (simp add: sm_inv_def ledger_state_empty_def accounts_distinct_def utxos_distinct_def all_seen_def)
next
  fix s cmd assume "sm_inv s"
  then show "sm_inv (snd (effect j s cmd))"
    by (auto simp: sm_inv_def effect_accounts_distinct effect_seen effect_history effect_intents
        intro: utxos_evolve_distinct [OF effect_evolve])
next
  fix s assume "sm_inv s"
  then show "sm_inv (bump_state s)"
    by (simp add: sm_inv_def bump_state_def accounts_distinct_def all_seen_def)
qed

text \<open>
  C36. In every state reachable from the empty ledger, whichever commands were accepted or
  refused on the way, no two accounts share an identifier, no two outputs share an outpoint and
  no intent is recorded twice.
\<close>

theorem reachable_identities_distinct:
  assumes "sm_reach c j m s"
  shows "distinct (map account_id (accounts s)) \<and> distinct (map outpoint_of (utxos s)) \<and>
    distinct (consumed_intents s)"
proof -
  have inv: "sm_inv s" using assms by (rule sm_reach_inv)
  then have "distinct (map canonical_key (utxos s))" by (simp add: sm_inv_def utxos_distinct_def)
  moreover have "map canonical_key (utxos s) = map to_canonical_string (map outpoint_of (utxos s))"
    by (simp add: canonical_key_def)
  ultimately have "distinct (map outpoint_of (utxos s))"
    by (metis distinct_map)
  with inv show ?thesis by (simp add: sm_inv_def accounts_distinct_def)
qed

definition demo_reached :: ledger_state where
  "demo_reached = snd (sm_apply demo_crypto demo_json (demo_state [])
     (demo_command CreditInternalBalance ''alice'' (Some 0) ''9''))"

lemma demo_reached_reach: "sm_reach demo_crypto demo_json (single_node ''c'' ''n'') demo_reached"
proof -
  have "demo_state [] = ledger_state_empty (single_node ''c'' ''n'')"
    by (simp add: demo_state_def ledger_state_empty_def)
  then show ?thesis
    unfolding demo_reached_def using sm_step [OF sm_start] by (metis prod.collapse)
qed

theorem reachable_identities_distinct_witness:
  "distinct (map account_id (accounts demo_reached)) \<and> accounts demo_reached \<noteq> []"
  using reachable_identities_distinct [OF demo_reached_reach]
  by (simp add: demo_reached_def sm_apply_def demo_credit_validates demo_credit_effect bump_state_def Let_def)

text \<open>
  Through the state machine alone no output ever leaves \<open>Seen\<close>: no command reaches
  \<open>InMempool\<close>, and confirmation starts only there. In every reachable state the commands
  that confirm, mature, reserve or spend an output are refused without effect.
\<close>

theorem reachable_outputs_stay_seen:
  assumes "sm_reach c j m s"
  shows "(\<forall>u \<in> set (utxos s). ut_state u = OcSeen) \<and>
    (command_type cmd \<in> {ConfirmUtxo, MarkUtxoSpendable, ReserveUtxo, MarkUtxoSpent} \<longrightarrow>
       (\<exists>e. sm_apply c j s cmd = (Inl e, s)))"
proof -
  have seen: "all_seen s" using sm_reach_inv [OF assms] by (simp add: sm_inv_def)
  have refused: "\<exists>e. with_utxo s p check = Inl e"
    if "\<And>u. ut_state u = OcSeen \<Longrightarrow> \<exists>e. check u = Inl e" for p and check :: "utxo_entry \<Rightarrow> unit ledger_result"
    using seen that
    by (auto simp: with_utxo_def utxo_at_def all_seen_def split: option.split dest!: find_Some_in)
  have "\<exists>e. validate j s cmd = Inl e"
    if "command_type cmd \<in> {ConfirmUtxo, MarkUtxoSpendable, ReserveUtxo, MarkUtxoSpent}"
    using that refused [of "\<lambda>u. validate_transition (ut_state u) OcConfirming"]
      refused [of "\<lambda>u. validate_transition (ut_state u) OcSpendable"] refused [of check_reservable]
      refused [of "\<lambda>u. validate_transition (ut_state u) OcSpent"]
    by (auto simp: validate.simps validate_transition_def check_reservable_def res_bind_def
        split: sum.split)
  then show ?thesis
    using seen by (auto simp: all_seen_def sm_apply_def)
qed

theorem reachable_outputs_stay_seen_witness:
  "\<exists>e. sm_apply demo_crypto demo_json demo_reached (demo_command ConfirmUtxo ''t:0'' None ''9'') =
     (Inl e, demo_reached)"
  using reachable_outputs_stay_seen [OF demo_reached_reach, of "demo_command ConfirmUtxo ''t:0'' None ''9''"]
  by simp

section \<open>Versioned commands\<close>

definition balance_types :: "ledger_command_type set" where
  "balance_types = {CreditInternalBalance, DebitInternalBalance, ReserveBalance, CtReleaseReservation}"

lemma validate_version_conflict:
  assumes "command_type cmd \<in> balance_types" and "expected_version cmd = Some ev"
    and "acc_version (sm_account s (partition_key cmd)) \<noteq> ev"
  shows "validate j s cmd = Inl (VersionConflict (partition_key cmd) ev
    (acc_version (sm_account s (partition_key cmd))))"
proof -
  have "account_id a = i" if "find_account s i = Some a" for a i
    using that by (auto simp: find_account_def dest: find_Some_in)
  then show ?thesis
    using assms
    by (auto simp: balance_types_def validate.simps validate_credit_def validate_debit_def
        validate_reserve_def validate_existing_def validate_release_reservation_def check_version_def
        sm_account_def account_new_def require_def split: option.splits)
qed

lemma balance_effect_ok:
  assumes "command_type cmd \<in> balance_types" and "effect j s cmd = (Inr l, s')"
  shows "acc_version (sm_account s' (partition_key cmd)) = acc_version (sm_account s (partition_key cmd)) + 1"
proof -
  let ?i = "partition_key cmd"
  have step: "acc_version (sm_account s' ?i) = acc_version (sm_account s ?i) + 1"
    if run: "one_account (on_account ?i f s) = (Inr l, s')"
      and id: "\<And>a. account_id (snd (f a)) = account_id a"
      and ver: "\<And>a u a'. f a = (Inr u, a') \<Longrightarrow> acc_version a' = acc_version a + 1" for f
  proof -
    obtain x where on: "on_account ?i f s = (Inr x, s')"
      using run by (auto simp: one_account_def split: prod.splits sum.splits)
    then have "\<exists>u. fst (f (sm_account s ?i)) = Inr u"
      using on_account_fst [of ?i f s] by (auto split: sum.splits)
    then obtain u a' where f: "f (sm_account s ?i) = (Inr u, a')" by (metis prod.collapse)
    moreover have "sm_account s' ?i = a'"
      using sm_account_after [of f ?i s ?i] id on f by simp
    ultimately show ?thesis using ver by simp
  qed
  show ?thesis
    using assms
    by (auto simp: balance_types_def effect_def account_op_ok intro!: step)
qed

text \<open>
  C23. Replicas cannot lose an update: once a balance command with an expected version has
  been applied, every balance command on that account with the same expected version is
  refused with a \<open>VersionConflict\<close>, without effect.
\<close>

theorem state_machine_no_lost_update:
  assumes "command_type a \<in> balance_types" and "command_type b \<in> balance_types"
    and "partition_key b = partition_key a"
    and "expected_version a = Some ev" and "expected_version b = Some ev"
    and "sm_apply c j s a = (Inr r, s')"
  shows "sm_apply c j s' b = (Inl (VersionConflict (partition_key a) ev (ev + 1)), s')"
proof -
  let ?i = "partition_key a"
  have "validate j s a = Inr ()"
    using assms(6) by (rule ledger_machine.app_validated)
  then have ev: "acc_version (sm_account s ?i) = ev"
    using validate_version_conflict [OF assms(1,4), of s j] by (metis Inl_Inr_False)
  obtain l s1 where "effect j s a = (Inr l, s1)" "s' = bump_state s1"
    using assms(6) by (auto simp: sm_apply_def Let_def split: sum.splits prod.splits)
  then have "acc_version (sm_account s' ?i) = ev + 1"
    using balance_effect_ok [OF assms(1)] ev
    by (simp add: bump_state_def sm_account_def find_account_def)
  then have "validate j s' b = Inl (VersionConflict ?i ev (ev + 1))"
    using validate_version_conflict [OF assms(2,5), of s' j] assms(3) by simp
  then show ?thesis by (rule ledger_machine.app_invalid)
qed

theorem state_machine_no_lost_update_witness:
  "fst (sm_apply demo_crypto demo_json demo_reached (demo_command CreditInternalBalance ''alice'' (Some 0) ''9'')) =
     Inl (VersionConflict ''alice'' 0 1)"
proof -
  let ?a = "demo_command CreditInternalBalance ''alice'' (Some 0) ''9''"
  obtain r where r: "sm_apply demo_crypto demo_json (demo_state []) ?a = (Inr r, demo_reached)"
    by (simp add: demo_reached_def sm_apply_def demo_credit_validates demo_credit_effect Let_def)
  show ?thesis
    using state_machine_no_lost_update [of ?a ?a, OF _ _ _ _ _ r] by (simp add: balance_types_def)
qed

end
