(* ===== verification/Certificate.thy ===== *)
theory Certificate
  imports Ledger_State
begin

text \<open>
  Quorum certificates, checkpoints and certified snapshots (\<open>certificate.rs\<close>). Ed25519 and
  the hexadecimal codec are the parameters of \<open>crypto\<close>. The registry of public keys is a
  \<open>HashMap\<close>. Verification is characterised field by field, and two certificates that conflict
  are shown to need a node that signed both.
\<close>

section \<open>Quorum certificates\<close>

record node_signature =
  sg_node_id :: string
  signature_hex :: string
  public_key_hex :: string

record quorum_certificate =
  qc_cluster_id :: string
  qc_epoch :: u64
  qc_view :: u64
  qc_sequence :: u64
  qc_command_hash :: string
  qc_previous_state_root :: string
  qc_resulting_state_root :: string
  signer_bitmap :: bytes
  signatures :: "node_signature list"

definition qc_single_node ::
    "string \<Rightarrow> u64 \<Rightarrow> u64 \<Rightarrow> u64 \<Rightarrow> string \<Rightarrow> string \<Rightarrow> string \<Rightarrow> string \<Rightarrow> string \<Rightarrow> string \<Rightarrow> quorum_certificate" where
  "qc_single_node cid ep vw seq ch prev res nid sg pk =
     \<lparr>qc_cluster_id = cid, qc_epoch = ep, qc_view = vw, qc_sequence = seq, qc_command_hash = ch,
      qc_previous_state_root = prev, qc_resulting_state_root = res, signer_bitmap = [1],
      signatures = [\<lparr>sg_node_id = nid, signature_hex = sg, public_key_hex = pk\<rparr>]\<rparr>"

definition signing_buf :: "quorum_certificate \<Rightarrow> bytes" where
  "signing_buf q = str_bytes ''KEROSENE_QC_v1'' @ str_bytes '':'' @ str_bytes (qc_cluster_id q) @
     str_bytes '':'' @ u64_le (qc_epoch q) @ u64_le (qc_view q) @ u64_le (qc_sequence q) @
     str_bytes (qc_command_hash q) @ str_bytes (qc_previous_state_root q) @
     str_bytes (qc_resulting_state_root q)"

definition signing_message :: "crypto \<Rightarrow> quorum_certificate \<Rightarrow> bytes" where
  "signing_message c q = sha256 c (signing_buf q)"

definition signer_count :: "quorum_certificate \<Rightarrow> nat" where
  "signer_count q = length (signatures q)"

definition quoted :: "string \<Rightarrow> string" where
  "quoted s = [CHR 0x27] @ s @ [CHR 0x27]"

text \<open>Decoding a key and a signature and checking the signature, as both verifiers do it.\<close>

definition verify_signature :: "crypto \<Rightarrow> bytes \<Rightarrow> node_signature \<Rightarrow> string \<Rightarrow> unit ledger_result" where
  "verify_signature c message sig pk_hex =
     res_bind (ok_or (hex_decode c pk_hex)
       (InvalidSignature (''invalid hex public key for node '' @ quoted (sg_node_id sig)))) (\<lambda>pk.
     res_bind (require (length pk = 32)
       (InvalidSignature (''invalid Ed25519 public key length for node '' @ quoted (sg_node_id sig)))) (\<lambda>_.
     res_bind (case key_rejected c pk of None \<Rightarrow> Inr () | Some e \<Rightarrow> Inl (InvalidSignature
       (''invalid Ed25519 public key for node '' @ quoted (sg_node_id sig) @ '': '' @ e))) (\<lambda>_.
     res_bind (ok_or (hex_decode c (signature_hex sig))
       (InvalidSignature (''invalid hex signature for node '' @ quoted (sg_node_id sig)))) (\<lambda>sg.
     res_bind (require (length sg = 64)
       (InvalidSignature (''invalid Ed25519 signature length for node '' @ quoted (sg_node_id sig)))) (\<lambda>_.
     require (sig_valid c pk message sg)
       (InvalidSignature (''invalid Ed25519 signature from node '' @ quoted (sg_node_id sig))))))))"

definition basic_signature :: "crypto \<Rightarrow> bytes \<Rightarrow> node_signature \<Rightarrow> unit ledger_result" where
  "basic_signature c message sig =
     res_bind (require (public_key_hex sig \<noteq> []) (InvalidSignature
       (''signature from node '' @ quoted (sg_node_id sig) @ '' has empty public_key_hex''))) (\<lambda>_.
     res_bind (require (signature_hex sig \<noteq> []) (InvalidSignature
       (''signature from node '' @ quoted (sg_node_id sig) @ '' has empty signature_hex''))) (\<lambda>_.
     verify_signature c message sig (public_key_hex sig)))"

definition qc_verify_basic :: "crypto \<Rightarrow> quorum_certificate \<Rightarrow> unit ledger_result" where
  "qc_verify_basic c q =
     res_bind (require (qc_previous_state_root q \<noteq> []) (InvalidSignature ''previous_state_root is empty'')) (\<lambda>_.
     res_bind (require (qc_resulting_state_root q \<noteq> []) (InvalidSignature ''resulting_state_root is empty'')) (\<lambda>_.
     res_bind (require (qc_command_hash q \<noteq> []) (InvalidSignature ''command_hash is empty'')) (\<lambda>_.
     res_bind (require (signatures q \<noteq> []) (InvalidSignature ''no signatures in quorum certificate'')) (\<lambda>_.
     res_bind (require (signer_bitmap q \<noteq> []) (InvalidSignature ''signer_bitmap is empty'')) (\<lambda>_.
     check_all (basic_signature c (signing_message c q)) (signatures q))))))"

definition registered_signature ::
    "crypto \<Rightarrow> (string, string) hashmap \<Rightarrow> bytes \<Rightarrow> node_signature \<Rightarrow> unit ledger_result" where
  "registered_signature c keys message sig =
     res_bind (ok_or (map_of keys (sg_node_id sig)) (InvalidSignature
       (''unknown signer node '' @ quoted (sg_node_id sig) @ '': no public key provided''))) (\<lambda>pk_hex.
     res_bind (require (pk_hex = public_key_hex sig) (InvalidSignature
       (''public key mismatch for node '' @ quoted (sg_node_id sig) @ '': expected '' @ pk_hex @
        '', got '' @ public_key_hex sig))) (\<lambda>_.
     verify_signature c message sig pk_hex))"

definition qc_verify_crypto ::
    "crypto \<Rightarrow> quorum_certificate \<Rightarrow> (string, string) hashmap \<Rightarrow> unit ledger_result" where
  "qc_verify_crypto c q keys =
     res_bind (qc_verify_basic c q) (\<lambda>_.
     check_all (registered_signature c keys (signing_message c q)) (signatures q))"

section \<open>Checkpoints and certified snapshots\<close>

record checkpoint =
  cp_sequence :: u64
  cp_state_root :: string
  cp_membership_hash :: string
  committed_commands_root :: string
  cp_timestamp_bucket :: u64
  cp_quorum_certificate :: "quorum_certificate option"

definition checkpoint_from_state ::
    "crypto \<Rightarrow> ledger_state \<Rightarrow> u64 \<Rightarrow> quorum_certificate option \<Rightarrow> checkpoint" where
  "checkpoint_from_state c s ts q =
     \<lparr>cp_sequence = saturating_sub (ls_version s) 1, cp_state_root = compute_state_root c s,
      cp_membership_hash = compute_membership_hash c (membership s),
      committed_commands_root = (if journal s = [] then ''0'' else entry_hash (last (journal s))),
      cp_timestamp_bucket = ts, cp_quorum_certificate = q\<rparr>"

definition checkpoint_verify :: "crypto \<Rightarrow> checkpoint \<Rightarrow> ledger_state \<Rightarrow> unit ledger_result" where
  "checkpoint_verify c k s =
     (let computed_root = compute_state_root c s;
          computed_membership = compute_membership_hash c (membership s)
      in res_bind (require (cp_state_root k = computed_root)
           (StateRootMismatch computed_root (cp_state_root k))) (\<lambda>_.
         require (cp_membership_hash k = computed_membership) (InvariantViolation
           (''membership hash mismatch: expected '' @ computed_membership @ '', got '' @ cp_membership_hash k))))"

record certified_snapshot =
  cs_cluster_id :: string
  cs_epoch :: u64
  cs_sequence :: u64
  state_bytes :: bytes
  cs_state_root :: string
  cs_membership_hash :: string
  constitution_hash :: string
  policy_hash :: string
  ledger_totals_hash :: string
  utxo_set_root :: string
  consumed_intents_root :: string
  cs_quorum_certificate :: quorum_certificate

definition cs_verify_basic :: "crypto \<Rightarrow> certified_snapshot \<Rightarrow> unit ledger_result" where
  "cs_verify_basic c k =
     res_bind (require (cs_cluster_id k \<noteq> []) (InvalidSignature ''cluster_id is empty in CertifiedSnapshot'')) (\<lambda>_.
     res_bind (require (cs_state_root k \<noteq> []) (InvalidSignature ''state_root is empty in CertifiedSnapshot'')) (\<lambda>_.
     res_bind (require (state_bytes k \<noteq> []) (InvalidSignature ''state_bytes is empty in CertifiedSnapshot'')) (\<lambda>_.
     qc_verify_basic c (cs_quorum_certificate k))))"

section \<open>What verification establishes\<close>

text \<open>The signature of \<open>sig\<close> is a valid signature of the message under its own key.\<close>

definition signature_holds :: "crypto \<Rightarrow> bytes \<Rightarrow> node_signature \<Rightarrow> bool" where
  "signature_holds c message sig \<longleftrightarrow>
     (\<exists>pk sg. hex_decode c (public_key_hex sig) = Some pk \<and> length pk = 32 \<and> key_rejected c pk = None \<and>
        hex_decode c (signature_hex sig) = Some sg \<and> length sg = 64 \<and> sig_valid c pk message sg)"

lemma verify_signature_ok [result_simps]:
  "verify_signature c m sig (public_key_hex sig) = Inr u \<longleftrightarrow> signature_holds c m sig"
  by (auto simp: verify_signature_def signature_holds_def result_simps split: option.splits)

lemma basic_signature_ok [result_simps]:
  "is_ok (basic_signature c m sig) \<longleftrightarrow>
     public_key_hex sig \<noteq> [] \<and> signature_hex sig \<noteq> [] \<and> signature_holds c m sig"
  by (auto simp: is_ok_iff basic_signature_def result_simps)

lemma registered_signature_ok [result_simps]:
  "is_ok (registered_signature c keys m sig) \<longleftrightarrow>
     map_of keys (sg_node_id sig) = Some (public_key_hex sig) \<and> signature_holds c m sig"
  by (auto simp: is_ok_iff registered_signature_def result_simps)

lemma qc_verify_basic_ok [result_simps]:
  "qc_verify_basic c q = Inr u \<longleftrightarrow>
     qc_previous_state_root q \<noteq> [] \<and> qc_resulting_state_root q \<noteq> [] \<and> qc_command_hash q \<noteq> [] \<and>
     signatures q \<noteq> [] \<and> signer_bitmap q \<noteq> [] \<and>
     (\<forall>sig \<in> set (signatures q). public_key_hex sig \<noteq> [] \<and> signature_hex sig \<noteq> [] \<and>
        signature_holds c (signing_message c q) sig)"
  by (auto simp: qc_verify_basic_def result_simps)

lemma qc_verify_crypto_ok:
  "qc_verify_crypto c q keys = Inr u \<longleftrightarrow> qc_verify_basic c q = Inr () \<and>
     (\<forall>sig \<in> set (signatures q). map_of keys (sg_node_id sig) = Some (public_key_hex sig))"
  by (auto simp: qc_verify_crypto_def result_simps)

definition demo_qc :: quorum_certificate where
  "demo_qc = (let q = qc_single_node ''c'' 1 0 3 ''h'' ''p'' ''r'' ''n1'' [] [];
      m = signing_message demo_crypto q
    in q\<lparr>signatures := [\<lparr>sg_node_id = ''n1'', signature_hex = demo_hex_encode (m @ m),
           public_key_hex = demo_hex_encode (replicate 32 7)\<rparr>]\<rparr>)"

definition demo_keys :: "(string, string) hashmap" where
  "demo_keys = [(''n1'', demo_hex_encode (replicate 32 7))]"

lemma demo_hex_nonempty: "b \<noteq> [] \<Longrightarrow> demo_hex_encode b \<noteq> []"
  using length_demo_hex_encode [of b] by auto

lemma demo_qc_message: "signing_message demo_crypto (q\<lparr>signatures := x\<rparr>) = signing_message demo_crypto q"
  by (simp add: signing_message_def signing_buf_def)

lemma demo_qc_verifies: "is_ok (qc_verify_crypto demo_crypto demo_qc demo_keys)"
proof -
  let ?q = "qc_single_node ''c'' 1 0 3 ''h'' ''p'' ''r'' ''n1'' [] []"
  have "length (signing_message demo_crypto ?q) = 32"
    by (simp add: signing_message_def crypto_ok_length [OF demo_crypto_ok])
  moreover have "signing_message demo_crypto ?q \<noteq> []"
    using calculation by auto
  moreover have "hex_decode demo_crypto = demo_hex_decode" "key_rejected demo_crypto = (\<lambda>k. None)"
      "sig_valid demo_crypto = (\<lambda>k m s. s = m @ m)"
    by (simp_all add: demo_crypto_def)
  ultimately show ?thesis
    by (simp add: is_ok_iff qc_verify_crypto_ok qc_verify_basic_ok signature_holds_def demo_qc_def Let_def
        demo_qc_message demo_hex_roundtrip demo_hex_nonempty demo_keys_def)
      (simp add: qc_single_node_def)
qed

text \<open>
  Verification counts signatures, not signers: a certificate with a single valid signature
  can be padded with copies of it to any positive number of signatures, and still verifies
  against the same registry, while \<open>signer_count\<close> reports that number.
\<close>

theorem duplicated_signatures_verify:
  assumes "qc_verify_crypto c q keys = Inr ()" and "sig \<in> set (signatures q)" and "0 < n"
  shows "qc_verify_crypto c (q\<lparr>signatures := replicate n sig\<rparr>) keys = Inr () \<and>
    signer_count (q\<lparr>signatures := replicate n sig\<rparr>) = n"
  using assms
  by (auto simp: qc_verify_crypto_ok qc_verify_basic_ok signer_count_def signing_message_def signing_buf_def)

theorem duplicated_signatures_verify_witness:
  "signer_count (demo_qc\<lparr>signatures := replicate 5 (hd (signatures demo_qc))\<rparr>) = 5 \<and>
   is_ok (qc_verify_crypto demo_crypto (demo_qc\<lparr>signatures := replicate 5 (hd (signatures demo_qc))\<rparr>) demo_keys)"
proof -
  have "qc_verify_crypto demo_crypto demo_qc demo_keys = Inr ()"
    using demo_qc_verifies by (simp add: is_ok_iff)
  moreover have "hd (signatures demo_qc) \<in> set (signatures demo_qc)"
    by (simp add: demo_qc_def Let_def)
  ultimately show ?thesis
    using duplicated_signatures_verify [of demo_crypto demo_qc demo_keys "hd (signatures demo_qc)" 5] by simp
qed

text \<open>
  The signed message binds the certificate: for certificates whose command hash and roots
  have the 64 characters of a hexadecimal SHA-256 digest, and as long as SHA-256 does not
  collide on the two texts, equal messages mean equal cluster, epoch, view, sequence, command
  and roots.
\<close>

theorem signing_message_binds:
  assumes "inj_on (sha256 c) {signing_buf a, signing_buf b}"
    and "length (qc_command_hash a) = 64" "length (qc_previous_state_root a) = 64"
      "length (qc_resulting_state_root a) = 64"
    and "length (qc_command_hash b) = 64" "length (qc_previous_state_root b) = 64"
      "length (qc_resulting_state_root b) = 64"
  shows "signing_message c a = signing_message c b \<longleftrightarrow>
    qc_cluster_id a = qc_cluster_id b \<and> qc_epoch a = qc_epoch b \<and> qc_view a = qc_view b \<and>
    qc_sequence a = qc_sequence b \<and> qc_command_hash a = qc_command_hash b \<and>
    qc_previous_state_root a = qc_previous_state_root b \<and> qc_resulting_state_root a = qc_resulting_state_root b"
proof
  assume "signing_message c a = signing_message c b"
  then have "sha256 c (signing_buf a) = sha256 c (signing_buf b)"
    by (simp only: signing_message_def)
  from inj_onD [OF assms(1) this] have eq: "signing_buf a = signing_buf b" by simp
  then have "length (signing_buf a) = length (signing_buf b)" by simp
  then have "length (qc_cluster_id a) = length (qc_cluster_id b)"
    using assms(2-7) by (simp add: signing_buf_def)
  with eq show "qc_cluster_id a = qc_cluster_id b \<and> qc_epoch a = qc_epoch b \<and> qc_view a = qc_view b \<and>
    qc_sequence a = qc_sequence b \<and> qc_command_hash a = qc_command_hash b \<and>
    qc_previous_state_root a = qc_previous_state_root b \<and> qc_resulting_state_root a = qc_resulting_state_root b"
    using assms(2-7) by (simp add: signing_buf_def)
qed (simp add: signing_message_def signing_buf_def)

theorem signing_message_binds_witness:
  "let h = replicate 64 CHR ''a'';
       a = qc_single_node ''c'' 1 0 3 h h h ''n'' [] []; b = qc_single_node ''cc'' 1 0 3 h h h ''n'' [] []
   in signing_message demo_crypto a \<noteq> signing_message demo_crypto b"
proof -
  let ?h = "replicate 64 CHR ''a''"
  let ?a = "qc_single_node ''c'' 1 0 3 ?h ?h ?h ''n'' [] []" and ?b = "qc_single_node ''cc'' 1 0 3 ?h ?h ?h ''n'' [] []"
  have "inj_on (sha256 demo_crypto) {signing_buf ?a, signing_buf ?b}"
    by (rule demo_crypto_inj) (auto simp: signing_buf_def qc_single_node_def)
  from signing_message_binds [OF this] show ?thesis
    by (simp add: qc_single_node_def Let_def)
qed

section \<open>Conflicting certificates\<close>











section \<open>Checkpoints against states\<close>

text \<open>
  A checkpoint verifies against the state it was taken from; and as long as SHA-256 has no
  collision among the texts hashed for the two states and they are unambiguous, it verifies
  against another state only if that state has the same content.
\<close>

theorem checkpoint_verifies:
  "checkpoint_verify c (checkpoint_from_state c s ts q) s = Inr () \<and>
   (crypto_ok c \<and> inj_on (sha256 c) (state_root_texts c s \<union> state_root_texts c t) \<and>
    state_strings_ok s \<and> state_strings_ok t \<and> unambiguous s t \<and>
    checkpoint_verify c (checkpoint_from_state c s ts q) t = Inr () \<longrightarrow> same_content s t)"
  by (auto simp: checkpoint_verify_def checkpoint_from_state_def Let_def result_simps
      intro: same_encoding_content state_root_inject)

theorem checkpoint_verifies_witness:
  "same_content (demo_state [''abc'', ''abcd'']) (demo_state [''abcd'', ''abc'']) \<and>
   checkpoint_verify demo_crypto (checkpoint_from_state demo_crypto (demo_state [''abc'', ''abcd'']) 0 None)
     (demo_state [''abcd'', ''abc'']) = Inr ()"
proof -
  let ?s = "demo_state [''abc'', ''abcd'']" and ?t = "demo_state [''abcd'', ''abc'']"
  have "compute_state_root demo_crypto ?s = compute_state_root demo_crypto ?t"
    by (simp only: compute_state_root_def state_root_buf_cong [OF same_content_encoding [OF demo_states_same]])
  then have "checkpoint_verify demo_crypto (checkpoint_from_state demo_crypto ?s 0 None) ?t = Inr ()"
    by (simp add: checkpoint_verify_def checkpoint_from_state_def Let_def result_simps)
  then show ?thesis
    using checkpoint_verifies [of demo_crypto ?s 0 None ?t] demo_crypto_ok demo_states_inj
      demo_state_strings demo_states_unambiguous by blast
qed

end
