(* ===== verification/Replication.thy ===== *)
theory Replication
  imports State_Machine Certificate
begin

text \<open>
  The snapshot store (\<open>snapshot.rs\<close>) and the flows that bring a replica back in step
  (\<open>replication.rs\<close>). Deserialisation of a state is the parameter \<open>parse_state\<close>. The
  port \<open>SnapshotStore\<close> is the locale \<open>snapshot_store\<close>. The recovery flows take the
  ports as arguments, as the code takes trait objects: a sync manager with a state of its own,
  a snapshot store and a state machine.
\<close>

section \<open>The snapshot store\<close>

record snapshot_store_inner =
  snapshots :: "(u64, certified_snapshot) hashmap"
  latest_sequence :: u64

definition snapshot_store_new :: snapshot_store_inner where
  "snapshot_store_new = \<lparr>snapshots = [], latest_sequence = 0\<rparr>"

definition save_snapshot ::
    "crypto \<Rightarrow> snapshot_store_inner \<Rightarrow> certified_snapshot \<Rightarrow> (snapshot_store_inner, unit) mut_result" where
  "save_snapshot c st k =
     (case cs_verify_basic c k of
        Inl e \<Rightarrow> (Inl e, st)
      | Inr _ \<Rightarrow>
          let st1 = st\<lparr>snapshots := hm_insert (cs_sequence k) k (snapshots st)\<rparr>
          in (Inr (), if cs_sequence k > latest_sequence st1
                      then st1\<lparr>latest_sequence := cs_sequence k\<rparr> else st1))"

definition latest_snapshot :: "snapshot_store_inner \<Rightarrow> certified_snapshot option" where
  "latest_snapshot st = map_of (snapshots st) (latest_sequence st)"

definition get_snapshot :: "snapshot_store_inner \<Rightarrow> u64 \<Rightarrow> certified_snapshot option" where
  "get_snapshot st n = map_of (snapshots st) n"

definition install_snapshot ::
    "crypto \<Rightarrow> (bytes \<Rightarrow> string + ledger_state) \<Rightarrow> certified_snapshot \<Rightarrow> ledger_state ledger_result" where
  "install_snapshot c parse_state k =
     res_bind (cs_verify_basic c k) (\<lambda>_.
     res_bind (case parse_state (state_bytes k) of
                 Inl e \<Rightarrow> Inl (InvalidSignature (''failed to deserialize snapshot state: '' @ e))
               | Inr s \<Rightarrow> Inr s) (\<lambda>s.
     let computed_root = compute_state_root c s
     in res_bind (require (computed_root = cs_state_root k)
          (StateRootMismatch computed_root (cs_state_root k))) (\<lambda>_. Inr s)))"

section \<open>Synchronisation\<close>

definition max_replay_commands :: u64 where
  "max_replay_commands = 10000"

definition divergence_check_interval :: u64 where
  "divergence_check_interval = 100"

datatype sync_status = Healthy | CatchingUp | SnapshotRequired | Diverged | Quarantined

record replication_status =
  rp_epoch :: u64
  rp_committed_sequence :: u64
  applied_sequence :: u64
  rp_state_root :: string
  leader_view :: u64
  rp_sync_status :: sync_status

datatype divergence_result =
    InSync
  | Ahead u64 u64
  | Behind u64 u64
  | DvStateRootMismatch string string

record divergence_report =
  checkpoint_sequence :: u64
  local_state_root :: string
  peer_state_root :: "string option"
  local_ledger_totals_hash :: string
  peer_ledger_totals_hash :: "string option"
  is_diverged :: bool

datatype catch_up_strategy = ReplayCommands | CuInstallSnapshot

record catch_up_plan =
  from_sequence :: u64
  to_sequence :: u64
  missing_count :: u64
  strategy :: catch_up_strategy

definition catch_up_plan_new :: "u64 \<Rightarrow> u64 \<Rightarrow> catch_up_plan" where
  "catch_up_plan_new from to =
     (let missing = saturating_sub to from
      in \<lparr>from_sequence = from, to_sequence = to, missing_count = missing,
          strategy = (if missing > max_replay_commands then CuInstallSnapshot else ReplayCommands)\<rparr>)"

definition can_vote :: "replication_status \<Rightarrow> bool" where
  "can_vote st \<longleftrightarrow> rp_sync_status st = Healthy \<and> applied_sequence st = rp_committed_sequence st"

text \<open>The operations of the port \<open>SyncManager\<close> that the flows call, on a state of its own.\<close>

record 'm sync_manager =
  mark_quarantined :: "'m \<Rightarrow> string \<Rightarrow> ('m, unit) mut_result"
  start_catch_up :: "'m \<Rightarrow> u64 \<Rightarrow> ('m, unit) mut_result"

text \<open>The operations of the port \<open>SnapshotStore\<close> that the flows call.\<close>

record snapshot_port =
  sp_latest :: "certified_snapshot option ledger_result"
  sp_install :: "certified_snapshot \<Rightarrow> ledger_state ledger_result"

text \<open>\<open>for cmd in commands \<open>{\<close> state_machine.apply(state, cmd)?; \<open>}\<close>\<close>.\<close>

definition replay ::
    "(ledger_state \<Rightarrow> ledger_command \<Rightarrow> (ledger_state, state_transition_receipt) mut_result) \<Rightarrow>
       ledger_state \<Rightarrow> ledger_command list \<Rightarrow> (ledger_state, unit) mut_result" where
  "replay app s cmds = (case apply_all app s cmds of (Inl e, s') \<Rightarrow> (Inl e, s') | (Inr _, s') \<Rightarrow> (Inr (), s'))"

definition latest_and_install :: "snapshot_port \<Rightarrow> u64 \<Rightarrow> (certified_snapshot \<times> ledger_state) ledger_result" where
  "latest_and_install sp missing =
     res_bind (sp_latest sp) (\<lambda>latest.
     res_bind (ok_or latest (SnapshotNotFound missing)) (\<lambda>k.
     res_bind (sp_install sp k) (\<lambda>s. Inr (k, s))))"

definition recover_divergence ::
    "'m sync_manager \<Rightarrow> snapshot_port \<Rightarrow>
       (ledger_state \<Rightarrow> ledger_command \<Rightarrow> (ledger_state, state_transition_receipt) mut_result) \<Rightarrow>
       'm \<Rightarrow> ledger_state \<Rightarrow> ledger_command list \<Rightarrow> (ledger_error + unit) \<times> 'm \<times> ledger_state" where
  "recover_divergence mgr sp app m s commands =
     (case mark_quarantined mgr m ''divergence detected'' of
        (Inl e, m') \<Rightarrow> (Inl e, m', s)
      | (Inr _, m') \<Rightarrow>
     (case latest_and_install sp 0 of
        Inl e \<Rightarrow> (Inl e, m', s)
      | Inr (k, restored) \<Rightarrow>
     (case replay app restored (filter (\<lambda>cmd. lc_epoch cmd \<ge> cs_epoch k) commands) of
        (r, s') \<Rightarrow> (r, m', s'))))"

definition execute_catch_up ::
    "'m sync_manager \<Rightarrow> snapshot_port \<Rightarrow>
       (ledger_state \<Rightarrow> ledger_command \<Rightarrow> (ledger_state, state_transition_receipt) mut_result) \<Rightarrow>
       'm \<Rightarrow> ledger_state \<Rightarrow> u64 \<Rightarrow> ledger_command list \<Rightarrow> (ledger_error + unit) \<times> 'm \<times> ledger_state" where
  "execute_catch_up mgr sp app m s from commands =
     (if (of_nat (length commands) :: u64) > max_replay_commands
      then (case latest_and_install sp from of
              Inl e \<Rightarrow> (Inl e, m, s)
            | Inr (k, restored) \<Rightarrow>
                (case start_catch_up mgr m from of
                   (Inl e, m') \<Rightarrow> (Inl e, m', restored)
                 | (Inr _, m') \<Rightarrow> (case replay app restored commands of (r, s') \<Rightarrow> (r, m', s'))))
      else (case start_catch_up mgr m from of
              (Inl e, m') \<Rightarrow> (Inl e, m', s)
            | (Inr _, m') \<Rightarrow> (case replay app s commands of (r, s') \<Rightarrow> (r, m', s'))))"

section \<open>The contract of the store\<close>

locale snapshot_store =
  fixes save :: "'s \<Rightarrow> certified_snapshot \<Rightarrow> ('s, unit) mut_result"
    and get :: "'s \<Rightarrow> u64 \<Rightarrow> certified_snapshot option"
    and latest :: "'s \<Rightarrow> certified_snapshot option"
    and ok :: "'s \<Rightarrow> bool"
  assumes save_ok: "ok s \<Longrightarrow> save s k = (Inr u, s') \<Longrightarrow> get s' = (get s)(cs_sequence k \<mapsto> k)"
    and save_err: "save s k = (Inl e, s') \<Longrightarrow> s' = s"
    and save_inv: "ok s \<Longrightarrow> ok (snd (save s k))"
    and keyed: "ok s \<Longrightarrow> get s n = Some k \<Longrightarrow> cs_sequence k = n"
    and latest_max: "ok s \<Longrightarrow> get s n = Some k \<Longrightarrow> \<exists>l. latest s = Some l \<and> n \<le> cs_sequence l"
    and latest_got: "ok s \<Longrightarrow> latest s = Some l \<Longrightarrow> get s (cs_sequence l) = Some l"
begin

lemma save_then_latest:
  assumes "ok s" and "save s k = (Inr u, s')"
  shows "\<exists>l. latest s' = Some l \<and> cs_sequence k \<le> cs_sequence l \<and>
    (\<forall>j. latest s = Some j \<longrightarrow> cs_sequence j \<le> cs_sequence l) \<and> (l = k \<or> latest s = Some l)"
proof -
  have ok': "ok s'" using save_inv [OF assms(1), of k] assms(2) by simp
  have get: "get s' = (get s)(cs_sequence k \<mapsto> k)" by (rule save_ok [OF assms])
  then obtain l where l: "latest s' = Some l" "cs_sequence k \<le> cs_sequence l"
    using latest_max [OF ok', of "cs_sequence k"] by auto
  have prev: "cs_sequence j \<le> cs_sequence l" if "latest s = Some j" for j
  proof -
    have "get s (cs_sequence j) = Some j" using latest_got [OF assms(1) that] .
    then have "\<exists>i. get s' (cs_sequence j) = Some i" by (simp add: get)
    then show ?thesis using latest_max [OF ok'] l(1) by auto
  qed
  moreover have "l = k \<or> latest s = Some l"
  proof (cases "cs_sequence l = cs_sequence k")
    case True
    then show ?thesis using latest_got [OF ok' l(1)] by (simp add: get)
  next
    case False
    then have "get s (cs_sequence l) = Some l" using latest_got [OF ok' l(1)] by (simp add: get)
    then obtain j where j: "latest s = Some j" "cs_sequence l \<le> cs_sequence j"
      using latest_max [OF assms(1)] by blast
    have "cs_sequence j = cs_sequence l" by (rule order_antisym [OF prev [OF j(1)] j(2)])
    then have "Some l = Some j"
      using latest_got [OF assms(1) j(1)] \<open>get s (cs_sequence l) = Some l\<close> by (simp only:)
    then show ?thesis using j(1) by simp
  qed
  ultimately show ?thesis using l by blast
qed

end

definition snapshots_ok :: "snapshot_store_inner \<Rightarrow> bool" where
  "snapshots_ok st \<longleftrightarrow> (\<forall>n k. map_of (snapshots st) n = Some k \<longrightarrow> cs_sequence k = n) \<and>
     (snapshots st = [] \<and> latest_sequence st = 0 \<or>
      (\<exists>k. map_of (snapshots st) (latest_sequence st) = Some k) \<and>
      (\<forall>n k. map_of (snapshots st) n = Some k \<longrightarrow> n \<le> latest_sequence st))"

lemma snapshots_ok_new: "snapshots_ok snapshot_store_new"
  by (simp add: snapshots_ok_def snapshot_store_new_def)

lemma save_snapshot_ok:
  "save_snapshot c st k = (Inr u, st') \<Longrightarrow> is_ok (cs_verify_basic c k) \<and>
     st' = st\<lparr>snapshots := hm_insert (cs_sequence k) k (snapshots st),
              latest_sequence := max (latest_sequence st) (cs_sequence k)\<rparr>"
  by (auto simp: save_snapshot_def Let_def is_ok_iff max_def split: sum.splits if_splits)

lemma save_snapshot_inv: "snapshots_ok st \<Longrightarrow> snapshots_ok (snd (save_snapshot c st k))"
proof (cases "save_snapshot c st k")
  case (Pair r st')
  assume ok: "snapshots_ok st"
  show ?thesis
  proof (cases r)
    case (Inl e)
    then show ?thesis
      using ok Pair by (auto simp: save_snapshot_def Let_def split: sum.splits)
  next
    case (Inr u)
    then have "st' = st\<lparr>snapshots := hm_insert (cs_sequence k) k (snapshots st),
        latest_sequence := max (latest_sequence st) (cs_sequence k)\<rparr>"
      using save_snapshot_ok Pair by blast
    then have sn: "map_of (snapshots st') = (map_of (snapshots st))(cs_sequence k \<mapsto> k)"
      and lt: "latest_sequence st' = max (latest_sequence st) (cs_sequence k)"
      by simp_all
    have "cs_sequence j = n" if "map_of (snapshots st') n = Some j" for n j
      using ok that by (auto simp: sn snapshots_ok_def split: if_splits)
    moreover have "n \<le> latest_sequence st'" if "map_of (snapshots st') n = Some j" for n j
      using ok that by (auto simp: sn lt snapshots_ok_def le_max_iff_disj split: if_splits)
    moreover have "latest_sequence st = 0 \<or> (\<exists>j. map_of (snapshots st) (latest_sequence st) = Some j)"
      using ok unfolding snapshots_ok_def by blast
    then have "\<exists>j. map_of (snapshots st') (latest_sequence st') = Some j"
      by (cases "latest_sequence st \<le> cs_sequence k") (auto simp: sn lt max_def)
    ultimately show ?thesis
      using Pair by (simp add: snapshots_ok_def)
  qed
qed

interpretation im_snapshots: snapshot_store "save_snapshot c" "\<lambda>st n. get_snapshot st n" latest_snapshot snapshots_ok for c
proof
  fix st k u st'
  assume "save_snapshot c st k = (Inr u, st')"
  then show "get_snapshot st' = (get_snapshot st)(cs_sequence k \<mapsto> k)"
    by (auto simp: get_snapshot_def [abs_def] dest: save_snapshot_ok)
next
  fix st k e st'
  assume "save_snapshot c st k = (Inl e, st')"
  then show "st' = st" by (auto simp: save_snapshot_def Let_def split: sum.splits)
next
  fix st k assume "snapshots_ok st"
  then show "snapshots_ok (snd (save_snapshot c st k))" by (rule save_snapshot_inv)
qed (auto simp: snapshots_ok_def get_snapshot_def latest_snapshot_def)

section \<open>Snapshots\<close>

lemma install_snapshot_ok:
  "install_snapshot c ps k = Inr s \<longleftrightarrow> is_ok (cs_verify_basic c k) \<and> ps (state_bytes k) = Inr s \<and>
     compute_state_root c s = cs_state_root k"
  by (auto simp: install_snapshot_def is_ok_iff result_simps Let_def split: sum.splits)

text \<open>
  C30. What is installed is determined by the root that the snapshot carries: a snapshot is
  installed only if the signatures of its certificate verify under the keys they bring along,
  and only as a state whose root is the one the snapshot names; and as long as SHA-256 has no
  collision among the texts hashed for the two states and they are unambiguous, two snapshots
  that name the same root install states with the same content, whatever bytes carried them.
  The certificate itself is not compared with that root.
\<close>

theorem install_determined_by_root:
  assumes "install_snapshot c ps k = Inr s"
  shows "is_ok (qc_verify_basic c (cs_quorum_certificate k)) \<and> compute_state_root c s = cs_state_root k \<and>
    (\<forall>l t. install_snapshot c ps l = Inr t \<and> cs_state_root l = cs_state_root k \<and> crypto_ok c \<and>
       inj_on (sha256 c) (state_root_texts c s \<union> state_root_texts c t) \<and>
       state_strings_ok s \<and> state_strings_ok t \<and> unambiguous s t \<longrightarrow> same_content s t)"
proof -
  have "is_ok (qc_verify_basic c (cs_quorum_certificate k))"
    using assms by (auto simp: install_snapshot_ok cs_verify_basic_def is_ok_iff result_simps)
  moreover have "compute_state_root c s = cs_state_root k"
    using assms by (simp add: install_snapshot_ok)
  ultimately show ?thesis
    by (auto simp: install_snapshot_ok intro!: same_encoding_content state_root_inject)
qed

definition demo_snapshot :: "u64 \<Rightarrow> certified_snapshot" where
  "demo_snapshot n = \<lparr>cs_cluster_id = ''c'', cs_epoch = 1, cs_sequence = n, state_bytes = [1],
     cs_state_root = compute_state_root demo_crypto (demo_state []), cs_membership_hash = [],
     constitution_hash = [], policy_hash = [], ledger_totals_hash = [], utxo_set_root = [],
     consumed_intents_root = [], cs_quorum_certificate = demo_qc\<rparr>"

definition demo_parse :: "bytes \<Rightarrow> string + ledger_state" where
  "demo_parse b = (if b = [1] then Inr (demo_state []) else Inl ''expected value'')"

lemma demo_root_nonempty: "compute_state_root demo_crypto s \<noteq> []"
  using length_demo_hex_encode [of "sha256 demo_crypto (state_root_buf demo_crypto s)"]
    crypto_ok_length [OF demo_crypto_ok, of "state_root_buf demo_crypto s"]
  by (auto simp: compute_state_root_def demo_crypto_def)

lemma demo_snapshot_verifies: "cs_verify_basic demo_crypto (demo_snapshot n) = Inr ()"
proof -
  have "qc_verify_basic demo_crypto demo_qc = Inr ()"
    using demo_qc_verifies by (simp add: is_ok_iff qc_verify_crypto_ok)
  then show ?thesis
    by (simp add: cs_verify_basic_def demo_snapshot_def require_def demo_root_nonempty)
qed

lemma demo_snapshot_installs: "install_snapshot demo_crypto demo_parse (demo_snapshot n) = Inr (demo_state [])"
  by (simp add: install_snapshot_ok demo_snapshot_verifies) (simp add: demo_snapshot_def demo_parse_def)

text \<open>Two snapshots with different bytes that name the same root.\<close>

definition demo_snapshot_bytes :: "8 word \<Rightarrow> certified_snapshot" where
  "demo_snapshot_bytes b = (demo_snapshot 3)\<lparr>state_bytes := [b],
     cs_state_root := compute_state_root demo_crypto (demo_state [''abc'', ''abcd''])\<rparr>"

definition demo_parse_two :: "bytes \<Rightarrow> string + ledger_state" where
  "demo_parse_two b = (if b = [1] then Inr (demo_state [''abc'', ''abcd''])
     else if b = [2] then Inr (demo_state [''abcd'', ''abc'']) else Inl ''expected value'')"

lemma demo_two_install:
  "install_snapshot demo_crypto demo_parse_two (demo_snapshot_bytes 1) = Inr (demo_state [''abc'', ''abcd''])"
  "install_snapshot demo_crypto demo_parse_two (demo_snapshot_bytes 2) = Inr (demo_state [''abcd'', ''abc''])"
proof -
  have "cs_verify_basic demo_crypto (demo_snapshot_bytes b) = Inr ()" for b
    using demo_snapshot_verifies [of 3]
    by (simp add: cs_verify_basic_def demo_snapshot_bytes_def require_def demo_root_nonempty split: if_splits)
  moreover have "compute_state_root demo_crypto (demo_state [''abcd'', ''abc'']) =
      compute_state_root demo_crypto (demo_state [''abc'', ''abcd''])"
    by (simp only: compute_state_root_def state_root_buf_cong [OF same_content_encoding [OF demo_states_same]])
  ultimately show
    "install_snapshot demo_crypto demo_parse_two (demo_snapshot_bytes 1) = Inr (demo_state [''abc'', ''abcd''])"
    "install_snapshot demo_crypto demo_parse_two (demo_snapshot_bytes 2) = Inr (demo_state [''abcd'', ''abc''])"
    by (simp_all add: install_snapshot_ok) (simp_all add: demo_snapshot_bytes_def demo_parse_two_def)
qed

theorem install_determined_by_root_witness:
  "same_content (demo_state [''abc'', ''abcd'']) (demo_state [''abcd'', ''abc'']) \<and>
   compute_state_root demo_crypto (demo_state [''abc'', ''abcd'']) = cs_state_root (demo_snapshot_bytes 1) \<and>
   state_bytes (demo_snapshot_bytes 1) \<noteq> state_bytes (demo_snapshot_bytes 2)"
proof -
  have roots: "cs_state_root (demo_snapshot_bytes 2) = cs_state_root (demo_snapshot_bytes 1)"
    "state_bytes (demo_snapshot_bytes 1) \<noteq> state_bytes (demo_snapshot_bytes 2)"
    by (simp_all add: demo_snapshot_bytes_def)
  note det = install_determined_by_root [OF demo_two_install(1)]
  have "same_content (demo_state [''abc'', ''abcd'']) (demo_state [''abcd'', ''abc''])"
    by (rule det [THEN conjunct2, THEN conjunct2, rule_format, of "demo_snapshot_bytes 2"])
      (intro conjI demo_two_install(2) roots(1) demo_crypto_ok demo_states_inj demo_state_strings demo_states_unambiguous)
  with det roots(2) show ?thesis by blast
qed

text \<open>
  The certificate of a snapshot need not be about the snapshot: one whose certificate names
  another resulting root is installed all the same.
\<close>

lemma certificate_of_other_root_installs:
  "\<exists>k. is_ok (install_snapshot demo_crypto demo_parse k) \<and>
     qc_resulting_state_root (cs_quorum_certificate k) \<noteq> cs_state_root k"
proof (intro exI conjI)
  show "is_ok (install_snapshot demo_crypto demo_parse (demo_snapshot 3))"
    by (simp add: demo_snapshot_installs)
  have "length (compute_state_root demo_crypto (demo_state [])) = 64"
    by (simp add: compute_state_root_def demo_crypto_def length_demo_hex_encode)
  then show "qc_resulting_state_root (cs_quorum_certificate (demo_snapshot 3)) \<noteq> cs_state_root (demo_snapshot 3)"
    by (auto simp: demo_snapshot_def demo_qc_def qc_single_node_def Let_def dest: arg_cong [of _ _ length])
qed

text \<open>
  The store keeps the newest snapshot: after any sequence of attempts to save, the latest
  snapshot is one that was offered and verified, and its sequence number is at least that of
  every snapshot offered that verifies.
\<close>

theorem latest_snapshot_newest:
  assumes "k \<in> set ks" and "is_ok (cs_verify_basic c k)"
  shows "\<exists>l \<in> set ks. latest_snapshot (fold (\<lambda>k st. snd (save_snapshot c st k)) ks snapshot_store_new) = Some l \<and>
    is_ok (cs_verify_basic c l) \<and> cs_sequence k \<le> cs_sequence l"
proof -
  let ?run = "\<lambda>ks. fold (\<lambda>k st. snd (save_snapshot c st k)) ks snapshot_store_new"
  have ok: "snapshots_ok (?run ks)" for ks
    by (induction ks rule: rev_induct) (auto simp: snapshots_ok_new save_snapshot_inv)
  have saved: "get_snapshot (?run ks) n = Some l \<Longrightarrow> l \<in> set ks \<and> is_ok (cs_verify_basic c l)" for ks n l
  proof (induction ks rule: rev_induct)
    case (snoc x xs)
    then show ?case
      by (auto simp: save_snapshot_def get_snapshot_def Let_def split: sum.splits if_splits)
  qed (simp add: get_snapshot_def snapshot_store_new_def)
  have kept: "\<exists>l. get_snapshot (?run ks) (cs_sequence k) = Some l" if "k \<in> set ks" for ks
    using that
  proof (induction ks rule: rev_induct)
    case (snoc x xs)
    then show ?case
      using assms(2)
      by (auto simp: save_snapshot_def get_snapshot_def Let_def split: sum.splits if_splits)
  qed simp
  obtain l where "latest_snapshot (?run ks) = Some l" "cs_sequence k \<le> cs_sequence l"
    using kept [OF assms(1)] im_snapshots.latest_max [OF ok] by blast
  with saved im_snapshots.latest_got [OF ok] show ?thesis by blast
qed

theorem latest_snapshot_newest_witness:
  "\<exists>l. latest_snapshot (fold (\<lambda>k st. snd (save_snapshot demo_crypto st k))
       [demo_snapshot 9, demo_snapshot 3] snapshot_store_new) = Some l \<and> 9 \<le> cs_sequence l"
  using latest_snapshot_newest [of "demo_snapshot 9" "[demo_snapshot 9, demo_snapshot 3]" demo_crypto]
  by (auto simp: demo_snapshot_verifies) (auto simp: demo_snapshot_def)

section \<open>Recovery\<close>

lemma replay_ok: "replay app s cmds = (Inr u, s') \<longleftrightarrow> (\<exists>rs. apply_all app s cmds = (Inr rs, s'))"
  by (auto simp: replay_def split: prod.splits sum.splits)

lemma latest_and_install_ok:
  "latest_and_install sp n = Inr (k, s) \<longleftrightarrow> sp_latest sp = Inr (Some k) \<and> sp_install sp k = Inr s"
  by (auto simp: latest_and_install_def result_simps)

text \<open>
  The ports as the in-memory store provides them.
\<close>

definition im_snapshot_port ::
    "crypto \<Rightarrow> (bytes \<Rightarrow> string + ledger_state) \<Rightarrow> snapshot_store_inner \<Rightarrow> snapshot_port" where
  "im_snapshot_port c ps st = \<lparr>sp_latest = Inr (latest_snapshot st), sp_install = install_snapshot c ps\<rparr>"

text \<open>
  C29. A recovery that succeeds has quarantined the node first and has rebuilt the state from
  the latest snapshot: the result is reached from the installed state, whose root is the one
  the snapshot names, by those of the given commands whose epoch is the snapshot's or a later
  one, in their order, all of which applied, with a version that counts them. The commands are
  selected by their epoch alone: a command of the snapshot's epoch is applied also when the
  snapshot already contains it.
\<close>

theorem recovery_rebuilds_from_snapshot:
  assumes "recover_divergence mgr (im_snapshot_port c ps st) (sm_apply c j) m s cmds = (Inr u, m', s')"
  shows "mark_quarantined mgr m ''divergence detected'' = (Inr (), m') \<and>
    (\<exists>k s0 rs. latest_snapshot st = Some k \<and> install_snapshot c ps k = Inr s0 \<and>
       compute_state_root c s0 = cs_state_root k \<and>
       apply_all (sm_apply c j) s0 (filter (\<lambda>cmd. cs_epoch k \<le> lc_epoch cmd) cmds) = (Inr rs, s') \<and>
       receipt_chain (ls_version s0) (cs_state_root k) rs (compute_state_root c s') \<and>
       ls_version s' = ls_version s0 + of_nat (length (filter (\<lambda>cmd. cs_epoch k \<le> lc_epoch cmd) cmds)))"
proof -
  obtain k s0 where mq: "mark_quarantined mgr m ''divergence detected'' = (Inr (), m')"
    and inst: "latest_and_install (im_snapshot_port c ps st) 0 = Inr (k, s0)"
    and rep: "replay (sm_apply c j) s0 (filter (\<lambda>cmd. cs_epoch k \<le> lc_epoch cmd) cmds) = (Inr u, s')"
    using assms by (auto simp: recover_divergence_def split: prod.splits sum.splits)
  then obtain rs where rs: "apply_all (sm_apply c j) s0 (filter (\<lambda>cmd. cs_epoch k \<le> lc_epoch cmd) cmds) = (Inr rs, s')"
    by (auto simp: replay_ok)
  have k: "latest_snapshot st = Some k" "install_snapshot c ps k = Inr s0"
    using inst by (simp_all add: latest_and_install_ok im_snapshot_port_def)
  moreover have "compute_state_root c s0 = cs_state_root k"
    using k(2) by (simp add: install_snapshot_ok)
  ultimately show ?thesis
    using mq rs ledger_machine.replay_chain [OF rs] by auto
qed

definition demo_manager :: "nat sync_manager" where
  "demo_manager = \<lparr>mark_quarantined = (\<lambda>m reason. (Inr (), m + 1)), start_catch_up = (\<lambda>m n. (Inr (), m))\<rparr>"

theorem recovery_rebuilds_from_snapshot_witness:
  "ls_version (snd (snd (recover_divergence demo_manager
      (im_snapshot_port demo_crypto demo_parse (snd (save_snapshot demo_crypto snapshot_store_new (demo_snapshot 3))))
      (sm_apply demo_crypto demo_json) 0 demo_reached
      [(demo_command ConsumeIntent ''a'' None [])\<lparr>lc_epoch := 2\<rparr>, demo_command ConsumeIntent ''b'' None []]))) = 1"
proof -
  let ?st = "snd (save_snapshot demo_crypto snapshot_store_new (demo_snapshot 3))"
  let ?cmds = "[(demo_command ConsumeIntent ''a'' None [])\<lparr>lc_epoch := 2\<rparr>, demo_command ConsumeIntent ''b'' None []]"
  have latest: "latest_snapshot ?st = Some (demo_snapshot 3)"
    by (simp add: save_snapshot_def demo_snapshot_verifies latest_snapshot_def snapshot_store_new_def)
      (simp add: demo_snapshot_def)
  have ep: "cs_epoch (demo_snapshot 3) = 1" by (simp add: demo_snapshot_def)
  have lc: "lc_epoch (demo_command ConsumeIntent ''b'' None []) = 0"
    by (simp add: demo_command_def ledger_command_new_def Let_def)
  obtain s' where run: "recover_divergence demo_manager (im_snapshot_port demo_crypto demo_parse ?st)
      (sm_apply demo_crypto demo_json) 0 demo_reached ?cmds = (Inr (), 1, s')"
    by (simp add: recover_divergence_def demo_manager_def latest_and_install_def im_snapshot_port_def
        latest demo_snapshot_installs ep lc replay_def sm_apply_def validate.simps effect_def
        intent_effect_def Let_def)
  from recovery_rebuilds_from_snapshot [OF run] latest demo_snapshot_installs [of 3]
  have "ls_version s' = ls_version (demo_state []) + of_nat (length (filter (\<lambda>cmd. 1 \<le> lc_epoch cmd) ?cmds))"
    by (auto simp: ep)
  then show ?thesis by (simp add: run lc)
qed

end
