(* ===== verification/Settlement.thy ===== *)
theory Settlement
  imports Certificate
begin

text \<open>
  Settlement authorizations, the ledger-side validator and the vault-side verifier
  (\<open>settlement.rs\<close>) and the nonce checkers (\<open>nonce.rs\<close>). The vault's nonce checker is a
  trait object: the verifier takes its lookup as an argument. The contract of a nonce checker
  is the locales \<open>nonce_guard\<close> and \<open>nonce_checker\<close>.
\<close>

section \<open>Commitments, policies and authorizations\<close>

record psbt_commitment =
  psbt_hash :: string
  input_count :: u32
  output_count :: u32
  total_output_sats :: u64

definition psbt_compute :: "crypto \<Rightarrow> bytes \<Rightarrow> string" where
  "psbt_compute c b = hex_encode c (sha256 c b)"

definition psbt_commitment_new :: "crypto \<Rightarrow> bytes \<Rightarrow> u32 \<Rightarrow> u32 \<Rightarrow> u64 \<Rightarrow> psbt_commitment" where
  "psbt_commitment_new c b ins outs sats =
     \<lparr>psbt_hash = psbt_compute c b, input_count = ins, output_count = outs, total_output_sats = sats\<rparr>"

record settlement_policy =
  max_fee_sats :: u64
  min_confirmations :: u32
  allowed_destination_types :: "string list"
  max_outputs :: u32
  rbf_allowed :: bool
  max_epoch_drift :: u64
  authorization_ttl_buckets :: u64

definition policy_validate :: "settlement_policy \<Rightarrow> unit ledger_result" where
  "policy_validate p =
     res_bind (require (max_fee_sats p \<noteq> 0) (PolicyViolation ''max_fee_sats must be > 0'')) (\<lambda>_.
     res_bind (require (min_confirmations p \<noteq> 0) (PolicyViolation ''min_confirmations must be > 0'')) (\<lambda>_.
     res_bind (require (allowed_destination_types p \<noteq> [])
       (PolicyViolation ''at least one allowed_destination_type must be specified'')) (\<lambda>_.
     res_bind (require (max_outputs p \<noteq> 0) (PolicyViolation ''max_outputs must be > 0'')) (\<lambda>_.
     res_bind (require (max_epoch_drift p \<noteq> 0) (PolicyViolation ''max_epoch_drift must be > 0'')) (\<lambda>_.
     require (authorization_ttl_buckets p \<noteq> 0)
       (PolicyViolation ''authorization_ttl_buckets must be > 0''))))))"

record settlement_authorization =
  intent_commitment :: string
  sa_command_hash :: string
  sa_psbt_commitment :: string
  sa_policy_hash :: string
  sa_epoch :: u64
  sa_expires_at_bucket :: u64
  nonce :: string
  sa_quorum_certificate :: quorum_certificate

definition sa_verify_basic :: "crypto \<Rightarrow> settlement_authorization \<Rightarrow> unit ledger_result" where
  "sa_verify_basic c a =
     res_bind (require (intent_commitment a \<noteq> []) (AuthorizationInvalid ''intent_commitment is empty'')) (\<lambda>_.
     res_bind (require (sa_command_hash a \<noteq> []) (AuthorizationInvalid ''command_hash is empty'')) (\<lambda>_.
     res_bind (require (sa_psbt_commitment a \<noteq> []) (AuthorizationInvalid ''psbt_commitment is empty'')) (\<lambda>_.
     res_bind (require (sa_policy_hash a \<noteq> []) (AuthorizationInvalid ''policy_hash is empty'')) (\<lambda>_.
     res_bind (require (nonce a \<noteq> []) (AuthorizationInvalid ''nonce is empty'')) (\<lambda>_.
     qc_verify_basic c (sa_quorum_certificate a))))))"

fun reservation_state_name :: "reservation_state \<Rightarrow> string" where
  "reservation_state_name RsPrepared = ''Prepared''"
| "reservation_state_name RsCommitted = ''Committed''"
| "reservation_state_name RsConsumed = ''Consumed''"
| "reservation_state_name RsReleased = ''Released''"
| "reservation_state_name RsExpired = ''Expired''"

definition verify_against_reservation :: "settlement_authorization \<Rightarrow> reservation \<Rightarrow> unit ledger_result" where
  "verify_against_reservation a r =
     res_bind (require (\<not> reservation_is_terminal r) (AuthorizationInvalid
       (''reservation '' @ reservation_id r @ '' is in terminal state '' @ reservation_state_name (rs_state r)))) (\<lambda>_.
     require (intent_commitment a = rs_authorization_commitment r) (AuthorizationInvalid
       (''intent_commitment mismatch: expected '' @ rs_authorization_commitment r @ '', got '' @
        intent_commitment a)))"

definition sa_is_expired :: "settlement_authorization \<Rightarrow> u64 \<Rightarrow> bool" where
  "sa_is_expired a now = (sa_expires_at_bucket a \<le> now)"

section \<open>The ledger-side validator\<close>

definition validate_epoch :: "u64 \<Rightarrow> u64 \<Rightarrow> u64 \<Rightarrow> unit ledger_result" where
  "validate_epoch auth_epoch current_epoch max_drift =
     (let drift = (if auth_epoch \<ge> current_epoch then auth_epoch - current_epoch else current_epoch - auth_epoch)
      in require (\<not> drift > max_drift) (InvalidStateTransition
           (''epoch drift '' @ show_word drift @ '' exceeds max allowed '' @ show_word max_drift)))"

definition validate_quorum_certificate :: "crypto \<Rightarrow> quorum_certificate \<Rightarrow> string \<Rightarrow> unit ledger_result" where
  "validate_quorum_certificate c q cid =
     res_bind (require (qc_cluster_id q = cid) (AuthorizationInvalid
       (''quorum certificate cluster_id '' @ quoted (qc_cluster_id q) @ '' does not match expected '' @
        quoted cid))) (\<lambda>_.
     qc_verify_basic c q)"

definition validate_settlement ::
    "crypto \<Rightarrow> settlement_authorization \<Rightarrow> ledger_state \<Rightarrow> settlement_policy \<Rightarrow> u64 \<Rightarrow> unit ledger_result" where
  "validate_settlement c a s p now =
     res_bind (sa_verify_basic c a) (\<lambda>_.
     res_bind (require (intent_commitment a \<notin> set (consumed_intents s)) (AuthorizationInvalid
       (''intent '' @ intent_commitment a @ '' already consumed''))) (\<lambda>_.
     res_bind (validate_epoch (sa_epoch a) (ls_version s) (max_epoch_drift p)) (\<lambda>_.
     res_bind (require (\<not> sa_is_expired a now) (AuthorizationExpired (sa_expires_at_bucket a) now)) (\<lambda>_.
     res_bind (validate_quorum_certificate c (sa_quorum_certificate a) (cluster_id (membership s))) (\<lambda>_.
     res_bind (require (sa_psbt_commitment a \<noteq> [])
       (AuthorizationInvalid ''psbt_commitment is empty in settlement validation'')) (\<lambda>_.
     require (qc_epoch (sa_quorum_certificate a) = sa_epoch a) (AuthorizationInvalid
       (''quorum certificate epoch '' @ show_word (qc_epoch (sa_quorum_certificate a)) @
        '' does not match auth epoch '' @ show_word (sa_epoch a)))))))))"

definition validate_psbt_against_policy :: "psbt_commitment \<Rightarrow> settlement_policy \<Rightarrow> unit ledger_result" where
  "validate_psbt_against_policy pc p =
     res_bind (require (psbt_hash pc \<noteq> []) (AuthorizationInvalid ''psbt_hash is empty'')) (\<lambda>_.
     require (\<not> output_count pc > max_outputs p) (PolicyViolation
       (''PSBT has '' @ show_word (output_count pc) @ '' outputs, policy allows max '' @ show_word (max_outputs p))))"

section \<open>The vault-side verifier\<close>

datatype vault_verification_error =
    InvalidCertificate string
  | IntentAlreadyConsumed string
  | EpochExpired u64 u64
  | VvPsbtMismatch string string
  | FeeExceedsPolicy u64 u64
  | VvAuthorizationExpired u64 u64
  | NonceReused string
  | DestinationNotAllowed string

definition vault_verify ::
    "crypto \<Rightarrow> settlement_authorization \<Rightarrow> bytes \<Rightarrow> u32 \<Rightarrow> u32 \<Rightarrow> u64 \<Rightarrow> settlement_policy \<Rightarrow>
       (string \<Rightarrow> bool) \<Rightarrow> u64 \<Rightarrow> vault_verification_error + unit" where
  "vault_verify c a psbt inputs outputs sats p is_consumed now =
     res_bind (case sa_verify_basic c a of Inl e \<Rightarrow> Inl (InvalidCertificate (ledger_error_display e)) | Inr _ \<Rightarrow> Inr ()) (\<lambda>_.
     res_bind (require (\<not> is_consumed (nonce a)) (NonceReused (nonce a))) (\<lambda>_.
     res_bind (require (\<not> sa_is_expired a now) (VvAuthorizationExpired (sa_expires_at_bucket a) now)) (\<lambda>_.
     res_bind (require (psbt_compute c psbt = sa_psbt_commitment a)
       (VvPsbtMismatch (sa_psbt_commitment a) (psbt_compute c psbt))) (\<lambda>_.
     let cert_epoch = qc_epoch (sa_quorum_certificate a);
         drift = (if cert_epoch \<ge> sa_epoch a then cert_epoch - sa_epoch a else sa_epoch a - cert_epoch) in
     res_bind (require (\<not> drift > max_epoch_drift p) (EpochExpired (sa_epoch a) (max_epoch_drift p))) (\<lambda>_.
     res_bind (require (\<not> outputs > max_outputs p) (InvalidCertificate
       (''PSBT has '' @ show_word outputs @ '' outputs, policy allows max '' @ show_word (max_outputs p)))) (\<lambda>_.
     res_bind (require (inputs \<noteq> 0) (InvalidCertificate ''PSBT must have at least one input'')) (\<lambda>_.
     res_bind (require (outputs \<noteq> 0) (InvalidCertificate ''PSBT must have at least one output'')) (\<lambda>_.
     res_bind (require (sats \<noteq> 0) (InvalidCertificate ''total output sats must be > 0'')) (\<lambda>_.
     let cid = qc_cluster_id (sa_quorum_certificate a) in
     if cid \<noteq> intent_commitment a \<and> cid \<noteq> []
     then (if cid = [] then Inl (InvalidCertificate ''cluster_id is empty'') else Inr ())
     else Inr ())))))))))"

section \<open>Nonces\<close>

type_synonym nonce_set = "string set"

definition is_consumed :: "nonce_set \<Rightarrow> string \<Rightarrow> bool" where
  "is_consumed s n = (n \<in> s)"

definition mark_consumed :: "nonce_set \<Rightarrow> string \<Rightarrow> (nonce_set, unit) mut_result" where
  "mark_consumed s n =
     (if n \<in> s then (Inl (AuthorizationInvalid (''nonce already consumed: '' @ n)), s)
      else (Inr (), insert n s))"

definition is_consumed_sync :: "nonce_set \<Rightarrow> string \<Rightarrow> bool" where
  "is_consumed_sync s n = (n \<in> s)"

definition mark_consumed_sync :: "nonce_set \<Rightarrow> string \<Rightarrow> nonce_set" where
  "mark_consumed_sync s n = insert n s"

text \<open>
  The contract of a nonce checker comes in two parts. The guard holds for every checker: what
  \<open>mark\<close> accepts was fresh and is consumed from then on. A checker that cannot fail also accepts
  every fresh nonce, and both ways of marking add exactly the marked nonce.
\<close>

datatype nonce_op = MarkConsumed string | MarkConsumedSync string

fun nonce_of :: "nonce_op \<Rightarrow> string" where
  "nonce_of (MarkConsumed n) = n"
| "nonce_of (MarkConsumedSync n) = n"

text \<open>A sequence of calls, with the nonces that \<open>mark_consumed\<close> accepted, in order.\<close>

fun nonce_run ::
    "('s \<Rightarrow> string \<Rightarrow> (ledger_error + unit) \<times> 's) \<Rightarrow> ('s \<Rightarrow> string \<Rightarrow> 's) \<Rightarrow> 's \<Rightarrow> nonce_op list \<Rightarrow>
       string list \<times> 's" where
  "nonce_run mark mark_sync s [] = ([], s)"
| "nonce_run mark mark_sync s (MarkConsumedSync n # ops) = nonce_run mark mark_sync (mark_sync s n) ops"
| "nonce_run mark mark_sync s (MarkConsumed n # ops) =
     (case mark s n of
        (Inl e, s') \<Rightarrow> nonce_run mark mark_sync s' ops
      | (Inr u, s') \<Rightarrow> (case nonce_run mark mark_sync s' ops of (ns, t) \<Rightarrow> (n # ns, t)))"

locale nonce_guard =
  fixes consumed :: "'s \<Rightarrow> string \<Rightarrow> bool"
    and mark :: "'s \<Rightarrow> string \<Rightarrow> (ledger_error + unit) \<times> 's"
    and mark_sync :: "'s \<Rightarrow> string \<Rightarrow> 's"
  assumes mark_fresh: "mark s n = (Inr u, t) \<Longrightarrow> \<not> consumed s n \<and> consumed t n"
    and mark_keeps: "consumed s m \<Longrightarrow> consumed (snd (mark s n)) m"
    and mark_sync_keeps: "consumed s m \<Longrightarrow> consumed (mark_sync s n) m"
begin

lemma run_accepts_once:
  "nonce_run mark mark_sync s ops = (ns, t) \<Longrightarrow>
     distinct ns \<and> (\<forall>n \<in> set ns. \<not> consumed s n \<and> consumed t n) \<and> (\<forall>m. consumed s m \<longrightarrow> consumed t m)"
proof (induction ops arbitrary: s ns)
  case (Cons op ops)
  show ?case
  proof (cases op)
    case (MarkConsumedSync n)
    with Cons.IH [of "mark_sync s n" ns] Cons.prems mark_sync_keeps show ?thesis by auto
  next
    case (MarkConsumed n)
    obtain r s' where s': "mark s n = (r, s')" by force
    obtain ns' where ns': "nonce_run mark mark_sync s' ops = (ns', t)" "ns = (if is_ok r then n # ns' else ns')"
      using Cons.prems MarkConsumed s' by (cases r) (auto split: prod.splits)
    have keep: "consumed s m \<Longrightarrow> consumed s' m" for m using mark_keeps [of s m n] s' by simp
    show ?thesis
    proof (cases r)
      case (Inl e)
      then show ?thesis using Cons.IH [OF ns'(1)] ns'(2) keep by auto
    next
      case (Inr u)
      then show ?thesis using Cons.IH [OF ns'(1)] ns'(2) keep mark_fresh [of s n u s'] s' by auto
    qed
  qed
qed simp

end

locale nonce_checker = nonce_guard +
  assumes mark_accepts: "\<not> consumed s n \<Longrightarrow> is_ok (fst (mark s n))"
    and mark_adds: "consumed (snd (mark s n)) m \<longleftrightarrow> m = n \<or> consumed s m"
    and mark_sync_adds: "consumed (mark_sync s n) m \<longleftrightarrow> m = n \<or> consumed s m"
begin

lemma run_marks:
  "nonce_run mark mark_sync s ops = (ns, t) \<Longrightarrow> consumed t m \<longleftrightarrow> consumed s m \<or> m \<in> nonce_of ` set ops"
proof (induction ops arbitrary: s ns)
  case (Cons op ops)
  show ?case
  proof (cases op)
    case (MarkConsumedSync n)
    with Cons show ?thesis by (fastforce simp: mark_sync_adds)
  next
    case (MarkConsumed n)
    obtain r s' where s': "mark s n = (r, s')" by force
    then obtain ns' where "nonce_run mark mark_sync s' ops = (ns', t)"
      using Cons.prems MarkConsumed by (cases r) (auto split: prod.splits)
    with Cons.IH [OF this] mark_adds [of s n m] s' MarkConsumed show ?thesis by auto
  qed
qed simp

end

interpretation im_nonces: nonce_checker is_consumed mark_consumed mark_consumed_sync
  by unfold_locales (auto simp: is_consumed_def mark_consumed_def mark_consumed_sync_def split: if_splits)

section \<open>What the checks establish\<close>

lemma word_drift:
  fixes a b m :: u64
  shows "(if b \<le> a then a - b else b - a) \<le> m \<longleftrightarrow> \<bar>uint a - uint b\<bar> \<le> uint m"
  using abs_diff_le [of a b m] by (simp only: abs_diff_def)

lemma sa_verify_basic_ok [result_simps]:
  "sa_verify_basic c a = Inr u \<longleftrightarrow>
     intent_commitment a \<noteq> [] \<and> sa_command_hash a \<noteq> [] \<and> sa_psbt_commitment a \<noteq> [] \<and>
     sa_policy_hash a \<noteq> [] \<and> nonce a \<noteq> [] \<and> qc_verify_basic c (sa_quorum_certificate a) = Inr ()"
  by (simp add: sa_verify_basic_def res_bind_Inr require_Inr)

lemma validate_epoch_ok [result_simps]:
  "validate_epoch a b m = Inr u \<longleftrightarrow> \<bar>uint a - uint b\<bar> \<le> uint m"
  using word_drift [of b a m] by (simp add: validate_epoch_def Let_def require_Inr not_less)



definition demo_authorization :: settlement_authorization where
  "demo_authorization = \<lparr>intent_commitment = ''i'', sa_command_hash = ''h'',
     sa_psbt_commitment = psbt_compute demo_crypto [1, 2, 3], sa_policy_hash = ''p'', sa_epoch = 3,
     sa_expires_at_bucket = 100, nonce = ''n'', sa_quorum_certificate = demo_qc\<rparr>"

definition demo_policy :: settlement_policy where
  "demo_policy = \<lparr>max_fee_sats = 1000, min_confirmations = 3, allowed_destination_types = [''p2tr''],
     max_outputs = 2, rbf_allowed = False, max_epoch_drift = 5, authorization_ttl_buckets = 10\<rparr>"




text \<open>
  C13. Anti-replay: over any sequence of calls on the in-memory nonce checker, from any state,
  \<open>mark_consumed\<close> accepts each nonce at most once and never one consumed before; and after
  the sequence the vault refuses every authorization whose nonce was marked, with
  \<open>NonceReused\<close> when the authorization is otherwise well formed.
\<close>

theorem nonce_single_use:
  "case nonce_run mark_consumed mark_consumed_sync s ops of (accepted, t) \<Rightarrow>
     distinct accepted \<and> (\<forall>n. n \<in> set accepted \<longrightarrow> \<not> is_consumed s n) \<and>
     (nonce a \<in> nonce_of ` set ops \<longrightarrow>
        (case vault_verify c a psbt inputs outputs sats p (is_consumed_sync t) now of
           Inl e \<Rightarrow> is_ok (sa_verify_basic c a) \<longrightarrow> e = NonceReused (nonce a)
         | Inr u \<Rightarrow> False))"
proof -
  obtain ns t where run: "nonce_run mark_consumed mark_consumed_sync s ops = (ns, t)" by force
  have "distinct ns" "\<forall>n. n \<in> set ns \<longrightarrow> \<not> is_consumed s n"
    using im_nonces.run_accepts_once [OF run] by auto
  moreover have "case vault_verify c a psbt inputs outputs sats p (is_consumed_sync t) now of
      Inl e \<Rightarrow> is_ok (sa_verify_basic c a) \<longrightarrow> e = NonceReused (nonce a) | Inr u \<Rightarrow> False"
    if "nonce a \<in> nonce_of ` set ops"
  proof -
    have "is_consumed_sync t (nonce a)"
      using im_nonces.run_marks [OF run, of "nonce a"] that by (simp add: is_consumed_def is_consumed_sync_def)
    then show ?thesis
      by (cases "sa_verify_basic c a") (simp_all add: vault_verify_def require_def is_ok_iff)
  qed
  ultimately show ?thesis by (simp add: run)
qed

theorem nonce_single_use_witness:
  "fst (nonce_run mark_consumed mark_consumed_sync {} [MarkConsumed ''n'', MarkConsumed ''n'', MarkConsumedSync ''m'',
      MarkConsumed ''m'']) = [''n''] \<and>
   \<not> is_ok (vault_verify demo_crypto demo_authorization [1, 2, 3] 1 2 5000 demo_policy
      (is_consumed_sync {''n'', ''m''}) 99)"
proof -
  have run: "nonce_run mark_consumed mark_consumed_sync {} [MarkConsumed ''n'', MarkConsumed ''n'',
      MarkConsumedSync ''m'', MarkConsumed ''m''] = ([''n''], {''n'', ''m''})"
    by (simp add: mark_consumed_def mark_consumed_sync_def insert_commute)
  have "\<not> is_ok (vault_verify demo_crypto demo_authorization [1, 2, 3] 1 2 5000 demo_policy
      (is_consumed_sync {''n'', ''m''}) 99)"
    using nonce_single_use [where s = "{}" and ops = "[MarkConsumed ''n'', MarkConsumed ''n'',
        MarkConsumedSync ''m'', MarkConsumed ''m'']" and a = demo_authorization and c = demo_crypto and
        psbt = "[1, 2, 3]" and inputs = 1 and outputs = 2 and sats = 5000 and p = demo_policy and now = 99]
    unfolding run by (auto simp: demo_authorization_def is_ok_iff)
  with run show ?thesis by simp
qed

text \<open>
  The ledger-side validator accepts an authorization exactly when it is complete and its
  certificate verifies, its intent is not consumed in the state, its epoch is within the drift
  of the state's version, it has not expired, and its certificate is of this cluster and of the
  authorization's own epoch.
\<close>

theorem validate_settlement_exact:
  "is_ok (validate_settlement c a s p now) \<longleftrightarrow>
     intent_commitment a \<noteq> [] \<and> sa_command_hash a \<noteq> [] \<and> sa_psbt_commitment a \<noteq> [] \<and>
     sa_policy_hash a \<noteq> [] \<and> nonce a \<noteq> [] \<and> is_ok (qc_verify_basic c (sa_quorum_certificate a)) \<and>
     intent_commitment a \<notin> set (consumed_intents s) \<and>
     \<bar>uint (sa_epoch a) - uint (ls_version s)\<bar> \<le> uint (max_epoch_drift p) \<and>
     now < sa_expires_at_bucket a \<and>
     qc_cluster_id (sa_quorum_certificate a) = cluster_id (membership s) \<and>
     qc_epoch (sa_quorum_certificate a) = sa_epoch a"
  by (auto simp: is_ok_iff validate_settlement_def validate_quorum_certificate_def res_bind_Inr require_Inr
      sa_verify_basic_ok validate_epoch_ok sa_is_expired_def not_le)

end
