(* ===== verification/Withdrawal.thy ===== *)
theory Withdrawal
  imports Settlement
begin

text \<open>
  Withdrawals (\<open>withdrawal.rs\<close>): the status table, the record and the in-memory store behind
  its mutex. The contract of the port \<open>WithdrawalStore\<close> is the locale
  \<open>withdrawal_store\<close>; what a withdrawal can become under any sequence of calls is proved
  there once.
\<close>

section \<open>Statuses\<close>

datatype withdrawal_status =
    WdReserved
  | WdAuthorized
  | WdSigning
  | WdBroadcast
  | WdConfirming
  | WdConfirmed
  | WdFailed
  | WdReplaced

definition wd_is_terminal :: "withdrawal_status \<Rightarrow> bool" where
  "wd_is_terminal s \<longleftrightarrow> s \<in> {WdConfirmed, WdFailed, WdReplaced}"

definition can_transition_to :: "withdrawal_status \<Rightarrow> withdrawal_status \<Rightarrow> bool" where
  "can_transition_to s t =
     (case (s, t) of
        (WdReserved, WdAuthorized) \<Rightarrow> True
      | (WdAuthorized, WdSigning) \<Rightarrow> True
      | (WdSigning, WdBroadcast) \<Rightarrow> True
      | (WdBroadcast, WdConfirming) \<Rightarrow> True
      | (WdConfirming, WdConfirmed) \<Rightarrow> True
      | (s, WdFailed) \<Rightarrow> \<not> wd_is_terminal s \<and> s \<noteq> WdConfirmed
      | (WdBroadcast, WdReplaced) \<Rightarrow> True
      | (WdConfirming, WdReplaced) \<Rightarrow> True
      | _ \<Rightarrow> False)"

fun withdrawal_status_debug :: "withdrawal_status \<Rightarrow> string" where
  "withdrawal_status_debug WdReserved = ''Reserved''"
| "withdrawal_status_debug WdAuthorized = ''Authorized''"
| "withdrawal_status_debug WdSigning = ''Signing''"
| "withdrawal_status_debug WdBroadcast = ''Broadcast''"
| "withdrawal_status_debug WdConfirming = ''Confirming''"
| "withdrawal_status_debug WdConfirmed = ''Confirmed''"
| "withdrawal_status_debug WdFailed = ''Failed''"
| "withdrawal_status_debug WdReplaced = ''Replaced''"

section \<open>Records and the store\<close>

record withdrawal_record =
  withdrawal_id :: string
  wd_intent_commitment :: string
  wd_account_id :: string
  wd_amount_sats :: u64
  destination_address :: string
  wd_status :: withdrawal_status
  wd_reservation_id :: "string option"
  authorization :: "settlement_authorization option"
  wd_psbt_commitment :: "psbt_commitment option"
  broadcast_txid :: "string option"
  wd_created_at_bucket :: u64
  wd_updated_at_bucket :: u64

definition withdrawal_new ::
    "string \<Rightarrow> string \<Rightarrow> string \<Rightarrow> u64 \<Rightarrow> string \<Rightarrow> u64 \<Rightarrow> withdrawal_record" where
  "withdrawal_new wid intent acct amount dest bucket =
     \<lparr>withdrawal_id = wid, wd_intent_commitment = intent, wd_account_id = acct, wd_amount_sats = amount,
      destination_address = dest, wd_status = WdReserved, wd_reservation_id = None, authorization = None,
      wd_psbt_commitment = None, broadcast_txid = None, wd_created_at_bucket = bucket, wd_updated_at_bucket = bucket\<rparr>"

text \<open>The \<open>Debug\<close> form of a string (exact on ASCII) and of an optional string.\<close>

definition char_debug :: "char \<Rightarrow> string" where
  "char_debug ch =
     (let n = of_char ch :: nat; bs = CHR 0x5C in
      if n = 0 then [bs, CHR ''0''] else if n = 9 then [bs, CHR ''t''] else if n = 10 then [bs, CHR ''n'']
      else if n = 13 then [bs, CHR ''r''] else if n = 34 \<or> n = 92 then [bs, ch]
      else if n < 16 then bs # ''u{'' @ [hex_digits ! n] @ ''}''
      else if n < 32 \<or> n = 127 then bs # ''u{'' @ [hex_digits ! (n div 16), hex_digits ! (n mod 16)] @ ''}''
      else [ch])"

definition str_debug :: "string \<Rightarrow> string" where
  "str_debug s = [CHR 0x22] @ concat (map char_debug s) @ [CHR 0x22]"

fun option_debug :: "string option \<Rightarrow> string" where
  "option_debug None = ''None''"
| "option_debug (Some s) = ''Some('' @ str_debug s @ '')''"

type_synonym withdrawal_map = "(string, withdrawal_record) hashmap"

definition wd_create :: "withdrawal_map \<Rightarrow> withdrawal_record \<Rightarrow> (withdrawal_map, unit) mut_result" where
  "wd_create m w =
     (if map_of m (withdrawal_id w) \<noteq> None then (Inl (DuplicateEntryId (withdrawal_id w)), m)
      else (Inr (), hm_insert (withdrawal_id w) w m))"

definition wd_get :: "withdrawal_map \<Rightarrow> string \<Rightarrow> withdrawal_record option" where
  "wd_get m wid = map_of m wid"

definition update_status ::
    "withdrawal_map \<Rightarrow> string \<Rightarrow> withdrawal_status \<Rightarrow> u64 \<Rightarrow> (withdrawal_map, unit) mut_result" where
  "update_status m wid status bucket =
     (case map_of m wid of
        None \<Rightarrow> (Inl (WithdrawalNotFound wid), m)
      | Some r \<Rightarrow>
          if \<not> can_transition_to (wd_status r) status
          then (Inl (InvalidStateTransition (''cannot transition withdrawal '' @ wid @ '' from '' @
                  withdrawal_status_debug (wd_status r) @ '' to '' @ withdrawal_status_debug status)), m)
          else (Inr (), hm_insert wid (r\<lparr>wd_status := status, wd_updated_at_bucket := bucket\<rparr>) m))"

definition set_authorization ::
    "withdrawal_map \<Rightarrow> string \<Rightarrow> settlement_authorization \<Rightarrow> (withdrawal_map, unit) mut_result" where
  "set_authorization m wid auth =
     (case map_of m wid of
        None \<Rightarrow> (Inl (WithdrawalNotFound wid), m)
      | Some r \<Rightarrow>
          if wd_status r \<noteq> WdReserved
          then (Inl (InvalidStateTransition (''cannot set authorization on withdrawal '' @ wid @ '' in state '' @
                  withdrawal_status_debug (wd_status r) @ '' (must be Reserved)'')), m)
          else (Inr (), hm_insert wid (r\<lparr>authorization := Some auth, wd_status := WdAuthorized\<rparr>) m))"

definition set_psbt ::
    "withdrawal_map \<Rightarrow> string \<Rightarrow> psbt_commitment \<Rightarrow> (withdrawal_map, unit) mut_result" where
  "set_psbt m wid commitment =
     (case map_of m wid of
        None \<Rightarrow> (Inl (WithdrawalNotFound wid), m)
      | Some r \<Rightarrow> (Inr (), hm_insert wid (r\<lparr>wd_psbt_commitment := Some commitment\<rparr>) m))"

definition set_broadcast_txid :: "withdrawal_map \<Rightarrow> string \<Rightarrow> string \<Rightarrow> (withdrawal_map, unit) mut_result" where
  "set_broadcast_txid m wid tx =
     (case map_of m wid of
        None \<Rightarrow> (Inl (WithdrawalNotFound wid), m)
      | Some r \<Rightarrow>
          if broadcast_txid r \<noteq> None
          then (Inl (InvalidStateTransition (''withdrawal '' @ wid @ '' already has broadcast txid '' @
                  option_debug (broadcast_txid r))), m)
          else (Inr (), hm_insert wid (r\<lparr>broadcast_txid := Some tx\<rparr>) m))"

section \<open>The contract of the store\<close>

text \<open>
  What one call may do to a withdrawal: its identity never changes, its status moves along the
  table, a transaction id is never replaced, and an authorization is written only while the
  withdrawal is reserved.
\<close>

definition withdrawal_evolves :: "withdrawal_record \<Rightarrow> withdrawal_record \<Rightarrow> bool" where
  "withdrawal_evolves r r' \<longleftrightarrow>
     withdrawal_id r' = withdrawal_id r \<and> wd_intent_commitment r' = wd_intent_commitment r \<and>
     wd_account_id r' = wd_account_id r \<and> wd_amount_sats r' = wd_amount_sats r \<and>
     destination_address r' = destination_address r \<and> wd_created_at_bucket r' = wd_created_at_bucket r \<and>
     can_transition_to\<^sup>*\<^sup>* (wd_status r) (wd_status r') \<and>
     (broadcast_txid r \<noteq> None \<longrightarrow> broadcast_txid r' = broadcast_txid r) \<and>
     (wd_status r \<noteq> WdReserved \<longrightarrow> authorization r' = authorization r)"

lemma evolves_refl [simp]: "withdrawal_evolves r r"
  by (simp add: withdrawal_evolves_def)

datatype withdrawal_call =
    WdCreate withdrawal_record
  | WdUpdateStatus string withdrawal_status u64
  | WdSetAuthorization string settlement_authorization
  | WdSetPsbt string psbt_commitment
  | WdSetBroadcastTxid string string

fun wd_call :: "withdrawal_map \<Rightarrow> withdrawal_call \<Rightarrow> (withdrawal_map, unit) mut_result" where
  "wd_call m (WdCreate w) = wd_create m w"
| "wd_call m (WdUpdateStatus wid s b) = update_status m wid s b"
| "wd_call m (WdSetAuthorization wid a) = set_authorization m wid a"
| "wd_call m (WdSetPsbt wid c) = set_psbt m wid c"
| "wd_call m (WdSetBroadcastTxid wid tx) = set_broadcast_txid m wid tx"

definition wd_run :: "withdrawal_map \<Rightarrow> withdrawal_call list \<Rightarrow> withdrawal_map" where
  "wd_run m calls = fold (\<lambda>k m. snd (wd_call m k)) calls m"

lemma can_transition_cases:
  "can_transition_to s t \<longleftrightarrow>
     (s, t) \<in> {(WdReserved, WdAuthorized), (WdAuthorized, WdSigning), (WdSigning, WdBroadcast),
       (WdBroadcast, WdConfirming), (WdConfirming, WdConfirmed), (WdBroadcast, WdReplaced),
       (WdConfirming, WdReplaced)} \<or> t = WdFailed \<and> \<not> wd_is_terminal s"
  by (cases s; cases t) (simp_all add: can_transition_to_def wd_is_terminal_def)

interpretation wd_status_machine: status_machine can_transition_to wd_is_terminal
  by unfold_locales (auto simp: can_transition_cases wd_is_terminal_def)

text \<open>
  The contract: whatever a call returns, every withdrawal the store has is kept, in a form it may
  evolve to.
\<close>

locale withdrawal_store =
  fixes get :: "'s \<Rightarrow> string \<Rightarrow> withdrawal_record option"
    and call :: "'s \<Rightarrow> withdrawal_call \<Rightarrow> ('s, unit) mut_result"
  assumes call_evolves: "get s wid = Some r \<Longrightarrow>
    \<exists>r'. get (snd (call s k)) wid = Some r' \<and> withdrawal_evolves r r'"
begin

lemma never_reserved_again:
  "can_transition_to\<^sup>*\<^sup>* s t \<Longrightarrow> s \<noteq> WdReserved \<Longrightarrow> t \<noteq> WdReserved"
  by (erule wd_status_machine.closed_under_run) (auto simp: can_transition_cases)

lemma evolves_trans: "withdrawal_evolves r s \<Longrightarrow> withdrawal_evolves s t \<Longrightarrow> withdrawal_evolves r t"
  unfolding withdrawal_evolves_def using never_reserved_again by (metis rtranclp_trans)

lemma run_evolves:
  "get s wid = Some r \<Longrightarrow>
     \<exists>r'. get (fold (\<lambda>k s. snd (call s k)) ks s) wid = Some r' \<and> withdrawal_evolves r r'"
proof (induction ks arbitrary: s r)
  case (Cons k ks)
  then show ?case using call_evolves [OF Cons.prems, of k] by (fastforce intro: evolves_trans)
qed simp

end

text \<open>
  A store whose calls make at most one transition each: a run that enters a set of statuses
  has, at some moment, stored the status that leads into it.
\<close>

locale stepwise_withdrawal_store = withdrawal_store +
  assumes call_step: "get s wid = Some r \<Longrightarrow> get (snd (call s k)) wid = Some r' \<Longrightarrow>
    wd_status r' = wd_status r \<or> can_transition_to (wd_status r) (wd_status r')"
begin

lemma run_stores_gate:
  assumes "\<And>s t. can_transition_to s t \<Longrightarrow> s \<notin> S \<Longrightarrow> t \<in> S \<Longrightarrow> s = g"
  shows "get s wid = Some r \<Longrightarrow> wd_status r \<notin> S \<Longrightarrow>
    get (fold (\<lambda>k s. snd (call s k)) ks s) wid = Some r' \<Longrightarrow> wd_status r' \<in> S \<Longrightarrow>
    \<exists>i q. i < length ks \<and> get (fold (\<lambda>k s. snd (call s k)) (take i ks) s) wid = Some q \<and> wd_status q = g"
proof (induction ks arbitrary: s r)
  case (Cons k ks)
  obtain r1 where r1: "get (snd (call s k)) wid = Some r1"
    using call_evolves [OF Cons.prems(1)] by blast
  show ?case
  proof (cases "wd_status r1 \<in> S")
    case True
    then have "wd_status r = g"
      using assms call_step [OF Cons.prems(1) r1] Cons.prems(2) by metis
    then show ?thesis using Cons.prems(1) by (intro exI [of _ 0] exI [of _ r]) simp
  next
    case False
    from Cons.IH [OF r1 False] Cons.prems(3,4) obtain i q where
      "i < length ks" "get (fold (\<lambda>k s. snd (call s k)) (take i ks) (snd (call s k))) wid = Some q" "wd_status q = g"
      by auto
    then show ?thesis by (intro exI [of _ "Suc i"] exI [of _ q]) simp
  qed
qed simp

end

lemmas wd_store_defs = wd_create_def wd_get_def update_status_def set_authorization_def set_psbt_def
  set_broadcast_txid_def

lemma authorize_step: "can_transition_to WdReserved WdAuthorized"
  by (simp add: can_transition_cases)

lemma reserved_to_authorized: "can_transition_to\<^sup>*\<^sup>* WdReserved WdAuthorized"
  by (rule r_into_rtranclp) (rule authorize_step)

interpretation im_withdrawals: withdrawal_store wd_get wd_call
proof unfold_locales
  fix s k wid r
  assume "wd_get s wid = Some r"
  then show "\<exists>r'. wd_get (snd (wd_call s k)) wid = Some r' \<and> withdrawal_evolves r r'"
    by (cases k) (auto simp: wd_store_defs withdrawal_evolves_def reserved_to_authorized
        split: option.splits if_splits)
qed

interpretation im_withdrawals: stepwise_withdrawal_store wd_get wd_call
proof unfold_locales
  fix s k wid r r'
  assume "wd_get s wid = Some r" and "wd_get (snd (wd_call s k)) wid = Some r'"
  then show "wd_status r' = wd_status r \<or> can_transition_to (wd_status r) (wd_status r')"
    by (cases k) (auto simp: wd_store_defs authorize_step split: option.splits if_splits)
qed

section \<open>Life of a withdrawal\<close>

text \<open>
  C15. Over any sequence of calls on the in-memory store, accepted or refused, a withdrawal
  stays in the store with its identity, account, amount and destination; a terminal status
  never changes; a transaction id once set is never replaced; an authorization is never written
  or replaced after the withdrawal left \<open>Reserved\<close>; and when a withdrawal that was not yet
  broadcast is \<open>Broadcast\<close>, \<open>Confirming\<close>, \<open>Confirmed\<close> or \<open>Replaced\<close> at the end, then
  before one of the calls the store held it with the status \<open>Signing\<close>.
\<close>

theorem withdrawal_lifecycle:
  assumes "wd_get m wid = Some r"
  shows "\<exists>r'. wd_get (wd_run m calls) wid = Some r' \<and> withdrawal_id r' = withdrawal_id r \<and>
    wd_intent_commitment r' = wd_intent_commitment r \<and> wd_account_id r' = wd_account_id r \<and>
    wd_amount_sats r' = wd_amount_sats r \<and> destination_address r' = destination_address r \<and>
    (wd_is_terminal (wd_status r) \<longrightarrow> wd_status r' = wd_status r) \<and>
    (broadcast_txid r \<noteq> None \<longrightarrow> broadcast_txid r' = broadcast_txid r) \<and>
    (wd_status r \<noteq> WdReserved \<longrightarrow> authorization r' = authorization r) \<and>
    (wd_status r \<in> {WdReserved, WdAuthorized, WdSigning} \<and>
     wd_status r' \<in> {WdBroadcast, WdConfirming, WdConfirmed, WdReplaced} \<longrightarrow>
       (\<exists>i q. i < length calls \<and> wd_get (wd_run m (take i calls)) wid = Some q \<and> wd_status q = WdSigning))"
proof -
  obtain r' where r': "wd_get (wd_run m calls) wid = Some r'" "withdrawal_evolves r r'"
    using im_withdrawals.run_evolves [OF assms, of calls] unfolding wd_run_def by blast
  then have run: "can_transition_to\<^sup>*\<^sup>* (wd_status r) (wd_status r')"
    by (simp add: withdrawal_evolves_def)
  have "wd_is_terminal (wd_status r) \<longrightarrow> wd_status r' = wd_status r"
    using wd_status_machine.terminal_forever [OF run] by blast
  moreover have "\<exists>i q. i < length calls \<and> wd_get (wd_run m (take i calls)) wid = Some q \<and> wd_status q = WdSigning"
    if "wd_status r \<in> {WdReserved, WdAuthorized, WdSigning}"
      and "wd_status r' \<in> {WdBroadcast, WdConfirming, WdConfirmed, WdReplaced}"
    using that r'(1) unfolding wd_run_def
    by (intro im_withdrawals.run_stores_gate [OF _ assms,
          where S = "{WdBroadcast, WdConfirming, WdConfirmed, WdReplaced}"])
      (auto simp: can_transition_cases)
  ultimately show ?thesis
    using r' by (intro exI [of _ r']) (simp add: withdrawal_evolves_def)
qed

definition demo_withdrawal :: withdrawal_record where
  "demo_withdrawal = withdrawal_new ''w'' ''i'' ''a'' 5 ''d'' 1"

theorem withdrawal_lifecycle_witness:
  "\<exists>r'. wd_get (wd_run [(''w'', demo_withdrawal)] [WdUpdateStatus ''w'' WdAuthorized 2,
      WdUpdateStatus ''w'' WdConfirmed 3, WdSetBroadcastTxid ''w'' ''t'']) ''w'' = Some r' \<and>
      wd_amount_sats r' = 5 \<and> wd_status r' = WdAuthorized \<and> broadcast_txid r' = Some ''t''"
proof -
  let ?m = "[(''w'', demo_withdrawal)]"
  let ?calls = "[WdUpdateStatus ''w'' WdAuthorized 2, WdUpdateStatus ''w'' WdConfirmed 3, WdSetBroadcastTxid ''w'' ''t'']"
  have "wd_get ?m ''w'' = Some demo_withdrawal" by (simp add: wd_get_def)
  from withdrawal_lifecycle [OF this, of ?calls] obtain r' where
    "wd_get (wd_run ?m ?calls) ''w'' = Some r'" "wd_amount_sats r' = wd_amount_sats demo_withdrawal"
    by blast
  then show ?thesis
    by (auto simp: wd_run_def wd_get_def update_status_def set_broadcast_txid_def demo_withdrawal_def
        withdrawal_new_def can_transition_cases wd_is_terminal_def)
qed

text \<open>
  The status table asks for neither the authorization nor the transaction id: three calls of
  \<open>update_status\<close> take a fresh withdrawal to \<open>Broadcast\<close> with neither.
\<close>

lemma broadcast_without_authorization:
  "\<exists>r'. wd_get (wd_run [(''w'', demo_withdrawal)] [WdUpdateStatus ''w'' WdAuthorized 2,
      WdUpdateStatus ''w'' WdSigning 3, WdUpdateStatus ''w'' WdBroadcast 4]) ''w'' = Some r' \<and>
      wd_status r' = WdBroadcast \<and> authorization r' = None \<and> broadcast_txid r' = None"
  by (auto simp: wd_run_def wd_get_def update_status_def demo_withdrawal_def withdrawal_new_def can_transition_cases)

end
