(* ===== verification/Wallet.thy ===== *)
theory Wallet
  imports Ledger_Types
begin

text \<open>
  Balance views of wallets (\<open>wallet.rs\<close>) and the checks on them (\<open>invariants.rs\<close>). The theorem
  says exactly which views pass, and that in those the spendable amounts are real differences.
\<close>

section \<open>Views\<close>

datatype wallet_control =
    InternalLedger
  | CustodiedHot
  | CustodiedCold
  | ExternalWatchOnly
  | ExternalUserControlled

record balance_view =
  internal_available_sats :: u64
  internal_reserved_sats :: u64
  onchain_confirmed_sats :: u64
  onchain_unconfirmed_sats :: u64
  onchain_reserved_sats :: u64
  bv_pending_incoming_sats :: u64
  bv_pending_outgoing_sats :: u64
  externally_controlled_sats :: u64
  spendable_by_kerosene_sats :: u64
  bv_state_version :: u64
  bv_state_root :: string

definition internal_spendable :: "balance_view \<Rightarrow> u64" where
  "internal_spendable v = saturating_sub (internal_available_sats v) (internal_reserved_sats v)"

definition custodied_spendable :: "balance_view \<Rightarrow> u64" where
  "custodied_spendable v =
     min (internal_spendable v) (saturating_sub (onchain_confirmed_sats v) (onchain_reserved_sats v))"

definition is_watch_only :: "balance_view \<Rightarrow> bool" where
  "is_watch_only v \<longleftrightarrow> spendable_by_kerosene_sats v = 0"

section \<open>Checks\<close>

definition check_available_non_negative :: "balance_view \<Rightarrow> unit ledger_result" where
  "check_available_non_negative v =
     (if internal_available_sats v = - 1
      then Inl (InvariantViolation ''internal_available_sats is at MAX, possible overflow'')
      else if onchain_confirmed_sats v = - 1
      then Inl (InvariantViolation ''onchain_confirmed_sats is at MAX, possible overflow'')
      else Inr ())"

definition check_reserved_not_exceed_available :: "balance_view \<Rightarrow> unit ledger_result" where
  "check_reserved_not_exceed_available v =
     (if internal_reserved_sats v > internal_available_sats v
      then Inl (ReservedExceedsAvailable (internal_reserved_sats v) (internal_available_sats v))
      else if onchain_reserved_sats v > onchain_confirmed_sats v
      then Inl (ReservedExceedsAvailable (onchain_reserved_sats v) (onchain_confirmed_sats v))
      else Inr ())"

definition check_pending_outgoing_not_exceed_available :: "balance_view \<Rightarrow> unit ledger_result" where
  "check_pending_outgoing_not_exceed_available v =
     require (\<not> bv_pending_outgoing_sats v > internal_available_sats v)
       (PendingOutgoingExceedsAvailable (bv_pending_outgoing_sats v) (internal_available_sats v))"

definition check_spendable_consistency :: "balance_view \<Rightarrow> unit ledger_result" where
  "check_spendable_consistency v =
     (if spendable_by_kerosene_sats v = 0 then
        (if internal_available_sats v \<noteq> 0 \<or> onchain_confirmed_sats v \<noteq> 0 \<or> onchain_unconfirmed_sats v \<noteq> 0
         then Inl (InvariantViolation ''spendable_by_kerosene is 0 but Kerosene-controlled balances are non-zero'')
         else Inr ())
      else Inr ())"

definition check_state_version_monotonic :: "balance_view \<Rightarrow> unit ledger_result" where
  "check_state_version_monotonic v = Inr ()"

definition check_no_balance_overflow :: "balance_view \<Rightarrow> unit ledger_result" where
  "check_no_balance_overflow v = Inr ()"

definition view_validate :: "balance_view \<Rightarrow> unit ledger_result" where
  "view_validate v =
     res_bind (check_available_non_negative v) (\<lambda>_.
     res_bind (check_reserved_not_exceed_available v) (\<lambda>_.
     res_bind (check_pending_outgoing_not_exceed_available v) (\<lambda>_.
     res_bind (check_spendable_consistency v) (\<lambda>_.
     res_bind (check_state_version_monotonic v) (\<lambda>_.
     check_no_balance_overflow v)))))"

lemmas view_check_defs = check_available_non_negative_def check_reserved_not_exceed_available_def
  check_pending_outgoing_not_exceed_available_def check_spendable_consistency_def
  check_state_version_monotonic_def check_no_balance_overflow_def

section \<open>Valid views\<close>

lemma view_validate_iff:
  "view_validate v = Inr () \<longleftrightarrow>
     internal_available_sats v \<noteq> - 1 \<and> onchain_confirmed_sats v \<noteq> - 1 \<and>
     internal_reserved_sats v \<le> internal_available_sats v \<and> onchain_reserved_sats v \<le> onchain_confirmed_sats v \<and>
     bv_pending_outgoing_sats v \<le> internal_available_sats v \<and>
     (is_watch_only v \<longrightarrow> internal_available_sats v = 0 \<and> onchain_confirmed_sats v = 0 \<and> onchain_unconfirmed_sats v = 0)"
  by (auto simp: view_validate_def view_check_defs is_watch_only_def result_simps not_less split: if_splits)

text \<open>
  A balance view passes validation exactly when no balance sits at the largest value, no
  reservation exceeds what it is taken from, the outgoing payments are covered, and a wallet
  that Kerosene cannot spend from holds nothing of Kerosene's. In a view that passes, the
  spendable amounts are the real differences, with nothing cut off at zero: what a custodied
  wallet may spend together with what is reserved fits both the internal and the confirmed
  on-chain balance, and a wallet that is only watched can spend nothing.
\<close>

theorem balance_view_validate_exact:
  "(view_validate v = Inr () \<longleftrightarrow>
     internal_available_sats v \<noteq> - 1 \<and> onchain_confirmed_sats v \<noteq> - 1 \<and>
     internal_reserved_sats v \<le> internal_available_sats v \<and> onchain_reserved_sats v \<le> onchain_confirmed_sats v \<and>
     bv_pending_outgoing_sats v \<le> internal_available_sats v \<and>
     (is_watch_only v \<longrightarrow> internal_available_sats v = 0 \<and> onchain_confirmed_sats v = 0 \<and> onchain_unconfirmed_sats v = 0)) \<and>
   (view_validate v = Inr () \<longrightarrow>
     unat (internal_spendable v) + unat (internal_reserved_sats v) = unat (internal_available_sats v) \<and>
     unat (custodied_spendable v) + unat (internal_reserved_sats v) \<le> unat (internal_available_sats v) \<and>
     unat (custodied_spendable v) + unat (onchain_reserved_sats v) \<le> unat (onchain_confirmed_sats v) \<and>
     (is_watch_only v \<longrightarrow> internal_spendable v = 0 \<and> custodied_spendable v = 0))"
proof -
  have "unat (internal_spendable v) + unat (internal_reserved_sats v) = unat (internal_available_sats v) \<and>
     unat (custodied_spendable v) + unat (internal_reserved_sats v) \<le> unat (internal_available_sats v) \<and>
     unat (custodied_spendable v) + unat (onchain_reserved_sats v) \<le> unat (onchain_confirmed_sats v) \<and>
     (is_watch_only v \<longrightarrow> internal_spendable v = 0 \<and> custodied_spendable v = 0)"
    if ok: "view_validate v = Inr ()"
  proof -
    have le: "unat (internal_reserved_sats v) \<le> unat (internal_available_sats v)"
        "unat (onchain_reserved_sats v) \<le> unat (onchain_confirmed_sats v)"
      using ok by (simp_all add: view_validate_iff word_le_nat_alt)
    have int: "unat (internal_spendable v) = unat (internal_available_sats v) - unat (internal_reserved_sats v)"
      by (simp add: internal_spendable_def rust_arith)
    have cust: "unat (custodied_spendable v) \<le> unat (internal_spendable v)"
        "unat (custodied_spendable v) \<le> unat (onchain_confirmed_sats v) - unat (onchain_reserved_sats v)"
      using unat_saturating_sub [of "onchain_confirmed_sats v" "onchain_reserved_sats v"]
      by (auto simp: custodied_spendable_def min_def word_le_nat_alt)
    have "is_watch_only v \<longrightarrow> unat (internal_spendable v) = 0"
      using ok int by (simp add: view_validate_iff)
    then have "is_watch_only v \<longrightarrow> internal_spendable v = 0 \<and> custodied_spendable v = 0"
      using cust(1) by (metis le_zero_eq unat_eq_0)
    moreover have "unat (custodied_spendable v) + unat (internal_reserved_sats v) \<le> unat (internal_available_sats v)"
        "unat (custodied_spendable v) + unat (onchain_reserved_sats v) \<le> unat (onchain_confirmed_sats v)"
      using le int cust by linarith+
    ultimately show ?thesis using le int by simp
  qed
  then show ?thesis using view_validate_iff by blast
qed

definition demo_view :: balance_view where
  "demo_view = \<lparr>internal_available_sats = 9, internal_reserved_sats = 2, onchain_confirmed_sats = 8,
     onchain_unconfirmed_sats = 0, onchain_reserved_sats = 3, bv_pending_incoming_sats = 0,
     bv_pending_outgoing_sats = 4, externally_controlled_sats = 0, spendable_by_kerosene_sats = 5,
     bv_state_version = 1, bv_state_root = ''r''\<rparr>"

theorem balance_view_validate_exact_witness:
  "unat (custodied_spendable demo_view) + unat (onchain_reserved_sats demo_view) \<le> unat (onchain_confirmed_sats demo_view)"
proof -
  have "view_validate demo_view = Inr ()"
    by (simp add: view_validate_def view_check_defs demo_view_def require_def)
  then show ?thesis using balance_view_validate_exact [of demo_view] by blast
qed

end
