(* ===== verification/Reconciliation.thy ===== *)
theory Reconciliation
  imports Ledger_State Withdrawal
begin

text \<open>
  Reconciliation of the outputs on chain with the balances of the accounts
  (\<open>reconciliation.rs\<close>). The sums saturate at the largest \<open>u64\<close>; the difference is an
  \<open>i128\<close>, which two \<open>u64\<close> cannot leave, so it is an integer here. The theorem gives the report in
  terms of the true sums.
\<close>

section \<open>Reports\<close>

datatype reconciliation_status = Balanced | Warning | Deficit | Surplus | IncompleteChainData

record reconciliation_report =
  rr_state_root :: string
  chain_tip_hash :: string
  total_assets_sats :: u64
  total_liabilities_sats :: u64
  total_reserved_sats :: u64
  total_pending_sats :: u64
  difference_sats :: int
  rr_status :: reconciliation_status

record reconciliation_inputs =
  hot_sats :: u64
  cold_sats :: u64
  custodied_sats :: u64
  lightning_sats :: u64
  ri_available_sats :: u64
  ri_reserved_sats :: u64
  pending_sats :: u64
  credits_sats :: u64

definition report_calculate :: "reconciliation_inputs \<Rightarrow> bool \<Rightarrow> reconciliation_report" where
  "report_calculate i complete_data =
     (let assets = saturating_add (saturating_add (saturating_add (hot_sats i) (cold_sats i)) (custodied_sats i)) (lightning_sats i);
          liabilities = saturating_add (saturating_add (saturating_add (ri_available_sats i) (ri_reserved_sats i)) (pending_sats i)) (credits_sats i);
          difference = uint assets - uint liabilities;
          status = (if \<not> complete_data then IncompleteChainData else if difference = 0 then Balanced
                    else if difference > 0 then Surplus else Deficit)
      in \<lparr>rr_state_root = [], chain_tip_hash = [], total_assets_sats = assets, total_liabilities_sats = liabilities,
          total_reserved_sats = ri_reserved_sats i, total_pending_sats = pending_sats i,
          difference_sats = difference, rr_status = status\<rparr>)"

section \<open>The engine\<close>

text \<open>\<open>.fold(0u64, u64::saturating_add)\<close>.\<close>

definition saturating_total :: "u64 list \<Rightarrow> u64" where
  "saturating_total xs = fold (\<lambda>x acc. saturating_add acc x) xs 0"

definition counts_as_asset :: "utxo_entry \<Rightarrow> bool" where
  "counts_as_asset u \<longleftrightarrow> ut_state u \<notin> {OcSpent, OcReplaced}"

definition account_liability :: "account_state \<Rightarrow> u64" where
  "account_liability a = saturating_add (saturating_add (available_sats a) (reserved_sats a)) (pending_outgoing_sats a)"

definition compute_total_assets :: "ledger_state \<Rightarrow> u64" where
  "compute_total_assets s = saturating_total (map value_sats (filter counts_as_asset (utxos s)))"

definition compute_total_liabilities :: "ledger_state \<Rightarrow> u64" where
  "compute_total_liabilities s = saturating_total (map account_liability (accounts s))"

definition compute_total_reserved :: "ledger_state \<Rightarrow> u64" where
  "compute_total_reserved s = saturating_total (map reserved_sats (accounts s))"

definition compute_total_pending :: "ledger_state \<Rightarrow> u64" where
  "compute_total_pending s = saturating_total (map pending_outgoing_sats (accounts s))"

definition warning_tolerance :: "u64 \<Rightarrow> u64" where
  "warning_tolerance total_assets = (let pct = total_assets div 1000 in if pct < 1000 then 1000 else pct)"

definition reconcile :: "crypto \<Rightarrow> ledger_state \<Rightarrow> string \<Rightarrow> bool \<Rightarrow> reconciliation_report" where
  "reconcile c s tip chain_data_complete =
     (let total_assets = compute_total_assets s;
          total_liabilities = compute_total_liabilities s;
          total_reserved = compute_total_reserved s;
          total_pending = compute_total_pending s;
          diff = uint total_assets - uint total_liabilities;
          abs_difference = \<bar>diff\<bar>;
          tolerance = uint (warning_tolerance total_assets);
          status = (if \<not> chain_data_complete then IncompleteChainData
            else if diff = 0 then Balanced
            else if diff > 0 \<and> abs_difference \<le> tolerance then Balanced
            else if diff < 0 \<and> abs_difference \<le> tolerance then Warning
            else if diff > 0 then Surplus
            else Deficit)
      in \<lparr>rr_state_root = compute_state_root c s, chain_tip_hash = tip, total_assets_sats = total_assets,
          total_liabilities_sats = total_liabilities, total_reserved_sats = total_reserved,
          total_pending_sats = total_pending, difference_sats = diff, rr_status = status\<rparr>)"

definition is_pending_liability :: "withdrawal_status \<Rightarrow> bool" where
  "is_pending_liability s \<longleftrightarrow> s \<notin> {WdConfirmed, WdFailed, WdReplaced}"

lemma is_pending_liability_iff: "is_pending_liability s \<longleftrightarrow> \<not> wd_is_terminal s"
  by (simp add: is_pending_liability_def wd_is_terminal_def)

section \<open>True sums\<close>

definition max_u64 :: nat where
  "max_u64 = 2 ^ 64 - 1"

definition true_assets :: "ledger_state \<Rightarrow> nat" where
  "true_assets s = sum_list (map (\<lambda>u. unat (value_sats u)) (filter counts_as_asset (utxos s)))"

definition true_liabilities :: "ledger_state \<Rightarrow> nat" where
  "true_liabilities s =
     sum_list (map (\<lambda>a. unat (available_sats a) + unat (reserved_sats a) + unat (pending_outgoing_sats a)) (accounts s))"

text \<open>Saturating a sum once at the end is the same as saturating every partial sum.\<close>

lemma unat_saturating_total_from:
  "unat (fold (\<lambda>x acc. saturating_add acc x) xs a) = min (unat a + sum_list (map unat xs)) max_u64" for a :: u64
proof (induction xs arbitrary: a)
  case Nil
  have "unat a < 2 ^ LENGTH(64)" by (rule unsigned_less)
  then show ?case by (simp add: max_u64_def)
next
  case (Cons x xs)
  then show ?case by (simp add: rust_arith max_u64_def)
qed

lemma unat_saturating_total: "unat (saturating_total xs) = min (sum_list (map unat xs)) max_u64"
  using unat_saturating_total_from [of xs 0] by (simp add: saturating_total_def)

lemma min_sum_list_min: "min (sum_list (map (\<lambda>x. min (f x) m) xs)) m = min (sum_list (map f xs)) (m :: nat)"
proof (induction xs)
  case (Cons x xs)
  let ?t = "sum_list (map (\<lambda>x. min (f x) m) xs)"
  have "min (min p m + q) m = min (p + min q m) m" "min (p + min q m) m = min (p + q) m" for p q by (simp_all add: min_def)
  then show ?case using Cons by (metis list.simps(9) sum_list.Cons)
qed simp

lemma unat_total_assets: "unat (compute_total_assets s) = min (true_assets s) max_u64"
  by (simp add: compute_total_assets_def true_assets_def unat_saturating_total comp_def)

lemma unat_account_liability:
  "unat (account_liability a) = min (unat (available_sats a) + unat (reserved_sats a) + unat (pending_outgoing_sats a)) max_u64"
  by (simp add: account_liability_def rust_arith max_u64_def min_def)

lemma unat_total_liabilities: "unat (compute_total_liabilities s) = min (true_liabilities s) max_u64"
  by (simp add: compute_total_liabilities_def true_liabilities_def unat_saturating_total comp_def
      unat_account_liability min_sum_list_min)

lemma unat_warning_tolerance: "unat (warning_tolerance a) = max 1000 (unat a div 1000)"
  by (simp add: warning_tolerance_def Let_def word_less_nat_alt unat_div max_def)

section \<open>The report\<close>

lemma reconcile_status:
  fixes s :: ledger_state
  defines "a \<equiv> unat (compute_total_assets s)" and "l \<equiv> unat (compute_total_liabilities s)"
  shows "rr_status (reconcile c s tip complete) =
    (if \<not> complete then IncompleteChainData
     else if l \<le> a \<and> a \<le> l + max 1000 (a div 1000) then Balanced
     else if a < l \<and> l \<le> a + max 1000 (a div 1000) then Warning
     else if l < a then Surplus else Deficit)"
proof -
  have u: "uint (compute_total_assets s) = int a" "uint (compute_total_liabilities s) = int l"
    by (simp_all add: a_def l_def)
  have "uint (warning_tolerance (compute_total_assets s)) = int (unat (warning_tolerance (compute_total_assets s)))" by simp
  then have "uint (warning_tolerance (compute_total_assets s)) = int (max 1000 (a div 1000))"
    unfolding unat_warning_tolerance a_def .
  then show ?thesis unfolding reconcile_def Let_def u by (simp add: abs_if)
qed

text \<open>
  C26. The reconciliation report in terms of the true sums, which may exceed 64 bits. The
  assets of the report are the sum of the outputs that are neither spent nor replaced, its
  liabilities the sum of all balances with what is reserved and on its way out, each cut off at
  the largest \<open>u64\<close> once; the difference is exact; and the status is: incomplete without the
  chain data, otherwise balanced when the assets cover the liabilities and exceed them by no
  more than the tolerance of a thousandth of the assets, at least 1000, a warning when they fall
  short by no more than that, and a surplus or a deficit beyond it. This is what the code does;
  its documentation counts only what is available and reserved among the liabilities, calls only
  a difference of zero balanced, and every shortfall a deficit.
\<close>

theorem reconcile_exact:
  "let r = reconcile c s tip complete;
       a = min (true_assets s) max_u64;
       l = min (true_liabilities s) max_u64;
       tol = max 1000 (a div 1000)
   in unat (total_assets_sats r) = a \<and> unat (total_liabilities_sats r) = l \<and>
      difference_sats r = int a - int l \<and> rr_state_root r = compute_state_root c s \<and>
      rr_status r =
        (if \<not> complete then IncompleteChainData
         else if l \<le> a \<and> a \<le> l + tol then Balanced
         else if a < l \<and> l \<le> a + tol then Warning
         else if l < a then Surplus else Deficit)"
proof -
  have "uint (compute_total_assets s) = int (min (true_assets s) max_u64)"
      "uint (compute_total_liabilities s) = int (min (true_liabilities s) max_u64)"
    by (simp_all only: unat_total_assets [symmetric] unat_total_liabilities [symmetric] uint_nat)
  then have "difference_sats (reconcile c s tip complete) =
      int (min (true_assets s) max_u64) - int (min (true_liabilities s) max_u64)"
    by (simp only: reconcile_def Let_def reconciliation_report.simps)
  moreover have "total_assets_sats (reconcile c s tip complete) = compute_total_assets s"
      "total_liabilities_sats (reconcile c s tip complete) = compute_total_liabilities s"
      "rr_state_root (reconcile c s tip complete) = compute_state_root c s"
    by (simp_all add: reconcile_def Let_def)
  ultimately show ?thesis
    unfolding Let_def reconcile_status by (simp only: unat_total_assets unat_total_liabilities)
qed

end
