(* ===== verification/Node_Roles.thy ===== *)
theory Node_Roles
  imports Replication "HOL-Library.Sublist"
begin

text \<open>
  Ledger membership (\<open>membership.rs\<close>): the roles of the nodes, the in-memory membership store,
  the table of role transitions and the gate that decides whether a node may vote. The contract
  of the port \<open>MembershipStore\<close> is the locale \<open>membership_port\<close>: every call acts on a node
  as \<open>node_after\<close> says, and answers accordingly. The theorem: a node may vote only if accepted
  promotions took it step by step from the role it was added with to \<open>Voter\<close>.
\<close>

section \<open>Records\<close>

record node_membership =
  nm_node_id :: string
  nm_role :: node_role
  onion_endpoint :: "string option"
  identity_pubkey :: string
  attested_at_bucket :: u64
  joined_epoch :: u64
  last_heartbeat_bucket :: u64
  admission_signature :: "string option"

record admission_flow =
  required_stability_window_buckets :: u64

definition admission_flow_default :: admission_flow where
  "admission_flow_default = \<lparr>required_stability_window_buckets = 10\<rparr>"

record membership_gate =
  min_voter_count :: nat
  allow_observer_read :: bool

definition membership_gate_default :: membership_gate where
  "membership_gate_default = \<lparr>min_voter_count = 1, allow_observer_read = True\<rparr>"

section \<open>Role transitions\<close>

definition role_transition_valid :: "node_role \<Rightarrow> node_role \<Rightarrow> bool" where
  "role_transition_valid current target =
     (case (current, target) of
        (Untrusted, Observer) \<Rightarrow> True
      | (Observer, Learner) \<Rightarrow> True
      | (Learner, Voter) \<Rightarrow> True
      | (Voter, Observer) \<Rightarrow> True
      | (_, Untrusted) \<Rightarrow> True
      | _ \<Rightarrow> False)"

definition validate_role_transition :: "node_role \<Rightarrow> node_role \<Rightarrow> unit ledger_result" where
  "validate_role_transition current target =
     (if role_transition_valid current target then Inr () else Inl (InvalidRoleTransition current target))"

section \<open>The in-memory store\<close>

type_synonym membership_map = "(string, node_membership) hashmap"

definition add_node :: "membership_map \<Rightarrow> node_membership \<Rightarrow> (membership_map, unit) mut_result" where
  "add_node m n =
     (if map_of m (nm_node_id n) \<noteq> None
      then (Inl (InvariantViolation (''node '' @ [CHR 0x27] @ nm_node_id n @ [CHR 0x27] @ '' already exists in membership'')), m)
      else (Inr (), hm_insert (nm_node_id n) n m))"

definition get_node :: "membership_map \<Rightarrow> string \<Rightarrow> node_membership option" where
  "get_node m i = map_of m i"

definition list_by_role :: "membership_map \<Rightarrow> node_role \<Rightarrow> node_membership list" where
  "list_by_role m r = sort_key nm_node_id (filter (\<lambda>n. nm_role n = r) (map snd m))"

definition promote :: "membership_map \<Rightarrow> string \<Rightarrow> node_role \<Rightarrow> (membership_map, unit) mut_result" where
  "promote m i target =
     (case map_of m i of
        None \<Rightarrow> (Inl (NodeNotFound i), m)
      | Some n \<Rightarrow> (case validate_role_transition (nm_role n) target of
          Inl e \<Rightarrow> (Inl e, m)
        | Inr _ \<Rightarrow> (Inr (), hm_insert i (n\<lparr>nm_role := target\<rparr>) m)))"

definition remove_node :: "membership_map \<Rightarrow> string \<Rightarrow> (membership_map, unit) mut_result" where
  "remove_node m i = (Inr (), hm_remove i m)"

definition update_heartbeat :: "membership_map \<Rightarrow> string \<Rightarrow> u64 \<Rightarrow> (membership_map, unit) mut_result" where
  "update_heartbeat m i bucket =
     (case map_of m i of
        None \<Rightarrow> (Inl (NodeNotFound i), m)
      | Some n \<Rightarrow> (Inr (), hm_insert i (n\<lparr>last_heartbeat_bucket := bucket\<rparr>) m))"

section \<open>The voting gate\<close>

record voting_gate =
  vg_sync_status :: replication_status
  vg_membership :: node_membership

definition vg_can_vote :: "voting_gate \<Rightarrow> bool" where
  "vg_can_vote g \<longleftrightarrow> nm_role (vg_membership g) = Voter \<and>
     applied_sequence (vg_sync_status g) = rp_committed_sequence (vg_sync_status g) \<and>
     rp_sync_status (vg_sync_status g) = Healthy"

definition can_propose :: "voting_gate \<Rightarrow> bool" where
  "can_propose g = vg_can_vote g"

fun sync_status_debug :: "sync_status \<Rightarrow> string" where
  "sync_status_debug Healthy = ''Healthy''"
| "sync_status_debug CatchingUp = ''CatchingUp''"
| "sync_status_debug SnapshotRequired = ''SnapshotRequired''"
| "sync_status_debug Diverged = ''Diverged''"
| "sync_status_debug Quarantined = ''Quarantined''"

definition reason_blocked :: "voting_gate \<Rightarrow> string list" where
  "reason_blocked g =
     (let st = vg_sync_status g; n = vg_membership g in
      (if nm_role n \<noteq> Voter
       then [''node '' @ nm_node_id n @ '' is not a voter (role: '' @ node_role_debug (nm_role n) @ '')''] else []) @
      (if applied_sequence st \<noteq> rp_committed_sequence st
       then [''applied sequence '' @ show_word (applied_sequence st) @ '' != committed sequence '' @
               show_word (rp_committed_sequence st)] else []) @
      (if rp_sync_status st \<noteq> Healthy
       then [''sync status is '' @ sync_status_debug (rp_sync_status st)] else []))"

section \<open>The contract of the store\<close>

datatype role_call =
    RcAdd node_membership
  | RcPromote string node_role
  | RcRemove string
  | RcHeartbeat string u64

fun mb_call :: "membership_map \<Rightarrow> role_call \<Rightarrow> (membership_map, unit) mut_result" where
  "mb_call m (RcAdd n) = add_node m n"
| "mb_call m (RcPromote i r) = promote m i r"
| "mb_call m (RcRemove i) = remove_node m i"
| "mb_call m (RcHeartbeat i b) = update_heartbeat m i b"

definition role_run :: "membership_map \<Rightarrow> role_call list \<Rightarrow> membership_map" where
  "role_run m ks = fold (\<lambda>k m. snd (mb_call m k)) ks m"

text \<open>What a call does to the record of one node, as the port documents it.\<close>

fun node_after :: "string \<Rightarrow> role_call \<Rightarrow> node_membership option \<Rightarrow> node_membership option" where
  "node_after i (RcAdd n) None = (if nm_node_id n = i then Some n else None)"
| "node_after i (RcPromote j t) (Some r) =
     Some (if j = i \<and> role_transition_valid (nm_role r) t then r\<lparr>nm_role := t\<rparr> else r)"
| "node_after i (RcRemove j) (Some r) = (if j = i then None else Some r)"
| "node_after i (RcHeartbeat j b) (Some r) = Some (if j = i then r\<lparr>last_heartbeat_bucket := b\<rparr> else r)"
| "node_after i _ v = v"

text \<open>
  The roles that accepted promotions gave to node \<open>i\<close> in a sequence of calls, in their order,
  and the paths through the table of transitions.
\<close>

fun accepted_roles :: "('s \<Rightarrow> role_call \<Rightarrow> ('s, unit) mut_result) \<Rightarrow> 's \<Rightarrow> string \<Rightarrow> role_call list \<Rightarrow> node_role list" where
  "accepted_roles call s i [] = []"
| "accepted_roles call s i (k # ks) =
     (case k of RcPromote j t \<Rightarrow> if j = i \<and> is_ok (fst (call s k)) then [t] else [] | _ \<Rightarrow> []) @
     accepted_roles call (snd (call s k)) i ks"

lemma accepted_roles_append:
  "accepted_roles call s i (ks @ ls) =
     accepted_roles call s i ks @ accepted_roles call (fold (\<lambda>k s. snd (call s k)) ks s) i ls"
  by (induction ks arbitrary: s) simp_all

fun role_path :: "node_role \<Rightarrow> node_role list \<Rightarrow> node_role \<Rightarrow> bool" where
  "role_path a [] b = (a = b)"
| "role_path a (r # rs) b = (role_transition_valid a r \<and> role_path r rs b)"

lemma role_path_append: "role_path a (rs @ ss) b \<longleftrightarrow> (\<exists>c. role_path a rs c \<and> role_path c ss b)"
  by (induction rs arbitrary: a) auto

locale membership_port =
  fixes get :: "'s \<Rightarrow> string \<Rightarrow> node_membership option"
    and call :: "'s \<Rightarrow> role_call \<Rightarrow> ('s, unit) mut_result"
    and empty_store :: "'s"
  assumes get_empty: "get empty_store i = None"
    and get_call: "get (snd (call s k)) i = node_after i k (get s i)"
    and add_answer: "is_ok (fst (call s (RcAdd n))) \<longleftrightarrow> get s (nm_node_id n) = None"
    and promote_answer: "is_ok (fst (call s (RcPromote i t))) \<longleftrightarrow>
      (\<exists>r. get s i = Some r \<and> role_transition_valid (nm_role r) t)"
begin

abbreviation run :: "role_call list \<Rightarrow> 's" where
  "run ks \<equiv> fold (\<lambda>k s. snd (call s k)) ks empty_store"

lemma call_path:
  assumes "get s i = Some q" and "get (snd (call s k)) i = Some r"
  shows "role_path (nm_role q) (accepted_roles call s i [k]) (nm_role r) \<and> k \<noteq> RcRemove i \<and>
    identity_pubkey r = identity_pubkey q \<and> onion_endpoint r = onion_endpoint q"
  using assms by (cases k) (auto simp: get_call promote_answer split: if_splits)

text \<open>A node the store has was added by an accepted call and has not been removed since.\<close>

lemma admission:
  "get (run ks) i = Some r \<Longrightarrow>
     \<exists>before n after. ks = before @ RcAdd n # after \<and> nm_node_id n = i \<and>
       is_ok (fst (call (run before) (RcAdd n))) \<and> RcRemove i \<notin> set after \<and>
       identity_pubkey r = identity_pubkey n \<and> onion_endpoint r = onion_endpoint n \<and>
       role_path (nm_role n) (accepted_roles call (run (before @ [RcAdd n])) i after) (nm_role r)"
proof (induction ks arbitrary: r rule: rev_induct)
  case (snoc k ks)
  show ?case
  proof (cases "get (run ks) i")
    case None
    then have "k = RcAdd r \<and> nm_node_id r = i"
      using snoc.prems by (cases k) (auto simp: get_call split: if_splits)
    with None show ?thesis
      by (intro exI [of _ ks] exI [of _ r] exI [of _ "[]"]) (simp add: add_answer)
  next
    case (Some q)
    from snoc.IH [OF Some] obtain before n after where h: "ks = before @ RcAdd n # after" "nm_node_id n = i"
      "is_ok (fst (call (run before) (RcAdd n)))" "RcRemove i \<notin> set after"
      "identity_pubkey q = identity_pubkey n" "onion_endpoint q = onion_endpoint n"
      "role_path (nm_role n) (accepted_roles call (run (before @ [RcAdd n])) i after) (nm_role q)" by blast
    have "run ks = fold (\<lambda>k s. snd (call s k)) after (run (before @ [RcAdd n]))" using h(1) by simp
    with call_path [OF Some, of k r] snoc.prems h(4-7) h(1-3) show ?thesis
      by (intro exI [of _ before] exI [of _ n] exI [of _ "after @ [k]"])
        (auto simp: accepted_roles_append role_path_append simp del: accepted_roles.simps)
  qed
qed (simp add: get_empty)

end

interpretation im_membership: membership_port get_node mb_call "[]"
proof unfold_locales
  fix m k i
  show "get_node (snd (mb_call m k)) i = node_after i k (get_node m i)"
    by (cases k; cases "get_node m i")
      (auto simp: get_node_def add_node_def promote_def remove_node_def update_heartbeat_def
        validate_role_transition_def split: option.splits)
qed (auto simp: get_node_def add_node_def promote_def validate_role_transition_def split: option.splits)

lemma role_transition_cases:
  "role_transition_valid a b \<longleftrightarrow> b = Untrusted \<or>
     (a, b) \<in> {(Untrusted, Observer), (Observer, Learner), (Learner, Voter), (Voter, Observer)}"
  by (cases a; cases b) (simp_all add: role_transition_valid_def)

section \<open>Admission\<close>

text \<open>The roles that lie between a role and \<open>Voter\<close>, each of which has to be given in turn.\<close>

fun roles_to_voter :: "node_role \<Rightarrow> node_role list" where
  "roles_to_voter Untrusted = [Observer, Learner, Voter]"
| "roles_to_voter Observer = [Learner, Voter]"
| "roles_to_voter Learner = [Voter]"
| "roles_to_voter Voter = []"

lemma roles_in_order: "role_path a rs Voter \<Longrightarrow> subseq (roles_to_voter a) rs"
proof (induction rs arbitrary: a)
  case (Cons r rs)
  then have ih: "subseq (roles_to_voter r) rs" and "role_transition_valid a r" by simp_all
  moreover have "subseq [Observer, Learner, Voter] rs \<Longrightarrow> subseq [Learner, Voter] rs \<and> subseq [Voter] rs"
    by (meson subseq_Cons')
  ultimately show ?case by (cases a) (auto simp: role_transition_cases)
qed (cases a; simp)

text \<open>
  C24. A node may vote only after it was admitted. If, after any calls on an empty membership
  store, the gate lets a node vote, then the node is healthy and has applied all that is
  committed, and the store holds what an accepted admission brought in and no call has removed
  since, with the same key and endpoint. Since then accepted promotions took the node along the
  table of transitions from the role it was added with to \<open>Voter\<close>; among them are, in this
  order, all the roles in between: an untrusted node was made an observer, then a learner, then a
  voter. The gate gives a reason exactly when it refuses.
\<close>

theorem voting_node_admitted:
  assumes "get_node (role_run [] ks) i = Some r"
  shows "(vg_can_vote \<lparr>vg_sync_status = st, vg_membership = r\<rparr> \<longrightarrow>
      rp_sync_status st = Healthy \<and> applied_sequence st = rp_committed_sequence st \<and>
      (\<exists>before n after. ks = before @ RcAdd n # after \<and> nm_node_id n = i \<and>
         is_ok (fst (add_node (role_run [] before) n)) \<and> RcRemove i \<notin> set after \<and>
         identity_pubkey r = identity_pubkey n \<and> onion_endpoint r = onion_endpoint n \<and>
         role_path (nm_role n) (accepted_roles mb_call (role_run [] (before @ [RcAdd n])) i after) Voter \<and>
         subseq (roles_to_voter (nm_role n)) (accepted_roles mb_call (role_run [] (before @ [RcAdd n])) i after))) \<and>
    (reason_blocked \<lparr>vg_sync_status = st, vg_membership = r\<rparr> = [] \<longleftrightarrow>
       vg_can_vote \<lparr>vg_sync_status = st, vg_membership = r\<rparr>)"
proof -
  obtain before n after where h: "ks = before @ RcAdd n # after" "nm_node_id n = i"
      "is_ok (fst (mb_call (role_run [] before) (RcAdd n)))" "RcRemove i \<notin> set after"
      "identity_pubkey r = identity_pubkey n" "onion_endpoint r = onion_endpoint n"
      "role_path (nm_role n) (accepted_roles mb_call (role_run [] (before @ [RcAdd n])) i after) (nm_role r)"
    using im_membership.admission [of ks i r] assms unfolding role_run_def by blast
  have "reason_blocked g = [] \<longleftrightarrow> vg_can_vote g" for g
    by (auto simp: reason_blocked_def vg_can_vote_def Let_def)
  moreover have "\<exists>before n after. ks = before @ RcAdd n # after \<and> nm_node_id n = i \<and>
         is_ok (fst (add_node (role_run [] before) n)) \<and> RcRemove i \<notin> set after \<and>
         identity_pubkey r = identity_pubkey n \<and> onion_endpoint r = onion_endpoint n \<and>
         role_path (nm_role n) (accepted_roles mb_call (role_run [] (before @ [RcAdd n])) i after) Voter \<and>
         subseq (roles_to_voter (nm_role n)) (accepted_roles mb_call (role_run [] (before @ [RcAdd n])) i after)"
    if "nm_role r = Voter"
    using h that roles_in_order by (intro exI [of _ before] exI [of _ n] exI [of _ after]) simp
  ultimately show ?thesis by (simp add: vg_can_vote_def)
qed

definition demo_node :: node_membership where
  "demo_node = \<lparr>nm_node_id = ''n'', nm_role = Untrusted, onion_endpoint = None, identity_pubkey = ''k'',
     attested_at_bucket = 0, joined_epoch = 0, last_heartbeat_bucket = 0, admission_signature = None\<rparr>"

definition demo_admission :: "role_call list" where
  "demo_admission = [RcAdd demo_node, RcPromote ''n'' Voter, RcPromote ''n'' Observer, RcPromote ''n'' Learner,
     RcHeartbeat ''n'' 4, RcPromote ''n'' Voter]"

definition demo_status :: replication_status where
  "demo_status = \<lparr>rp_epoch = 1, rp_committed_sequence = 9, applied_sequence = 9, rp_state_root = ''r'',
     leader_view = 0, rp_sync_status = Healthy\<rparr>"

theorem voting_node_admitted_witness:
  "vg_can_vote \<lparr>vg_sync_status = demo_status, vg_membership = demo_node\<lparr>nm_role := Voter, last_heartbeat_bucket := 4\<rparr>\<rparr> \<and>
   (\<exists>before n after. demo_admission = before @ RcAdd n # after \<and> nm_node_id n = ''n'' \<and>
      subseq (roles_to_voter (nm_role n)) (accepted_roles mb_call (role_run [] (before @ [RcAdd n])) ''n'' after))"
proof -
  let ?r = "demo_node\<lparr>nm_role := Voter, last_heartbeat_bucket := 4\<rparr>"
  have "get_node (role_run [] demo_admission) ''n'' = Some ?r"
    by (simp add: role_run_def demo_admission_def demo_node_def get_node_def add_node_def promote_def
        update_heartbeat_def validate_role_transition_def role_transition_valid_def)
  note admitted = voting_node_admitted [OF this, of demo_status]
  have "vg_can_vote \<lparr>vg_sync_status = demo_status, vg_membership = ?r\<rparr>"
    by (simp add: vg_can_vote_def demo_status_def)
  with admitted show ?thesis by blast
qed

text \<open>\<open>list_by_role\<close> returns the nodes of a role, each once, in the order of their identifiers.\<close>

lemma list_by_role_exact:
  assumes "hm_ok m" and "\<forall>(i, n) \<in> set m. nm_node_id n = i"
  shows "set (list_by_role m r) = {n. get_node m (nm_node_id n) = Some n \<and> nm_role n = r}"
    and "distinct (list_by_role m r)" and "sorted (map nm_node_id (list_by_role m r))"
proof -
  have "n \<in> snd ` set m \<longleftrightarrow> (nm_node_id n, n) \<in> set m" for n
  proof
    assume "n \<in> snd ` set m"
    then obtain i where i: "(i, n) \<in> set m" by (metis imageE prod.collapse)
    with bspec [OF assms(2) i] show "(nm_node_id n, n) \<in> set m" by simp
  qed (metis imageI snd_conv)
  then have "n \<in> snd ` set m \<longleftrightarrow> get_node m (nm_node_id n) = Some n" for n
    by (simp only: get_node_def in_hm_iff [OF assms(1)])
  then show "set (list_by_role m r) = {n. get_node m (nm_node_id n) = Some n \<and> nm_role n = r}"
    unfolding list_by_role_def set_sort set_filter set_map by (simp only:)
  have "inj_on snd (set m)"
  proof (rule inj_onI)
    fix x y assume "x \<in> set m" "y \<in> set m" "snd x = snd y"
    then show "x = y" using bspec [OF assms(2), of x] bspec [OF assms(2), of y] by (simp add: prod_eq_iff split_beta)
  qed
  moreover have "distinct m" using assms(1) unfolding hm_ok_def by (simp add: distinct_map)
  ultimately show "distinct (list_by_role m r)" by (simp add: list_by_role_def distinct_map)
qed (simp add: list_by_role_def)

end
