(* ===== verification/Gates.thy ===== *)
theory Gates
  imports Reconciliation Node_Roles
begin

text \<open>
  Metrics (\<open>metrics.rs\<close>) and the production gates that read them (\<open>gates.rs\<close>). The collector
  sits behind a mutex; its calls are functions on its contents. The theorems: a snapshot of the
  collector reports exactly the increments made, saturated; the withdrawal gate opens exactly for
  a healthy, caught-up node whose books are covered up to the tolerance; and the mode the gates
  are summed up in.
\<close>

section \<open>Metrics\<close>

record ledger_metrics =
  lm_committed_sequence :: u64
  lm_applied_sequence :: u64
  sequence_lag :: u64
  state_root_mismatch_total :: u64
  version_conflict_total :: u64
  idempotency_replay_total :: u64
  insufficient_funds_total :: u64
  reservation_conflict_total :: u64
  quorum_unavailable_total :: u64
  snapshot_install_total :: u64
  divergence_recovery_total :: u64
  lm_node_sync_status :: string
  lm_total_accounts :: u64
  lm_total_utxos :: u64
  lm_total_reservations :: u64
  lm_total_withdrawals_pending :: u64

definition metrics_new :: ledger_metrics where
  "metrics_new = \<lparr>lm_committed_sequence = 0, lm_applied_sequence = 0, sequence_lag = 0,
     state_root_mismatch_total = 0, version_conflict_total = 0, idempotency_replay_total = 0,
     insufficient_funds_total = 0, reservation_conflict_total = 0, quorum_unavailable_total = 0,
     snapshot_install_total = 0, divergence_recovery_total = 0, lm_node_sync_status = [],
     lm_total_accounts = 0, lm_total_utxos = 0, lm_total_reservations = 0, lm_total_withdrawals_pending = 0\<rparr>"

record metrics_collector =
  mc_counters :: "(string, u64) hashmap"
  mc_gauges :: "(string, u64) hashmap"
  mc_committed_sequence :: u64
  mc_applied_sequence :: u64
  mc_node_sync_status :: string
  mc_total_accounts :: u64
  mc_total_utxos :: u64
  mc_total_reservations :: u64
  mc_total_withdrawals_pending :: u64

definition collector_new :: metrics_collector where
  "collector_new = \<lparr>mc_counters = [], mc_gauges = [], mc_committed_sequence = 0, mc_applied_sequence = 0,
     mc_node_sync_status = [], mc_total_accounts = 0, mc_total_utxos = 0, mc_total_reservations = 0,
     mc_total_withdrawals_pending = 0\<rparr>"

definition counter_value :: "metrics_collector \<Rightarrow> string \<Rightarrow> u64" where
  "counter_value m name = unwrap_or (map_of (mc_counters m) name) 0"

definition metrics_snapshot :: "metrics_collector \<Rightarrow> ledger_metrics" where
  "metrics_snapshot m =
     (let committed = mc_committed_sequence m; applied = mc_applied_sequence m
      in \<lparr>lm_committed_sequence = committed, lm_applied_sequence = applied,
          sequence_lag = saturating_sub committed applied,
          state_root_mismatch_total = counter_value m ''state_root_mismatch'',
          version_conflict_total = counter_value m ''version_conflict'',
          idempotency_replay_total = counter_value m ''idempotency_replay'',
          insufficient_funds_total = counter_value m ''insufficient_funds'',
          reservation_conflict_total = counter_value m ''reservation_conflict'',
          quorum_unavailable_total = counter_value m ''quorum_unavailable'',
          snapshot_install_total = counter_value m ''snapshot_install'',
          divergence_recovery_total = counter_value m ''divergence_recovery'',
          lm_node_sync_status = mc_node_sync_status m,
          lm_total_accounts = mc_total_accounts m, lm_total_utxos = mc_total_utxos m,
          lm_total_reservations = mc_total_reservations m,
          lm_total_withdrawals_pending = mc_total_withdrawals_pending m\<rparr>)"

definition increment_counter :: "metrics_collector \<Rightarrow> string \<Rightarrow> u64 \<Rightarrow> metrics_collector" where
  "increment_counter m name v =
     m\<lparr>mc_counters := hm_insert name (saturating_add (unwrap_or (map_of (mc_counters m) name) 0) v) (mc_counters m)\<rparr>"

definition set_gauge :: "metrics_collector \<Rightarrow> string \<Rightarrow> u64 \<Rightarrow> metrics_collector" where
  "set_gauge m name v = m\<lparr>mc_gauges := hm_insert name v (mc_gauges m)\<rparr>"

definition set_committed_sequence :: "metrics_collector \<Rightarrow> u64 \<Rightarrow> metrics_collector" where
  "set_committed_sequence m q = m\<lparr>mc_committed_sequence := q\<rparr>"

definition set_applied_sequence :: "metrics_collector \<Rightarrow> u64 \<Rightarrow> metrics_collector" where
  "set_applied_sequence m q = m\<lparr>mc_applied_sequence := q\<rparr>"

definition set_node_sync_status :: "metrics_collector \<Rightarrow> string \<Rightarrow> metrics_collector" where
  "set_node_sync_status m x = m\<lparr>mc_node_sync_status := x\<rparr>"

definition set_total_accounts :: "metrics_collector \<Rightarrow> u64 \<Rightarrow> metrics_collector" where
  "set_total_accounts m n = m\<lparr>mc_total_accounts := n\<rparr>"

definition set_total_utxos :: "metrics_collector \<Rightarrow> u64 \<Rightarrow> metrics_collector" where
  "set_total_utxos m n = m\<lparr>mc_total_utxos := n\<rparr>"

definition set_total_reservations :: "metrics_collector \<Rightarrow> u64 \<Rightarrow> metrics_collector" where
  "set_total_reservations m n = m\<lparr>mc_total_reservations := n\<rparr>"

definition set_total_withdrawals_pending :: "metrics_collector \<Rightarrow> u64 \<Rightarrow> metrics_collector" where
  "set_total_withdrawals_pending m n = m\<lparr>mc_total_withdrawals_pending := n\<rparr>"

section \<open>Gate results and modes\<close>

record gate_result =
  gate_allowed :: bool
  gate_reasons :: "string list"

definition allowed_result :: gate_result where
  "allowed_result = \<lparr>gate_allowed = True, gate_reasons = []\<rparr>"

definition blocked :: "string list \<Rightarrow> gate_result" where
  "blocked rs = \<lparr>gate_allowed = False, gate_reasons = rs\<rparr>"

record degraded_flags =
  withdrawals_blocked :: bool
  membership_changes_blocked :: bool
  key_rotation_blocked :: bool
  dg_internal_transfers_allowed :: bool
  dg_credits_allowed :: bool

datatype degraded_mode = NormalMode | Degraded degraded_flags | ReadOnly

fun withdrawals_allowed :: "degraded_mode \<Rightarrow> bool" where
  "withdrawals_allowed NormalMode = True"
| "withdrawals_allowed (Degraded f) = (\<not> withdrawals_blocked f)"
| "withdrawals_allowed ReadOnly = False"

fun internal_transfers_allowed :: "degraded_mode \<Rightarrow> bool" where
  "internal_transfers_allowed NormalMode = True"
| "internal_transfers_allowed (Degraded f) = dg_internal_transfers_allowed f"
| "internal_transfers_allowed ReadOnly = False"

fun credits_allowed :: "degraded_mode \<Rightarrow> bool" where
  "credits_allowed NormalMode = True"
| "credits_allowed (Degraded f) = dg_credits_allowed f"
| "credits_allowed ReadOnly = False"

section \<open>The gates\<close>

definition gate_of :: "string list \<Rightarrow> gate_result" where
  "gate_of reasons = (if reasons = [] then allowed_result else blocked reasons)"

definition unhealthy_reason :: "replication_status \<Rightarrow> string \<Rightarrow> string list" where
  "unhealthy_reason st rest =
     (if rp_sync_status st \<noteq> Healthy then [''sync status is '' @ sync_status_debug (rp_sync_status st) @ rest] else [])"

definition sequence_reason :: "replication_status \<Rightarrow> string list" where
  "sequence_reason st =
     (if applied_sequence st \<noteq> rp_committed_sequence st
      then [''applied sequence '' @ show_word (applied_sequence st) @ '' != committed sequence '' @
              show_word (rp_committed_sequence st)] else [])"

definition reconciliation_reason :: "reconciliation_report \<Rightarrow> string list" where
  "reconciliation_reason r =
     (case rr_status r of
        Balanced \<Rightarrow> [] | Warning \<Rightarrow> [] | Surplus \<Rightarrow> []
      | Deficit \<Rightarrow> [''reconciliation deficit: '' @ show_int (difference_sats r) @ '' sats'']
      | IncompleteChainData \<Rightarrow> [''reconciliation data is incomplete''])"

definition can_authorize_withdrawals ::
    "ledger_metrics \<Rightarrow> reconciliation_report \<Rightarrow> replication_status \<Rightarrow> gate_result" where
  "can_authorize_withdrawals m r st =
     gate_of (unhealthy_reason st '', must be Healthy'' @
       (if sequence_lag m > 0 then [''sequence lag is '' @ show_word (sequence_lag m) @ '', must be 0''] else []) @
       reconciliation_reason r @
       (if rp_committed_sequence st = 0 \<and> applied_sequence st = 0 \<and> quorum_unavailable_total m > 0
        then [''quorum appears unavailable''] else []))"

definition can_accept_deposits :: "ledger_metrics \<Rightarrow> replication_status \<Rightarrow> gate_result" where
  "can_accept_deposits m st =
     gate_of ((if rp_sync_status st \<in> {Diverged, Quarantined}
        then [''sync status is '' @ sync_status_debug (rp_sync_status st) @ '', cannot accept deposits''] else []) @
       (if sequence_lag m > 100
        then [''sequence lag '' @ show_word (sequence_lag m) @ '' exceeds threshold for deposits''] else []))"

definition can_add_nodes :: "ledger_metrics \<Rightarrow> replication_status \<Rightarrow> membership_view \<Rightarrow> gate_result" where
  "can_add_nodes m st mem =
     gate_of (unhealthy_reason st '', must be Healthy to add nodes'' @
       (if length (nodes mem) \<ge> 100
        then [''membership size '' @ show_nat (length (nodes mem)) @ '' exceeds safety limit''] else []))"

definition can_change_membership :: "replication_status \<Rightarrow> gate_result" where
  "can_change_membership st =
     gate_of (unhealthy_reason st '', must be Healthy to change membership'' @ sequence_reason st)"

definition can_rotate_keys :: "replication_status \<Rightarrow> gate_result" where
  "can_rotate_keys st = gate_of (unhealthy_reason st '', must be Healthy to rotate keys'' @ sequence_reason st)"

definition evaluate_degraded_mode ::
    "ledger_metrics \<Rightarrow> reconciliation_report \<Rightarrow> replication_status \<Rightarrow> membership_view \<Rightarrow> degraded_mode" where
  "evaluate_degraded_mode m r st mem =
     (let withdrawals_gate = can_authorize_withdrawals m r st;
          deposits_gate = can_accept_deposits m st;
          membership_change_gate = can_change_membership st;
          key_rotation_gate = can_rotate_keys st;
          add_nodes_gate = can_add_nodes m st mem;
          wb = (\<not> gate_allowed withdrawals_gate);
          mb = (\<not> gate_allowed membership_change_gate);
          kb = (\<not> gate_allowed key_rotation_gate)
      in if \<not> gate_allowed withdrawals_gate \<or> \<not> gate_allowed deposits_gate \<or> \<not> gate_allowed membership_change_gate
         then Degraded \<lparr>withdrawals_blocked = wb, membership_changes_blocked = mb, key_rotation_blocked = kb,
                dg_internal_transfers_allowed = True, dg_credits_allowed = True\<rparr>
         else if \<not> gate_allowed add_nodes_gate
         then Degraded \<lparr>withdrawals_blocked = False, membership_changes_blocked = mb, key_rotation_blocked = kb,
                dg_internal_transfers_allowed = True, dg_credits_allowed = True\<rparr>
         else NormalMode)"

lemma gate_of_allowed [simp]: "gate_allowed (gate_of rs) \<longleftrightarrow> rs = []"
  by (simp add: gate_of_def allowed_result_def blocked_def)

lemma gate_reason_iffs [simp]:
  "unhealthy_reason st x = [] \<longleftrightarrow> rp_sync_status st = Healthy"
  "sequence_reason st = [] \<longleftrightarrow> applied_sequence st = rp_committed_sequence st"
  "reconciliation_reason r = [] \<longleftrightarrow> rr_status r \<in> {Balanced, Warning, Surplus}"
  by (simp_all add: unhealthy_reason_def sequence_reason_def reconciliation_reason_def split: reconciliation_status.split)

section \<open>What the collector reports\<close>

datatype metrics_call =
    McIncrement string u64
  | McGauge string u64
  | McCommitted u64
  | McApplied u64
  | McSyncStatus string
  | McAccounts u64
  | McUtxos u64
  | McReservations u64
  | McWithdrawals u64

fun metrics_step :: "metrics_collector \<Rightarrow> metrics_call \<Rightarrow> metrics_collector" where
  "metrics_step m (McIncrement n v) = increment_counter m n v"
| "metrics_step m (McGauge n v) = set_gauge m n v"
| "metrics_step m (McCommitted q) = set_committed_sequence m q"
| "metrics_step m (McApplied q) = set_applied_sequence m q"
| "metrics_step m (McSyncStatus x) = set_node_sync_status m x"
| "metrics_step m (McAccounts n) = set_total_accounts m n"
| "metrics_step m (McUtxos n) = set_total_utxos m n"
| "metrics_step m (McReservations n) = set_total_reservations m n"
| "metrics_step m (McWithdrawals n) = set_total_withdrawals_pending m n"

definition metrics_run :: "metrics_collector \<Rightarrow> metrics_call list \<Rightarrow> metrics_collector" where
  "metrics_run m ks = fold (\<lambda>k m. metrics_step m k) ks m"

fun increment_of :: "string \<Rightarrow> metrics_call \<Rightarrow> nat" where
  "increment_of n (McIncrement n' v) = (if n' = n then unat v else 0)"
| "increment_of n _ = 0"

lemmas metrics_set_defs = set_gauge_def set_committed_sequence_def set_applied_sequence_def
  set_node_sync_status_def set_total_accounts_def set_total_utxos_def set_total_reservations_def
  set_total_withdrawals_pending_def

lemma counter_step:
  "unat (counter_value (metrics_step m k) n) = min (unat (counter_value m n) + increment_of n k) max_u64"
proof -
  have "unat (counter_value m n) < 2 ^ LENGTH(64)" by (rule unsigned_less)
  then show ?thesis
    by (cases k) (auto simp: counter_value_def increment_counter_def metrics_set_defs rust_arith max_u64_def)
qed

lemma counter_run: "unat (counter_value (metrics_run collector_new ks) n) = min (sum_list (map (increment_of n) ks)) max_u64"
proof (induction ks rule: rev_induct)
  case Nil
  then show ?case by (simp add: metrics_run_def collector_new_def counter_value_def)
next
  case (snoc k ks)
  have "metrics_run collector_new (ks @ [k]) = metrics_step (metrics_run collector_new ks) k" by (simp add: metrics_run_def)
  then show ?case using snoc by (simp add: counter_step min_def)
qed

text \<open>
  A snapshot of the metrics is exact: after any calls on a new collector every counter
  it reports is the sum of the increments of that name, cut off at the largest \<open>u64\<close> once, and
  the lag is the distance from the applied to the committed sequence, zero when the node is
  ahead. A gauge set by name changes no field of the snapshot.
\<close>

theorem metrics_report_exact:
  "let m = metrics_run collector_new ks;
       r = metrics_snapshot m;
       count = (\<lambda>name. min (sum_list (map (increment_of name) ks)) max_u64)
   in unat (state_root_mismatch_total r) = count ''state_root_mismatch'' \<and>
      unat (version_conflict_total r) = count ''version_conflict'' \<and>
      unat (idempotency_replay_total r) = count ''idempotency_replay'' \<and>
      unat (insufficient_funds_total r) = count ''insufficient_funds'' \<and>
      unat (reservation_conflict_total r) = count ''reservation_conflict'' \<and>
      unat (quorum_unavailable_total r) = count ''quorum_unavailable'' \<and>
      unat (snapshot_install_total r) = count ''snapshot_install'' \<and>
      unat (divergence_recovery_total r) = count ''divergence_recovery'' \<and>
      unat (sequence_lag r) = unat (lm_committed_sequence r) - unat (lm_applied_sequence r) \<and>
      metrics_snapshot (set_gauge m name v) = r"
proof -
  have "metrics_snapshot (set_gauge m name v) = metrics_snapshot m" for m
    by (simp add: metrics_snapshot_def set_gauge_def counter_value_def Let_def)
  then show ?thesis
    unfolding Let_def counter_run [symmetric] by (simp only:) (simp add: metrics_snapshot_def Let_def rust_arith)
qed

section \<open>What the gates let through\<close>

lemma reconciliation_reason_iff:
  "reconciliation_reason (reconcile c s tip complete) = [] \<longleftrightarrow>
     complete \<and> unat (compute_total_liabilities s) \<le>
       unat (compute_total_assets s) + max 1000 (unat (compute_total_assets s) div 1000)"
  by (simp add: reconcile_status)

text \<open>
  C25. Withdrawals are authorized exactly when the node is healthy, has applied all that the
  collector saw committed, has complete chain data, and the assets cover the liabilities up to a
  shortfall of a thousandth of the assets or 1000; and, on a node that has neither committed nor
  applied anything, when no missing quorum was counted. Sums are the true ones, cut off at the
  largest \<open>u64\<close>; the liabilities are what is available, reserved and on its way out. The
  documentation says that the gate is closed whenever the quorum is unavailable; the code looks
  at the count of missing quorums only on a node with nothing committed and nothing applied, so
  on any other node it does not close the gate.
\<close>

theorem withdrawal_gate_exact:
  "gate_allowed (can_authorize_withdrawals (metrics_snapshot m) (reconcile c s tip complete) st) \<longleftrightarrow>
     rp_sync_status st = Healthy \<and> mc_committed_sequence m \<le> mc_applied_sequence m \<and> complete \<and>
     min (true_liabilities s) max_u64 \<le>
       min (true_assets s) max_u64 + max 1000 (min (true_assets s) max_u64 div 1000) \<and>
     \<not> (rp_committed_sequence st = 0 \<and> applied_sequence st = 0 \<and> counter_value m ''quorum_unavailable'' \<noteq> 0)"
proof -
  have "sequence_lag (metrics_snapshot m) > 0 \<longleftrightarrow> \<not> mc_committed_sequence m \<le> mc_applied_sequence m"
    unfolding word_less_nat_alt word_le_nat_alt by (simp add: metrics_snapshot_def Let_def rust_arith) linarith
  moreover have "quorum_unavailable_total (metrics_snapshot m) > 0 \<longleftrightarrow> counter_value m ''quorum_unavailable'' \<noteq> 0"
    by (simp add: metrics_snapshot_def Let_def word_neq_0_conv)
  ultimately show ?thesis
    unfolding can_authorize_withdrawals_def gate_of_allowed
    by (simp del: gate_reason_iffs(3) add: reconciliation_reason_iff unat_total_assets unat_total_liabilities)
qed

text \<open>
  The mode sums up the gates: it is \<open>Normal\<close> exactly when withdrawals, deposits,
  membership changes and new nodes are all let through, withdrawals are allowed in it exactly
  when their gate opens, and it is never \<open>ReadOnly\<close>. Internal transfers and credits stay
  allowed in every mode it returns, whatever the gates say, on a diverged or quarantined node
  too, where the gate refuses deposits.
\<close>

theorem degraded_mode_exact:
  "let mode = evaluate_degraded_mode m r st mem
   in (mode = NormalMode \<longleftrightarrow>
        gate_allowed (can_authorize_withdrawals m r st) \<and> gate_allowed (can_accept_deposits m st) \<and>
        gate_allowed (can_change_membership st) \<and> gate_allowed (can_add_nodes m st mem)) \<and>
      withdrawals_allowed mode = gate_allowed (can_authorize_withdrawals m r st) \<and>
      mode \<noteq> ReadOnly \<and> internal_transfers_allowed mode \<and> credits_allowed mode \<and>
      (rp_sync_status st \<in> {Diverged, Quarantined} \<longrightarrow> \<not> gate_allowed (can_accept_deposits m st))"
proof -
  have "rp_sync_status st \<in> {Diverged, Quarantined} \<longrightarrow> \<not> gate_allowed (can_accept_deposits m st)"
    by (simp add: can_accept_deposits_def)
  then show ?thesis by (auto simp: evaluate_degraded_mode_def Let_def)
qed

definition demo_gate_metrics :: ledger_metrics where
  "demo_gate_metrics = metrics_snapshot (metrics_run collector_new [McCommitted 9, McApplied 9])"

theorem degraded_mode_exact_witness:
  "credits_allowed (evaluate_degraded_mode demo_gate_metrics (reconcile demo_crypto (ledger_state_empty (single_node ''c'' ''n'')) ''t'' True)
      (demo_status\<lparr>rp_sync_status := Diverged\<rparr>) (single_node ''c'' ''n'')) \<and>
   \<not> gate_allowed (can_accept_deposits demo_gate_metrics (demo_status\<lparr>rp_sync_status := Diverged\<rparr>))"
  using degraded_mode_exact [of demo_gate_metrics "reconcile demo_crypto (ledger_state_empty (single_node ''c'' ''n'')) ''t'' True"
      "demo_status\<lparr>rp_sync_status := Diverged\<rparr>" "single_node ''c'' ''n''"]
  by (simp add: Let_def)

end
