(* ===== verification/File_System.thy ===== *)
theory File_System
  imports Kerosene_Prelude
begin

text \<open>
  The calls of \<open>std::fs\<close> that the node and its tools make, on an explicit file system. Any call can fail:
  which ones do, with what message, and what a failing write leaves in the file it was writing
  is a schedule that the file system carries, so a theorem about all file systems is about all
  failures. Files are replaced by writing a temporary file and renaming it; the contract of this
  is the locale \<open>atomic_writer\<close>.
\<close>

section \<open>The file system\<close>

record io_fault =
  io_message :: string
  torn :: "bytes option"

record file_system =
  files :: "string \<Rightarrow> bytes option"
  io_faults :: "nat \<Rightarrow> io_fault option"
  io_calls :: nat

definition io_call :: "file_system \<Rightarrow> file_system" where
  "io_call fs = fs\<lparr>io_calls := Suc (io_calls fs)\<rparr>"

definition fault_now :: "file_system \<Rightarrow> io_fault option" where
  "fault_now fs = io_faults fs (io_calls fs)"

definition not_found_message :: string where
  "not_found_message = ''No such file or directory (os error 2)''"

definition fs_exists :: "file_system \<Rightarrow> string \<Rightarrow> bool" where
  "fs_exists fs p \<longleftrightarrow> files fs p \<noteq> None"

definition fs_read :: "file_system \<Rightarrow> string \<Rightarrow> (string + bytes) \<times> file_system" where
  "fs_read fs p =
     (case fault_now fs of
        Some f \<Rightarrow> (Inl (io_message f), io_call fs)
      | None \<Rightarrow> (case files fs p of None \<Rightarrow> Inl not_found_message | Some b \<Rightarrow> Inr b, io_call fs))"

definition fs_write :: "file_system \<Rightarrow> string \<Rightarrow> bytes \<Rightarrow> (string + unit) \<times> file_system" where
  "fs_write fs p b =
     (case fault_now fs of
        Some f \<Rightarrow> (Inl (io_message f),
          (io_call fs)\<lparr>files := (case torn f of None \<Rightarrow> files fs | Some t \<Rightarrow> (files fs)(p \<mapsto> t))\<rparr>)
      | None \<Rightarrow> (Inr (), (io_call fs)\<lparr>files := (files fs)(p \<mapsto> b)\<rparr>))"

definition fs_rename :: "file_system \<Rightarrow> string \<Rightarrow> string \<Rightarrow> (string + unit) \<times> file_system" where
  "fs_rename fs a b =
     (case fault_now fs of
        Some f \<Rightarrow> (Inl (io_message f), io_call fs)
      | None \<Rightarrow> (case files fs a of
          None \<Rightarrow> (Inl not_found_message, io_call fs)
        | Some x \<Rightarrow> (Inr (), (io_call fs)\<lparr>files := ((files fs)(a := None))(b \<mapsto> x)\<rparr>)))"

definition fs_create_dir_all :: "file_system \<Rightarrow> string \<Rightarrow> (string + unit) \<times> file_system" where
  "fs_create_dir_all fs p =
     (case fault_now fs of Some f \<Rightarrow> (Inl (io_message f), io_call fs) | None \<Rightarrow> (Inr (), io_call fs))"

text \<open>\<open>?\<close> on an operation that takes the file system along.\<close>

definition io_bind ::
    "('e + 'a) \<times> 's \<Rightarrow> ('a \<Rightarrow> 's \<Rightarrow> ('e + 'b) \<times> 's) \<Rightarrow> ('e + 'b) \<times> 's" where
  "io_bind r f = (case r of (Inl e, s) \<Rightarrow> (Inl e, s) | (Inr x, s) \<Rightarrow> f x s)"

lemma io_bind_simps [simp]:
  "io_bind (Inl e, s) f = (Inl e, s)"
  "io_bind (Inr x, s) f = f x s"
  by (simp_all add: io_bind_def)

lemma io_bind_Inr [result_simps]:
  "io_bind r f = (Inr y, t) \<longleftrightarrow> (\<exists>x s. r = (Inr x, s) \<and> f x s = (Inr y, t))"
  by (cases r; cases "fst r") auto

lemma io_bind_Inl [result_simps]:
  "io_bind r f = (Inl e, t) \<longleftrightarrow> r = (Inl e, t) \<or> (\<exists>x s. r = (Inr x, s) \<and> f x s = (Inl e, t))"
  by (cases r; cases "fst r") auto

lemma fs_bind_frame:
  assumes "P (snd r)" and "\<And>x s. r = (Inr x, s) \<Longrightarrow> P s \<Longrightarrow> P (snd (f x s))"
  shows "P (snd (io_bind r f))"
  using assms by (cases r; cases "fst r") auto

lemma files_io_call [simp]: "files (io_call fs) = files fs" "io_faults (io_call fs) = io_faults fs"
  by (simp_all add: io_call_def)

lemma fs_read_files [simp]: "files (snd (fs_read fs p)) = files fs"
  by (simp add: fs_read_def split: option.splits)

lemma fs_create_dir_all_files [simp]: "files (snd (fs_create_dir_all fs p)) = files fs"
  by (simp add: fs_create_dir_all_def split: option.splits)

text \<open>
  \<open>if let Some(parent) = path.parent() \<open>{\<close> fs::create_dir_all(parent)?; \<open>}\<close>\<close>: \<open>Path::parent\<close> is
  absent for the empty path and the root only.
\<close>

definition has_parent :: "string \<Rightarrow> bool" where
  "has_parent p \<longleftrightarrow> p \<noteq> [] \<and> p \<noteq> ''/''"

definition ensure_parent :: "file_system \<Rightarrow> string \<Rightarrow> (string + unit) \<times> file_system" where
  "ensure_parent fs p = (if has_parent p then fs_create_dir_all fs p else (Inr (), fs))"

lemma ensure_parent_files [simp]: "files (snd (ensure_parent fs p)) = files fs"
  by (simp add: ensure_parent_def)

section \<open>Creating and appending\<close>

definition fs_create_new :: "file_system \<Rightarrow> string \<Rightarrow> (string + unit) \<times> file_system" where
  "fs_create_new fs p =
     (case fault_now fs of
        Some f \<Rightarrow> (Inl (io_message f), io_call fs)
      | None \<Rightarrow> if files fs p \<noteq> None then (Inl ''File exists (os error 17)'', io_call fs)
                else (Inr (), (io_call fs)\<lparr>files := (files fs)(p \<mapsto> [])\<rparr>))"

text \<open>\<open>write_all\<close> on the open file: it appends; a failing call may have written a part.\<close>

definition fs_append :: "file_system \<Rightarrow> string \<Rightarrow> bytes \<Rightarrow> (string + unit) \<times> file_system" where
  "fs_append fs p b =
     (let old = unwrap_or (files fs p) [] in
      case fault_now fs of
        Some f \<Rightarrow> (Inl (io_message f),
          (io_call fs)\<lparr>files := (case torn f of None \<Rightarrow> files fs | Some t \<Rightarrow> (files fs)(p \<mapsto> old @ t))\<rparr>)
      | None \<Rightarrow> (Inr (), (io_call fs)\<lparr>files := (files fs)(p \<mapsto> old @ b)\<rparr>))"

definition fs_sync_all :: "file_system \<Rightarrow> (string + unit) \<times> file_system" where
  "fs_sync_all fs = (case fault_now fs of Some f \<Rightarrow> (Inl (io_message f), io_call fs) | None \<Rightarrow> (Inr (), io_call fs))"

section \<open>Text\<close>

text \<open>
  Strings are their UTF-8 bytes. \<open>read_to_string\<close> refuses anything else, by the table of the
  standard library: the first byte fixes the range of the second and how many more follow.
\<close>

definition utf8_lead :: "u8 \<Rightarrow> (u8 \<times> u8 \<times> nat) option" where
  "utf8_lead b =
     (if 0xC2 \<le> b \<and> b \<le> 0xDF then Some (0x80, 0xBF, 0)
      else if b = 0xE0 then Some (0xA0, 0xBF, 1)
      else if b = 0xED then Some (0x80, 0x9F, 1)
      else if 0xE1 \<le> b \<and> b \<le> 0xEF then Some (0x80, 0xBF, 1)
      else if b = 0xF0 then Some (0x90, 0xBF, 2)
      else if 0xF1 \<le> b \<and> b \<le> 0xF3 then Some (0x80, 0xBF, 2)
      else if b = 0xF4 then Some (0x80, 0x8F, 2)
      else None)"

fun utf8_valid :: "bytes \<Rightarrow> bool" where
  "utf8_valid [] = True"
| "utf8_valid (b # bs) =
     (if b < 0x80 then utf8_valid bs
      else case utf8_lead b of
        None \<Rightarrow> False
      | Some (lo, hi, n) \<Rightarrow> (case bs of
          [] \<Rightarrow> False
        | x # xs \<Rightarrow> lo \<le> x \<and> x \<le> hi \<and> n \<le> length xs \<and> list_all (\<lambda>y. 0x80 \<le> y \<and> y \<le> 0xBF) (take n xs) \<and>
            utf8_valid (drop n xs)))"

lemma utf8_valid_ascii: "\<forall>b \<in> set bs. b < 0x80 \<Longrightarrow> utf8_valid bs"
  by (induction bs) auto

text \<open>\<open>str::trim\<close> on ASCII text.\<close>

definition ascii_space :: "char \<Rightarrow> bool" where
  "ascii_space ch \<longleftrightarrow> (let n = of_char ch :: nat in n = 32 \<or> (9 \<le> n \<and> n \<le> 13))"

definition trim :: "string \<Rightarrow> string" where
  "trim s = rev (dropWhile ascii_space (rev (dropWhile ascii_space s)))"

definition bytes_str :: "bytes \<Rightarrow> string" where
  "bytes_str b = map (\<lambda>w. char_of (unat w)) b"

definition starts_with :: "string \<Rightarrow> string \<Rightarrow> bool" where
  "starts_with p s \<longleftrightarrow> take (length p) s = p"

definition fs_read_to_string :: "file_system \<Rightarrow> string \<Rightarrow> (string + string) \<times> file_system" where
  "fs_read_to_string fs p =
     io_bind (fs_read fs p) (\<lambda>b fs1.
     if utf8_valid b then (Inr (bytes_str b), fs1) else (Inl ''stream did not contain valid UTF-8'', fs1))"

lemma fs_read_to_string_files [simp]: "files (snd (fs_read_to_string fs p)) = files fs"
proof -
  obtain r fs1 where r: "fs_read fs p = (r, fs1)" by force
  then have "files fs1 = files fs" using fs_read_files [of fs p] by simp
  with r show ?thesis by (cases r) (auto simp: fs_read_to_string_def)
qed

lemma bytes_str_inverse: "bytes_str (str_bytes s) = s"
proof -
  have "char_of (unat (of_char x :: u8)) = x" for x :: char
  proof -
    have "unat (of_char x :: u8) = unat (of_nat (of_char x) :: u8)" by (simp only: of_nat_of_char)
    also have "\<dots> = (of_char x :: nat) mod 256" by (simp add: unat_of_nat)
    finally show ?thesis by simp
  qed
  then show ?thesis by (simp add: bytes_str_def str_bytes_def comp_def)
qed

lemma trim_line:
  assumes "\<forall>x \<in> set s. \<not> ascii_space x"
  shows "trim (s @ [CHR 0x0A]) = s"
proof (cases s)
  case Nil
  then show ?thesis by (simp add: trim_def ascii_space_def)
next
  case (Cons x xs)
  then have "dropWhile ascii_space (s @ [CHR 0x0A]) = s @ [CHR 0x0A]" using assms by simp
  moreover have "ascii_space (CHR 0x0A)" by (simp add: ascii_space_def)
  moreover have "dropWhile ascii_space (rev s) = rev s"
    using assms by (cases "rev s") (auto simp: dropWhile_eq_self_iff)
  ultimately show ?thesis by (simp add: trim_def)
qed

section \<open>Replacing a file\<close>

definition tmp_suffix :: string where
  "tmp_suffix = ''.tmp''"

definition temporary_path :: "string \<Rightarrow> string" where
  "temporary_path p = p @ tmp_suffix"

definition replace_file :: "file_system \<Rightarrow> string \<Rightarrow> bytes \<Rightarrow> (string + unit) \<times> file_system" where
  "replace_file fs p b =
     io_bind (fs_write fs (temporary_path p) b) (\<lambda>_ fs1. fs_rename fs1 (temporary_path p) p)"

lemma temporary_path_neq [simp]: "temporary_path p \<noteq> p" "p \<noteq> temporary_path p"
  by (auto simp: temporary_path_def tmp_suffix_def)

lemma fs_write_frame:
  "fs_write fs p b = (r, fs') \<Longrightarrow> q \<noteq> p \<Longrightarrow> files fs' q = files fs q"
  by (auto simp: fs_write_def split: option.splits)

lemma fs_write_ok: "fs_write fs p b = (Inr u, fs') \<Longrightarrow> files fs' p = Some b"
  by (auto simp: fs_write_def split: option.splits)

lemma fs_rename_frame:
  "fs_rename fs a b = (r, fs') \<Longrightarrow> q \<noteq> a \<Longrightarrow> q \<noteq> b \<Longrightarrow> files fs' q = files fs q"
  by (auto simp: fs_rename_def split: option.splits)

lemma fs_rename_target:
  "fs_rename fs a b = (r, fs') \<Longrightarrow> files fs a = Some x \<Longrightarrow> a \<noteq> b \<Longrightarrow>
     files fs' b = (if is_ok r then Some x else files fs b)"
  by (auto simp: fs_rename_def split: option.splits)

text \<open>
  The contract of replacing a file: on success the target has the new contents, on failure the
  old ones, whatever failed; and no other file changes, except the scratch file.
\<close>

locale atomic_writer =
  fixes replace :: "file_system \<Rightarrow> string \<Rightarrow> bytes \<Rightarrow> (string + unit) \<times> file_system"
    and scratch :: "string \<Rightarrow> string"
  assumes write_target: "replace fs p b = (r, fs') \<Longrightarrow> files fs' p = (if is_ok r then Some b else files fs p)"
    and write_frame: "replace fs p b = (r, fs') \<Longrightarrow> q \<noteq> p \<Longrightarrow> q \<noteq> scratch p \<Longrightarrow> files fs' q = files fs q"
begin

lemma write_old_or_new: "replace fs p b = (r, fs') \<Longrightarrow> files fs' p \<in> {files fs p, Some b}"
  using write_target by (auto split: if_splits)

text \<open>After any sequence of writes a file has its first contents or some that were written to it.\<close>

lemma run_old_or_written:
  assumes "\<forall>(q, b) \<in> set ws. p \<noteq> scratch q"
  shows "files (fold (\<lambda>(q, b) fs. snd (replace fs q b)) ws fs) p \<in>
    insert (files fs p) {Some b | b. (p, b) \<in> set ws}"
  using assms
proof (induction ws arbitrary: fs)
  case (Cons w ws)
  obtain q b where w: "w = (q, b)" by force
  obtain r fs1 where r: "replace fs q b = (r, fs1)" by force
  have "files fs1 p = files fs p \<or> p = q \<and> files fs1 p = Some b"
    using write_target [OF r] write_frame [OF r, of p] Cons.prems by (cases "p = q") (auto simp: w split: if_splits)
  moreover have "files (fold (\<lambda>(q, b) fs. snd (replace fs q b)) ws fs1) p \<in>
      insert (files fs1 p) {Some b | b. (p, b) \<in> set ws}"
    using Cons.prems by (intro Cons.IH) simp
  ultimately show ?case by (auto simp: w r)
qed simp

end

interpretation file_replacement: atomic_writer replace_file temporary_path
proof unfold_locales
  fix fs p b r fs'
  assume w: "replace_file fs p b = (r, fs')"
  show "files fs' p = (if is_ok r then Some b else files fs p)"
  proof (cases "fs_write fs (temporary_path p) b")
    case (Pair r1 fs1)
    then have keep: "files fs1 p = files fs p" by (rule fs_write_frame) simp
    show ?thesis
    proof (cases r1)
      case (Inl e)
      then show ?thesis using w Pair keep by (auto simp: replace_file_def)
    next
      case (Inr u)
      then have "files fs1 (temporary_path p) = Some b" using Pair by (auto dest: fs_write_ok)
      then show ?thesis
        using w Pair Inr keep fs_rename_target [of fs1 "temporary_path p" p r fs' b] by (simp add: replace_file_def)
    qed
  qed
next
  fix fs p b r fs' q
  assume w: "replace_file fs p b = (r, fs')" and "q \<noteq> p" "q \<noteq> temporary_path p"
  obtain r1 fs1 where 1: "fs_write fs (temporary_path p) b = (r1, fs1)" by force
  then have "files fs1 q = files fs q" using \<open>q \<noteq> temporary_path p\<close> by (rule fs_write_frame)
  then show "files fs' q = files fs q"
    using w 1 \<open>q \<noteq> p\<close> \<open>q \<noteq> temporary_path p\<close> fs_rename_frame [of fs1 "temporary_path p" p r fs' q]
    by (cases r1) (auto simp: replace_file_def)
qed

section \<open>Encoded values\<close>

text \<open>
  \<open>serde_json\<close> is not part of the repository: a codec is a pair of functions, with the
  documented fact that decoding inverts encoding as a hypothesis.
\<close>

record 'a codec =
  to_vec :: "'a \<Rightarrow> string + bytes"
  from_slice :: "bytes \<Rightarrow> string + 'a"

definition codec_ok :: "'a codec \<Rightarrow> bool" where
  "codec_ok j \<longleftrightarrow> (\<forall>x b. to_vec j x = Inr b \<longrightarrow> from_slice j b = Inr x)"

definition map_err :: "('e \<Rightarrow> 'f) \<Rightarrow> ('e + 'a) \<times> 's \<Rightarrow> ('f + 'a) \<times> 's" where
  "map_err f r = (case r of (Inl e, s) \<Rightarrow> (Inl (f e), s) | (Inr x, s) \<Rightarrow> (Inr x, s))"

lemma map_err_simps [simp]:
  "map_err f (Inl e, s) = (Inl (f e), s)"
  "map_err f (Inr x, s) = (Inr x, s)"
  by (simp_all add: map_err_def)

lemma map_err_Inr [result_simps]: "map_err f r = (Inr x, s) \<longleftrightarrow> r = (Inr x, s)"
  by (cases r; cases "fst r") auto

lemma map_err_snd [simp]: "snd (map_err f r) = snd r"
  by (cases r; cases "fst r") auto

lemma map_err_is_ok [simp]: "is_ok (fst (map_err f r)) = is_ok (fst r)"
  by (cases r; cases "fst r") auto

text \<open>An empty file system in which the calls with the given numbers fail.\<close>

definition demo_fs :: "nat set \<Rightarrow> file_system" where
  "demo_fs bad = \<lparr>files = Map.empty, io_faults = (\<lambda>n. if n \<in> bad then Some \<lparr>io_message = ''disk full'', torn = Some [0]\<rparr> else None),
     io_calls = 0\<rparr>"

end
