(* ===== verification/Sled.thy ===== *)
theory Sled
  imports Gates Account_Stores Utxo_Store File_System
begin

text \<open>
  The persistent stores (\<open>persistent.rs\<close>). The database \<open>sled\<close> is not part of the repository:
  its operations are a parameter, a record of functions on a state of their own, and what its
  documentation promises is the locale \<open>sled_db\<close>. Any call may fail; after a failed write the
  database holds the old or the new value, and a batch is applied as a whole or not at all. The
  codec \<open>serde_json\<close> is a parameter as well. One call of a store is here one step; the two halves
  of a read-modify-write, between which another task may run, are in \<open>Sled_Refinement\<close> and
  \<open>Store_Interleaving\<close>.
\<close>

section \<open>The database\<close>

record 'd sled =
  sl_get :: "'d \<Rightarrow> bytes \<Rightarrow> (string + bytes option) \<times> 'd"
  sl_insert :: "'d \<Rightarrow> bytes \<Rightarrow> bytes \<Rightarrow> (string + bytes option) \<times> 'd"
  sl_remove :: "'d \<Rightarrow> bytes \<Rightarrow> (string + bytes option) \<times> 'd"
  sl_apply_batch :: "'d \<Rightarrow> (bytes \<times> bytes) list \<Rightarrow> (string + unit) \<times> 'd"
  sl_scan_prefix :: "'d \<Rightarrow> bytes \<Rightarrow> (string + bytes \<times> bytes) list \<times> 'd"

definition sled_error :: "string \<Rightarrow> ledger_error" where
  "sled_error e = InvariantViolation (''sled error: '' @ e)"

definition sled_batch_error :: "string \<Rightarrow> ledger_error" where
  "sled_batch_error e = InvariantViolation (''sled batch error: '' @ e)"

definition serialize :: "'a codec \<Rightarrow> 'a \<Rightarrow> bytes ledger_result" where
  "serialize j x =
     (case to_vec j x of Inl e \<Rightarrow> Inl (InvariantViolation (''serialization error: '' @ e)) | Inr b \<Rightarrow> Inr b)"

definition deserialize :: "'a codec \<Rightarrow> bytes \<Rightarrow> 'a ledger_result" where
  "deserialize j b =
     (case from_slice j b of Inl e \<Rightarrow> Inl (InvariantViolation (''deserialization error: '' @ e)) | Inr x \<Rightarrow> Inr x)"

section \<open>Keys\<close>

definition prefix_nonce :: string where "prefix_nonce = ''nonce:''"
definition prefix_account :: string where "prefix_account = ''account:''"
definition prefix_reservation :: string where "prefix_reservation = ''resv:''"
definition prefix_idempotency :: string where "prefix_idempotency = ''idemp:''"
definition prefix_utxo :: string where "prefix_utxo = ''utxo:''"
definition prefix_withdrawal :: string where "prefix_withdrawal = ''wd:''"
definition prefix_snapshot :: string where "prefix_snapshot = ''snap:''"
definition prefix_membership :: string where "prefix_membership = ''member:''"
definition key_latest_snapshot :: bytes where "key_latest_snapshot = str_bytes ''snap:latest_seq''"

text \<open>\<open>[PREFIX, id.as_bytes()].concat()\<close>.\<close>

definition sled_key :: "string \<Rightarrow> string \<Rightarrow> bytes" where
  "sled_key p i = str_bytes p @ str_bytes i"

definition snapshot_key :: "u64 \<Rightarrow> bytes" where
  "snapshot_key n = str_bytes prefix_snapshot @ u64_le n"

lemma sled_key_inject [simp]: "sled_key p i = sled_key p j \<longleftrightarrow> i = j"
  by (simp add: sled_key_def)

lemma snapshot_key_inject [simp]: "snapshot_key m = snapshot_key n \<longleftrightarrow> m = n"
  by (simp add: snapshot_key_def)

lemma snapshot_key_latest [simp]: "snapshot_key n \<noteq> key_latest_snapshot" "key_latest_snapshot \<noteq> snapshot_key n"
proof -
  have "length (snapshot_key n) \<noteq> length key_latest_snapshot"
    by (simp add: snapshot_key_def key_latest_snapshot_def prefix_snapshot_def)
  then show "snapshot_key n \<noteq> key_latest_snapshot" "key_latest_snapshot \<noteq> snapshot_key n" by metis+
qed

section \<open>Records under keys\<close>

text \<open>\<open>db.get(&key)\<close> and \<open>deserialize\<close>.\<close>

definition sled_read :: "'d sled \<Rightarrow> 'r codec \<Rightarrow> bytes \<Rightarrow> 'd \<Rightarrow> ('d, 'r option) mut_result" where
  "sled_read db j key d =
     io_bind (map_err sled_error (sl_get db d key)) (\<lambda>v d1.
     (case v of
        None \<Rightarrow> (Inr None, d1)
      | Some b \<Rightarrow> (case deserialize j b of Inl e \<Rightarrow> (Inl e, d1) | Inr r \<Rightarrow> (Inr (Some r), d1))))"

text \<open>\<open>serialize\<close> and \<open>db.insert(&key, ...)\<close>.\<close>

definition sled_write :: "'d sled \<Rightarrow> 'r codec \<Rightarrow> bytes \<Rightarrow> 'r \<Rightarrow> 'd \<Rightarrow> ('d, unit) mut_result" where
  "sled_write db j key r d =
     (case serialize j r of
        Inl e \<Rightarrow> (Inl e, d)
      | Inr b \<Rightarrow> io_bind (map_err sled_error (sl_insert db d key b)) (\<lambda>_ d1. (Inr (), d1)))"

text \<open>Inserting a record unless the key is taken, which answers with \<open>taken\<close>.\<close>

definition sled_create :: "'d sled \<Rightarrow> 'r codec \<Rightarrow> bytes \<Rightarrow> unit ledger_result \<Rightarrow> 'r \<Rightarrow> 'd \<Rightarrow> ('d, unit) mut_result" where
  "sled_create db j key taken r d =
     io_bind (map_err sled_error (sl_get db d key)) (\<lambda>existing d1.
     if existing \<noteq> None then (taken, d1) else sled_write db j key r d1)"

text \<open>
  Read, check and change, write back: \<open>f\<close> gets the record, if there is one, and gives an error
  or the new record with the answer.
\<close>

definition sled_update ::
    "'d sled \<Rightarrow> 'r codec \<Rightarrow> bytes \<Rightarrow> ('r option \<Rightarrow> ledger_error + 'r \<times> 'a) \<Rightarrow> 'd \<Rightarrow> ('d, 'a) mut_result" where
  "sled_update db j key f d =
     io_bind (sled_read db j key d) (\<lambda>v d1.
     (case f v of
        Inl e \<Rightarrow> (Inl e, d1)
      | Inr (r, a) \<Rightarrow> io_bind (sled_write db j key r d1) (\<lambda>_ d2. (Inr a, d2))))"

section \<open>What the database promises\<close>

text \<open>What the bytes under a key stand for: an error when they do not decode.\<close>

definition rec_of :: "'r codec \<Rightarrow> bytes option \<Rightarrow> 'r option ledger_result" where
  "rec_of j v = (case v of None \<Rightarrow> Inr None | Some b \<Rightarrow> res_bind (deserialize j b) (\<lambda>r. Inr (Some r)))"

definition record_in :: "'r codec \<Rightarrow> bytes option \<Rightarrow> 'r option" where
  "record_in j v = res_unwrap_or (rec_of j v) None"

lemma record_in_written: "codec_ok j \<Longrightarrow> to_vec j r = Inr b \<Longrightarrow> record_in j (Some b) = Some r"
  by (simp add: record_in_def rec_of_def deserialize_def codec_ok_def)

lemma record_in_rec: "record_in j v = Some r \<longleftrightarrow> rec_of j v = Inr (Some r)"
  by (cases "rec_of j v") (simp_all add: record_in_def)

lemma record_in_None [simp]: "record_in j None = None"
  by (simp add: record_in_def rec_of_def)

definition batch_view :: "(bytes \<rightharpoonup> bytes) \<Rightarrow> (bytes \<times> bytes) list \<Rightarrow> (bytes \<rightharpoonup> bytes)" where
  "batch_view m ps = fold (\<lambda>(k, b) m. m(k \<mapsto> b)) ps m"

lemma sled_read_alt:
  "sled_read db j key d =
     (case sl_get db d key of (Inl e, d1) \<Rightarrow> (Inl (sled_error e), d1) | (Inr v, d1) \<Rightarrow> (rec_of j v, d1))"
  by (auto simp: sled_read_def map_err_def io_bind_def rec_of_def split: prod.splits sum.splits option.splits)

lemma sled_write_alt:
  "sled_write db j key r d =
     (case to_vec j r of
        Inl e \<Rightarrow> (Inl (InvariantViolation (''serialization error: '' @ e)), d)
      | Inr b \<Rightarrow> (case sl_insert db d key b of (Inl e, d1) \<Rightarrow> (Inl (sled_error e), d1) | (Inr _, d1) \<Rightarrow> (Inr (), d1)))"
  by (auto simp: sled_write_def serialize_def map_err_def io_bind_def split: prod.splits sum.splits)

locale sled_db =
  fixes db :: "'d sled"
    and view :: "'d \<Rightarrow> bytes \<rightharpoonup> bytes"
  assumes get_ok: "sl_get db d k = (Inr v, d') \<Longrightarrow> v = view d k"
    and get_same: "view (snd (sl_get db d k)) = view d"
    and insert_ok: "sl_insert db d k b = (Inr old, d') \<Longrightarrow> old = view d k \<and> view d' = (view d)(k \<mapsto> b)"
    and insert_err: "sl_insert db d k b = (Inl e, d') \<Longrightarrow> view d' \<in> {view d, (view d)(k \<mapsto> b)}"
    and remove_ok: "sl_remove db d k = (Inr old, d') \<Longrightarrow> old = view d k \<and> view d' = (view d)(k := None)"
    and remove_err: "sl_remove db d k = (Inl e, d') \<Longrightarrow> view d' \<in> {view d, (view d)(k := None)}"
    and batch_ok: "sl_apply_batch db d ps = (Inr u, d') \<Longrightarrow> view d' = batch_view (view d) ps"
    and batch_err: "sl_apply_batch db d ps = (Inl e, d') \<Longrightarrow> view d' \<in> {view d, batch_view (view d) ps}"
    and scan_same: "view (snd (sl_scan_prefix db d p)) = view d"
    and scan_sound: "Inr (k, b) \<in> set (fst (sl_scan_prefix db d p)) \<Longrightarrow> prefix p k \<and> view d k = Some b"
    and scan_distinct: "distinct (map fst (List.map_filter (\<lambda>r. case r of Inl e \<Rightarrow> None | Inr x \<Rightarrow> Some x) (fst (sl_scan_prefix db d p))))"
    and scan_complete: "\<forall>r \<in> set (fst (sl_scan_prefix db d p)). is_ok r \<Longrightarrow> prefix p k \<Longrightarrow> view d k = Some b \<Longrightarrow>
      Inr (k, b) \<in> set (fst (sl_scan_prefix db d p))"
begin

lemma read_effect:
  assumes "sled_read db j key d = (res, d')"
  shows "view d' = view d \<and> (\<forall>v. res = Inr v \<longrightarrow> rec_of j (view d key) = Inr v)"
proof (cases "sl_get db d key")
  case (Pair r d1)
  then have same: "view d1 = view d" using get_same [of d key] by simp
  show ?thesis
  proof (cases r)
    case (Inl e)
    then show ?thesis using assms Pair same by (auto simp: sled_read_alt)
  next
    case (Inr v)
    then have "v = view d key" using Pair get_ok by blast
    moreover have "res = rec_of j v" "d' = d1" using assms Pair Inr by (simp_all add: sled_read_alt)
    ultimately show ?thesis using same by simp
  qed
qed

lemma write_effect:
  assumes "sled_write db j key r d = (res, d')"
  shows "\<not> is_ok res \<and> view d' = view d \<or> (\<exists>b. to_vec j r = Inr b \<and> view d' = (view d)(key \<mapsto> b))"
proof (cases "to_vec j r")
  case (Inl e)
  then show ?thesis using assms by (auto simp: sled_write_alt)
next
  case (Inr b)
  show ?thesis
  proof (cases "sl_insert db d key b")
    case (Pair q d1)
    show ?thesis
    proof (cases q)
      case (Inl e)
      have "view d1 = view d \<or> view d1 = (view d)(key \<mapsto> b)" using insert_err [of d key b e d1] Pair Inl by simp
      moreover have "res = Inl (sled_error e)" "d' = d1" using assms Inr Pair Inl by (simp_all add: sled_write_alt)
      ultimately show ?thesis using Inr by auto
    next
      case (Inr old)
      have "view d1 = (view d)(key \<mapsto> b)" using insert_ok [of d key b old d1] Pair Inr by simp
      moreover have "d' = d1" using assms \<open>to_vec j r = Inr b\<close> Pair Inr by (simp add: sled_write_alt)
      ultimately show ?thesis using \<open>to_vec j r = Inr b\<close> by simp
    qed
  qed
qed

lemma update_effect:
  assumes "sled_update db j key f d = (res, d')"
  shows "\<not> is_ok res \<and> view d' = view d \<or>
    (\<exists>v r a b. rec_of j (view d key) = Inr v \<and> f v = Inr (r, a) \<and> to_vec j r = Inr b \<and>
       view d' = (view d)(key \<mapsto> b) \<and> (is_ok res \<longrightarrow> res = Inr a))"
proof -
  obtain q d1 where r: "sled_read db j key d = (q, d1)" by force
  note read = read_effect [OF r]
  show ?thesis
  proof (cases q)
    case (Inr v)
    show ?thesis
    proof (cases "f v")
      case (Inr p)
      obtain x a where p: "p = (x, a)" by force
      obtain w d2 where w: "sled_write db j key x d1 = (w, d2)" by force
      have res: "d' = d2" "is_ok res \<longrightarrow> res = Inr a" "is_ok w \<longleftrightarrow> is_ok res"
        using assms r \<open>q = Inr v\<close> Inr p w by (cases w; auto simp: sled_update_def)+
      have v: "rec_of j (view d key) = Inr v" "view d1 = view d" using read \<open>q = Inr v\<close> by blast+
      show ?thesis
        using write_effect [OF w] unfolding v(2)
      proof (elim disjE exE)
        fix b assume "to_vec j x = Inr b \<and> view d2 = (view d)(key \<mapsto> b)"
        then show ?thesis using v(1) Inr p res by blast
      qed (use res in simp)
    qed (use assms r Inr read in \<open>auto simp: sled_update_def\<close>)
  qed (use assms r read in \<open>auto simp: sled_update_def\<close>)
qed

lemma create_effect:
  assumes "sled_create db j key taken r d = (res, d')"
  shows "view d' = view d \<and> (is_ok res \<longrightarrow> view d key \<noteq> None \<and> res = taken) \<or>
    (\<exists>b. view d key = None \<and> to_vec j r = Inr b \<and> view d' = (view d)(key \<mapsto> b))"
proof -
  obtain q d1 where g: "sl_get db d key = (q, d1)" by force
  then have v: "view d1 = view d" using get_same [of d key] by simp
  show ?thesis
  proof (cases q)
    case (Inr v)
    then have "v = view d key" using g get_ok by blast
    show ?thesis
    proof (cases v)
      case None
      then have "sled_write db j key r d1 = (res, d')"
        using assms g Inr by (simp add: sled_create_def map_err_def)
      from write_effect [OF this] show ?thesis using v None \<open>v = view d key\<close> by auto
    qed (use assms g Inr v \<open>v = view d key\<close> in \<open>auto simp: sled_create_def map_err_def\<close>)
  qed (use assms g v in \<open>auto simp: sled_create_def map_err_def\<close>)
qed

end

end
