(* ===== verification/Sled_Stores.thy ===== *)
theory Sled_Stores
  imports Sled
begin

unbundle bit_operations_syntax

text \<open>
  The eight stores over one \<open>sled\<close> database (\<open>persistent.rs\<close>): nonces, accounts,
  reservations, idempotency records, outputs, withdrawals, snapshots and membership. Every
  operation is a function of the database and its state. The first theorem: the stores do not
  interfere, since each writes under its own prefix only.
\<close>

section \<open>Nonces\<close>

definition nonce_key :: "string \<Rightarrow> bytes" where
  "nonce_key n = sled_key prefix_nonce n"

definition sled_is_consumed :: "'d sled \<Rightarrow> 'd \<Rightarrow> string \<Rightarrow> ('d, bool) mut_result" where
  "sled_is_consumed db d n =
     io_bind (map_err sled_error (sl_get db d (nonce_key n))) (\<lambda>v d1. (Inr (v \<noteq> None), d1))"

definition sled_mark_consumed :: "'d sled \<Rightarrow> 'd \<Rightarrow> string \<Rightarrow> ('d, unit) mut_result" where
  "sled_mark_consumed db d n =
     io_bind (map_err sled_error (sl_insert db d (nonce_key n) [])) (\<lambda>prev d1.
     if prev \<noteq> None then (Inl (AuthorizationInvalid (''nonce already consumed: '' @ n)), d1) else (Inr (), d1))"

definition sled_is_consumed_sync :: "'d sled \<Rightarrow> 'd \<Rightarrow> string \<Rightarrow> bool \<times> 'd" where
  "sled_is_consumed_sync db d n =
     (case sl_get db d (nonce_key n) of (Inl e, d1) \<Rightarrow> (False, d1) | (Inr v, d1) \<Rightarrow> (v \<noteq> None, d1))"

definition sled_mark_consumed_sync :: "'d sled \<Rightarrow> 'd \<Rightarrow> string \<Rightarrow> 'd" where
  "sled_mark_consumed_sync db d n = snd (sl_insert db d (nonce_key n) [])"

section \<open>Accounts\<close>

definition account_key :: "string \<Rightarrow> bytes" where
  "account_key i = sled_key prefix_account i"

definition sled_get_account :: "'d sled \<Rightarrow> account_state codec \<Rightarrow> 'd \<Rightarrow> string \<Rightarrow> ('d, account_state option) mut_result" where
  "sled_get_account db j d i = sled_read db j (account_key i) d"

text \<open>What \<open>apply_command\<close> does between reading and writing.\<close>

definition command_change :: "balance_command \<Rightarrow> account_state option \<Rightarrow> ledger_error + account_state \<times> account_state" where
  "command_change cmd v =
     res_bind (case v of
         Some a \<Rightarrow> Inr a
       | None \<Rightarrow> if bc_expected_version cmd \<noteq> 0
           then Inl (VersionConflict (bc_account_id cmd) (bc_expected_version cmd) 0)
           else Inr (account_new (bc_account_id cmd))) (\<lambda>a.
     if acc_version a \<noteq> bc_expected_version cmd
     then Inl (VersionConflict (bc_account_id cmd) (bc_expected_version cmd) (acc_version a))
     else (case apply_operation (bc_operation cmd) a (bc_amount_sats cmd) of
         (Inl e, _) \<Rightarrow> Inl e
       | (Inr _, a') \<Rightarrow> Inr (a', a')))"

definition sled_apply_command ::
    "'d sled \<Rightarrow> account_state codec \<Rightarrow> 'd \<Rightarrow> balance_command \<Rightarrow> ('d, account_state) mut_result" where
  "sled_apply_command db j d cmd = sled_update db j (account_key (bc_account_id cmd)) (command_change cmd) d"

text \<open>What \<open>apply_transfer\<close> does between reading and writing.\<close>

definition transfer_change ::
    "account_state codec \<Rightarrow> internal_transfer_command \<Rightarrow> bytes option \<Rightarrow> bytes option \<Rightarrow>
       (account_state \<times> account_state) ledger_result" where
  "transfer_change j cmd src_bytes dst_bytes =
     res_bind (case src_bytes of
         Some b \<Rightarrow> deserialize j b
       | None \<Rightarrow> Inl (AtomicTransferFailed (''source account '' @ [CHR 0x27] @ source_account_id cmd @ [CHR 0x27] @ '' not found''))) (\<lambda>src.
     res_bind (case dst_bytes of
         Some b \<Rightarrow> deserialize j b
       | None \<Rightarrow> Inl (AtomicTransferFailed (''destination account '' @ [CHR 0x27] @ destination_account_id cmd @ [CHR 0x27] @ '' not found''))) (\<lambda>dst.
     res_bind (check_version src (source_expected_version cmd)) (\<lambda>_.
     res_bind (check_version dst (destination_expected_version cmd)) (\<lambda>_.
     if spendable src < it_amount_sats cmd
     then Inl (InsufficientFunds (account_id src) (spendable src) (it_amount_sats cmd))
     else (case apply_debit src (it_amount_sats cmd) of
         (Inl e, _) \<Rightarrow> Inl e
       | (Inr _, src') \<Rightarrow> (case apply_credit dst (it_amount_sats cmd) of
           (Inl e, _) \<Rightarrow> Inl e
         | (Inr _, dst') \<Rightarrow> Inr (src', dst')))))))"

definition sled_apply_transfer ::
    "'d sled \<Rightarrow> account_state codec \<Rightarrow> 'd \<Rightarrow> internal_transfer_command \<Rightarrow> ('d, account_state \<times> account_state) mut_result" where
  "sled_apply_transfer db j d cmd =
     (let src_key = account_key (source_account_id cmd); dst_key = account_key (destination_account_id cmd) in
     io_bind (map_err sled_error (sl_get db d src_key)) (\<lambda>src_bytes d1.
     io_bind (map_err sled_error (sl_get db d1 dst_key)) (\<lambda>dst_bytes d2.
     (case transfer_change j cmd src_bytes dst_bytes of
        Inl e \<Rightarrow> (Inl e, d2)
      | Inr (src, dst) \<Rightarrow> (case serialize j src of
          Inl e \<Rightarrow> (Inl e, d2)
        | Inr b1 \<Rightarrow> (case serialize j dst of
            Inl e \<Rightarrow> (Inl e, d2)
          | Inr b2 \<Rightarrow> io_bind (map_err sled_batch_error (sl_apply_batch db d2 [(src_key, b1), (dst_key, b2)])) (\<lambda>_ d3.
              (Inr (src, dst), d3))))))))"

section \<open>Reservations\<close>

definition reservation_key :: "string \<Rightarrow> bytes" where
  "reservation_key i = sled_key prefix_reservation i"

definition sled_create_reservation :: "'d sled \<Rightarrow> reservation codec \<Rightarrow> 'd \<Rightarrow> reservation \<Rightarrow> ('d, unit) mut_result" where
  "sled_create_reservation db j d r =
     sled_create db j (reservation_key (reservation_id r))
       (Inl (InvariantViolation (''reservation '' @ [CHR 0x27] @ reservation_id r @ [CHR 0x27] @ '' already exists''))) r d"

definition sled_get_reservation :: "'d sled \<Rightarrow> reservation codec \<Rightarrow> 'd \<Rightarrow> string \<Rightarrow> ('d, reservation option) mut_result" where
  "sled_get_reservation db j d i = sled_read db j (reservation_key i) d"

definition sled_transition ::
    "'d sled \<Rightarrow> reservation codec \<Rightarrow> 'd \<Rightarrow> string \<Rightarrow> reservation_state \<Rightarrow> reservation_state \<Rightarrow> ('d, unit) mut_result" where
  "sled_transition db j d i from to =
     sled_update db j (reservation_key i) (\<lambda>v. case v of
         None \<Rightarrow> Inl (ReservationNotFound i)
       | Some r \<Rightarrow> if rs_state r \<noteq> from
           then Inl (InvariantViolation (''reservation '' @ [CHR 0x27] @ i @ [CHR 0x27] @ '' expected state '' @
                  reservation_state_debug from @ '', found '' @ reservation_state_debug (rs_state r)))
           else Inr (r\<lparr>rs_state := to\<rparr>, ())) d"

definition stale_entry :: "reservation codec \<Rightarrow> u64 \<Rightarrow> string + bytes \<times> bytes \<Rightarrow> (bytes \<times> reservation) option" where
  "stale_entry j current res =
     (case res of
        Inl e \<Rightarrow> None
      | Inr (key, b) \<Rightarrow> (case deserialize j b of
          Inl e \<Rightarrow> None
        | Inr r \<Rightarrow> if rs_expires_at_bucket r \<le> current \<and> \<not> reservation_is_terminal r then Some (key, r) else None))"

definition expire_entry :: "'d sled \<Rightarrow> reservation codec \<Rightarrow> bytes \<times> reservation \<Rightarrow> u64 \<times> 'd \<Rightarrow> u64 \<times> 'd" where
  "expire_entry db j = (\<lambda>(key, r) (n, d).
     (n + 1, case serialize j (r\<lparr>rs_state := RsExpired\<rparr>) of Inl e \<Rightarrow> d | Inr b \<Rightarrow> snd (sl_insert db d key b)))"

definition sled_expire_stale :: "'d sled \<Rightarrow> reservation codec \<Rightarrow> 'd \<Rightarrow> u64 \<Rightarrow> ('d, u64) mut_result" where
  "sled_expire_stale db j d current =
     (case sl_scan_prefix db d (str_bytes prefix_reservation) of (rs, d1) \<Rightarrow>
        (case fold (expire_entry db j) (List.map_filter (stale_entry j current) rs) (0, d1) of (n, d2) \<Rightarrow> (Inr n, d2)))"

section \<open>Idempotency records\<close>

definition idempotency_key :: "string \<Rightarrow> bytes" where
  "idempotency_key i = sled_key prefix_idempotency i"

definition sled_check ::
    "'d sled \<Rightarrow> idempotency_record codec \<Rightarrow> 'd \<Rightarrow> string \<Rightarrow> string \<Rightarrow> ('d, idempotency_record option) mut_result" where
  "sled_check db j d cmd_id cmd_hash =
     io_bind (sled_read db j (idempotency_key cmd_id) d) (\<lambda>v d1.
     (case v of
        None \<Rightarrow> (Inr None, d1)
      | Some r \<Rightarrow> if ir_command_hash r = cmd_hash then (Inr (Some r), d1)
          else (Inl (IdempotencyConflict cmd_id), d1)))"

definition sled_record :: "'d sled \<Rightarrow> idempotency_record codec \<Rightarrow> 'd \<Rightarrow> idempotency_record \<Rightarrow> ('d, unit) mut_result" where
  "sled_record db j d r = sled_write db j (idempotency_key (ir_command_id r)) r d"

section \<open>Outputs\<close>

definition utxo_key :: "string \<Rightarrow> bytes" where
  "utxo_key k = sled_key prefix_utxo k"

text \<open>The entries that a scan returns and that decode.\<close>

definition decoded :: "'r codec \<Rightarrow> (string + bytes \<times> bytes) list \<Rightarrow> 'r list" where
  "decoded j rs =
     List.map_filter (\<lambda>res. case res of
         Inl e \<Rightarrow> None
       | Inr (_, b) \<Rightarrow> (case deserialize j b of Inl e \<Rightarrow> None | Inr r \<Rightarrow> Some r)) rs"

definition list_all_entries :: "'d sled \<Rightarrow> utxo_entry codec \<Rightarrow> 'd \<Rightarrow> ('d, utxo_entry list) mut_result" where
  "list_all_entries db j d =
     (case sl_scan_prefix db d (str_bytes prefix_utxo) of (rs, d1) \<Rightarrow> (Inr (sort_key canonical_key (decoded j rs)), d1))"

definition sled_add_utxo :: "'d sled \<Rightarrow> utxo_entry codec \<Rightarrow> 'd \<Rightarrow> utxo_entry \<Rightarrow> ('d, unit) mut_result" where
  "sled_add_utxo db j d u = sled_create db j (utxo_key (canonical_key u)) (Inr ()) u d"

definition sled_get_utxo :: "'d sled \<Rightarrow> utxo_entry codec \<Rightarrow> 'd \<Rightarrow> outpoint \<Rightarrow> ('d, utxo_entry option) mut_result" where
  "sled_get_utxo db j d p = sled_read db j (utxo_key (to_canonical_string p)) d"

definition sled_list_by_state :: "'d sled \<Rightarrow> utxo_entry codec \<Rightarrow> 'd \<Rightarrow> onchain_state \<Rightarrow> ('d, utxo_entry list) mut_result" where
  "sled_list_by_state db j d s =
     io_bind (list_all_entries db j d) (\<lambda>es d1. (Inr (sort_key canonical_key (filter (\<lambda>e. ut_state e = s) es)), d1))"

definition sled_list_all :: "'d sled \<Rightarrow> utxo_entry codec \<Rightarrow> 'd \<Rightarrow> ('d, utxo_entry list) mut_result" where
  "sled_list_all db j d = list_all_entries db j d"

definition sled_update_state ::
    "'d sled \<Rightarrow> utxo_entry codec \<Rightarrow> 'd \<Rightarrow> outpoint \<Rightarrow> onchain_state \<Rightarrow> ('d, unit) mut_result" where
  "sled_update_state db j d p new_state =
     sled_update db j (utxo_key (to_canonical_string p)) (\<lambda>v. case v of
         None \<Rightarrow> Inl (UtxoNotFound (txid p) (vout p))
       | Some e \<Rightarrow> res_bind (validate_transition (ut_state e) new_state) (\<lambda>_. Inr (e\<lparr>ut_state := new_state\<rparr>, ()))) d"

definition sled_reserve ::
    "'d sled \<Rightarrow> utxo_entry codec \<Rightarrow> 'd \<Rightarrow> outpoint \<Rightarrow> string \<Rightarrow> u64 \<Rightarrow> ('d, unit) mut_result" where
  "sled_reserve db j d p by_id bucket =
     sled_update db j (utxo_key (to_canonical_string p)) (\<lambda>v. case v of
         None \<Rightarrow> Inl (UtxoNotFound (txid p) (vout p))
       | Some e \<Rightarrow>
           if ut_state e \<notin> {OcSpendable, OcFinalizedByPolicy} then Inl (InvalidUtxoTransition (ut_state e) (ut_state e))
           else (case reserved_by e of
               Some existing \<Rightarrow> Inl (UtxoAlreadyReserved existing)
             | None \<Rightarrow> Inr (e\<lparr>reserved_by := Some by_id, reserved_at_bucket := Some bucket\<rparr>, ()))) d"

definition sled_release :: "'d sled \<Rightarrow> utxo_entry codec \<Rightarrow> 'd \<Rightarrow> outpoint \<Rightarrow> ('d, unit) mut_result" where
  "sled_release db j d p =
     sled_update db j (utxo_key (to_canonical_string p)) (\<lambda>v. case v of
         None \<Rightarrow> Inl (UtxoNotFound (txid p) (vout p))
       | Some e \<Rightarrow> if reserved_by e = None then Inl UtxoNotReserved
           else Inr (e\<lparr>reserved_by := None, reserved_at_bucket := None\<rparr>, ())) d"

definition sled_compute_utxo_root_hash :: "'d sled \<Rightarrow> crypto \<Rightarrow> utxo_entry codec \<Rightarrow> 'd \<Rightarrow> ('d, string) mut_result" where
  "sled_compute_utxo_root_hash db c j d =
     io_bind (list_all_entries db j d) (\<lambda>es d1. (Inr (compute_utxo_root c es), d1))"

section \<open>Withdrawals\<close>

definition withdrawal_key :: "string \<Rightarrow> bytes" where
  "withdrawal_key i = sled_key prefix_withdrawal i"

definition sled_wd_create :: "'d sled \<Rightarrow> withdrawal_record codec \<Rightarrow> 'd \<Rightarrow> withdrawal_record \<Rightarrow> ('d, unit) mut_result" where
  "sled_wd_create db j d w =
     sled_create db j (withdrawal_key (withdrawal_id w)) (Inl (DuplicateEntryId (withdrawal_id w))) w d"

definition sled_wd_get :: "'d sled \<Rightarrow> withdrawal_record codec \<Rightarrow> 'd \<Rightarrow> string \<Rightarrow> ('d, withdrawal_record option) mut_result" where
  "sled_wd_get db j d wid = sled_read db j (withdrawal_key wid) d"

definition sled_update_status ::
    "'d sled \<Rightarrow> withdrawal_record codec \<Rightarrow> 'd \<Rightarrow> string \<Rightarrow> withdrawal_status \<Rightarrow> u64 \<Rightarrow> ('d, unit) mut_result" where
  "sled_update_status db j d wid status bucket =
     sled_update db j (withdrawal_key wid) (\<lambda>v. case v of
         None \<Rightarrow> Inl (WithdrawalNotFound wid)
       | Some r \<Rightarrow> if \<not> can_transition_to (wd_status r) status
           then Inl (InvalidStateTransition (''cannot transition withdrawal '' @ wid @ '' from '' @
                  withdrawal_status_debug (wd_status r) @ '' to '' @ withdrawal_status_debug status))
           else Inr (r\<lparr>wd_status := status, wd_updated_at_bucket := bucket\<rparr>, ())) d"

definition sled_set_authorization ::
    "'d sled \<Rightarrow> withdrawal_record codec \<Rightarrow> 'd \<Rightarrow> string \<Rightarrow> settlement_authorization \<Rightarrow> ('d, unit) mut_result" where
  "sled_set_authorization db j d wid auth =
     sled_update db j (withdrawal_key wid) (\<lambda>v. case v of
         None \<Rightarrow> Inl (WithdrawalNotFound wid)
       | Some r \<Rightarrow> if wd_status r \<noteq> WdReserved
           then Inl (InvalidStateTransition (''cannot set authorization on withdrawal '' @ wid @ '' in state '' @
                  withdrawal_status_debug (wd_status r) @ '' (must be Reserved)''))
           else Inr (r\<lparr>authorization := Some auth, wd_status := WdAuthorized\<rparr>, ())) d"

definition sled_set_psbt ::
    "'d sled \<Rightarrow> withdrawal_record codec \<Rightarrow> 'd \<Rightarrow> string \<Rightarrow> psbt_commitment \<Rightarrow> ('d, unit) mut_result" where
  "sled_set_psbt db j d wid commitment =
     sled_update db j (withdrawal_key wid) (\<lambda>v. case v of
         None \<Rightarrow> Inl (WithdrawalNotFound wid)
       | Some r \<Rightarrow> Inr (r\<lparr>wd_psbt_commitment := Some commitment\<rparr>, ())) d"

definition sled_set_broadcast_txid ::
    "'d sled \<Rightarrow> withdrawal_record codec \<Rightarrow> 'd \<Rightarrow> string \<Rightarrow> string \<Rightarrow> ('d, unit) mut_result" where
  "sled_set_broadcast_txid db j d wid tx =
     sled_update db j (withdrawal_key wid) (\<lambda>v. case v of
         None \<Rightarrow> Inl (WithdrawalNotFound wid)
       | Some r \<Rightarrow> if broadcast_txid r \<noteq> None
           then Inl (InvalidStateTransition (''withdrawal '' @ wid @ '' already has broadcast txid '' @
                  option_debug (broadcast_txid r)))
           else Inr (r\<lparr>broadcast_txid := Some tx\<rparr>, ())) d"

section \<open>Snapshots\<close>

text \<open>\<open>u64::from_le_bytes\<close> of a slice, which must have eight bytes.\<close>

definition from_le_bytes :: "bytes \<Rightarrow> u64 option" where
  "from_le_bytes bs = (if length bs = 8 then Some (foldr (\<lambda>b acc. push_bit 8 acc OR ucast b) bs 0) else None)"

definition sled_save_snapshot ::
    "'d sled \<Rightarrow> crypto \<Rightarrow> certified_snapshot codec \<Rightarrow> 'd \<Rightarrow> certified_snapshot \<Rightarrow> ('d, unit) mut_result" where
  "sled_save_snapshot db c j d k =
     (case cs_verify_basic c k of
        Inl e \<Rightarrow> (Inl e, d)
      | Inr _ \<Rightarrow> (case serialize j k of
          Inl e \<Rightarrow> (Inl e, d)
        | Inr b \<Rightarrow> map_err sled_error (sl_apply_batch db d
            [(snapshot_key (cs_sequence k), b), (key_latest_snapshot, u64_le (cs_sequence k))])))"

definition sled_get_snapshot :: "'d sled \<Rightarrow> certified_snapshot codec \<Rightarrow> 'd \<Rightarrow> u64 \<Rightarrow> ('d, certified_snapshot option) mut_result" where
  "sled_get_snapshot db j d n = sled_read db j (snapshot_key n) d"

definition sled_latest_snapshot :: "'d sled \<Rightarrow> certified_snapshot codec \<Rightarrow> 'd \<Rightarrow> ('d, certified_snapshot option) mut_result" where
  "sled_latest_snapshot db j d =
     io_bind (map_err sled_error (sl_get db d key_latest_snapshot)) (\<lambda>v d1.
     (case v of
        None \<Rightarrow> (Inr None, d1)
      | Some b \<Rightarrow> (case from_le_bytes b of
          None \<Rightarrow> (Inl (InvariantViolation ''invalid latest sequence''), d1)
        | Some n \<Rightarrow> sled_get_snapshot db j d1 n)))"

definition sled_install_snapshot ::
    "crypto \<Rightarrow> (bytes \<Rightarrow> string + ledger_state) \<Rightarrow> certified_snapshot \<Rightarrow> ledger_state ledger_result" where
  "sled_install_snapshot c parse_state k =
     res_bind (cs_verify_basic c k) (\<lambda>_.
     res_bind (case parse_state (state_bytes k) of
                 Inl e \<Rightarrow> Inl (InvalidSignature (''failed to deserialize snapshot state: '' @ e))
               | Inr s \<Rightarrow> Inr s) (\<lambda>s.
     if compute_state_root c s \<noteq> cs_state_root k then Inl (StateRootMismatch (compute_state_root c s) (cs_state_root k))
     else Inr s))"

section \<open>Membership\<close>

definition member_key :: "string \<Rightarrow> bytes" where
  "member_key i = sled_key prefix_membership i"

definition list_all_nodes :: "'d sled \<Rightarrow> node_membership codec \<Rightarrow> 'd \<Rightarrow> ('d, node_membership list) mut_result" where
  "list_all_nodes db j d =
     (case sl_scan_prefix db d (str_bytes prefix_membership) of (rs, d1) \<Rightarrow> (Inr (sort_key nm_node_id (decoded j rs)), d1))"

definition sled_add_node :: "'d sled \<Rightarrow> node_membership codec \<Rightarrow> 'd \<Rightarrow> node_membership \<Rightarrow> ('d, unit) mut_result" where
  "sled_add_node db j d n =
     sled_create db j (member_key (nm_node_id n))
       (Inl (InvariantViolation (''node '' @ [CHR 0x27] @ nm_node_id n @ [CHR 0x27] @ '' already exists in membership''))) n d"

definition sled_get_node :: "'d sled \<Rightarrow> node_membership codec \<Rightarrow> 'd \<Rightarrow> string \<Rightarrow> ('d, node_membership option) mut_result" where
  "sled_get_node db j d i = sled_read db j (member_key i) d"

definition sled_list_by_role :: "'d sled \<Rightarrow> node_membership codec \<Rightarrow> 'd \<Rightarrow> node_role \<Rightarrow> ('d, node_membership list) mut_result" where
  "sled_list_by_role db j d role =
     io_bind (list_all_nodes db j d) (\<lambda>ns d1. (Inr (sort_key nm_node_id (filter (\<lambda>n. nm_role n = role) ns)), d1))"

definition sled_promote :: "'d sled \<Rightarrow> node_membership codec \<Rightarrow> 'd \<Rightarrow> string \<Rightarrow> node_role \<Rightarrow> ('d, unit) mut_result" where
  "sled_promote db j d i target =
     sled_update db j (member_key i) (\<lambda>v. case v of
         None \<Rightarrow> Inl (NodeNotFound i)
       | Some n \<Rightarrow> res_bind (validate_role_transition (nm_role n) target) (\<lambda>_. Inr (n\<lparr>nm_role := target\<rparr>, ()))) d"

definition sled_remove_node :: "'d sled \<Rightarrow> 'd \<Rightarrow> string \<Rightarrow> ('d, unit) mut_result" where
  "sled_remove_node db d i = io_bind (map_err sled_error (sl_remove db d (member_key i))) (\<lambda>_ d1. (Inr (), d1))"

definition sled_update_heartbeat :: "'d sled \<Rightarrow> node_membership codec \<Rightarrow> 'd \<Rightarrow> string \<Rightarrow> u64 \<Rightarrow> ('d, unit) mut_result" where
  "sled_update_heartbeat db j d i bucket =
     sled_update db j (member_key i) (\<lambda>v. case v of
         None \<Rightarrow> Inl (NodeNotFound i)
       | Some n \<Rightarrow> Inr (n\<lparr>last_heartbeat_bucket := bucket\<rparr>, ())) d"

section \<open>The stores do not interfere\<close>

datatype store_name = Nonces | Accounts | Reservations | Idempotency | Utxos | Withdrawals | Snapshots | Members

fun store_prefix :: "store_name \<Rightarrow> string" where
  "store_prefix Nonces = prefix_nonce"
| "store_prefix Accounts = prefix_account"
| "store_prefix Reservations = prefix_reservation"
| "store_prefix Idempotency = prefix_idempotency"
| "store_prefix Utxos = prefix_utxo"
| "store_prefix Withdrawals = prefix_withdrawal"
| "store_prefix Snapshots = prefix_snapshot"
| "store_prefix Members = prefix_membership"

definition in_store :: "store_name \<Rightarrow> bytes \<Rightarrow> bool" where
  "in_store s key \<longleftrightarrow> prefix (str_bytes (store_prefix s)) key"

lemmas store_prefix_defs = prefix_nonce_def prefix_account_def prefix_reservation_def prefix_idempotency_def
  prefix_utxo_def prefix_withdrawal_def prefix_snapshot_def prefix_membership_def

lemma stores_disjoint: "in_store s key \<Longrightarrow> in_store t key \<Longrightarrow> s = t"
proof -
  assume "in_store s key" "in_store t key"
  moreover have "store_prefix u \<noteq> []" for u by (cases u) (simp_all add: store_prefix_defs)
  ultimately have "(of_char (hd (store_prefix s)) :: u8) = of_char (hd (store_prefix t))"
    by (cases "store_prefix s"; cases "store_prefix t") (auto simp: in_store_def str_bytes_def prefix_def)
  then show "s = t"
    unfolding of_char_inj by (cases s; cases t) (simp_all add: store_prefix_defs)
qed

lemma store_keys [simp]:
  "in_store Nonces (nonce_key n)" "in_store Accounts (account_key i)" "in_store Reservations (reservation_key r)"
  "in_store Idempotency (idempotency_key i)" "in_store Utxos (utxo_key k)" "in_store Withdrawals (withdrawal_key i)"
  "in_store Snapshots (snapshot_key q)" "in_store Snapshots key_latest_snapshot" "in_store Members (member_key i)"
  by (simp_all add: in_store_def nonce_key_def account_key_def reservation_key_def idempotency_key_def utxo_key_def
      withdrawal_key_def snapshot_key_def member_key_def sled_key_def)
    (simp add: key_latest_snapshot_def prefix_snapshot_def str_bytes_def)

record ledger_codecs =
  jc_account :: "account_state codec"
  jc_reservation :: "reservation codec"
  jc_idempotency :: "idempotency_record codec"
  jc_utxo :: "utxo_entry codec"
  jc_withdrawal :: "withdrawal_record codec"
  jc_snapshot :: "certified_snapshot codec"
  jc_node :: "node_membership codec"

datatype sled_call =
    ScNonce nonce_op
  | ScCommand balance_command
  | ScTransfer internal_transfer_command
  | ScCreateReservation reservation
  | ScTransition string reservation_state reservation_state
  | ScExpireStale u64
  | ScRecord idempotency_record
  | ScAddUtxo utxo_entry
  | ScUpdateState outpoint onchain_state
  | ScReserve outpoint string u64
  | ScRelease outpoint
  | ScWithdrawal withdrawal_call
  | ScSaveSnapshot certified_snapshot
  | ScRole role_call

fun store_of :: "sled_call \<Rightarrow> store_name" where
  "store_of (ScNonce _) = Nonces"
| "store_of (ScCommand _) = Accounts"
| "store_of (ScTransfer _) = Accounts"
| "store_of (ScCreateReservation _) = Reservations"
| "store_of (ScTransition _ _ _) = Reservations"
| "store_of (ScExpireStale _) = Reservations"
| "store_of (ScRecord _) = Idempotency"
| "store_of (ScAddUtxo _) = Utxos"
| "store_of (ScUpdateState _ _) = Utxos"
| "store_of (ScReserve _ _ _) = Utxos"
| "store_of (ScRelease _) = Utxos"
| "store_of (ScWithdrawal _) = Withdrawals"
| "store_of (ScSaveSnapshot _) = Snapshots"
| "store_of (ScRole _) = Members"

fun sled_nonce_call :: "'d sled \<Rightarrow> 'd \<Rightarrow> nonce_op \<Rightarrow> 'd" where
  "sled_nonce_call db d (MarkConsumed n) = snd (sled_mark_consumed db d n)"
| "sled_nonce_call db d (MarkConsumedSync n) = sled_mark_consumed_sync db d n"

fun sled_wd_call :: "'d sled \<Rightarrow> withdrawal_record codec \<Rightarrow> 'd \<Rightarrow> withdrawal_call \<Rightarrow> ('d, unit) mut_result" where
  "sled_wd_call db j d (WdCreate w) = sled_wd_create db j d w"
| "sled_wd_call db j d (WdUpdateStatus wid s b) = sled_update_status db j d wid s b"
| "sled_wd_call db j d (WdSetAuthorization wid a) = sled_set_authorization db j d wid a"
| "sled_wd_call db j d (WdSetPsbt wid p) = sled_set_psbt db j d wid p"
| "sled_wd_call db j d (WdSetBroadcastTxid wid tx) = sled_set_broadcast_txid db j d wid tx"

fun sled_role_call :: "'d sled \<Rightarrow> node_membership codec \<Rightarrow> 'd \<Rightarrow> role_call \<Rightarrow> ('d, unit) mut_result" where
  "sled_role_call db j d (RcAdd n) = sled_add_node db j d n"
| "sled_role_call db j d (RcPromote i r) = sled_promote db j d i r"
| "sled_role_call db j d (RcRemove i) = sled_remove_node db d i"
| "sled_role_call db j d (RcHeartbeat i b) = sled_update_heartbeat db j d i b"

fun sled_step :: "'d sled \<Rightarrow> crypto \<Rightarrow> ledger_codecs \<Rightarrow> 'd \<Rightarrow> sled_call \<Rightarrow> 'd" where
  "sled_step db c js d (ScNonce k) = sled_nonce_call db d k"
| "sled_step db c js d (ScCommand k) = snd (sled_apply_command db (jc_account js) d k)"
| "sled_step db c js d (ScTransfer k) = snd (sled_apply_transfer db (jc_account js) d k)"
| "sled_step db c js d (ScCreateReservation r) = snd (sled_create_reservation db (jc_reservation js) d r)"
| "sled_step db c js d (ScTransition i from to) = snd (sled_transition db (jc_reservation js) d i from to)"
| "sled_step db c js d (ScExpireStale b) = snd (sled_expire_stale db (jc_reservation js) d b)"
| "sled_step db c js d (ScRecord r) = snd (sled_record db (jc_idempotency js) d r)"
| "sled_step db c js d (ScAddUtxo u) = snd (sled_add_utxo db (jc_utxo js) d u)"
| "sled_step db c js d (ScUpdateState p s) = snd (sled_update_state db (jc_utxo js) d p s)"
| "sled_step db c js d (ScReserve p i b) = snd (sled_reserve db (jc_utxo js) d p i b)"
| "sled_step db c js d (ScRelease p) = snd (sled_release db (jc_utxo js) d p)"
| "sled_step db c js d (ScWithdrawal k) = snd (sled_wd_call db (jc_withdrawal js) d k)"
| "sled_step db c js d (ScSaveSnapshot k) = snd (sled_save_snapshot db c (jc_snapshot js) d k)"
| "sled_step db c js d (ScRole k) = snd (sled_role_call db (jc_node js) d k)"

definition sled_run :: "'d sled \<Rightarrow> crypto \<Rightarrow> ledger_codecs \<Rightarrow> 'd \<Rightarrow> sled_call list \<Rightarrow> 'd" where
  "sled_run db c js d ks = fold (\<lambda>k d. sled_step db c js d k) ks d"

lemmas sled_store_defs = sled_apply_command_def sled_create_reservation_def sled_transition_def sled_record_def
  sled_add_utxo_def sled_update_state_def sled_reserve_def sled_release_def sled_wd_create_def
  sled_update_status_def sled_set_authorization_def sled_set_psbt_def sled_set_broadcast_txid_def
  sled_add_node_def sled_promote_def sled_update_heartbeat_def

lemma in_map_filter: "y \<in> set (List.map_filter f xs) \<longleftrightarrow> (\<exists>x \<in> set xs. f x = Some y)"
  by (force simp: List.map_filter_def)

lemma stale_entry_Some:
  "stale_entry j current res = Some (key, r) \<longleftrightarrow>
     (\<exists>b. res = Inr (key, b) \<and> deserialize j b = Inr r \<and> rs_expires_at_bucket r \<le> current \<and> \<not> reservation_is_terminal r)"
  by (cases res) (auto simp: stale_entry_def split: sum.splits if_splits)

lemma map_err_io_snd [simp]: "snd (map_err f r) = snd r"
  by (cases r; cases "fst r") (auto simp: map_err_def)

context sled_db
begin

lemma insert_frame: "k \<noteq> key \<Longrightarrow> view (snd (sl_insert db d key b)) k = view d k"
proof (cases "sl_insert db d key b")
  case (Pair r d')
  moreover assume "k \<noteq> key"
  ultimately show ?thesis
    using insert_ok [of d key b _ d'] insert_err [of d key b _ d'] by (cases r) fastforce+
qed

lemma remove_frame: "k \<noteq> key \<Longrightarrow> view (snd (sl_remove db d key)) k = view d k"
proof (cases "sl_remove db d key")
  case (Pair r d')
  moreover assume "k \<noteq> key"
  ultimately show ?thesis
    using remove_ok [of d key _ d'] remove_err [of d key _ d'] by (cases r) fastforce+
qed

lemma batch_frame: "k \<notin> fst ` set ps \<Longrightarrow> view (snd (sl_apply_batch db d ps)) k = view d k"
proof (cases "sl_apply_batch db d ps")
  case (Pair r d')
  have "k \<notin> fst ` set ps \<Longrightarrow> batch_view m ps k = m k" for m
    unfolding batch_view_def by (induction ps arbitrary: m) auto
  moreover assume "k \<notin> fst ` set ps"
  moreover have "view d' = view d \<or> view d' = batch_view (view d) ps"
    using Pair batch_ok [of d ps _ d'] batch_err [of d ps _ d'] by (cases r) fastforce+
  ultimately show ?thesis using Pair by auto
qed

lemma write_frame: "k \<noteq> key \<Longrightarrow> view (snd (sled_write db j key r d)) k = view d k"
  using write_effect [of j key r d] by (cases "sled_write db j key r d") fastforce

lemma update_frame: "k \<noteq> key \<Longrightarrow> view (snd (sled_update db j key f d)) k = view d k"
  using update_effect [of j key f d] by (cases "sled_update db j key f d") fastforce

lemma create_frame: "k \<noteq> key \<Longrightarrow> view (snd (sled_create db j key taken r d)) k = view d k"
  using create_effect [of j key taken r d] by (cases "sled_create db j key taken r d") fastforce

lemma io_bind_frame:
  assumes "view (snd r) k = view d k" and "\<And>x d1. view d1 k = view d k \<Longrightarrow> view (snd (f x d1)) k = view d k"
  shows "view (snd (io_bind r f)) k = view d k"
  using assms by (cases r; cases "fst r") (auto simp: io_bind_def)

lemma transfer_frame:
  assumes "k \<noteq> account_key (source_account_id cmd)" and "k \<noteq> account_key (destination_account_id cmd)"
  shows "view (snd (sled_apply_transfer db j d cmd)) k = view d k"
proof -
  let ?put = "\<lambda>b1 b2 d. io_bind (map_err sled_batch_error (sl_apply_batch db d
      [(account_key (source_account_id cmd), b1), (account_key (destination_account_id cmd), b2)]))"
  have "view (snd (?put b1 b2 d2 (\<lambda>_ d3. (Inr (a :: account_state, b :: account_state), d3)))) k = view d k"
    if "view d2 k = view d k" for b1 b2 d2 a b
    by (rule io_bind_frame) (use that assms in \<open>simp_all add: batch_frame\<close>)
  then show ?thesis
    unfolding sled_apply_transfer_def Let_def
    by (intro io_bind_frame) (simp_all add: get_same split: sum.split prod.split)
qed

lemma expire_frame: "\<not> in_store Reservations k \<Longrightarrow> view (snd (sled_expire_stale db j d b)) k = view d k"
proof -
  assume k: "\<not> in_store Reservations k"
  obtain rs d1 where s: "sl_scan_prefix db d (str_bytes prefix_reservation) = (rs, d1)" by force
  have same: "view d1 k = view d k" using scan_same [of d "str_bytes prefix_reservation"] s by simp
  have keys: "in_store Reservations key" if "(key, r) \<in> set (List.map_filter (stale_entry j b) rs)" for key r
  proof -
    from that obtain v where "Inr (key, v) \<in> set rs"
      by (auto simp: in_map_filter stale_entry_Some)
    then show ?thesis using scan_sound [of key v d "str_bytes prefix_reservation"] s by (simp add: in_store_def)
  qed
  have "\<forall>(key, r) \<in> set es. in_store Reservations key \<Longrightarrow>
      view (snd (fold (expire_entry db j) es (n, d2))) k = view d2 k" for es n d2
  proof (induction es arbitrary: n d2)
    case (Cons e es)
    obtain key r where e: "e = (key, r)" by force
    then have "k \<noteq> key" using Cons.prems k by auto
    then show ?case
      using Cons.IH Cons.prems insert_frame [of k key] e by (auto simp: expire_entry_def split: sum.splits)
  qed simp
  from this [of "List.map_filter (stale_entry j b) rs" 0 d1]
  have "view (snd (fold (expire_entry db j) (List.map_filter (stale_entry j b) rs) (0, d1))) k = view d1 k"
    using keys by blast
  then show ?thesis using s same by (auto simp: sled_expire_stale_def split: prod.splits)
qed

lemma step_frame:
  assumes "\<not> in_store (store_of call) k"
  shows "view (sled_step db c js d call) k = view d k"
proof (cases call)
  case (ScNonce op)
  then have "k \<noteq> nonce_key (nonce_of op)" using assms by auto
  then have "view (snd (sl_insert db d (nonce_key (nonce_of op)) [])) k = view d k" by (rule insert_frame)
  then have "view (sled_mark_consumed_sync db d (nonce_of op)) k = view d k"
      "view (snd (sled_mark_consumed db d (nonce_of op))) k = view d k"
    unfolding sled_mark_consumed_def sled_mark_consumed_sync_def by (simp, intro io_bind_frame) simp_all
  then show ?thesis using ScNonce by (cases op) simp_all
next
  case (ScWithdrawal w)
  then have "k \<noteq> withdrawal_key i" for i using assms by auto
  then show ?thesis using ScWithdrawal by (cases w) (simp_all add: sled_store_defs update_frame create_frame)
next
  case (ScRole r)
  then have k: "k \<noteq> member_key i" for i using assms by auto
  then have "view (snd (sled_remove_node db d i)) k = view d k" for i
    unfolding sled_remove_node_def by (intro io_bind_frame) (simp_all add: remove_frame)
  then show ?thesis using ScRole k by (cases r) (simp_all add: sled_store_defs update_frame create_frame)
next
  case (ScSaveSnapshot s)
  then have "k \<noteq> snapshot_key q" "k \<noteq> key_latest_snapshot" for q using assms by auto
  then show ?thesis using ScSaveSnapshot
    by (auto simp: sled_save_snapshot_def batch_frame split: sum.splits)
next
  case (ScTransfer t)
  then have "k \<noteq> account_key i" for i using assms by auto
  then show ?thesis using ScTransfer by (simp add: transfer_frame)
qed (use assms in \<open>auto simp: sled_store_defs expire_frame intro!: update_frame create_frame write_frame\<close>)

end

end
