(* ===== verification/Sled_Refinement.thy ===== *)
theory Sled_Refinement
  imports Sled_Stores
begin

text \<open>
  The persistent stores keep the contracts of their ports, whatever calls of the database fail:
  the locales of the ports are interpreted on them, inside the locale \<open>sled_ledger\<close> of a
  database with its codecs. That locale is interpreted on a simulated database with a schedule of
  failures, so its assumptions can be met. What the ports do not promise is shown too: a
  read-modify-write is not one step when tasks run concurrently.
\<close>

section \<open>A database with its codecs\<close>

locale sled_ledger = sled_db db view
  for db :: "'d sled" and view :: "'d \<Rightarrow> bytes \<rightharpoonup> bytes" +
  fixes js :: ledger_codecs
  assumes account_codec: "codec_ok (jc_account js)"
    and reservation_codec: "codec_ok (jc_reservation js)"
    and idempotency_codec: "codec_ok (jc_idempotency js)"
    and utxo_codec: "codec_ok (jc_utxo js)"
    and withdrawal_codec: "codec_ok (jc_withdrawal js)"
    and snapshot_codec: "codec_ok (jc_snapshot js)"
    and node_codec: "codec_ok (jc_node js)"

text \<open>What a store holds under a key.\<close>

definition nonce_consumed :: "('d \<Rightarrow> bytes \<rightharpoonup> bytes) \<Rightarrow> 'd \<Rightarrow> string \<Rightarrow> bool" where
  "nonce_consumed view d n \<longleftrightarrow> view d (nonce_key n) \<noteq> None"

definition account_in :: "('d \<Rightarrow> bytes \<rightharpoonup> bytes) \<Rightarrow> ledger_codecs \<Rightarrow> 'd \<Rightarrow> string \<Rightarrow> account_state option" where
  "account_in view js d i = record_in (jc_account js) (view d (account_key i))"

definition withdrawal_in :: "('d \<Rightarrow> bytes \<rightharpoonup> bytes) \<Rightarrow> ledger_codecs \<Rightarrow> 'd \<Rightarrow> string \<Rightarrow> withdrawal_record option" where
  "withdrawal_in view js d i = record_in (jc_withdrawal js) (view d (withdrawal_key i))"

definition utxo_in :: "('d \<Rightarrow> bytes \<rightharpoonup> bytes) \<Rightarrow> ledger_codecs \<Rightarrow> 'd \<Rightarrow> outpoint \<Rightarrow> utxo_entry option" where
  "utxo_in view js d p = record_in (jc_utxo js) (view d (utxo_key (to_canonical_string p)))"

lemmas store_views = nonce_consumed_def account_in_def withdrawal_in_def utxo_in_def

lemma key_injects [simp]:
  "nonce_key m = nonce_key n \<longleftrightarrow> m = n" "account_key i = account_key k \<longleftrightarrow> i = k"
  "withdrawal_key i = withdrawal_key k \<longleftrightarrow> i = k" "utxo_key a = utxo_key b \<longleftrightarrow> a = b"
  by (simp_all add: nonce_key_def account_key_def withdrawal_key_def utxo_key_def)

section \<open>Nonces\<close>

context sled_db
begin

lemma mark_consumed_effect:
  assumes "sled_mark_consumed db d n = (r, d')"
  shows "view d' \<in> {view d, (view d)(nonce_key n \<mapsto> [])} \<and>
    (is_ok r \<longrightarrow> view d (nonce_key n) = None \<and> view d' = (view d)(nonce_key n \<mapsto> []))"
proof (cases "sl_insert db d (nonce_key n) []")
  case (Pair q d1)
  show ?thesis
  proof (cases q)
    case (Inl e)
    then show ?thesis
      using assms Pair insert_err [of d "nonce_key n" "[]" e d1] by (auto simp: sled_mark_consumed_def map_err_def)
  next
    case (Inr old)
    then have "old = view d (nonce_key n)" "view d1 = (view d)(nonce_key n \<mapsto> [])"
      using Pair insert_ok by blast+
    moreover have "d' = d1" "is_ok r \<longrightarrow> old = None"
      using assms Pair Inr by (auto simp: sled_mark_consumed_def map_err_def split: if_splits)
    ultimately show ?thesis by simp
  qed
qed

lemma mark_sync_effect: "view (sled_mark_consumed_sync db d n) \<in> {view d, (view d)(nonce_key n \<mapsto> [])}"
proof (cases "sl_insert db d (nonce_key n) []")
  case (Pair q d1)
  show ?thesis
  proof (cases q)
    case (Inl e)
    then show ?thesis using Pair insert_err [of d "nonce_key n" "[]" e d1] by (simp add: sled_mark_consumed_sync_def)
  next
    case (Inr old)
    then show ?thesis using Pair insert_ok [of d "nonce_key n" "[]" old d1] by (simp add: sled_mark_consumed_sync_def)
  qed
qed

end

sublocale sled_db \<subseteq> nonces: nonce_guard "nonce_consumed view" "sled_mark_consumed db" "sled_mark_consumed_sync db"
proof
  fix d n u d'
  assume "sled_mark_consumed db d n = (Inr u, d')"
  then show "\<not> nonce_consumed view d n \<and> nonce_consumed view d' n"
    using mark_consumed_effect by (fastforce simp: nonce_consumed_def)
next
  fix d m n
  assume "nonce_consumed view d m"
  then show "nonce_consumed view (snd (sled_mark_consumed db d n)) m"
    using mark_consumed_effect [of d n] by (cases "sled_mark_consumed db d n") (fastforce simp: nonce_consumed_def)
next
  fix d m n
  assume "nonce_consumed view d m"
  then show "nonce_consumed view (sled_mark_consumed_sync db d n) m"
    using mark_sync_effect [of d n] by (fastforce simp: nonce_consumed_def)
qed

section \<open>Accounts\<close>

lemma command_change_ok:
  assumes "command_change cmd v = Inr (r, a)"
  shows "r = a \<and> bc_expected_version cmd = (case v of None \<Rightarrow> 0 | Some x \<Rightarrow> acc_version x) \<and>
    apply_operation (bc_operation cmd) (case v of None \<Rightarrow> account_new (bc_account_id cmd) | Some x \<Rightarrow> x) (bc_amount_sats cmd) = (Inr (), a)"
  using assms
  by (cases v) (auto simp: command_change_def account_new_def split: if_splits sum.splits prod.splits)

context sled_ledger
begin

lemma command_effect:
  assumes "sled_apply_command db (jc_account js) d cmd = (res, d')"
  shows "view d' = view d \<and> \<not> is_ok res \<or>
    (\<exists>a. account_in view js d' = (account_in view js d)(bc_account_id cmd \<mapsto> a) \<and> (is_ok res \<longrightarrow> res = Inr a) \<and>
       bc_expected_version cmd = version_in (account_in view js) d (bc_account_id cmd) \<and>
       apply_operation (bc_operation cmd) (account_or_new (account_in view js) d (bc_account_id cmd)) (bc_amount_sats cmd) = (Inr (), a))"
proof -
  let ?j = "jc_account js" and ?key = "account_key (bc_account_id cmd)"
  from update_effect [OF assms [unfolded sled_apply_command_def]] show ?thesis
  proof (elim disjE exE conjE)
    fix v r a b
    assume v: "rec_of ?j (view d ?key) = Inr v" and f: "command_change cmd v = Inr (r, a)"
      and b: "to_vec ?j r = Inr b" and d': "view d' = (view d)(?key \<mapsto> b)" and res: "is_ok res \<longrightarrow> res = Inr a"
    note c = command_change_ok [OF f]
    have get: "account_in view js d (bc_account_id cmd) = v"
      using v by (simp add: account_in_def record_in_def)
    have "account_in view js d' = (account_in view js d)(bc_account_id cmd \<mapsto> a)"
      using record_in_written [OF account_codec b] c d' by (auto simp: account_in_def)
    with c get res show ?thesis by (auto simp: version_in_def account_or_new_def)
  qed simp
qed

end

sublocale sled_ledger \<subseteq> accounts: optimistic_store "account_in view js" "sled_apply_command db (jc_account js)" "\<lambda>_. True"
proof
  fix d cmd a d'
  assume "sled_apply_command db (jc_account js) d cmd = (Inr a, d')"
  from command_effect [OF this] obtain a' where
    a': "account_in view js d' = (account_in view js d)(bc_account_id cmd \<mapsto> a')"
      "bc_expected_version cmd = version_in (account_in view js) d (bc_account_id cmd)"
      "apply_operation (bc_operation cmd) (account_or_new (account_in view js) d (bc_account_id cmd)) (bc_amount_sats cmd) = (Inr (), a')"
    by auto
  have "acc_version (account_or_new get d i) = version_in get d i" for get :: "'d \<Rightarrow> string \<Rightarrow> account_state option" and i
    by (simp add: account_or_new_def version_in_def account_new_def split: option.split)
  with a' show "bc_expected_version cmd = version_in (account_in view js) d (bc_account_id cmd) \<and>
      version_in (account_in view js) d' (bc_account_id cmd) = version_in (account_in view js) d (bc_account_id cmd) + 1 \<and> True"
    using apply_operation_version [OF a'(3)] by (simp add: version_in_def [of _ d'])
qed

section \<open>Withdrawals\<close>

context sled_ledger
begin

lemma withdrawal_update_evolves:
  assumes "withdrawal_in view js d wid = Some r"
    and "\<And>r r' a. f (Some r) = Inr (r', a) \<Longrightarrow> withdrawal_evolves r r'"
  shows "\<exists>r'. withdrawal_in view js (snd (sled_update db (jc_withdrawal js) (withdrawal_key i) f d)) wid = Some r' \<and> withdrawal_evolves r r'"
proof (cases "sled_update db (jc_withdrawal js) (withdrawal_key i) f d")
  case (Pair res d')
  let ?j = "jc_withdrawal js"
  from update_effect [OF Pair] have "\<exists>r'. withdrawal_in view js d' wid = Some r' \<and> withdrawal_evolves r r'"
  proof (elim disjE exE conjE)
    fix v x a b
    assume v: "rec_of ?j (view d (withdrawal_key i)) = Inr v" and f: "f v = Inr (x, a)"
      and b: "to_vec ?j x = Inr b" and d': "view d' = (view d)(withdrawal_key i \<mapsto> b)"
    show ?thesis
    proof (cases "wid = i")
      case True
      then have "v = Some r" using assms(1) v by (simp add: withdrawal_in_def record_in_def)
      then show ?thesis
        using True f d' record_in_written [OF withdrawal_codec b] assms(2) by (auto simp: withdrawal_in_def)
    next
      case False
      then show ?thesis using assms(1) d' by (simp add: withdrawal_in_def)
    qed
  qed (use assms(1) in \<open>simp add: withdrawal_in_def\<close>)
  with Pair show ?thesis by simp
qed

lemma withdrawal_create_evolves:
  assumes "withdrawal_in view js d wid = Some r"
  shows "\<exists>r'. withdrawal_in view js (snd (sled_wd_create db (jc_withdrawal js) d w)) wid = Some r' \<and> withdrawal_evolves r r'"
proof -
  have "view (snd (sled_wd_create db (jc_withdrawal js) d w)) (withdrawal_key wid) = view d (withdrawal_key wid)"
  proof (cases "wid = withdrawal_id w")
    case True
    then have "view d (withdrawal_key (withdrawal_id w)) \<noteq> None"
      using assms by (metis option.distinct(1) record_in_None withdrawal_in_def)
    then show ?thesis
      using create_effect [of "jc_withdrawal js" "withdrawal_key (withdrawal_id w)" _ w d]
      by (cases "sled_wd_create db (jc_withdrawal js) d w") (fastforce simp: sled_wd_create_def)
  qed (simp add: sled_wd_create_def create_frame)
  with assms show ?thesis by (simp add: withdrawal_in_def)
qed

end

sublocale sled_ledger \<subseteq> withdrawals: withdrawal_store "withdrawal_in view js" "sled_wd_call db (jc_withdrawal js)"
proof
  fix d wid r k
  assume r: "withdrawal_in view js d wid = Some r"
  show "\<exists>r'. withdrawal_in view js (snd (sled_wd_call db (jc_withdrawal js) d k)) wid = Some r' \<and> withdrawal_evolves r r'"
  proof (cases k)
    case (WdCreate w)
    then show ?thesis using withdrawal_create_evolves [OF r] by simp
  next
    case (WdUpdateStatus i st b)
    show ?thesis unfolding WdUpdateStatus sled_wd_call.simps sled_update_status_def
      by (rule withdrawal_update_evolves [OF r]) (auto simp: withdrawal_evolves_def split: if_splits)
  next
    case (WdSetAuthorization i a)
    show ?thesis unfolding WdSetAuthorization sled_wd_call.simps sled_set_authorization_def
      by (rule withdrawal_update_evolves [OF r])
        (auto simp: withdrawal_evolves_def reserved_to_authorized split: if_splits)
  next
    case (WdSetPsbt i c)
    show ?thesis unfolding WdSetPsbt sled_wd_call.simps sled_set_psbt_def
      by (rule withdrawal_update_evolves [OF r]) (auto simp: withdrawal_evolves_def)
  next
    case (WdSetBroadcastTxid i tx)
    show ?thesis unfolding WdSetBroadcastTxid sled_wd_call.simps sled_set_broadcast_txid_def
      by (rule withdrawal_update_evolves [OF r]) (auto simp: withdrawal_evolves_def split: if_splits)
  qed
qed

section \<open>Outputs\<close>

context sled_ledger
begin

lemma utxo_update_effect:
  assumes "sled_update db (jc_utxo js) (utxo_key (to_canonical_string p)) f d = (res, d')"
  shows "\<not> is_ok res \<and> utxo_in view js d' = utxo_in view js d \<or>
    (\<exists>r a. f (utxo_in view js d p) = Inr (r, a) \<and> utxo_in view js d' = (utxo_in view js d)(p \<mapsto> r))"
proof -
  let ?j = "jc_utxo js" and ?key = "utxo_key (to_canonical_string p)"
  from update_effect [OF assms] show ?thesis
  proof (elim disjE exE conjE)
    assume "view d' = view d" "\<not> is_ok res"
    then show ?thesis by (simp add: utxo_in_def [abs_def])
  next
    fix v r a b
    assume v: "rec_of ?j (view d ?key) = Inr v" and f: "f v = Inr (r, a)"
      and b: "to_vec ?j r = Inr b" and d': "view d' = (view d)(?key \<mapsto> b)"
    have "utxo_in view js d p = v" using v by (simp add: utxo_in_def record_in_def)
    moreover have "utxo_in view js d' q = ((utxo_in view js d)(p \<mapsto> r)) q" for q
      using record_in_written [OF utxo_codec b] d' by (auto simp: utxo_in_def)
    ultimately show ?thesis using f by blast
  qed
qed

end

lemma update_change_ok:
  "(case v of None \<Rightarrow> Inl x | Some e \<Rightarrow> res_bind (validate_transition (ut_state e) t) (\<lambda>_. Inr (g e, ()))) = Inr (r, a) \<longleftrightarrow>
     (\<exists>e. v = Some e \<and> transition_allowed (ut_state e) t \<and> r = g e)"
  by (cases v) (auto simp: validate_transition_def)

sublocale sled_ledger \<subseteq> outputs: utxo_store "utxo_in view js" "sled_update_state db (jc_utxo js)"
    "sled_reserve db (jc_utxo js)" "sled_release db (jc_utxo js)"
proof
  fix d p t u d'
  assume "sled_update_state db (jc_utxo js) d p t = (Inr u, d')"
  from utxo_update_effect [OF this [unfolded sled_update_state_def]]
  show "\<exists>e. utxo_in view js d p = Some e \<and> transition_allowed (ut_state e) t \<and>
      utxo_in view js d' = (utxo_in view js d)(p \<mapsto> e\<lparr>ut_state := t\<rparr>)"
    unfolding update_change_ok by auto
next
  fix d p t err d'
  assume "sled_update_state db (jc_utxo js) d p t = (Inl err, d')"
  from utxo_update_effect [OF this [unfolded sled_update_state_def]]
  show "utxo_in view js d' = utxo_in view js d \<or> (\<exists>e. utxo_in view js d p = Some e \<and> transition_allowed (ut_state e) t \<and>
      utxo_in view js d' = (utxo_in view js d)(p \<mapsto> e\<lparr>ut_state := t\<rparr>))"
    unfolding update_change_ok by auto
next
  fix d p i b u d'
  assume "sled_reserve db (jc_utxo js) d p i b = (Inr u, d')"
  from utxo_update_effect [OF this [unfolded sled_reserve_def]]
  show "\<exists>e. utxo_in view js d p = Some e \<and> is_available e \<and>
      utxo_in view js d' = (utxo_in view js d)(p \<mapsto> e\<lparr>reserved_by := Some i, reserved_at_bucket := Some b\<rparr>)"
    by (auto simp: is_available_def split: option.splits if_splits)
next
  fix d p e i b
  assume e: "utxo_in view js d p = Some e" "reserved_by e \<noteq> None"
  obtain res d' where r: "sled_reserve db (jc_utxo js) d p i b = (res, d')" by force
  from utxo_update_effect [OF r [unfolded sled_reserve_def]] e
  have "\<not> is_ok res \<and> utxo_in view js d' = utxo_in view js d" by (auto split: if_splits option.splits)
  with r show "\<exists>err d'. sled_reserve db (jc_utxo js) d p i b = (Inl err, d') \<and> utxo_in view js d' = utxo_in view js d"
    by (cases res) auto
next
  fix d p u d'
  assume "sled_release db (jc_utxo js) d p = (Inr u, d')"
  from utxo_update_effect [OF this [unfolded sled_release_def]]
  show "\<exists>e. utxo_in view js d p = Some e \<and> reserved_by e \<noteq> None \<and>
      utxo_in view js d' = (utxo_in view js d)(p \<mapsto> e\<lparr>reserved_by := None, reserved_at_bucket := None\<rparr>)"
    by (auto split: option.splits if_splits)
qed

section \<open>A simulated database\<close>

text \<open>
  An association list with a schedule of failures: \<open>sim_faults n\<close> makes the \<open>n\<close>-th call fail,
  after a write took effect when it is \<open>Some True\<close>.
\<close>

record sim_db =
  sim_map :: "(bytes, bytes) hashmap"
  sim_faults :: "nat \<Rightarrow> bool option"
  sim_calls :: nat

definition sim_next :: "sim_db \<Rightarrow> sim_db" where
  "sim_next d = d\<lparr>sim_calls := Suc (sim_calls d)\<rparr>"

definition sim_write :: "sim_db \<Rightarrow> (bytes, bytes) hashmap \<Rightarrow> 'a \<Rightarrow> (string + 'a) \<times> sim_db" where
  "sim_write d m x =
     (case sim_faults d (sim_calls d) of
        None \<Rightarrow> (Inr x, (sim_next d)\<lparr>sim_map := m\<rparr>)
      | Some True \<Rightarrow> (Inl ''io'', (sim_next d)\<lparr>sim_map := m\<rparr>)
      | Some False \<Rightarrow> (Inl ''io'', sim_next d))"

definition sim_sled :: "sim_db sled" where
  "sim_sled = \<lparr>
     sl_get = (\<lambda>d k. (case sim_faults d (sim_calls d) of None \<Rightarrow> Inr (map_of (sim_map d) k) | Some _ \<Rightarrow> Inl ''io'', sim_next d)),
     sl_insert = (\<lambda>d k b. sim_write d (hm_insert k b (sim_map d)) (map_of (sim_map d) k)),
     sl_remove = (\<lambda>d k. sim_write d (hm_remove k (sim_map d)) (map_of (sim_map d) k)),
     sl_apply_batch = (\<lambda>d ps. sim_write d (fold (\<lambda>(k, b) m. hm_insert k b m) ps (sim_map d)) ()),
     sl_scan_prefix = (\<lambda>d p. (case sim_faults d (sim_calls d) of
         None \<Rightarrow> map (\<lambda>k. Inr (k, the (map_of (sim_map d) k))) (filter (prefix p) (sort (remdups (map fst (sim_map d)))))
       | Some _ \<Rightarrow> [Inl ''io''], sim_next d))\<rparr>"

definition sim_view :: "sim_db \<Rightarrow> bytes \<rightharpoonup> bytes" where
  "sim_view d = map_of (sim_map d)"

lemma sim_view_next [simp]: "sim_view (sim_next d) = sim_view d"
  by (simp add: sim_view_def sim_next_def)

lemma sim_write_view:
  "sim_write d m x = (Inr y, d') \<Longrightarrow> y = x \<and> sim_view d' = map_of m"
  "sim_write d m x = (Inl e, d') \<Longrightarrow> sim_view d' \<in> {sim_view d, map_of m}"
  by (auto simp: sim_write_def sim_next_def sim_view_def split: option.splits bool.splits)

lemma sim_batch: "map_of (fold (\<lambda>(k, b) m. hm_insert k b m) ps m) = batch_view (map_of m) ps"
  unfolding batch_view_def by (induction ps arbitrary: m) auto

interpretation sim: sled_db sim_sled sim_view
proof
  fix d :: sim_db and p k b
  let ?keys = "filter (prefix p) (sort (remdups (map fst (sim_map d))))"
  let ?scan = "fst (sl_scan_prefix sim_sled d p)"
  let ?ok = "\<lambda>r :: string + bytes \<times> bytes. case r of Inl e \<Rightarrow> None | Inr x \<Rightarrow> Some x"
  have some: "map_of (sim_map d) q = Some (the (map_of (sim_map d) q))" if "q \<in> set ?keys" for q
    using that by (auto simp: map_of_eq_None_iff dom_map_of_conv_image_fst [symmetric])
  show "Inr (k, b) \<in> set ?scan \<Longrightarrow> prefix p k \<and> sim_view d k = Some b"
    using some by (auto simp: sim_sled_def sim_view_def split: option.splits)
  have "List.map_filter ?ok (map (\<lambda>q. Inr (g q)) qs) = map g qs" for g :: "bytes \<Rightarrow> bytes \<times> bytes" and qs
    by (induction qs) (simp_all add: map_filter_simps)
  then show "distinct (map fst (List.map_filter ?ok ?scan))"
    by (cases "sim_faults d (sim_calls d)") (simp_all add: sim_sled_def map_filter_simps comp_def)
  show "\<forall>r \<in> set ?scan. is_ok r \<Longrightarrow> prefix p k \<Longrightarrow> sim_view d k = Some b \<Longrightarrow> Inr (k, b) \<in> set ?scan"
    by (cases "sim_faults d (sim_calls d)") (force simp: sim_sled_def sim_view_def dest: map_of_SomeD)+
qed (auto simp: sim_sled_def sim_view_def [symmetric] sim_batch dest: sim_write_view
    split: option.splits)

text \<open>A codec for a finite table of values, each with a byte of its own.\<close>

definition table_codec :: "('a \<times> u8) list \<Rightarrow> 'a codec" where
  "table_codec t = \<lparr>to_vec = (\<lambda>x. case map_of t x of None \<Rightarrow> Inl ''unsupported'' | Some b \<Rightarrow> Inr [b]),
     from_slice = (\<lambda>bs. case bs of
         [b] \<Rightarrow> (case map_of (map prod.swap t) b of None \<Rightarrow> Inl ''unknown'' | Some x \<Rightarrow> Inr x)
       | _ \<Rightarrow> Inl ''length'')\<rparr>"

lemma table_codec_ok: "distinct (map snd t) \<Longrightarrow> codec_ok (table_codec t)"
proof -
  assume "distinct (map snd t)"
  then have "distinct (map fst (map prod.swap t))" by (simp add: comp_def)
  moreover have "(b, x) \<in> set (map prod.swap t)" if "map_of t x = Some b" for x b
    using map_of_SomeD [OF that] by (force simp: image_iff)
  ultimately have "map_of (map prod.swap t) b = Some x" if "map_of t x = Some b" for x b
    using that by (simp only: map_of_eq_Some_iff)
  then show ?thesis by (auto simp: codec_ok_def table_codec_def split: option.splits)
qed

section \<open>Nonces survive failures\<close>

context sled_db
begin

lemma is_consumed_true:
  "view d (nonce_key n) \<noteq> None \<Longrightarrow> sled_is_consumed db d n = (Inr b, d2) \<Longrightarrow> b"
  using get_ok [of d "nonce_key n"] by (auto simp: sled_is_consumed_def map_err_def io_bind_def split: sum.splits prod.splits)

lemmas nonce_run_once = nonces.run_accepts_once

end

text \<open>
  A nonce is accepted at most once by the persistent checker, whichever calls of the
  database fail: over any sequence of calls \<open>mark_consumed\<close> accepts no nonce twice and none that
  was in the database before, an accepted nonce is in the database from then on, and every later
  \<open>is_consumed\<close> that does not fail says so.
\<close>

theorem sled_nonce_single_use:
  assumes "sled_db db view"
    and "nonce_run (sled_mark_consumed db) (sled_mark_consumed_sync db) d ops = (accepted, d')"
  shows "distinct accepted \<and>
    (\<forall>n \<in> set accepted. view d (nonce_key n) = None \<and> view d' (nonce_key n) \<noteq> None \<and>
       (\<forall>b d2. sled_is_consumed db d' n = (Inr b, d2) \<longrightarrow> b))"
  using sled_db.nonce_run_once [OF assms] sled_db.is_consumed_true [OF assms(1)]
  unfolding nonce_consumed_def by blast

definition sim_new :: "(nat \<Rightarrow> bool option) \<Rightarrow> sim_db" where
  "sim_new faults = \<lparr>sim_map = [], sim_faults = faults, sim_calls = 0\<rparr>"

theorem sled_nonce_single_use_witness:
  "fst (nonce_run (sled_mark_consumed sim_sled) (sled_mark_consumed_sync sim_sled) (sim_new (\<lambda>n. if n = 1 then Some True else None))
     [MarkConsumed ''a'', MarkConsumed ''b'', MarkConsumed ''a'', MarkConsumed ''b'', MarkConsumed ''c'']) = [''a'', ''c''] \<and>
   distinct [''a'', ''c'']"
proof -
  let ?run = "nonce_run (sled_mark_consumed sim_sled) (sled_mark_consumed_sync sim_sled) (sim_new (\<lambda>n. if n = 1 then Some True else None))
     [MarkConsumed ''a'', MarkConsumed ''b'', MarkConsumed ''a'', MarkConsumed ''b'', MarkConsumed ''c'']"
  have "fst ?run = [''a'', ''c'']"
    by (simp add: sled_mark_consumed_def sim_sled_def sim_write_def sim_new_def sim_next_def map_err_def hm_insert_def)
  moreover have "distinct (fst ?run)"
    using sled_nonce_single_use [OF sim.sled_db_axioms surjective_pairing] by blast
  ultimately show ?thesis by simp
qed

text \<open>
  The synchronous check answers \<open>false\<close> when the database fails, also for a consumed nonce.
\<close>

lemma sled_sync_check_fails_open:
  "sl_get db d (nonce_key n) = (Inl e, d1) \<Longrightarrow> sled_is_consumed_sync db d n = (False, d1)"
  by (simp add: sled_is_consumed_sync_def)

section \<open>Lost updates\<close>

text \<open>
  The two halves of \<open>apply_command\<close>: what happens up to reading the account, and the rest. The
  code holds no lock between them.
\<close>

definition command_read ::
    "'d sled \<Rightarrow> account_state codec \<Rightarrow> 'd \<Rightarrow> balance_command \<Rightarrow> ('d, account_state option) mut_result" where
  "command_read db j d cmd = sled_read db j (account_key (bc_account_id cmd)) d"

definition command_finish ::
    "'d sled \<Rightarrow> account_state codec \<Rightarrow> balance_command \<Rightarrow> account_state option \<Rightarrow> 'd \<Rightarrow> ('d, account_state) mut_result" where
  "command_finish db j cmd v d =
     (case command_change cmd v of
        Inl e \<Rightarrow> (Inl e, d)
      | Inr (r, a) \<Rightarrow> io_bind (sled_write db j (account_key (bc_account_id cmd)) r d) (\<lambda>_ d1. (Inr a, d1)))"

lemma apply_command_halves:
  "sled_apply_command db j d cmd = io_bind (command_read db j d cmd) (command_finish db j cmd)"
  unfolding sled_apply_command_def sled_update_def command_read_def command_finish_def ..

context sled_ledger
begin

lemma finish_effect:
  assumes "command_finish db (jc_account js) cmd v d = (Inr a, d')"
  shows "command_change cmd v = Inr (a, a) \<and> account_in view js d' = (account_in view js d)(bc_account_id cmd \<mapsto> a)"
proof (cases "command_change cmd v")
  case (Inr p)
  obtain r x where p: "p = (r, x)" by force
  have r: "r = x" using command_change_ok Inr p by blast
  obtain w d1 where w: "sled_write db (jc_account js) (account_key (bc_account_id cmd)) r d = (w, d1)" by force
  then have "w = Inr ()" "a = x" "d' = d1"
    using assms Inr p by (cases w; simp add: command_finish_def)+
  with write_effect [OF w] obtain b where b: "to_vec (jc_account js) r = Inr b"
      "view d' = (view d)(account_key (bc_account_id cmd) \<mapsto> b)" by auto
  have "account_in view js d' i = ((account_in view js d)(bc_account_id cmd \<mapsto> a)) i" for i
    using record_in_written [OF account_codec b(1)] b(2) r \<open>a = x\<close> by (simp add: account_in_def)
  with Inr p r \<open>a = x\<close> show ?thesis by auto
qed (use assms in \<open>simp add: command_finish_def\<close>)

lemma read_account:
  assumes "command_read db (jc_account js) d cmd = (Inr v, d1)"
  shows "v = account_in view js d (bc_account_id cmd) \<and> view d1 = view d"
  using read_effect [OF assms [unfolded command_read_def]] by (simp add: account_in_def record_in_def)

lemmas second_command_refused = accounts.second_refused

end

text \<open>
  Run one after the other, the persistent store loses no update: after a command has
  committed, no further command against the same version of the account commits, whichever calls
  of the database fail; a command that reports an error has left the account as it was or as the
  command makes it.
\<close>

theorem sled_no_lost_update:
  assumes "sled_ledger db view js"
    and "sled_apply_command db (jc_account js) d cmd = (res, d')"
  shows "(is_ok res \<longrightarrow> (\<forall>cmd2. bc_account_id cmd2 = bc_account_id cmd \<and> bc_expected_version cmd2 = bc_expected_version cmd \<longrightarrow>
       \<not> is_ok (fst (sled_apply_command db (jc_account js) d' cmd2)))) \<and>
    (\<forall>i. i \<noteq> bc_account_id cmd \<longrightarrow> account_in view js d' i = account_in view js d i) \<and>
    (account_in view js d' (bc_account_id cmd) = account_in view js d (bc_account_id cmd) \<or>
     (\<exists>a. account_in view js d' (bc_account_id cmd) = Some a \<and>
        apply_operation (bc_operation cmd) (account_or_new (account_in view js) d (bc_account_id cmd)) (bc_amount_sats cmd) = (Inr (), a)))"
proof -
  have "\<not> is_ok (fst (sled_apply_command db (jc_account js) d' cmd2))"
    if "is_ok res" "bc_account_id cmd2 = bc_account_id cmd" "bc_expected_version cmd2 = bc_expected_version cmd" for cmd2
    using that assms(2) sled_ledger.second_command_refused [OF assms(1), of d cmd _ d' cmd2] by (auto simp: is_ok_iff)
  moreover have "account_in view js d' = account_in view js d \<or>
      (\<exists>a. account_in view js d' = (account_in view js d)(bc_account_id cmd \<mapsto> a) \<and>
        apply_operation (bc_operation cmd) (account_or_new (account_in view js) d (bc_account_id cmd)) (bc_amount_sats cmd) = (Inr (), a))"
    using sled_ledger.command_effect [OF assms] by (auto simp: account_in_def [abs_def])
  ultimately show ?thesis by auto
qed

text \<open>
  Run concurrently, the persistent store does lose updates: when two commands on one
  account both read it before either writes, and no call of the database fails, both commit
  against the same version, both report success, and of the first nothing is left: the account
  is what the second command makes of the account that both had read.
\<close>

theorem sled_concurrent_lost_update:
  assumes "sled_ledger db view js" and "bc_account_id c2 = bc_account_id c1"
    and "command_read db (jc_account js) d c1 = (Inr v1, d1)" and "command_read db (jc_account js) d1 c2 = (Inr v2, d2)"
    and "command_finish db (jc_account js) c1 v1 d2 = (Inr a1, d3)" and "command_finish db (jc_account js) c2 v2 d3 = (Inr a2, d4)"
  shows "bc_expected_version c1 = bc_expected_version c2 \<and> acc_version a1 = acc_version a2 \<and>
    account_in view js d4 (bc_account_id c1) = Some a2 \<and>
    apply_operation (bc_operation c2) (account_or_new (account_in view js) d (bc_account_id c1)) (bc_amount_sats c2) = (Inr (), a2)"
proof -
  note L = assms(1)
  have v: "v1 = account_in view js d (bc_account_id c1)" "v2 = account_in view js d (bc_account_id c1)"
    using sled_ledger.read_account [OF L assms(3)] sled_ledger.read_account [OF L assms(4)] assms(2)
    by (simp_all add: account_in_def)
  note f1 = sled_ledger.finish_effect [OF L assms(5)] and f2 = sled_ledger.finish_effect [OF L assms(6)]
  note c1 = command_change_ok [OF conjunct1 [OF f1]] and c2 = command_change_ok [OF conjunct1 [OF f2]]
  let ?a = "account_or_new (account_in view js) d (bc_account_id c1)"
  have ops: "apply_operation (bc_operation c1) ?a (bc_amount_sats c1) = (Inr (), a1)"
      "apply_operation (bc_operation c2) ?a (bc_amount_sats c2) = (Inr (), a2)"
    using c1 c2 v assms(2) by (auto simp: account_or_new_def split: option.splits)
  have "acc_version a1 = acc_version a2"
    using apply_operation_version [OF ops(1)] apply_operation_version [OF ops(2)] by simp
  with ops f2 c1 c2 v assms(2) show ?thesis by simp
qed

definition demo_credit :: "u64 \<Rightarrow> balance_command" where
  "demo_credit n = balance_command_new ''c'' ''a'' 0 Credit n 1"

definition demo_credited :: "u64 \<Rightarrow> account_state" where
  "demo_credited n = (account_new ''a'')\<lparr>available_sats := n, acc_version := 1\<rparr>"

definition demo_ledger_codecs :: ledger_codecs where
  "demo_ledger_codecs = \<lparr>jc_account = table_codec [(demo_credited 5, 1), (demo_credited 7, 2)],
     jc_reservation = table_codec [], jc_idempotency = table_codec [],
     jc_utxo = table_codec [(demo_utxo ''t'' OcSeen, 1), (demo_utxo ''t'' OcInMempool, 2), (demo_utxo ''t'' OcSpent, 3)],
     jc_withdrawal = table_codec [(demo_withdrawal, 1), (demo_withdrawal\<lparr>wd_status := WdAuthorized, wd_updated_at_bucket := 2\<rparr>, 2)],
     jc_snapshot = table_codec [(demo_snapshot 3, 1), (demo_snapshot 9, 2)], jc_node = table_codec []\<rparr>"

interpretation sim_ledger: sled_ledger sim_sled sim_view demo_ledger_codecs
  by unfold_locales (simp_all add: demo_ledger_codecs_def table_codec_ok)

lemmas sim_eval = sim_sled_def sim_write_def sim_new_def sim_next_def map_err_def hm_insert_def

lemma demo_credit_change: "command_change (demo_credit n) None = Inr (demo_credited n, demo_credited n)"
proof -
  have "unat n < 2 ^ LENGTH(64)" by (rule unsigned_less)
  then show ?thesis
    by (simp add: command_change_def demo_credit_def demo_credited_def balance_command_new_def account_new_def
        apply_credit_def checked_add_def bump_version_def)
qed

lemma demo_account_codec:
  "to_vec (jc_account demo_ledger_codecs) (demo_credited 5) = Inr [1]"
  "to_vec (jc_account demo_ledger_codecs) (demo_credited 7) = Inr [2]"
  by (simp_all add: demo_ledger_codecs_def table_codec_def demo_credited_def account_new_def)

theorem sled_no_lost_update_witness:
  "\<not> is_ok (fst (sled_apply_command sim_sled (jc_account demo_ledger_codecs)
      (snd (sled_apply_command sim_sled (jc_account demo_ledger_codecs) (sim_new (\<lambda>_. None)) (demo_credit 5))) (demo_credit 7)))"
proof -
  obtain r d' where r: "sled_apply_command sim_sled (jc_account demo_ledger_codecs) (sim_new (\<lambda>_. None)) (demo_credit 5) = (r, d')"
    by force
  then have "is_ok r"
    by (auto simp: sled_apply_command_def sled_update_def sled_read_alt sled_write_alt sim_eval rec_of_def demo_credit_change
        demo_account_codec)
  with sled_no_lost_update [OF sim_ledger.sled_ledger_axioms r] show ?thesis
    using r by (simp add: demo_credit_def balance_command_new_def)
qed

theorem sled_concurrent_lost_update_witness:
  "\<exists>d1 d2 d3 d4. command_read sim_sled (jc_account demo_ledger_codecs) (sim_new (\<lambda>_. None)) (demo_credit 5) = (Inr None, d1) \<and>
     command_read sim_sled (jc_account demo_ledger_codecs) d1 (demo_credit 7) = (Inr None, d2) \<and>
     command_finish sim_sled (jc_account demo_ledger_codecs) (demo_credit 5) None d2 = (Inr (demo_credited 5), d3) \<and>
     command_finish sim_sled (jc_account demo_ledger_codecs) (demo_credit 7) None d3 = (Inr (demo_credited 7), d4) \<and>
     account_in sim_view demo_ledger_codecs d4 ''a'' = Some (demo_credited 7)"
proof -
  let ?j = "jc_account demo_ledger_codecs"
  let ?m = "\<lambda>b. (sim_new (\<lambda>_. None))\<lparr>sim_map := [(account_key ''a'', b)]\<rparr>"
  have r: "command_read sim_sled ?j (sim_new (\<lambda>_. None)) (demo_credit 5) = (Inr None, (sim_new (\<lambda>_. None))\<lparr>sim_calls := 1\<rparr>)"
      "command_read sim_sled ?j ((sim_new (\<lambda>_. None))\<lparr>sim_calls := 1\<rparr>) (demo_credit 7) = (Inr None, (sim_new (\<lambda>_. None))\<lparr>sim_calls := 2\<rparr>)"
    by (simp_all add: command_read_def sled_read_alt sim_eval rec_of_def)
  have w: "command_finish sim_sled ?j (demo_credit 5) None ((sim_new (\<lambda>_. None))\<lparr>sim_calls := 2\<rparr>) =
        (Inr (demo_credited 5), (?m [1])\<lparr>sim_calls := 3\<rparr>)"
      "command_finish sim_sled ?j (demo_credit 7) None ((?m [1])\<lparr>sim_calls := 3\<rparr>) =
        (Inr (demo_credited 7), (?m [2])\<lparr>sim_calls := 4\<rparr>)"
    by (simp_all add: command_finish_def demo_credit_change sled_write_alt demo_account_codec sim_eval)
      (simp_all add: demo_credit_def balance_command_new_def)
  from sled_concurrent_lost_update [OF sim_ledger.sled_ledger_axioms _ r w]
  have "account_in sim_view demo_ledger_codecs ((?m [2])\<lparr>sim_calls := 4\<rparr>) ''a'' = Some (demo_credited 7)"
    by (simp add: demo_credit_def balance_command_new_def)
  with r w show ?thesis by blast
qed

section \<open>Withdrawals and outputs under failures\<close>

context sled_ledger
begin

lemmas withdrawals_evolve = withdrawals.run_evolves
lemmas outputs_along_gate = outputs.run_along_gate
lemmas output_exclusive = outputs.exclusive

end

text \<open>
  The life of a withdrawal in the persistent store is the one the in-memory store gives
  it, whichever calls of the database fail: over any sequence of calls, accepted, refused or
  failed, a withdrawal that is in the database stays there with its identity, account, amount
  and destination, a terminal status never changes, a transaction id is never replaced, and an
  authorization is not written after the withdrawal left \<open>Reserved\<close>.
\<close>

theorem sled_withdrawal_lifecycle:
  assumes "sled_ledger db view js" and "withdrawal_in view js d wid = Some r"
  shows "\<exists>r'. withdrawal_in view js (fold (\<lambda>k d. snd (sled_wd_call db (jc_withdrawal js) d k)) calls d) wid = Some r' \<and>
    withdrawal_id r' = withdrawal_id r \<and> wd_account_id r' = wd_account_id r \<and>
    wd_amount_sats r' = wd_amount_sats r \<and> destination_address r' = destination_address r \<and>
    can_transition_to\<^sup>*\<^sup>* (wd_status r) (wd_status r') \<and>
    (wd_is_terminal (wd_status r) \<longrightarrow> wd_status r' = wd_status r) \<and>
    (broadcast_txid r \<noteq> None \<longrightarrow> broadcast_txid r' = broadcast_txid r) \<and>
    (wd_status r \<noteq> WdReserved \<longrightarrow> authorization r' = authorization r)"
proof -
  obtain r' where r': "withdrawal_in view js (fold (\<lambda>k d. snd (sled_wd_call db (jc_withdrawal js) d k)) calls d) wid = Some r'"
      "withdrawal_evolves r r'" using sled_ledger.withdrawals_evolve [OF assms] by blast
  then have "wd_is_terminal (wd_status r) \<longrightarrow> wd_status r' = wd_status r"
    using wd_status_machine.terminal_forever by (auto simp: withdrawal_evolves_def)
  with r' show ?thesis by (intro exI [of _ r']) (simp add: withdrawal_evolves_def)
qed

theorem sled_withdrawal_lifecycle_witness:
  "\<exists>r'. withdrawal_in sim_view demo_ledger_codecs
     (fold (\<lambda>k d. snd (sled_wd_call sim_sled (jc_withdrawal demo_ledger_codecs) d k))
        [WdUpdateStatus ''w'' WdAuthorized 2, WdUpdateStatus ''w'' WdConfirmed 3]
        \<lparr>sim_map = [(withdrawal_key ''w'', [1])], sim_faults = (\<lambda>n. if n = 1 then Some True else None), sim_calls = 0\<rparr>) ''w'' =
       Some r' \<and> wd_amount_sats r' = 5"
proof -
  let ?d = "\<lparr>sim_map = [(withdrawal_key ''w'', [1])], sim_faults = (\<lambda>n. if n = 1 then Some True else None), sim_calls = 0\<rparr>"
  have "withdrawal_in sim_view demo_ledger_codecs ?d ''w'' = Some demo_withdrawal"
    by (simp add: withdrawal_in_def sim_view_def record_in_def rec_of_def deserialize_def demo_ledger_codecs_def table_codec_def)
  from sled_withdrawal_lifecycle [OF sim_ledger.sled_ledger_axioms this,
      of "[WdUpdateStatus ''w'' WdAuthorized 2, WdUpdateStatus ''w'' WdConfirmed 3]"]
  show ?thesis by (auto simp: demo_withdrawal_def withdrawal_new_def)
qed

text \<open>
  Outputs in the persistent store move along the transition gate only, whichever calls of
  the database fail, and a spent or replaced output keeps its state for ever; an output that was
  reserved cannot be reserved again, by any call that follows.
\<close>

theorem sled_outputs_follow_gate:
  assumes "sled_ledger db view js"
  shows "(utxo_in view js d p = Some e \<longrightarrow>
      (\<exists>e'. utxo_in view js (fold (\<lambda>(q, t) d. snd (sled_update_state db (jc_utxo js) d q t)) us d) p = Some e' \<and>
         transition_allowed\<^sup>*\<^sup>* (ut_state e) (ut_state e') \<and> (utxo_is_terminal e \<longrightarrow> ut_state e' = ut_state e))) \<and>
    (is_ok (fst (sled_reserve db (jc_utxo js) d p i b)) \<longrightarrow>
      \<not> is_ok (fst (sled_reserve db (jc_utxo js) (snd (sled_reserve db (jc_utxo js) d p i b)) p i' b')))"
proof (intro conjI impI)
  assume e: "utxo_in view js d p = Some e"
  show "\<exists>e'. utxo_in view js (fold (\<lambda>(q, t) d. snd (sled_update_state db (jc_utxo js) d q t)) us d) p = Some e' \<and>
      transition_allowed\<^sup>*\<^sup>* (ut_state e) (ut_state e') \<and> (utxo_is_terminal e \<longrightarrow> ut_state e' = ut_state e)"
    using sled_ledger.outputs_along_gate [OF assms, of d p "ut_state e" us] e utxo_gate.terminal_forever
    by (auto simp: state_at_def utxo_is_terminal_def)
next
  assume "is_ok (fst (sled_reserve db (jc_utxo js) d p i b))"
  then obtain u d' where r: "sled_reserve db (jc_utxo js) d p i b = (Inr u, d')"
    by (metis is_ok_iff prod.collapse)
  from sled_ledger.output_exclusive [OF assms r, of i' b'] r
  show "\<not> is_ok (fst (sled_reserve db (jc_utxo js) (snd (sled_reserve db (jc_utxo js) d p i b)) p i' b'))"
    by auto
qed

theorem sled_outputs_follow_gate_witness:
  "\<exists>e'. utxo_in sim_view demo_ledger_codecs
     (snd (sled_update_state sim_sled (jc_utxo demo_ledger_codecs)
       \<lparr>sim_map = [(utxo_key (to_canonical_string (outpoint_new ''t'' 0)), [3])], sim_faults = (\<lambda>_. None), sim_calls = 0\<rparr>
       (outpoint_new ''t'' 0) OcSeen)) (outpoint_new ''t'' 0) = Some e' \<and> ut_state e' = OcSpent"
proof -
  let ?p = "outpoint_new ''t'' 0"
  let ?d = "\<lparr>sim_map = [(utxo_key (to_canonical_string ?p), [3])], sim_faults = (\<lambda>_. None), sim_calls = 0\<rparr>"
  have "utxo_in sim_view demo_ledger_codecs ?d ?p = Some (demo_utxo ''t'' OcSpent)"
    by (simp add: utxo_in_def sim_view_def record_in_def rec_of_def deserialize_def demo_ledger_codecs_def table_codec_def)
  from sled_outputs_follow_gate [OF sim_ledger.sled_ledger_axioms, THEN conjunct1, rule_format, OF this, of "[(?p, OcSeen)]"]
  show ?thesis by (auto simp: utxo_is_terminal_def demo_utxo_def)
qed

section \<open>Isolation\<close>

text \<open>
  The stores share one database and do not interfere: whatever calls are made on the other
  stores, accepted, refused or failed, everything under the keys of a store stays as it is; and
  every key a store uses lies under its own prefix, the key of the latest snapshot under that
  of the snapshots without being the key of any of them.
\<close>

theorem sled_stores_isolated:
  assumes "sled_db db view" and "\<forall>k \<in> set calls. store_of k \<noteq> s" and "in_store s key"
  shows "view (sled_run db c js d calls) key = view d key \<and>
    in_store Nonces (nonce_key i) \<and> in_store Accounts (account_key i) \<and> in_store Reservations (reservation_key i) \<and>
    in_store Idempotency (idempotency_key i) \<and> in_store Utxos (utxo_key i) \<and> in_store Withdrawals (withdrawal_key i) \<and>
    in_store Members (member_key i) \<and> in_store Snapshots (snapshot_key q) \<and> in_store Snapshots key_latest_snapshot \<and>
    key_latest_snapshot \<noteq> snapshot_key q"
proof -
  have "view (fold (\<lambda>k d. sled_step db c js d k) calls d) key = view d key"
    using assms(2)
  proof (induction calls arbitrary: d)
    case (Cons k calls)
    then have "\<not> in_store (store_of k) key" using stores_disjoint [OF assms(3)] by auto
    then show ?case using Cons sled_db.step_frame [OF assms(1)] by simp
  qed simp
  then show ?thesis by (simp add: sled_run_def)
qed

theorem sled_stores_isolated_witness:
  "sim_view (sled_run sim_sled demo_crypto demo_ledger_codecs
      \<lparr>sim_map = [(nonce_key ''n'', [])], sim_faults = (\<lambda>_. None), sim_calls = 0\<rparr>
      [ScCommand (demo_credit 5), ScRole (RcRemove ''n''), ScExpireStale 9]) (nonce_key ''n'') = Some []"
proof -
  let ?d = "\<lparr>sim_map = [(nonce_key ''n'', [])], sim_faults = (\<lambda>_. None), sim_calls = 0\<rparr>"
  have "sim_view ?d (nonce_key ''n'') = Some []" by (simp add: sim_view_def)
  then show ?thesis
    using sled_stores_isolated [OF sim.sled_db_axioms, of "[ScCommand (demo_credit 5), ScRole (RcRemove ''n''), ScExpireStale 9]"
        Nonces "nonce_key ''n''" demo_crypto demo_ledger_codecs ?d] by simp
qed

section \<open>Snapshots\<close>

lemma from_le_bytes_roundtrip: "from_le_bytes (u64_le w) = Some w"
proof -
  have "foldr (\<lambda>b acc. push_bit 8 acc OR ucast b) (map (\<lambda>i. ucast (drop_bit (8 * i) w) :: u8) [m..<m + n]) 0 =
      take_bit (8 * n) (drop_bit (8 * m) w)" for m n
  proof (induction n arbitrary: m)
    case (Suc n)
    have "push_bit 8 (take_bit (8 * n) (drop_bit (8 * Suc m) w)) OR ucast (ucast (drop_bit (8 * m) w) :: u8) =
        take_bit (8 * Suc n) (drop_bit (8 * m) w)"
      by (rule bit_eqI) (auto simp: bit_simps)
    moreover have "[m..<m + Suc n] = m # [Suc m..<Suc m + n]" by (simp add: upt_rec del: upt_Suc)
    ultimately show ?case using Suc [of "Suc m"] by (simp del: upt_Suc)
  qed simp
  from this [of 0 8] show ?thesis
    by (simp add: from_le_bytes_def u64_le_def le_bytes_def take_bit_word_eq_self)
qed

context sled_ledger
begin

lemma save_effect:
  assumes "sled_save_snapshot db c (jc_snapshot js) d k = (Inr u, d')"
  shows "\<exists>b. to_vec (jc_snapshot js) k = Inr b \<and>
    view d' = (view d)(snapshot_key (cs_sequence k) \<mapsto> b, key_latest_snapshot \<mapsto> u64_le (cs_sequence k))"
proof -
  from assms obtain b where b: "to_vec (jc_snapshot js) k = Inr b"
      "map_err sled_error (sl_apply_batch db d
         [(snapshot_key (cs_sequence k), b), (key_latest_snapshot, u64_le (cs_sequence k))]) = (Inr u, d')"
    by (auto simp: sled_save_snapshot_def serialize_def split: sum.splits)
  then have "sl_apply_batch db d [(snapshot_key (cs_sequence k), b), (key_latest_snapshot, u64_le (cs_sequence k))] = (Inr u, d')"
    by (auto simp: map_err_def split: sum.splits prod.splits)
  from batch_ok [OF this] b(1) show ?thesis by (auto simp: batch_view_def)
qed

lemma latest_effect:
  assumes "view d key_latest_snapshot = Some (u64_le n)" and "view d (snapshot_key n) = Some b"
    and "to_vec (jc_snapshot js) k = Inr b" and "sled_latest_snapshot db (jc_snapshot js) d = (Inr r, d')"
  shows "r = Some k"
proof (cases "sl_get db d key_latest_snapshot")
  case (Pair q d1)
  have v: "view d1 = view d" using get_same [of d key_latest_snapshot] Pair by simp
  show ?thesis
  proof (cases q)
    case (Inl e)
    then show ?thesis using assms(4) Pair by (simp add: sled_latest_snapshot_def map_err_def)
  next
    case (Inr x)
    then have "x = Some (u64_le n)" using get_ok Pair assms(1) by metis
    then have "sled_get_snapshot db (jc_snapshot js) d1 n = (Inr r, d')"
      using assms(4) Pair Inr by (simp add: sled_latest_snapshot_def map_err_def from_le_bytes_roundtrip)
    then have "rec_of (jc_snapshot js) (view d (snapshot_key n)) = Inr r"
      using read_effect v unfolding sled_get_snapshot_def by metis
    then show ?thesis using record_in_written [OF snapshot_codec assms(3)] assms(2) by (simp add: record_in_def)
  qed
qed

end

text \<open>
  The persistent snapshot store takes the last snapshot saved for the latest one. Right
  after a successful save \<open>latest_snapshot\<close>, unless the database fails, returns that snapshot,
  also when one with a higher sequence is in the store and stays there; the in-memory store
  returns the newest.
\<close>

theorem sled_latest_is_last_saved:
  assumes "sled_ledger db view js" and "sled_save_snapshot db c (jc_snapshot js) d k = (Inr u, d')"
    and "sled_latest_snapshot db (jc_snapshot js) d' = (Inr r, d'')"
  shows "r = Some k \<and> (\<forall>n. n \<noteq> cs_sequence k \<longrightarrow> view d' (snapshot_key n) = view d (snapshot_key n))"
proof -
  obtain b where b: "to_vec (jc_snapshot js) k = Inr b"
      "view d' = (view d)(snapshot_key (cs_sequence k) \<mapsto> b, key_latest_snapshot \<mapsto> u64_le (cs_sequence k))"
    using sled_ledger.save_effect [OF assms(1,2)] by blast
  then show ?thesis
    using sled_ledger.latest_effect [OF assms(1) _ _ b(1) assms(3), of "cs_sequence k"] by simp
qed

lemma demo_snapshot_codec:
  "to_vec (jc_snapshot demo_ledger_codecs) (demo_snapshot 3) = Inr [1]"
  "to_vec (jc_snapshot demo_ledger_codecs) (demo_snapshot 9) = Inr [2]"
  by (simp_all add: demo_ledger_codecs_def table_codec_def) (simp_all add: demo_snapshot_def)

theorem sled_latest_is_last_saved_witness:
  "fst (sled_latest_snapshot sim_sled (jc_snapshot demo_ledger_codecs)
      (snd (sled_save_snapshot sim_sled demo_crypto (jc_snapshot demo_ledger_codecs)
        (snd (sled_save_snapshot sim_sled demo_crypto (jc_snapshot demo_ledger_codecs) (sim_new (\<lambda>_. None)) (demo_snapshot 9)))
        (demo_snapshot 3)))) = Inr (Some (demo_snapshot 3))"
proof -
  let ?j = "jc_snapshot demo_ledger_codecs"
  let ?d1 = "snd (sled_save_snapshot sim_sled demo_crypto ?j (sim_new (\<lambda>_. None)) (demo_snapshot 9))"
  let ?d2 = "snd (sled_save_snapshot sim_sled demo_crypto ?j ?d1 (demo_snapshot 3))"
  have save: "sled_save_snapshot sim_sled demo_crypto ?j ?d1 (demo_snapshot 3) = (Inr (), ?d2)"
    by (simp add: sled_save_snapshot_def demo_snapshot_verifies serialize_def demo_snapshot_codec sim_eval)
  have "\<exists>r d'. sled_latest_snapshot sim_sled ?j ?d2 = (Inr r, d')"
    by (simp add: sled_save_snapshot_def demo_snapshot_verifies serialize_def demo_snapshot_codec sim_eval
      sled_latest_snapshot_def from_le_bytes_roundtrip sled_get_snapshot_def sled_read_alt rec_of_def
      deserialize_def demo_ledger_codecs_def table_codec_def)
  then obtain r d' where l: "sled_latest_snapshot sim_sled ?j ?d2 = (Inr r, d')" by blast
  from sled_latest_is_last_saved [OF sim_ledger.sled_ledger_axioms save l] l show ?thesis by simp
qed

end
