(* ===== verification/Store_Simulation.thy ===== *)
theory Store_Simulation
  imports Sled_Refinement Replication
begin

text \<open>
  The persistent stores behave as the in-memory ones. The in-memory stores of one node form the
  record \<open>mem_stores\<close>, and a call on it is \<open>mem_exec\<close>; \<open>represents\<close> relates it to the content of
  a database. A call on the database answers as the in-memory stores do and leaves a related
  state, or answers with an error of the database and leaves the effect of the call or none.
  Four calls differ. \<open>mark_consumed_sync\<close> and \<open>expire_stale\<close> hide errors of the database, and a
  refused balance command may change the in-memory account, but not the one in the database; what
  they may do is part of the relation \<open>store_step\<close>. And \<open>save_snapshot\<close> moves the pointer of the
  database to the snapshot saved last, while the in-memory store remembers the highest sequence;
  so the record \<open>mem_stores\<close> also notes the sequence saved last, \<open>represents\<close> ties the pointer to
  it, and \<open>latest_snapshot\<close> is the one read whose answers differ.
\<close>

section \<open>Errors of the database\<close>

text \<open>The errors that come from the database and its codec and not from a rule of the ledger.\<close>

definition store_fault :: "ledger_error \<Rightarrow> bool" where
  "store_fault e \<longleftrightarrow> (case e of
       InvariantViolation s \<Rightarrow> prefix ''sled error: '' s \<or> prefix ''sled batch error: '' s \<or> prefix ''serialization error: '' s \<or> prefix ''deserialization error: '' s
     | _ \<Rightarrow> False)"

definition faulted :: "'a ledger_result \<Rightarrow> bool" where
  "faulted r \<longleftrightarrow> (case r of Inl e \<Rightarrow> store_fault e | Inr _ \<Rightarrow> False)"

lemma faulted_simps [simp]:
  "faulted (Inl e) = store_fault e" "\<not> faulted (Inr x)" "store_fault (sled_error s)" "store_fault (sled_batch_error s)"
  by (simp_all add: faulted_def store_fault_def sled_error_def sled_batch_error_def)

section \<open>Records under keys, and one call\<close>

text \<open>The database holds exactly the records \<open>m\<close> under the keys of a store.\<close>

definition stored :: "'r codec \<Rightarrow> ('k \<Rightarrow> bytes) \<Rightarrow> (bytes \<rightharpoonup> bytes) \<Rightarrow> ('k \<rightharpoonup> 'r) \<Rightarrow> bool" where
  "stored j key v m \<longleftrightarrow> (\<forall>i. rec_of j (v (key i)) = Inr (m i))"

text \<open>
  A call on the database is matched by one in memory: the same answer and related states, or an
  error of the database and the state before or after the call.
\<close>

definition matched :: "('d \<Rightarrow> 'm \<Rightarrow> bool) \<Rightarrow> ('d, 'a) mut_result \<Rightarrow> 'm \<Rightarrow> ('m, 'a) mut_result \<Rightarrow> bool" where
  "matched R p m q \<longleftrightarrow>
     fst p = fst q \<and> R (snd p) (snd q) \<or> faulted (fst p) \<and> (R (snd p) m \<or> R (snd p) (snd q))"

lemma stored_upd: "codec_ok j \<Longrightarrow> inj key \<Longrightarrow> to_vec j r = Inr b \<Longrightarrow> stored j key v m \<Longrightarrow> stored j key (v(key i \<mapsto> b)) (m(i \<mapsto> r))"
  by (auto simp: stored_def rec_of_def deserialize_def codec_ok_def inj_eq)

lemma stored_del: "inj key \<Longrightarrow> stored j key v m \<Longrightarrow> stored j key (v(key i := None)) (m(i := None))"
  by (auto simp: stored_def rec_of_def inj_eq)

lemma stored_None: "stored j key v m \<Longrightarrow> v (key i) = None \<longleftrightarrow> m i = None"
proof -
  assume "stored j key v m"
  then have "rec_of j (v (key i)) = Inr (m i)" by (simp add: stored_def)
  then show ?thesis by (cases "v (key i)") (auto simp: rec_of_def res_bind_def dest: sym split: sum.splits)
qed

context sled_db
begin

lemma write_matched:
  assumes "codec_ok j" and "inj key" and "stored j key (view d) (get m)" and "get (put r) = (get m)(i \<mapsto> r)"
  shows "matched (\<lambda>d m. stored j key (view d) (get m)) (sled_write db j (key i) r d) m (Inr (), put r)"
proof (cases "to_vec j r")
  case (Inr b)
  obtain q d1 where q: "sl_insert db d (key i) b = (q, d1)" by force
  have new: "stored j key ((view d)(key i \<mapsto> b)) (get (put r))"
    using stored_upd [OF assms(1,2) Inr assms(3), of i] assms(4) by simp
  show ?thesis
  proof (cases q)
    case (Inl e)
    then have "view d1 = view d \<or> view d1 = (view d)(key i \<mapsto> b)" using insert_err q by blast
    then show ?thesis using Inl Inr q new assms(3) by (auto simp: matched_def sled_write_alt)
  next
    case (Inr old)
    then have "view d1 = (view d)(key i \<mapsto> b)" using insert_ok q by blast
    then show ?thesis using Inr \<open>to_vec j r = Inr b\<close> q new by (simp add: matched_def sled_write_alt)
  qed
qed (use assms(3) in \<open>simp add: matched_def sled_write_alt store_fault_def\<close>)

lemma read_matched:
  assumes "stored j key (view d) m"
  shows "view (snd (sled_read db j (key i) d)) = view d \<and>
    (fst (sled_read db j (key i) d) = Inr (m i) \<or> faulted (fst (sled_read db j (key i) d)))"
proof (cases "sl_get db d (key i)")
  case (Pair q d1)
  then have "view d1 = view d" using get_same [of d "key i"] by simp
  then show ?thesis
    using Pair assms get_ok [of d "key i" _ d1] by (cases q) (auto simp: sled_read_alt stored_def)
qed

lemma update_matched:
  assumes "codec_ok j" and "inj key" and "stored j key (view d) (get m)"
    and "\<And>r a. f (get m i) = Inr (r, a) \<Longrightarrow> get (put r) = (get m)(i \<mapsto> r)"
  shows "matched (\<lambda>d m. stored j key (view d) (get m)) (sled_update db j (key i) f d) m
    (case f (get m i) of Inl e \<Rightarrow> (Inl e, m) | Inr (r, a) \<Rightarrow> (Inr a, put r))"
proof -
  obtain q d1 where q: "sled_read db j (key i) d = (q, d1)" by force
  with read_matched [OF assms(3), of i] have v: "view d1 = view d" "q = Inr (get m i) \<or> faulted q" by simp_all
  show ?thesis
  proof (cases "q = Inr (get m i)")
    case True
    show ?thesis
    proof (cases "f (get m i)")
      case (Inr p)
      obtain r a where p: "p = (r, a)" by force
      have "matched (\<lambda>d m. stored j key (view d) (get m)) (sled_write db j (key i) r d1) m (Inr (), put r)"
        using write_matched [OF assms(1,2), of d1 get m put r i] assms(3) assms(4) [of r a] v Inr p by simp
      then show ?thesis using True q Inr p
        by (cases "sled_write db j (key i) r d1"; cases "fst (sled_write db j (key i) r d1)")
          (auto simp: matched_def sled_update_def)
    qed (use True q v assms(3) in \<open>simp add: matched_def sled_update_def\<close>)
  next
    case False
    then obtain e where "q = Inl e" "store_fault e" using v by (cases q) simp_all
    then show ?thesis using q v assms(3) by (simp add: matched_def sled_update_def)
  qed
qed

lemma create_matched:
  assumes "codec_ok j" and "inj key" and "stored j key (view d) (get m)" and "get (put r) = (get m)(i \<mapsto> r)"
  shows "matched (\<lambda>d m. stored j key (view d) (get m)) (sled_create db j (key i) taken r d) m
    (if get m i \<noteq> None then (taken, m) else (Inr (), put r))"
proof -
  obtain q d1 where q: "sl_get db d (key i) = (q, d1)" by force
  then have v: "view d1 = view d" using get_same [of d "key i"] by simp
  show ?thesis
  proof (cases q)
    case (Inl e)
    then show ?thesis using q v assms(3) by (simp add: matched_def sled_create_def map_err_def)
  next
    case (Inr x)
    then have x: "x = None \<longleftrightarrow> get m i = None" using get_ok q stored_None [OF assms(3)] by metis
    have "matched (\<lambda>d m. stored j key (view d) (get m)) (sled_write db j (key i) r d1) m (Inr (), put r)"
      using write_matched [OF assms(1,2), of d1 get m put r i] assms(3,4) v by simp
    then show ?thesis using Inr q x v assms(3) by (auto simp: matched_def sled_create_def map_err_def)
  qed
qed

text \<open>The same for a store that is a map by identifier.\<close>

lemmas write_matched_hm = write_matched [where get = map_of and put = "\<lambda>r. hm_insert i r m" and i = i and m = m for i m, OF _ _ _ hm_get_insert]
lemmas create_matched_hm = create_matched [where get = map_of and put = "\<lambda>r. hm_insert i r m" and i = i and m = m for i m, OF _ _ _ hm_get_insert]

lemma update_matched_hm:
  assumes "codec_ok j" and "inj key" and "stored j key (view d) (map_of m)"
    and "q = (case f (map_of m i) of Inl e \<Rightarrow> (Inl e, m) | Inr (r, a) \<Rightarrow> (Inr a, hm_insert i r m))"
  shows "matched (\<lambda>d m. stored j key (view d) (map_of m)) (sled_update db j (key i) f d) m q"
  unfolding assms(4) by (rule update_matched [OF assms(1,2), where get = map_of, OF assms(3) hm_get_insert])

end

section \<open>The stores one by one\<close>

lemma key_inj [simp]:
  "inj nonce_key" "inj account_key" "inj reservation_key" "inj idempotency_key" "inj utxo_key" "inj withdrawal_key" "inj member_key"
  by (auto intro!: injI simp: reservation_key_def idempotency_key_def member_key_def)

definition utxo_lookup :: "utxo_vec \<Rightarrow> string \<Rightarrow> utxo_entry option" where
  "utxo_lookup es k = List.find (\<lambda>e. canonical_key e = k) es"

lemma find_utxo_lookup: "find_utxo p es = utxo_lookup es (to_canonical_string p)"
  by (simp add: find_utxo_def utxo_lookup_def)

lemma utxo_lookup_add: "utxo_lookup es (canonical_key u) = None \<Longrightarrow> utxo_lookup (es @ [u]) = (utxo_lookup es)(canonical_key u \<mapsto> u)"
  by (rule ext) (induction es, auto simp: utxo_lookup_def)

lemma utxo_lookup_key: "utxo_lookup es k = Some e \<Longrightarrow> canonical_key e = k"
  by (simp add: utxo_lookup_def find_Some_iff) auto

lemma utxo_lookup_update:
  assumes "utxo_lookup es (to_canonical_string p) = Some e" and "\<And>e. outpoint_of (f e) = outpoint_of e"
  shows "utxo_lookup (update_utxo p f es) = (utxo_lookup es)(to_canonical_string p \<mapsto> f e)"
proof
  fix k
  have key: "canonical_key (f e) = canonical_key e" for e by (simp add: canonical_key_def assms(2))
  show "utxo_lookup (update_utxo p f es) k = ((utxo_lookup es)(to_canonical_string p \<mapsto> f e)) k"
    using assms(1) by (induction es) (auto simp: utxo_lookup_def update_utxo_def key)
qed

definition nonces_stored :: "(bytes \<rightharpoonup> bytes) \<Rightarrow> nonce_set \<Rightarrow> bool" where
  "nonces_stored v s \<longleftrightarrow> (\<forall>n. v (nonce_key n) \<noteq> None \<longleftrightarrow> n \<in> s)"

text \<open>
  The in-memory snapshots together with the sequence of the snapshot saved last, which the
  in-memory store does not keep, and the database that holds them: it points to that sequence.
\<close>

definition save_noted ::
    "crypto \<Rightarrow> snapshot_store_inner \<times> u64 option \<Rightarrow> certified_snapshot \<Rightarrow> (snapshot_store_inner \<times> u64 option, unit) mut_result" where
  "save_noted c p k =
     (case save_snapshot c (fst p) k of
        (Inl e, st) \<Rightarrow> (Inl e, (st, snd p))
      | (Inr u, st) \<Rightarrow> (Inr u, (st, Some (cs_sequence k))))"

definition snapshots_stored :: "certified_snapshot codec \<Rightarrow> (bytes \<rightharpoonup> bytes) \<Rightarrow> snapshot_store_inner \<times> u64 option \<Rightarrow> bool" where
  "snapshots_stored j v p \<longleftrightarrow> stored j snapshot_key v (map_of (snapshots (fst p))) \<and>
     v key_latest_snapshot = map_option u64_le (snd p)"

lemma nonces_stored_insert: "nonces_stored v s \<Longrightarrow> nonces_stored (v(nonce_key n \<mapsto> b)) (insert n s)"
  by (auto simp: nonces_stored_def)

context sled_db
begin

lemma mark_consumed_matched:
  assumes "nonces_stored (view d) s"
  shows "matched (\<lambda>d. nonces_stored (view d)) (sled_mark_consumed db d n) s (mark_consumed s n)"
proof (cases "sl_insert db d (nonce_key n) []")
  case (Pair q d1)
  have new: "nonces_stored ((view d)(nonce_key n \<mapsto> [])) (snd (mark_consumed s n))"
    using nonces_stored_insert [OF assms, of n "[]"] by (cases "n \<in> s") (simp_all add: mark_consumed_def insert_absorb)
  have old: "view d (nonce_key n) = None \<longleftrightarrow> n \<notin> s" using assms unfolding nonces_stored_def by blast
  show ?thesis
  proof (cases q)
    case (Inl e)
    then have "view d1 = view d \<or> view d1 = (view d)(nonce_key n \<mapsto> [])" using insert_err Pair by blast
    then show ?thesis using assms Pair Inl new by (auto simp: matched_def sled_mark_consumed_def map_err_def)
  next
    case (Inr x)
    then have "x = view d (nonce_key n)" "view d1 = (view d)(nonce_key n \<mapsto> [])" using insert_ok Pair by blast+
    then show ?thesis using old Pair Inr new by (auto simp: matched_def sled_mark_consumed_def map_err_def mark_consumed_def)
  qed
qed

lemma mark_sync_stored:
  assumes "nonces_stored (view d) s"
  shows "nonces_stored (view (sled_mark_consumed_sync db d n)) s \<or>
    nonces_stored (view (sled_mark_consumed_sync db d n)) (mark_consumed_sync s n)"
  using mark_sync_effect [of d n] assms nonces_stored_insert [OF assms, of n "[]"]
  by (auto simp: mark_consumed_sync_def)

end

context sled_ledger
begin

lemma create_reservation_matched:
  assumes "stored (jc_reservation js) reservation_key (view d) (map_of m)"
  shows "matched (\<lambda>d m. stored (jc_reservation js) reservation_key (view d) (map_of m))
    (sled_create_reservation db (jc_reservation js) d r) m (create_reservation m r)"
  unfolding sled_create_reservation_def create_reservation_def
  by (rule create_matched_hm [OF reservation_codec key_inj(3) assms])

lemma transition_matched:
  assumes "stored (jc_reservation js) reservation_key (view d) (map_of m)"
  shows "matched (\<lambda>d m. stored (jc_reservation js) reservation_key (view d) (map_of m))
    (sled_transition db (jc_reservation js) d i from to) m (reservation_transition m i from to)"
  unfolding sled_transition_def
  by (rule update_matched_hm [OF reservation_codec key_inj(3) assms])
    (simp add: reservation_transition_def split: option.split)

lemma record_matched:
  assumes "stored (jc_idempotency js) idempotency_key (view d) (map_of m)"
  shows "matched (\<lambda>d m. stored (jc_idempotency js) idempotency_key (view d) (map_of m))
    (sled_record db (jc_idempotency js) d r) m (im_record m r)"
  unfolding sled_record_def im_record_def by (rule write_matched_hm [OF idempotency_codec key_inj(4) assms])

lemma wd_call_matched:
  assumes "stored (jc_withdrawal js) withdrawal_key (view d) (map_of m)"
  shows "matched (\<lambda>d m. stored (jc_withdrawal js) withdrawal_key (view d) (map_of m))
    (sled_wd_call db (jc_withdrawal js) d k) m (wd_call m k)"
proof (cases k)
  case (WdCreate w)
  show ?thesis unfolding WdCreate sled_wd_call.simps wd_call.simps sled_wd_create_def wd_create_def
    by (rule create_matched_hm [OF withdrawal_codec key_inj(6) assms])
next
  case (WdUpdateStatus i s b)
  show ?thesis unfolding WdUpdateStatus sled_wd_call.simps wd_call.simps sled_update_status_def
    by (rule update_matched_hm [OF withdrawal_codec key_inj(6) assms]) (simp add: update_status_def split: option.split)
next
  case (WdSetAuthorization i a)
  show ?thesis unfolding WdSetAuthorization sled_wd_call.simps wd_call.simps sled_set_authorization_def
    by (rule update_matched_hm [OF withdrawal_codec key_inj(6) assms]) (simp add: set_authorization_def split: option.split)
next
  case (WdSetPsbt i c)
  show ?thesis unfolding WdSetPsbt sled_wd_call.simps wd_call.simps sled_set_psbt_def
    by (rule update_matched_hm [OF withdrawal_codec key_inj(6) assms]) (simp add: set_psbt_def split: option.split)
next
  case (WdSetBroadcastTxid i tx)
  show ?thesis unfolding WdSetBroadcastTxid sled_wd_call.simps wd_call.simps sled_set_broadcast_txid_def
    by (rule update_matched_hm [OF withdrawal_codec key_inj(6) assms]) (simp add: set_broadcast_txid_def split: option.split)
qed

lemma remove_node_matched:
  assumes "stored (jc_node js) member_key (view d) (map_of m)"
  shows "matched (\<lambda>d m. stored (jc_node js) member_key (view d) (map_of m)) (sled_remove_node db d i) m (remove_node m i)"
proof (cases "sl_remove db d (member_key i)")
  case (Pair q d1)
  have new: "stored (jc_node js) member_key ((view d)(member_key i := None)) (map_of (hm_remove i m))"
    using stored_del [OF key_inj(7) assms] by simp
  show ?thesis
  proof (cases q)
    case (Inl e)
    then have "view d1 = view d \<or> view d1 = (view d)(member_key i := None)" using remove_err Pair by blast
    then show ?thesis using assms new Pair Inl by (auto simp: matched_def sled_remove_node_def map_err_def remove_node_def)
  next
    case (Inr x)
    then have "view d1 = (view d)(member_key i := None)" using remove_ok Pair by blast
    then show ?thesis using new Pair Inr by (simp add: matched_def sled_remove_node_def map_err_def remove_node_def)
  qed
qed

lemma role_call_matched:
  assumes "stored (jc_node js) member_key (view d) (map_of m)"
  shows "matched (\<lambda>d m. stored (jc_node js) member_key (view d) (map_of m))
    (sled_role_call db (jc_node js) d k) m (mb_call m k)"
proof (cases k)
  case (RcAdd n)
  show ?thesis unfolding RcAdd sled_role_call.simps mb_call.simps sled_add_node_def add_node_def
    by (rule create_matched_hm [OF node_codec key_inj(7) assms])
next
  case (RcPromote i r)
  show ?thesis unfolding RcPromote sled_role_call.simps mb_call.simps sled_promote_def
    by (rule update_matched_hm [OF node_codec key_inj(7) assms]) (simp add: promote_def res_bind_def split: option.split sum.split)
next
  case (RcRemove i)
  then show ?thesis using remove_node_matched [OF assms] by simp
next
  case (RcHeartbeat i b)
  show ?thesis unfolding RcHeartbeat sled_role_call.simps mb_call.simps sled_update_heartbeat_def
    by (rule update_matched_hm [OF node_codec key_inj(7) assms]) (simp add: update_heartbeat_def split: option.split)
qed

end

subsection \<open>Outputs\<close>

context sled_ledger
begin

lemma utxo_update_matched:
  assumes "stored (jc_utxo js) utxo_key (view d) (utxo_lookup es)"
    and "q = (case f (utxo_lookup es (to_canonical_string p)) of Inl e \<Rightarrow> (Inl e, es) | Inr (r, a) \<Rightarrow> (Inr a, update_utxo p g es))"
    and "\<And>v r a. f v = Inr (r, a) \<Longrightarrow> \<exists>e. v = Some e \<and> r = g e" and "\<And>e. outpoint_of (g e) = outpoint_of e"
  shows "matched (\<lambda>d es. stored (jc_utxo js) utxo_key (view d) (utxo_lookup es))
    (sled_update db (jc_utxo js) (utxo_key (to_canonical_string p)) f d) es q"
  unfolding assms(2)
proof (rule update_matched [OF utxo_codec key_inj(5), where get = utxo_lookup, OF assms(1)])
  fix r a
  assume "f (utxo_lookup es (to_canonical_string p)) = Inr (r, a)"
  then obtain e where "utxo_lookup es (to_canonical_string p) = Some e" "r = g e" using assms(3) by blast
  then show "utxo_lookup (update_utxo p g es) = (utxo_lookup es)(to_canonical_string p \<mapsto> r)"
    using utxo_lookup_update assms(4) by simp
qed

lemma update_state_matched:
  assumes "stored (jc_utxo js) utxo_key (view d) (utxo_lookup es)"
  shows "matched (\<lambda>d es. stored (jc_utxo js) utxo_key (view d) (utxo_lookup es))
    (sled_update_state db (jc_utxo js) d p s) es (update_state es p s)"
  unfolding sled_update_state_def
  by (rule utxo_update_matched [OF assms, where g = "\<lambda>e. e\<lparr>ut_state := s\<rparr>"])
    (auto simp: update_state_def find_utxo_lookup res_bind_def split: option.splits sum.splits)

lemma reserve_matched:
  assumes "stored (jc_utxo js) utxo_key (view d) (utxo_lookup es)"
  shows "matched (\<lambda>d es. stored (jc_utxo js) utxo_key (view d) (utxo_lookup es))
    (sled_reserve db (jc_utxo js) d p i b) es (reserve_utxo es p i b)"
  unfolding sled_reserve_def
  by (rule utxo_update_matched [OF assms, where g = "\<lambda>e. e\<lparr>reserved_by := Some i, reserved_at_bucket := Some b\<rparr>"])
    (auto simp: reserve_utxo_def find_utxo_lookup split: option.splits if_splits)

lemma release_matched:
  assumes "stored (jc_utxo js) utxo_key (view d) (utxo_lookup es)"
  shows "matched (\<lambda>d es. stored (jc_utxo js) utxo_key (view d) (utxo_lookup es))
    (sled_release db (jc_utxo js) d p) es (release_utxo es p)"
  unfolding sled_release_def
  by (rule utxo_update_matched [OF assms, where g = "\<lambda>e. e\<lparr>reserved_by := None, reserved_at_bucket := None\<rparr>"])
    (auto simp: release_utxo_def find_utxo_lookup split: option.splits if_splits)

lemma add_utxo_matched:
  assumes "stored (jc_utxo js) utxo_key (view d) (utxo_lookup es)"
  shows "matched (\<lambda>d es. stored (jc_utxo js) utxo_key (view d) (utxo_lookup es))
    (sled_add_utxo db (jc_utxo js) d u) es (add_utxo es u)"
proof (cases "utxo_lookup es (canonical_key u)")
  case None
  then have "\<not> has_key es (canonical_key u)" by (auto simp: utxo_lookup_def find_None_iff has_key_def)
  then show ?thesis
    using create_matched [OF utxo_codec key_inj(5), where get = utxo_lookup and put = "\<lambda>_. es @ [u]", OF assms utxo_lookup_add [OF None]] None
    unfolding sled_add_utxo_def add_utxo_def by simp
next
  case (Some e)
  then have "has_key es (canonical_key u)" by (auto simp: utxo_lookup_def find_Some_iff has_key_def)
  moreover obtain q d1 where q: "sl_get db d (utxo_key (canonical_key u)) = (q, d1)" by force
  moreover have "view d1 = view d" using get_same [of d "utxo_key (canonical_key u)"] q by simp
  moreover have "x \<noteq> None" if "q = Inr x" for x using get_ok q that stored_None [OF assms, of "canonical_key u"] Some by auto
  ultimately show ?thesis using assms
    by (cases q) (auto simp: matched_def sled_add_utxo_def add_utxo_def sled_create_def map_err_def)
qed

end

subsection \<open>Accounts and snapshots\<close>

text \<open>
  The in-memory command works on the entry in place, so that a refusal may leave its marks; the
  persistent one writes back at the end and is matched by the in-memory one with the refusals
  undone.
\<close>

lemma im_apply_command_change:
  assumes "account_map_ok m"
  shows "(case command_change cmd (map_of m (bc_account_id cmd)) of
       Inl e \<Rightarrow> (Inl e, m) | Inr (r, a) \<Rightarrow> (Inr a, hm_insert (bc_account_id cmd) r m)) =
     (fst (im_apply_command m cmd),
      if is_ok (fst (im_apply_command m cmd)) then snd (im_apply_command m cmd) else m)"
proof -
  have twice: "hm_insert k v (hm_insert k w m) = hm_insert k v m" for k v w and m :: account_map
    by (simp add: hm_insert_def)
  show ?thesis
    using assms [unfolded account_map_ok_def] by (cases "map_of m (bc_account_id cmd)")
      (auto simp: command_change_def im_apply_command_def im_run_operation_def check_version_def account_new_def Let_def twice
        split: sum.splits prod.splits)
qed

lemma transfer_change_im:
  assumes "account_map_ok m"
    and "rec_of j bs = Inr (map_of m (source_account_id cmd))" and "rec_of j bd = Inr (map_of m (destination_account_id cmd))"
  shows "im_apply_transfer m cmd = (case transfer_change j cmd bs bd of
       Inl e \<Rightarrow> (Inl e, m)
     | Inr (s, t) \<Rightarrow> (Inr (s, t), hm_insert (destination_account_id cmd) t (hm_insert (source_account_id cmd) s m)))"
proof -
  have opt: "(case b of Some x \<Rightarrow> deserialize j x | None \<Rightarrow> Inl e) = (case v of Some x \<Rightarrow> Inr x | None \<Rightarrow> Inl e)"
    if "rec_of j b = Inr v" for b v e
    using that by (cases b) (auto simp: rec_of_def res_bind_def split: sum.splits)
  have debit: "account_id s = i" if "apply_debit a n = (Inr u, s)" "account_id a = i" for a s i n u
    using that by (auto simp: apply_debit_ok)
  have credit: "account_id s = i" if "apply_credit a n = (Inr u, s)" "account_id a = i" for a s i n u
    using that by (auto simp: apply_credit_ok)
  show ?thesis unfolding transfer_change_def opt [OF assms(2)] opt [OF assms(3)] im_apply_transfer_def
    using assms(1) [unfolded account_map_ok_def] by (auto simp: debit credit res_bind_def split: option.splits sum.splits prod.splits)
qed

definition accounts_stored :: "account_state codec \<Rightarrow> (bytes \<rightharpoonup> bytes) \<Rightarrow> account_map \<Rightarrow> bool" where
  "accounts_stored j v m \<longleftrightarrow> stored j account_key v (map_of m) \<and> account_map_ok m"

lemma im_apply_transfer_wf:
  assumes "account_map_ok m"
  shows "account_map_ok (snd (im_apply_transfer m t))"
proof (cases "im_apply_transfer m t")
  case (Pair q m')
  show ?thesis
  proof (cases q)
    case (Inl e)
    then show ?thesis using assms Pair im_apply_transfer_err by fastforce
  next
    case (Inr p)
    obtain x y where p: "p = (x, y)" by force
    from Pair Inr p have "m' = hm_insert (account_id y) y (hm_insert (account_id x) x m)"
      by (auto elim: im_apply_transfer_cases)
    then show ?thesis using Pair assms by (simp add: account_map_ok_insert)
  qed
qed

context sled_ledger
begin

lemma command_matched:
  assumes "accounts_stored (jc_account js) (view d) m"
  shows "matched (\<lambda>d. accounts_stored (jc_account js) (view d)) (sled_apply_command db (jc_account js) d cmd) m
    (fst (im_apply_command m cmd), if is_ok (fst (im_apply_command m cmd)) then snd (im_apply_command m cmd) else m)"
proof -
  note a = assms [unfolded accounts_stored_def]
  have "matched (\<lambda>d m. stored (jc_account js) account_key (view d) (map_of m)) (sled_apply_command db (jc_account js) d cmd) m
    (fst (im_apply_command m cmd), if is_ok (fst (im_apply_command m cmd)) then snd (im_apply_command m cmd) else m)"
    unfolding sled_apply_command_def
    by (rule update_matched_hm [OF account_codec key_inj(2)]) (use a im_apply_command_change [of m cmd] in simp_all)
  then show ?thesis using a im_apply_command_wf [of m cmd] by (auto simp: matched_def accounts_stored_def)
qed

lemma batch_effect:
  "sl_apply_batch db d ps = (q, d') \<Longrightarrow> view d' = batch_view (view d) ps \<or> \<not> is_ok q \<and> view d' = view d"
  using batch_ok [of d ps _ d'] batch_err [of d ps _ d'] by (cases q) fastforce+

lemma transfer_write_matched:
  fixes t :: internal_transfer_command
  defines "src \<equiv> account_key (source_account_id t)" and "dst \<equiv> account_key (destination_account_id t)"
  assumes "accounts_stored (jc_account js) (view d) m"
    and "im_apply_transfer m t = (Inr (x, y), hm_insert (destination_account_id t) y (hm_insert (source_account_id t) x m))"
  shows "matched (\<lambda>d. accounts_stored (jc_account js) (view d))
    (case serialize (jc_account js) x of
       Inl e \<Rightarrow> (Inl e, d)
     | Inr b1 \<Rightarrow> (case serialize (jc_account js) y of
         Inl e \<Rightarrow> (Inl e, d)
       | Inr b2 \<Rightarrow> io_bind (map_err sled_batch_error (sl_apply_batch db d [(src, b1), (dst, b2)])) (\<lambda>_ d3. (Inr (x, y), d3))))
    m (im_apply_transfer m t)"
proof (cases "to_vec (jc_account js) x")
  case (Inl e)
  then show ?thesis using assms(3) by (simp add: matched_def serialize_def store_fault_def)
next
  case b1: (Inr b1)
  note a = assms(3) [unfolded accounts_stored_def]
  show ?thesis
  proof (cases "to_vec (jc_account js) y")
    case (Inl e)
    then show ?thesis using b1 assms(3) by (simp add: matched_def serialize_def store_fault_def)
  next
    case b2: (Inr b2)
    obtain q d' where q: "sl_apply_batch db d [(src, b1), (dst, b2)] = (q, d')" by force
    have "stored (jc_account js) account_key ((view d)(src \<mapsto> b1, dst \<mapsto> b2)) (map_of (snd (im_apply_transfer m t)))"
      using stored_upd [OF account_codec key_inj(2) b2 stored_upd [OF account_codec key_inj(2) b1 conjunct1 [OF a]]] assms(4)
      by (simp add: src_def dst_def)
    then have "accounts_stored (jc_account js) (batch_view (view d) [(src, b1), (dst, b2)]) (snd (im_apply_transfer m t))"
      using im_apply_transfer_wf [OF conjunct2 [OF a], of t] by (simp add: accounts_stored_def batch_view_def)
    with batch_effect [OF q] show ?thesis using assms(3,4) b1 b2 q
      by (cases q) (auto simp: matched_def map_err_def serialize_def)
  qed
qed

lemma transfer_matched:
  assumes "accounts_stored (jc_account js) (view d) m"
  shows "matched (\<lambda>d. accounts_stored (jc_account js) (view d)) (sled_apply_transfer db (jc_account js) d t) m (im_apply_transfer m t)"
proof -
  let ?j = "jc_account js" and ?src = "account_key (source_account_id t)" and ?dst = "account_key (destination_account_id t)"
  note a = assms [unfolded accounts_stored_def]
  obtain q1 d1 q2 d2 where g: "sl_get db d ?src = (q1, d1)" "sl_get db d1 ?dst = (q2, d2)" by (metis surj_pair)
  then have v: "view d1 = view d" "view d2 = view d" using get_same by (metis snd_conv)+
  show ?thesis
  proof (cases "is_ok q1 \<and> is_ok q2")
    case True
    then have q: "q1 = Inr (view d ?src)" "q2 = Inr (view d ?dst)" using g v get_ok by (metis is_ok_iff)+
    have rec: "rec_of ?j (view d ?src) = Inr (map_of m (source_account_id t))"
        "rec_of ?j (view d ?dst) = Inr (map_of m (destination_account_id t))" using a by (simp_all add: stored_def)
    note im = transfer_change_im [OF conjunct2 [OF a] rec]
    show ?thesis
    proof (cases "transfer_change ?j t (view d ?src) (view d ?dst)")
      case (Inl e)
      then show ?thesis using im g q v assms by (simp add: matched_def sled_apply_transfer_def map_err_def)
    next
      case (Inr p)
      obtain x y where p: "p = (x, y)" by force
      show ?thesis
        using transfer_write_matched [of d2 m t x y] im assms v Inr p g q by (simp add: sled_apply_transfer_def map_err_def)
    qed
  next
    case False
    then show ?thesis using g v assms
      by (cases q1; cases q2) (simp_all add: matched_def sled_apply_transfer_def map_err_def)
  qed
qed

lemma save_snapshot_matched:
  assumes "snapshots_stored (jc_snapshot js) (view d) p"
  shows "matched (\<lambda>d. snapshots_stored (jc_snapshot js) (view d))
    (sled_save_snapshot db c (jc_snapshot js) d k) p (save_noted c p k)"
proof (cases "cs_verify_basic c k")
  case (Inl e)
  then show ?thesis using assms by (simp add: matched_def sled_save_snapshot_def save_noted_def save_snapshot_def)
next
  case ok: (Inr u)
  show ?thesis
  proof (cases "to_vec (jc_snapshot js) k")
    case (Inl e)
    then show ?thesis using ok assms by (simp add: matched_def sled_save_snapshot_def serialize_def store_fault_def)
  next
    case (Inr b)
    let ?ps = "[(snapshot_key (cs_sequence k), b), (key_latest_snapshot, u64_le (cs_sequence k))]"
    obtain q d' where q: "sl_apply_batch db d ?ps = (q, d')" by force
    have "inj snapshot_key" by (auto intro: injI)
    from stored_upd [OF snapshot_codec this Inr conjunct1 [OF assms [unfolded snapshots_stored_def]]]
    have "snapshots_stored (jc_snapshot js) (batch_view (view d) ?ps) (snd (save_noted c p k))"
      using ok by (simp add: batch_view_def save_noted_def save_snapshot_def Let_def stored_def snapshots_stored_def)
    moreover have "fst (save_noted c p k) = Inr ()" using ok by (simp add: save_noted_def save_snapshot_def Let_def)
    moreover note batch_effect [OF q]
    ultimately show ?thesis using assms ok Inr q
      by (cases q) (auto simp: matched_def sled_save_snapshot_def serialize_def map_err_def)
  qed
qed

end

subsection \<open>Expiry\<close>

lemma str_bytes_inverse: "str_bytes (bytes_str bs) = bs"
proof -
  have "(of_char (char_of (unat x)) :: u8) = x" for x :: u8
  proof -
    have "(of_char (char_of (unat x)) :: u8) = of_nat (of_char (char_of (unat x)))" by (simp only: of_nat_of_char)
    also have "\<dots> = of_nat (unat x mod 256)" by (simp only: of_char_of)
    also have "unat x mod 256 = unat x" using unsigned_less [of x, where 'a = nat] by simp
    finally show ?thesis by simp
  qed
  then show ?thesis by (simp add: str_bytes_def bytes_str_def comp_def)
qed

lemma reservation_key_surj: "prefix (str_bytes prefix_reservation) key \<Longrightarrow> \<exists>i. key = reservation_key i"
proof -
  assume "prefix (str_bytes prefix_reservation) key"
  then obtain bs where "key = str_bytes prefix_reservation @ bs" by (auto simp: prefix_def)
  then show ?thesis unfolding reservation_key_def sled_key_def by (metis str_bytes_inverse)
qed

lemma expire_one_map: "map_of m i = Some r \<Longrightarrow> snd (expire_one i (n, m)) = hm_insert i (r\<lparr>rs_state := RsExpired\<rparr>) m"
  by (simp add: expire_one_def)

lemma fold_expire_snd: "snd (fold expire_one ids (n, m)) = snd (fold expire_one ids (0, m))"
proof (induction ids arbitrary: n m)
  case (Cons i ids)
  show ?case
    using Cons.IH [of "n + 1"] Cons.IH [of 1] Cons.IH [of n] by (cases "map_of m i") (simp_all add: expire_one_def)
qed simp

lemma stale_keys_distinct:
  "distinct (map fst (List.map_filter (\<lambda>r. case r of Inl e \<Rightarrow> None | Inr x \<Rightarrow> Some x) rs)) \<Longrightarrow>
     distinct (map fst (List.map_filter (stale_entry j now) rs))"
proof (induction rs)
  case (Cons x rs)
  let ?ok = "\<lambda>r :: string + bytes \<times> bytes. case r of Inl e \<Rightarrow> None | Inr x \<Rightarrow> Some x"
  have keys: "key \<in> fst ` set (List.map_filter ?ok rs)" if "(key, r) \<in> set (List.map_filter (stale_entry j now) rs)" for key r
  proof -
    from that obtain b where "Inr (key, b) \<in> set rs" by (auto simp: in_map_filter stale_entry_Some)
    then have "(key, b) \<in> set (List.map_filter ?ok rs)" unfolding in_map_filter by (rule bexI [rotated]) simp
    then show ?thesis by (rule image_eqI [rotated]) simp
  qed
  show ?case
  proof (cases "stale_entry j now x")
    case None
    then show ?thesis using Cons by (cases x) (simp_all add: map_filter_simps)
  next
    case (Some y)
    then obtain key b r where x: "x = Inr (key, b)" "y = (key, r)" by (cases y) (auto simp: stale_entry_Some)
    then have "key \<notin> fst ` set (List.map_filter ?ok rs)" using Cons.prems by (simp add: map_filter_simps)
    then have "key \<notin> fst ` set (List.map_filter (stale_entry j now) rs)" using keys by force
    then show ?thesis using Cons Some x by (simp add: map_filter_simps)
  qed
qed (simp add: map_filter_simps)

context sled_ledger
begin

lemma expire_entry_stored:
  assumes "stored (jc_reservation js) reservation_key (view d) (map_of m)" and "map_of m i = Some r"
  shows "\<exists>m'. m' \<in> {m, snd (expire_one i (0, m))} \<and>
    stored (jc_reservation js) reservation_key (view (snd (expire_entry db (jc_reservation js) (reservation_key i, r) (n, d)))) (map_of m')"
proof (cases "to_vec (jc_reservation js) (r\<lparr>rs_state := RsExpired\<rparr>)")
  case (Inl e)
  then show ?thesis using assms(1) by (auto simp: expire_entry_def serialize_def)
next
  case (Inr b)
  obtain q d1 where q: "sl_insert db d (reservation_key i) b = (q, d1)" by force
  have "view d1 = view d \<or> view d1 = (view d)(reservation_key i \<mapsto> b)"
    using q insert_err [of d "reservation_key i" b _ d1] insert_ok [of d "reservation_key i" b _ d1] by (cases q) fastforce+
  moreover have "stored (jc_reservation js) reservation_key ((view d)(reservation_key i \<mapsto> b)) (map_of (snd (expire_one i (0, m))))"
    using stored_upd [OF reservation_codec key_inj(3) Inr assms(1), of i] assms(2) by (simp add: expire_one_map)
  ultimately show ?thesis using assms(1) Inr q by (auto simp: expire_entry_def serialize_def)
qed

lemma expire_fold_stored:
  assumes "stored (jc_reservation js) reservation_key (view d) (map_of m)"
    and "\<forall>(i, r) \<in> set es. map_of m i = Some r" and "distinct (map fst es)"
  shows "\<exists>ids. set ids \<subseteq> fst ` set es \<and>
    fst (fold (expire_entry db (jc_reservation js)) (map (apfst reservation_key) es) (n, d)) = n + of_nat (length es) \<and>
    stored (jc_reservation js) reservation_key
      (view (snd (fold (expire_entry db (jc_reservation js)) (map (apfst reservation_key) es) (n, d))))
      (map_of (snd (fold expire_one ids (0, m))))"
  using assms
proof (induction es arbitrary: d m n)
  case Nil
  then show ?case by (auto intro!: exI [of _ "[]"])
next
  case (Cons e es)
  obtain i r where e: "e = (i, r)" by force
  let ?s = "expire_entry db (jc_reservation js) (reservation_key i, r) (n, d)"
  obtain m' where m': "m' \<in> {m, snd (expire_one i (0, m))}"
      "stored (jc_reservation js) reservation_key (view (snd ?s)) (map_of m')"
    using expire_entry_stored [OF Cons.prems(1), of i r n] Cons.prems(2) e by auto
  have "\<forall>(k, q) \<in> set es. map_of m' k = Some q"
    using Cons.prems(2,3) e m'(1) by (force simp: expire_one_def)
  from Cons.IH [OF m'(2) this, of "fst ?s"] Cons.prems(3) obtain ids where ids: "set ids \<subseteq> fst ` set es"
      "fst (fold (expire_entry db (jc_reservation js)) (map (apfst reservation_key) es) ?s) = n + of_nat (length (e # es))"
      "stored (jc_reservation js) reservation_key
        (view (snd (fold (expire_entry db (jc_reservation js)) (map (apfst reservation_key) es) ?s)))
        (map_of (snd (fold expire_one ids (0, m'))))"
    by (auto simp: expire_entry_def)
  have "\<exists>ids'. set ids' \<subseteq> insert i (set ids) \<and> snd (fold expire_one ids' (0, m)) = snd (fold expire_one ids (0, m'))"
  proof (cases "m' = m")
    case False
    then have "snd (fold expire_one (i # ids) (0, m)) = snd (fold expire_one ids (0, m'))"
      using m'(1) fold_expire_snd [of ids "fst (expire_one i (0, m))" m'] by simp
    then show ?thesis by (metis list.simps(15) order_refl)
  qed blast
  then obtain ids' where "set ids' \<subseteq> insert i (set ids)" "snd (fold expire_one ids' (0, m)) = snd (fold expire_one ids (0, m'))"
    by blast
  then show ?case using ids e by (intro exI [of _ ids']) auto
qed

text \<open>
  What \<open>expire_stale\<close> may do: some of the stale reservations expire, no other one changes, and
  the number it reports is that of the stale reservations it saw.
\<close>

lemma expire_stale_stored:
  assumes "stored (jc_reservation js) reservation_key (view d) (map_of m)"
    and "sled_expire_stale db (jc_reservation js) d now = (res, d')"
  shows "\<exists>seen ids. set ids \<subseteq> set seen \<and> distinct seen \<and> res = Inr (of_nat (length seen)) \<and>
    (\<forall>i \<in> set seen. \<exists>r. map_of m i = Some r \<and> rs_expires_at_bucket r \<le> now \<and> \<not> reservation_is_terminal r) \<and>
    stored (jc_reservation js) reservation_key (view d') (map_of (snd (fold expire_one ids (0, m))))"
proof -
  let ?j = "jc_reservation js"
  obtain rs d1 where rs: "sl_scan_prefix db d (str_bytes prefix_reservation) = (rs, d1)" by force
  let ?es = "List.map_filter (stale_entry ?j now) rs"
  have same: "view d1 = view d" using scan_same [of d "str_bytes prefix_reservation"] rs by simp
  have entry: "\<exists>i. key = reservation_key i \<and> map_of m i = Some r \<and> rs_expires_at_bucket r \<le> now \<and> \<not> reservation_is_terminal r"
    if "(key, r) \<in> set ?es" for key r
  proof -
    from that obtain b where b: "Inr (key, b) \<in> set rs" "deserialize ?j b = Inr r" "rs_expires_at_bucket r \<le> now" "\<not> reservation_is_terminal r"
      by (auto simp: in_map_filter stale_entry_Some)
    from b(1) have k: "prefix (str_bytes prefix_reservation) key" "view d key = Some b"
      using scan_sound [of key b d "str_bytes prefix_reservation"] rs by simp_all
    then obtain i where i: "key = reservation_key i" using reservation_key_surj by blast
    have "rec_of ?j (view d (reservation_key i)) = Inr (map_of m i)" using assms(1) by (simp add: stored_def)
    then have "map_of m i = Some r" using k(2) b(2) i by (simp add: rec_of_def)
    with i b show ?thesis by blast
  qed
  let ?es' = "map (apfst (inv reservation_key)) ?es"
  have keyed: "map (apfst reservation_key) ?es' = ?es"
    unfolding map_map by (rule map_idI) (use entry in \<open>fastforce simp: inv_f_f\<close>)
  have "distinct (map fst ?es)"
    using stale_keys_distinct scan_distinct [of d "str_bytes prefix_reservation"] rs by simp
  moreover have "map fst ?es = map reservation_key (map fst ?es')"
    using keyed by (metis (no_types, lifting) fst_apfst map_map comp_apply map_cong)
  ultimately have dist: "distinct (map fst ?es')" using distinct_map by metis
  have all: "\<forall>(i, r) \<in> set ?es'. map_of m i = Some r"
    using entry by (fastforce simp: inv_f_f)
  from expire_fold_stored [OF _ all dist, of d1 0] assms(1) same keyed obtain ids where
    ids: "set ids \<subseteq> fst ` set ?es'"
      "fst (fold (expire_entry db ?j) ?es (0, d1)) = of_nat (length ?es')"
      "stored ?j reservation_key (view (snd (fold (expire_entry db ?j) ?es (0, d1)))) (map_of (snd (fold expire_one ids (0, m))))"
    by auto
  have "res = Inr (of_nat (length (map fst ?es')))" "d' = snd (fold (expire_entry db ?j) ?es (0, d1))"
    using assms(2) rs ids(2) by (auto simp: sled_expire_stale_def split: prod.splits)
  moreover have "\<forall>i \<in> set (map fst ?es'). \<exists>r. map_of m i = Some r \<and> rs_expires_at_bucket r \<le> now \<and> \<not> reservation_is_terminal r"
    using entry by (fastforce simp: inv_f_f)
  ultimately have "set ids \<subseteq> set (map fst ?es') \<and> distinct (map fst ?es') \<and> res = Inr (of_nat (length (map fst ?es'))) \<and>
      (\<forall>i \<in> set (map fst ?es'). \<exists>r. map_of m i = Some r \<and> rs_expires_at_bucket r \<le> now \<and> \<not> reservation_is_terminal r) \<and>
      stored ?j reservation_key (view d') (map_of (snd (fold expire_one ids (0, m))))"
    using ids dist by (simp add: image_image)
  then show ?thesis by blast
qed

end

section \<open>All stores of a node\<close>

text \<open>
  The field \<open>ms_last_saved\<close> is a history of the calls and belongs to no store: no in-memory call
  reads it.
\<close>

record mem_stores =
  ms_nonces :: nonce_set
  ms_accounts :: account_map
  ms_reservations :: reservation_map
  ms_records :: idempotency_map
  ms_utxos :: utxo_vec
  ms_withdrawals :: withdrawal_map
  ms_snapshots :: snapshot_store_inner
  ms_last_saved :: "u64 option"
  ms_members :: membership_map

definition mem_new :: mem_stores where
  "mem_new = \<lparr>ms_nonces = {}, ms_accounts = [], ms_reservations = [], ms_records = [], ms_utxos = [],
     ms_withdrawals = [], ms_snapshots = snapshot_store_new, ms_last_saved = None, ms_members = []\<rparr>"

datatype store_answer = Done | OneAccount account_state | TwoAccounts "account_state \<times> account_state" | Counted u64

definition answered :: "('a \<Rightarrow> store_answer) \<Rightarrow> ('s \<Rightarrow> 't) \<Rightarrow> ('s, 'a) mut_result \<Rightarrow> ('t, store_answer) mut_result" where
  "answered f g p = (case p of (Inl e, s) \<Rightarrow> (Inl e, g s) | (Inr x, s) \<Rightarrow> (Inr (f x), g s))"

abbreviation unit_answered :: "('s \<Rightarrow> 't) \<Rightarrow> ('s, unit) mut_result \<Rightarrow> ('t, store_answer) mut_result" where
  "unit_answered \<equiv> answered (\<lambda>_. Done)"

text \<open>One call on the in-memory stores, and one on the database, with its answer.\<close>

fun mem_exec :: "crypto \<Rightarrow> mem_stores \<Rightarrow> sled_call \<Rightarrow> (mem_stores, store_answer) mut_result" where
  "mem_exec c m (ScNonce (MarkConsumed n)) = unit_answered (\<lambda>s. m\<lparr>ms_nonces := s\<rparr>) (mark_consumed (ms_nonces m) n)"
| "mem_exec c m (ScNonce (MarkConsumedSync n)) = (Inr Done, m\<lparr>ms_nonces := mark_consumed_sync (ms_nonces m) n\<rparr>)"
| "mem_exec c m (ScCommand k) = answered OneAccount (\<lambda>a. m\<lparr>ms_accounts := a\<rparr>) (im_apply_command (ms_accounts m) k)"
| "mem_exec c m (ScTransfer k) = answered TwoAccounts (\<lambda>a. m\<lparr>ms_accounts := a\<rparr>) (im_apply_transfer (ms_accounts m) k)"
| "mem_exec c m (ScCreateReservation r) =
     unit_answered (\<lambda>x. m\<lparr>ms_reservations := x\<rparr>) (create_reservation (ms_reservations m) r)"
| "mem_exec c m (ScTransition i from to) =
     unit_answered (\<lambda>x. m\<lparr>ms_reservations := x\<rparr>) (reservation_transition (ms_reservations m) i from to)"
| "mem_exec c m (ScExpireStale b) = answered Counted (\<lambda>x. m\<lparr>ms_reservations := x\<rparr>) (expire_stale (ms_reservations m) b)"
| "mem_exec c m (ScRecord r) = unit_answered (\<lambda>x. m\<lparr>ms_records := x\<rparr>) (im_record (ms_records m) r)"
| "mem_exec c m (ScAddUtxo u) = unit_answered (\<lambda>x. m\<lparr>ms_utxos := x\<rparr>) (add_utxo (ms_utxos m) u)"
| "mem_exec c m (ScUpdateState p s) = unit_answered (\<lambda>x. m\<lparr>ms_utxos := x\<rparr>) (update_state (ms_utxos m) p s)"
| "mem_exec c m (ScReserve p i b) = unit_answered (\<lambda>x. m\<lparr>ms_utxos := x\<rparr>) (reserve_utxo (ms_utxos m) p i b)"
| "mem_exec c m (ScRelease p) = unit_answered (\<lambda>x. m\<lparr>ms_utxos := x\<rparr>) (release_utxo (ms_utxos m) p)"
| "mem_exec c m (ScWithdrawal k) = unit_answered (\<lambda>x. m\<lparr>ms_withdrawals := x\<rparr>) (wd_call (ms_withdrawals m) k)"
| "mem_exec c m (ScSaveSnapshot k) = 
     unit_answered (\<lambda>x. m\<lparr>ms_snapshots := fst x, ms_last_saved := snd x\<rparr>) (save_noted c (ms_snapshots m, ms_last_saved m) k)"
| "mem_exec c m (ScRole k) = unit_answered (\<lambda>x. m\<lparr>ms_members := x\<rparr>) (mb_call (ms_members m) k)"

fun sled_exec :: "'d sled \<Rightarrow> crypto \<Rightarrow> ledger_codecs \<Rightarrow> 'd \<Rightarrow> sled_call \<Rightarrow> ('d, store_answer) mut_result" where
  "sled_exec db c js d (ScNonce (MarkConsumed n)) = unit_answered id (sled_mark_consumed db d n)"
| "sled_exec db c js d (ScNonce (MarkConsumedSync n)) = (Inr Done, sled_mark_consumed_sync db d n)"
| "sled_exec db c js d (ScCommand k) = answered OneAccount id (sled_apply_command db (jc_account js) d k)"
| "sled_exec db c js d (ScTransfer k) = answered TwoAccounts id (sled_apply_transfer db (jc_account js) d k)"
| "sled_exec db c js d (ScCreateReservation r) = unit_answered id (sled_create_reservation db (jc_reservation js) d r)"
| "sled_exec db c js d (ScTransition i from to) = unit_answered id (sled_transition db (jc_reservation js) d i from to)"
| "sled_exec db c js d (ScExpireStale b) = answered Counted id (sled_expire_stale db (jc_reservation js) d b)"
| "sled_exec db c js d (ScRecord r) = unit_answered id (sled_record db (jc_idempotency js) d r)"
| "sled_exec db c js d (ScAddUtxo u) = unit_answered id (sled_add_utxo db (jc_utxo js) d u)"
| "sled_exec db c js d (ScUpdateState p s) = unit_answered id (sled_update_state db (jc_utxo js) d p s)"
| "sled_exec db c js d (ScReserve p i b) = unit_answered id (sled_reserve db (jc_utxo js) d p i b)"
| "sled_exec db c js d (ScRelease p) = unit_answered id (sled_release db (jc_utxo js) d p)"
| "sled_exec db c js d (ScWithdrawal k) = unit_answered id (sled_wd_call db (jc_withdrawal js) d k)"
| "sled_exec db c js d (ScSaveSnapshot k) = unit_answered id (sled_save_snapshot db c (jc_snapshot js) d k)"
| "sled_exec db c js d (ScRole k) = unit_answered id (sled_role_call db (jc_node js) d k)"

lemma answered_simps [simp]:
  "snd (answered f g p) = g (snd p)" "fst (answered f g p) = (case fst p of Inl e \<Rightarrow> Inl e | Inr x \<Rightarrow> Inr (f x))"
  by (auto simp: answered_def split: prod.split sum.split)

lemma sled_exec_step: "snd (sled_exec db c js d k) = sled_step db c js d k"
  by (cases "(db, c, js, d, k)" rule: sled_exec.cases) simp_all

text \<open>The database holds what the in-memory stores hold, and points to the snapshot saved last.\<close>

definition represents :: "ledger_codecs \<Rightarrow> (bytes \<rightharpoonup> bytes) \<Rightarrow> mem_stores \<Rightarrow> bool" where
  "represents js v m \<longleftrightarrow>
     nonces_stored v (ms_nonces m) \<and>
     accounts_stored (jc_account js) v (ms_accounts m) \<and>
     stored (jc_reservation js) reservation_key v (map_of (ms_reservations m)) \<and>
     stored (jc_idempotency js) idempotency_key v (map_of (ms_records m)) \<and>
     stored (jc_utxo js) utxo_key v (utxo_lookup (ms_utxos m)) \<and>
     stored (jc_withdrawal js) withdrawal_key v (map_of (ms_withdrawals m)) \<and>
     snapshots_stored (jc_snapshot js) v (ms_snapshots m, ms_last_saved m) \<and>
     stored (jc_node js) member_key v (map_of (ms_members m))"

lemma represents_new: "represents js (\<lambda>_. None) mem_new"
  by (simp add: represents_def mem_new_def nonces_stored_def stored_def rec_of_def utxo_lookup_def
      accounts_stored_def account_map_ok_def snapshot_store_new_def snapshots_stored_def)

lemma stored_frame:
  assumes "stored j key v m" and "\<And>k. \<not> in_store s k \<Longrightarrow> v' k = v k" and "\<And>i. in_store t (key i)" and "t \<noteq> s"
  shows "stored j key v' m"
proof -
  have "v' (key i) = v (key i)" for i using assms(2,3,4) stores_disjoint by blast
  with assms(1) show ?thesis by (simp add: stored_def)
qed

lemma nonces_frame:
  assumes "nonces_stored v m" and "\<And>k. \<not> in_store s k \<Longrightarrow> v' k = v k" and "Nonces \<noteq> s"
  shows "nonces_stored v' m"
proof -
  have "v' (nonce_key i) = v (nonce_key i)" for i using assms(2,3) stores_disjoint store_keys(1) by blast
  with assms(1) show ?thesis by (simp add: nonces_stored_def)
qed

lemma snapshots_frame:
  assumes "snapshots_stored j v p" and "\<And>k. \<not> in_store s k \<Longrightarrow> v' k = v k" and "Snapshots \<noteq> s"
  shows "snapshots_stored j v' p"
proof -
  have "v' key_latest_snapshot = v key_latest_snapshot" using assms(2,3) stores_disjoint store_keys(8) by blast
  moreover have "stored j snapshot_key v' (map_of (snapshots (fst p)))"
    by (rule stored_frame [where s = s and v = v, OF _ _ store_keys(7)]) (use assms in \<open>auto simp: snapshots_stored_def\<close>)
  ultimately show ?thesis using assms(1) by (simp add: snapshots_stored_def)
qed

text \<open>
  What a call on the database may look like from the in-memory stores: answered as there; failed
  with an error of the database, without or with its effect; or one of the two calls that hide
  such an error.
\<close>

definition is_stale :: "reservation_map \<Rightarrow> u64 \<Rightarrow> string \<Rightarrow> bool" where
  "is_stale m now i \<longleftrightarrow> (case map_of m i of
       None \<Rightarrow> False
     | Some r \<Rightarrow> rs_expires_at_bucket r \<le> now \<and> \<not> reservation_is_terminal r)"

lemma is_stale_iff:
  "is_stale m now i \<longleftrightarrow> (\<exists>r. map_of m i = Some r \<and> rs_expires_at_bucket r \<le> now \<and> \<not> reservation_is_terminal r)"
  by (simp add: is_stale_def split: option.split)

fun refused_command :: "sled_call \<Rightarrow> store_answer ledger_result \<Rightarrow> bool" where
  "refused_command (ScCommand _) (Inl _) = True"
| "refused_command _ _ = False"

inductive store_step :: "crypto \<Rightarrow> mem_stores \<Rightarrow> sled_call \<Rightarrow> store_answer ledger_result \<Rightarrow> mem_stores \<Rightarrow> bool" for c where
  Answered: "mem_exec c m k = (ans, m') \<Longrightarrow> store_step c m k ans m'"
| Lost: "faulted ans \<Longrightarrow> store_step c m k ans m"
| Kept: "faulted ans \<Longrightarrow> \<not> refused_command k (fst (mem_exec c m k)) \<Longrightarrow> store_step c m k ans (snd (mem_exec c m k))"
| Undone: "mem_exec c m (ScCommand cmd) = (Inl e, m') \<Longrightarrow> store_step c m (ScCommand cmd) (Inl e) m"
| SyncLost: "store_step c m (ScNonce (MarkConsumedSync n)) (Inr Done) m"
| SomeExpired: "distinct seen \<Longrightarrow> \<forall>i \<in> set seen. is_stale (ms_reservations m) b i \<Longrightarrow> set ids \<subseteq> set seen \<Longrightarrow>
    store_step c m (ScExpireStale b) (Inr (Counted (of_nat (length seen))))
      (m\<lparr>ms_reservations := snd (fold expire_one ids (0, ms_reservations m))\<rparr>)"

inductive store_run :: "crypto \<Rightarrow> mem_stores \<Rightarrow> (sled_call \<times> store_answer ledger_result) list \<Rightarrow> mem_stores \<Rightarrow> bool" for c where
  RunNil: "store_run c m [] m"
| RunCons: "store_step c m k ans m1 \<Longrightarrow> store_run c m1 rest m' \<Longrightarrow> store_run c m ((k, ans) # rest) m'"

inductive_simps store_run_simps [simp]: "store_run c m [] m'" "store_run c m ((k, ans) # rest) m'"

text \<open>The calls of a run, with their answers.\<close>

fun sled_answers :: "'d sled \<Rightarrow> crypto \<Rightarrow> ledger_codecs \<Rightarrow> 'd \<Rightarrow> sled_call list \<Rightarrow> (sled_call \<times> store_answer ledger_result) list" where
  "sled_answers db c js d [] = []"
| "sled_answers db c js d (k # ks) = (k, fst (sled_exec db c js d k)) # sled_answers db c js (sled_step db c js d k) ks"

fun mem_answers :: "crypto \<Rightarrow> mem_stores \<Rightarrow> sled_call list \<Rightarrow> (sled_call \<times> store_answer ledger_result) list" where
  "mem_answers c m [] = []"
| "mem_answers c m (k # ks) = (k, fst (mem_exec c m k)) # mem_answers c (snd (mem_exec c m k)) ks"

definition mem_run :: "crypto \<Rightarrow> mem_stores \<Rightarrow> sled_call list \<Rightarrow> mem_stores" where
  "mem_run c m ks = fold (\<lambda>k m. snd (mem_exec c m k)) ks m"

lemma matched_step:
  assumes "matched (\<lambda>d. R (view d)) p x q" and "sled_exec db c js d k = answered f id p"
    and "mem_exec c m k = answered f put q" and "put x = m" and "\<And>y. R (view (snd p)) y \<Longrightarrow> represents js (view (snd p)) (put y)"
    and "\<not> refused_command k (fst (mem_exec c m k))"
  shows "\<exists>m'. store_step c m k (fst (sled_exec db c js d k)) m' \<and> represents js (view (snd (sled_exec db c js d k))) m'"
proof -
  consider "fst p = fst q" "R (view (snd p)) (snd q)" | "faulted (fst p)" "R (view (snd p)) x" | "faulted (fst p)" "R (view (snd p)) (snd q)"
    using assms(1) by (auto simp: matched_def)
  then show ?thesis
  proof cases
    case 1
    then have "mem_exec c m k = (fst (answered f id p), put (snd q))" by (simp add: assms(3) prod_eq_iff)
    then have "store_step c m k (fst (answered f id p)) (put (snd q))" by (rule Answered)
    with assms(2,5) 1 show ?thesis by auto
  next
    case 2
    then have "faulted (fst (answered f id p))" by (cases "fst p") simp_all
    then have "store_step c m k (fst (answered f id p)) (put x)" unfolding assms(4) by (rule Lost)
    with assms(2,5) 2 show ?thesis by auto
  next
    case 3
    then have "faulted (fst (answered f id p))" by (cases "fst p") simp_all
    then have "store_step c m k (fst (answered f id p)) (snd (mem_exec c m k))" using assms(6) by (rule Kept)
    with assms(2,3,5) 3 show ?thesis by auto
  qed
qed

text \<open>The two calls that hide errors of the database.\<close>

fun hides_faults :: "sled_call \<Rightarrow> bool" where
  "hides_faults (ScNonce (MarkConsumedSync _)) = True"
| "hides_faults (ScExpireStale _) = True"
| "hides_faults _ = False"

definition plain :: "sled_call \<times> store_answer ledger_result \<Rightarrow> bool" where
  "plain x \<longleftrightarrow> \<not> faulted (snd x) \<and> \<not> hides_faults (fst x) \<and> \<not> refused_command (fst x) (snd x)"

lemma store_step_exact: "store_step c m k ans m' \<Longrightarrow> plain (k, ans) \<Longrightarrow> mem_exec c m k = (ans, m')"
  by (erule store_step.cases) (simp_all add: plain_def)

lemma store_run_exact:
  "store_run c m kas m' \<Longrightarrow> \<forall>x \<in> set kas. plain x \<Longrightarrow>
     kas = mem_answers c m (map fst kas) \<and> m' = mem_run c m (map fst kas)"
proof (induction rule: store_run.induct)
  case (RunCons m k ans m1 rest m')
  then have "mem_exec c m k = (ans, m1)" by (simp add: store_step_exact)
  with RunCons show ?case by (simp add: mem_run_def)
qed (simp add: mem_run_def)

lemma map_fst_sled_answers [simp]: "map fst (sled_answers db c js d ks) = ks"
  by (induction ks arbitrary: d) simp_all

context sled_ledger
begin

text \<open>A call leaves the other stores as they are.\<close>

lemma represents_step:
  fixes k :: sled_call
  defines "s \<equiv> store_of k"
  assumes "represents js (view d) m"
  shows "s \<noteq> Nonces \<Longrightarrow> nonces_stored (view (sled_step db c js d k)) (ms_nonces m)"
    and "s \<noteq> Accounts \<Longrightarrow> accounts_stored (jc_account js) (view (sled_step db c js d k)) (ms_accounts m)"
    and "s \<noteq> Snapshots \<Longrightarrow>
      snapshots_stored (jc_snapshot js) (view (sled_step db c js d k)) (ms_snapshots m, ms_last_saved m)"
    and "s \<noteq> Reservations \<Longrightarrow> stored (jc_reservation js) reservation_key (view (sled_step db c js d k)) (map_of (ms_reservations m))"
    and "s \<noteq> Idempotency \<Longrightarrow> stored (jc_idempotency js) idempotency_key (view (sled_step db c js d k)) (map_of (ms_records m))"
    and "s \<noteq> Utxos \<Longrightarrow> stored (jc_utxo js) utxo_key (view (sled_step db c js d k)) (utxo_lookup (ms_utxos m))"
    and "s \<noteq> Withdrawals \<Longrightarrow> stored (jc_withdrawal js) withdrawal_key (view (sled_step db c js d k)) (map_of (ms_withdrawals m))"
    and "s \<noteq> Members \<Longrightarrow> stored (jc_node js) member_key (view (sled_step db c js d k)) (map_of (ms_members m))"
proof -
  note frame = step_frame [of k _ c js d]
  note r = assms(2) [unfolded represents_def]
  show "s \<noteq> Nonces \<Longrightarrow> nonces_stored (view (sled_step db c js d k)) (ms_nonces m)"
    by (rule nonces_frame [where s = s and v = "view d"]) (use r frame in \<open>simp_all add: s_def\<close>)
  show "s \<noteq> Accounts \<Longrightarrow> accounts_stored (jc_account js) (view (sled_step db c js d k)) (ms_accounts m)"
    unfolding accounts_stored_def
    by (rule conjI, rule stored_frame [where s = s and v = "view d", OF _ _ store_keys(2)])
      (use r frame in \<open>auto simp: s_def accounts_stored_def\<close>)
  show "s \<noteq> Snapshots \<Longrightarrow>
      snapshots_stored (jc_snapshot js) (view (sled_step db c js d k)) (ms_snapshots m, ms_last_saved m)"
    by (rule snapshots_frame [where s = s and v = "view d"]) (use r frame in \<open>auto simp: s_def\<close>)
  show "s \<noteq> Reservations \<Longrightarrow> stored (jc_reservation js) reservation_key (view (sled_step db c js d k)) (map_of (ms_reservations m))"
    by (rule stored_frame [where s = s and v = "view d", OF _ _ store_keys(3)]) (use r frame in \<open>auto simp: s_def\<close>)
  show "s \<noteq> Idempotency \<Longrightarrow> stored (jc_idempotency js) idempotency_key (view (sled_step db c js d k)) (map_of (ms_records m))"
    by (rule stored_frame [where s = s and v = "view d", OF _ _ store_keys(4)]) (use r frame in \<open>auto simp: s_def\<close>)
  show "s \<noteq> Utxos \<Longrightarrow> stored (jc_utxo js) utxo_key (view (sled_step db c js d k)) (utxo_lookup (ms_utxos m))"
    by (rule stored_frame [where s = s and v = "view d", OF _ _ store_keys(5)]) (use r frame in \<open>auto simp: s_def\<close>)
  show "s \<noteq> Withdrawals \<Longrightarrow> stored (jc_withdrawal js) withdrawal_key (view (sled_step db c js d k)) (map_of (ms_withdrawals m))"
    by (rule stored_frame [where s = s and v = "view d", OF _ _ store_keys(6)]) (use r frame in \<open>auto simp: s_def\<close>)
  show "s \<noteq> Members \<Longrightarrow> stored (jc_node js) member_key (view (sled_step db c js d k)) (map_of (ms_members m))"
    by (rule stored_frame [where s = s and v = "view d", OF _ _ store_keys(9)]) (use r frame in \<open>auto simp: s_def\<close>)
qed

lemma nonce_simulated:
  assumes "represents js (view d) m"
  shows "\<exists>m'. store_step c m (ScNonce op) (fst (sled_exec db c js d (ScNonce op))) m' \<and>
    represents js (view (sled_step db c js d (ScNonce op))) m'"
proof (cases op)
  case (MarkConsumed n)
  show ?thesis unfolding MarkConsumed
    by (rule matched_step [where put = "\<lambda>x. m\<lparr>ms_nonces := x\<rparr>", unfolded sled_exec_step, OF mark_consumed_matched])
      (use assms represents_step [OF assms, of "ScNonce (MarkConsumed n)" c] in \<open>auto simp: represents_def\<close>)
next
  case (MarkConsumedSync n)
  then have "represents js (view (sled_step db c js d (ScNonce op))) m \<or>
      represents js (view (sled_step db c js d (ScNonce op))) (snd (mem_exec c m (ScNonce op)))"
    using mark_sync_stored [of d "ms_nonces m" n] assms represents_step [OF assms, of "ScNonce op" c]
    by (auto simp: represents_def)
  then show ?thesis using MarkConsumedSync SyncLost [of c m n] Answered [of c m "ScNonce op" "Inr Done"] by force
qed

lemma expire_simulated:
  assumes "represents js (view d) m"
  shows "\<exists>m'. store_step c m (ScExpireStale b) (fst (sled_exec db c js d (ScExpireStale b))) m' \<and>
    represents js (view (sled_step db c js d (ScExpireStale b))) m'"
proof -
  obtain res d' where e: "sled_expire_stale db (jc_reservation js) d b = (res, d')" by force
  have "stored (jc_reservation js) reservation_key (view d) (map_of (ms_reservations m))"
    using assms by (simp add: represents_def)
  from expire_stale_stored [OF this e] obtain seen ids where
    x: "set ids \<subseteq> set seen" "distinct seen" "res = Inr (of_nat (length seen))"
      "\<forall>i \<in> set seen. is_stale (ms_reservations m) b i"
      "stored (jc_reservation js) reservation_key (view d') (map_of (snd (fold expire_one ids (0, ms_reservations m))))"
    unfolding is_stale_iff by blast
  show ?thesis
    using SomeExpired [OF x(2,4,1), of c] x(3,5) e represents_step [OF assms, of "ScExpireStale b" c]
    by (intro exI [of _ "m\<lparr>ms_reservations := snd (fold expire_one ids (0, ms_reservations m))\<rparr>"])
      (auto simp: represents_def answered_def)
qed

lemma utxo_simulated:
  assumes "represents js (view d) m" and "store_of k = Utxos"
  shows "\<exists>m'. store_step c m k (fst (sled_exec db c js d k)) m' \<and> represents js (view (sled_step db c js d k)) m'"
proof -
  note r = assms(1) [unfolded represents_def] and keep = represents_step [OF assms(1), of k c]
  note step = matched_step [where put = "\<lambda>x. m\<lparr>ms_utxos := x\<rparr>" and view = view and js = js and db = db and d = d
      and k = k and c = c and m = m and x = "ms_utxos m", unfolded sled_exec_step]
  show ?thesis
  proof (cases k)
    case (ScAddUtxo u)
    show ?thesis by (rule step [OF add_utxo_matched]) (use ScAddUtxo r keep in \<open>auto simp: represents_def\<close>)
  next
    case (ScUpdateState p s)
    show ?thesis by (rule step [OF update_state_matched]) (use ScUpdateState r keep in \<open>auto simp: represents_def\<close>)
  next
    case (ScReserve p i b)
    show ?thesis by (rule step [OF reserve_matched]) (use ScReserve r keep in \<open>auto simp: represents_def\<close>)
  next
    case (ScRelease p)
    show ?thesis by (rule step [OF release_matched]) (use ScRelease r keep in \<open>auto simp: represents_def\<close>)
  qed (use assms(2) in simp_all)
qed

lemma command_simulated:
  assumes "represents js (view d) m"
  shows "\<exists>m'. store_step c m (ScCommand cmd) (fst (sled_exec db c js d (ScCommand cmd))) m' \<and>
    represents js (view (sled_step db c js d (ScCommand cmd))) m'"
proof -
  let ?p = "sled_apply_command db (jc_account js) d cmd" and ?q = "im_apply_command (ms_accounts m) cmd"
  let ?m = "if is_ok (fst ?q) then snd ?q else ms_accounts m"
  have rep: "represents js (view (snd ?p)) (m\<lparr>ms_accounts := x\<rparr>)" if "accounts_stored (jc_account js) (view (snd ?p)) x" for x
    using that assms represents_step [OF assms, of "ScCommand cmd" c] by (simp add: represents_def)
  have "accounts_stored (jc_account js) (view d) (ms_accounts m)" using assms by (simp add: represents_def)
  note match = command_matched [OF this, of cmd, unfolded matched_def, simplified fst_conv snd_conv]
  consider "fst ?p = fst ?q" "accounts_stored (jc_account js) (view (snd ?p)) ?m"
    | "faulted (fst ?p)" "accounts_stored (jc_account js) (view (snd ?p)) (ms_accounts m)"
    | "faulted (fst ?p)" "is_ok (fst ?q)" "accounts_stored (jc_account js) (view (snd ?p)) (snd ?q)"
    using match by (auto split: if_splits)
  then show ?thesis
  proof cases
    case 1
    show ?thesis
    proof (cases "fst ?q")
      case (Inl e)
      then have "mem_exec c m (ScCommand cmd) = (Inl e, m\<lparr>ms_accounts := snd ?q\<rparr>)" by (simp add: prod_eq_iff)
      from Undone [OF this] Inl 1 rep [of "ms_accounts m"] show ?thesis by (intro exI [of _ m]) auto
    next
      case (Inr a)
      then have "mem_exec c m (ScCommand cmd) = (Inr (OneAccount a), m\<lparr>ms_accounts := snd ?q\<rparr>)" by (simp add: prod_eq_iff)
      from Answered [OF this] Inr 1 rep show ?thesis by auto
    qed
  next
    case 2
    then have "faulted (fst (sled_exec db c js d (ScCommand cmd)))" by (cases "fst ?p") simp_all
    from Lost [OF this] 2 rep [of "ms_accounts m"] show ?thesis by auto
  next
    case 3
    then have "faulted (fst (sled_exec db c js d (ScCommand cmd)))" by (cases "fst ?p") simp_all
    moreover have "\<not> refused_command (ScCommand cmd) (fst (mem_exec c m (ScCommand cmd)))"
      using 3(2) by (auto simp: is_ok_iff)
    ultimately have "store_step c m (ScCommand cmd) (fst (sled_exec db c js d (ScCommand cmd))) (snd (mem_exec c m (ScCommand cmd)))"
      by (rule Kept)
    with 3 rep show ?thesis by auto
  qed
qed

lemma exec_simulated:
  assumes "represents js (view d) m"
  shows "\<exists>m'. store_step c m k (fst (sled_exec db c js d k)) m' \<and> represents js (view (sled_step db c js d k)) m'"
proof -
  note r = assms [unfolded represents_def] and keep = represents_step [OF assms, of k c]
  note step = matched_step [where view = view and js = js and db = db and d = d and k = k and c = c and m = m,
      unfolded sled_exec_step]
  show ?thesis
  proof (cases k)
    case (ScCreateReservation x)
    show ?thesis by (rule step [where put = "\<lambda>x. m\<lparr>ms_reservations := x\<rparr>", OF create_reservation_matched])
        (use ScCreateReservation r keep in \<open>auto simp: represents_def\<close>)
  next
    case (ScTransition i a b)
    show ?thesis by (rule step [where put = "\<lambda>x. m\<lparr>ms_reservations := x\<rparr>", OF transition_matched])
        (use ScTransition r keep in \<open>auto simp: represents_def\<close>)
  next
    case (ScRecord x)
    show ?thesis by (rule step [where put = "\<lambda>x. m\<lparr>ms_records := x\<rparr>", OF record_matched])
        (use ScRecord r keep in \<open>auto simp: represents_def\<close>)
  next
    case (ScWithdrawal w)
    show ?thesis by (rule step [where put = "\<lambda>x. m\<lparr>ms_withdrawals := x\<rparr>", OF wd_call_matched])
        (use ScWithdrawal r keep in \<open>auto simp: represents_def\<close>)
  next
    case (ScRole x)
    show ?thesis by (rule step [where put = "\<lambda>x. m\<lparr>ms_members := x\<rparr>", OF role_call_matched])
        (use ScRole r keep in \<open>auto simp: represents_def\<close>)
  next
    case (ScTransfer t)
    show ?thesis by (rule step [where put = "\<lambda>x. m\<lparr>ms_accounts := x\<rparr>", OF transfer_matched])
        (use ScTransfer r keep in \<open>auto simp: represents_def\<close>)
  next
    case (ScSaveSnapshot x)
    show ?thesis by (rule step [where put = "\<lambda>x. m\<lparr>ms_snapshots := fst x, ms_last_saved := snd x\<rparr>", OF save_snapshot_matched])
        (use ScSaveSnapshot r keep in \<open>auto simp: represents_def\<close>)
  qed (use nonce_simulated [OF assms] command_simulated [OF assms] expire_simulated [OF assms] utxo_simulated [OF assms, of k c] in simp_all)
qed

lemma run_simulated:
  assumes "represents js (view d) m"
  shows "\<exists>m'. store_run c m (sled_answers db c js d ks) m' \<and> represents js (view (sled_run db c js d ks)) m'"
  using assms
proof (induction ks arbitrary: d m)
  case (Cons k ks)
  obtain m1 where m1: "store_step c m k (fst (sled_exec db c js d k)) m1" "represents js (view (sled_step db c js d k)) m1"
    using exec_simulated [OF Cons.prems, of c k] by auto
  from Cons.IH [OF m1(2)] obtain m' where
    "store_run c m1 (sled_answers db c js (sled_step db c js d k) ks) m'"
    "represents js (view (sled_run db c js (sled_step db c js d k) ks)) m'" by auto
  with m1(1) show ?case by (auto simp: sled_run_def)
qed (auto simp: sled_run_def)

end

section \<open>Reads\<close>

text \<open>A read that leaves the database as it is and answers \<open>a\<close> or with an error of the database.\<close>

definition reads :: "('d \<Rightarrow> bytes \<rightharpoonup> bytes) \<Rightarrow> 'd \<Rightarrow> ('d, 'a) mut_result \<Rightarrow> 'a ledger_result \<Rightarrow> bool" where
  "reads view d p a \<longleftrightarrow> view (snd p) = view d \<and> (fst p = a \<or> faulted (fst p))"

text \<open>
  Members are under their identifiers, outputs and members occur once, and the snapshot noted as
  saved last is in the store.
\<close>

definition noted_ok :: "snapshot_store_inner \<times> u64 option \<Rightarrow> bool" where
  "noted_ok p \<longleftrightarrow> snapshots_ok (fst p) \<and>
     (case snd p of None \<Rightarrow> snapshots (fst p) = [] | Some n \<Rightarrow> map_of (snapshots (fst p)) n \<noteq> None)"

lemma save_noted_ok: "noted_ok p \<Longrightarrow> noted_ok (snd (save_noted c p k))"
  using save_snapshot_inv [of "fst p" c k]
  by (cases "cs_verify_basic c k") (simp_all add: noted_ok_def save_noted_def save_snapshot_def Let_def)

definition mem_ok :: "mem_stores \<Rightarrow> bool" where
  "mem_ok m \<longleftrightarrow> hm_ok (ms_members m) \<and> (\<forall>i n. map_of (ms_members m) i = Some n \<longrightarrow> nm_node_id n = i) \<and>
     distinct (map canonical_key (ms_utxos m)) \<and> noted_ok (ms_snapshots m, ms_last_saved m)"

lemma mem_ok_new: "mem_ok mem_new"
  by (simp add: mem_ok_def mem_new_def noted_ok_def snapshots_ok_new) (simp add: snapshot_store_new_def)

lemma canonical_update_utxo: "(\<And>e. outpoint_of (f e) = outpoint_of e) \<Longrightarrow> map canonical_key (update_utxo p f es) = map canonical_key es"
  by (simp add: update_utxo_def map_update_first canonical_key_def)

lemma utxo_calls_distinct:
  assumes "distinct (map canonical_key es)"
  shows "distinct (map canonical_key (snd (add_utxo es u)))" "distinct (map canonical_key (snd (update_state es p s)))"
    "distinct (map canonical_key (snd (reserve_utxo es p i b)))" "distinct (map canonical_key (snd (release_utxo es p)))"
  using assms
  by (auto simp: add_utxo_def has_key_iff update_state_def reserve_utxo_def release_utxo_def canonical_update_utxo
      split: option.split sum.split)

lemma role_call_keys:
  assumes "hm_ok m" and "\<forall>i n. map_of m i = Some n \<longrightarrow> nm_node_id n = i"
  shows "hm_ok (snd (mb_call m k)) \<and> (\<forall>i n. map_of (snd (mb_call m k)) i = Some n \<longrightarrow> nm_node_id n = i)"
  using assms by (cases k) (auto simp: add_node_def promote_def remove_node_def update_heartbeat_def split: option.split sum.split)

lemma mem_exec_ok: "mem_ok m \<Longrightarrow> mem_ok (snd (mem_exec c m k))"
  using role_call_keys [of "ms_members m"]
  by (cases "(c, m, k)" rule: mem_exec.cases) (auto simp: mem_ok_def utxo_calls_distinct save_noted_ok)

lemma store_run_ok: "store_run c m kas m' \<Longrightarrow> mem_ok m \<Longrightarrow> mem_ok m'"
proof (induction rule: store_run.induct)
  case (RunCons m k ans m1 rest m')
  from RunCons.hyps(1) have "mem_ok m1"
    using RunCons.prems mem_exec_ok [OF RunCons.prems, of c k] by cases (auto simp: mem_ok_def)
  with RunCons show ?case by blast
qed

subsection \<open>Scans\<close>

lemma sort_key_same:
  assumes "set xs = set ys" and "distinct (map f xs)" and "distinct (map f ys)"
  shows "sort_key f xs = sort_key f ys"
proof (rule sort_key_inj_key_eq)
  show "mset xs = mset (sort_key f ys)"
    using assms by (simp add: set_eq_iff_mset_eq_distinct [symmetric] distinct_map)
  show "inj_on f (set xs)" using assms(2) by (simp add: distinct_map)
qed simp

lemma in_decoded: "r \<in> set (decoded j rs) \<longleftrightarrow> (\<exists>key b. Inr (key, b) \<in> set rs \<and> deserialize j b = Inr r)"
proof
  assume "r \<in> set (decoded j rs)"
  then obtain x where x: "x \<in> set rs"
      "(case x of Inl e \<Rightarrow> None | Inr (_, b) \<Rightarrow> (case deserialize j b of Inl e \<Rightarrow> None | Inr r \<Rightarrow> Some r)) = Some r"
    by (auto simp: decoded_def in_map_filter)
  then obtain key b where "x = Inr (key, b)" "deserialize j b = Inr r" by (auto split: sum.splits)
  with x(1) show "\<exists>key b. Inr (key, b) \<in> set rs \<and> deserialize j b = Inr r" by blast
next
  assume "\<exists>key b. Inr (key, b) \<in> set rs \<and> deserialize j b = Inr r"
  then obtain key b where "Inr (key, b) \<in> set rs" "deserialize j b = Inr r" by blast
  then show "r \<in> set (decoded j rs)" unfolding decoded_def in_map_filter by (intro bexI [of _ "Inr (key, b)"]) simp_all
qed

lemma utxo_lookup_in: "distinct (map canonical_key es) \<Longrightarrow> e \<in> set es \<Longrightarrow> utxo_lookup es (canonical_key e) = Some e"
  by (induction es) (auto simp: utxo_lookup_def)

lemma decoded_keys:
  "\<forall>key b. Inr (key, b) \<in> set rs \<longrightarrow> (\<exists>r. deserialize j b = Inr r \<and> g key = f r) \<Longrightarrow>
     map f (decoded j rs) = map g (map fst (List.map_filter (\<lambda>r. case r of Inl e \<Rightarrow> None | Inr x \<Rightarrow> Some x) rs))"
proof (induction rs)
  case (Cons x rs)
  have "map f (decoded j rs) = map g (map fst (List.map_filter (\<lambda>r. case r of Inl e \<Rightarrow> None | Inr x \<Rightarrow> Some x) rs))"
    using Cons by simp
  moreover from Cons.prems have "\<exists>r. deserialize j b = Inr r \<and> g key = f r" if "x = Inr (key, b)" for key b
    using that by simp
  ultimately show ?case by (cases x) (auto simp: decoded_def map_filter_simps)
qed (simp add: decoded_def map_filter_simps)

context sled_db
begin

lemma decoded_stored:
  assumes "stored j (sled_key p) (view d) look" and "\<And>i r. look i = Some r \<Longrightarrow> f r = i"
    and "\<forall>r \<in> set (fst (sl_scan_prefix db d (str_bytes p))). is_ok r"
  shows "set (decoded j (fst (sl_scan_prefix db d (str_bytes p)))) = ran look \<and>
    distinct (map f (decoded j (fst (sl_scan_prefix db d (str_bytes p)))))"
proof -
  let ?rs = "fst (sl_scan_prefix db d (str_bytes p))"
  let ?g = "inv (sled_key p)"
  have inj: "inj (sled_key p)" by (auto intro: injI)
  have entry: "\<exists>i r. key = sled_key p i \<and> look i = Some r \<and> deserialize j b = Inr r" if "Inr (key, b) \<in> set ?rs" for key b
  proof -
    from scan_sound [OF that] obtain bs where k: "key = str_bytes p @ bs" "view d key = Some b" by (auto simp: prefix_def)
    then have i: "key = sled_key p (bytes_str bs)" by (simp add: sled_key_def str_bytes_inverse)
    have "rec_of j (view d key) = Inr (look (bytes_str bs))" using assms(1) i by (simp add: stored_def)
    then show ?thesis using i k(2) by (auto simp: rec_of_def res_bind_def dest: sym split: sum.splits)
  qed
  have keys: "map f (decoded j ?rs) = map ?g (map fst (List.map_filter (\<lambda>r. case r of Inl e \<Rightarrow> None | Inr x \<Rightarrow> Some x) ?rs))"
    by (rule decoded_keys) (use entry assms(2) inj in \<open>force simp: inv_f_f\<close>)
  have "inj_on ?g (range (sled_key p))" by (rule inj_on_inv_into) simp
  moreover have "set (map fst (List.map_filter (\<lambda>r. case r of Inl e \<Rightarrow> None | Inr x \<Rightarrow> Some x) ?rs)) \<subseteq> range (sled_key p)"
  proof
    fix key
    assume "key \<in> set (map fst (List.map_filter (\<lambda>r. case r of Inl e \<Rightarrow> None | Inr x \<Rightarrow> Some x) ?rs))"
    then obtain x b where x: "x \<in> set ?rs" "(case x of Inl e \<Rightarrow> None | Inr y \<Rightarrow> Some y) = Some (key, b)"
      by (auto simp: in_map_filter)
    from x have "Inr (key, b) \<in> set ?rs" by (cases x rule: sum.exhaust) auto
    then show "key \<in> range (sled_key p)" using entry by blast
  qed
  ultimately have "distinct (map f (decoded j ?rs))"
    unfolding keys using scan_distinct [of d "str_bytes p"] by (simp only: distinct_map) (meson inj_on_subset)
  moreover have "r \<in> set (decoded j ?rs) \<longleftrightarrow> r \<in> ran look" for r
  proof
    assume "r \<in> set (decoded j ?rs)"
    then obtain key b where "Inr (key, b) \<in> set ?rs" "deserialize j b = Inr r"
      by (auto simp: in_decoded)
    then show "r \<in> ran look" using entry [of key b] by (auto simp: ran_def)
  next
    assume "r \<in> ran look"
    then obtain i where i: "look i = Some r" by (auto simp: ran_def)
    have "rec_of j (view d (sled_key p i)) = Inr (Some r)" using assms(1) i by (simp add: stored_def)
    then obtain b where b: "view d (sled_key p i) = Some b" "deserialize j b = Inr r"
      by (auto simp: rec_of_def res_bind_def split: option.splits sum.splits)
    have "Inr (sled_key p i, b) \<in> set ?rs"
      using scan_complete [OF assms(3) _ b(1)] by (simp add: sled_key_def)
    then show "r \<in> set (decoded j ?rs)" using b(2) unfolding in_decoded by blast
  qed
  ultimately show ?thesis by blast
qed

end

lemma decoded_sorted:
  assumes "set xs = set ys \<and> distinct (map f xs)" and "distinct (map f ys)"
  shows "sort_key f (filter P (sort_key f xs)) = sort_key f (filter P ys)" "sort_key f xs = sort_key f ys"
proof -
  have "distinct (map f (sort_key f xs))" using conjunct2 [OF assms(1)] by (simp add: distinct_map)
  then show "sort_key f (filter P (sort_key f xs)) = sort_key f (filter P ys)"
    using assms by (intro sort_key_same distinct_map_filter) simp_all
  show "sort_key f xs = sort_key f ys" using assms sort_key_same by blast
qed

definition last_saved_snapshot :: "mem_stores \<Rightarrow> certified_snapshot option" where
  "last_saved_snapshot m = (case ms_last_saved m of None \<Rightarrow> None | Some n \<Rightarrow> get_snapshot (ms_snapshots m) n)"

lemma last_saved_le_latest:
  assumes "mem_ok m"
  shows "(last_saved_snapshot m = None \<longleftrightarrow> latest_snapshot (ms_snapshots m) = None) \<and>
    (\<forall>k l. last_saved_snapshot m = Some k \<and> latest_snapshot (ms_snapshots m) = Some l \<longrightarrow>
       cs_sequence k \<le> cs_sequence l \<and> (cs_sequence k = cs_sequence l \<longrightarrow> k = l))"
proof (cases "ms_last_saved m")
  case None
  then have "snapshots (ms_snapshots m) = []" using assms by (simp add: mem_ok_def noted_ok_def)
  with None show ?thesis by (simp add: last_saved_snapshot_def latest_snapshot_def)
next
  case (Some n)
  have ok: "snapshots_ok (ms_snapshots m)" using assms by (simp add: mem_ok_def noted_ok_def)
  obtain k where k: "get_snapshot (ms_snapshots m) n = Some k"
    using assms Some by (auto simp: mem_ok_def noted_ok_def get_snapshot_def)
  obtain l where l: "latest_snapshot (ms_snapshots m) = Some l" "n \<le> cs_sequence l"
    using im_snapshots.latest_max [OF ok k] by blast
  have "cs_sequence k = n" "cs_sequence l = latest_sequence (ms_snapshots m)"
    using ok k l(1) by (auto simp: snapshots_ok_def get_snapshot_def latest_snapshot_def)
  moreover have "k = l" if "n = latest_sequence (ms_snapshots m)"
    using that k l(1) by (simp add: get_snapshot_def latest_snapshot_def)
  ultimately show ?thesis using k l Some by (simp add: last_saved_snapshot_def)
qed

context sled_ledger
begin

lemma point_reads:
  assumes "represents js (view d) m"
  shows "reads view d (sled_is_consumed db d n) (Inr (is_consumed (ms_nonces m) n))"
    and "reads view d (sled_get_account db (jc_account js) d i) (Inr (im_get_account (ms_accounts m) i))"
    and "reads view d (sled_get_snapshot db (jc_snapshot js) d w) (Inr (get_snapshot (ms_snapshots m) w))"
    and "reads view d (sled_get_reservation db (jc_reservation js) d i) (Inr (get_reservation (ms_reservations m) i))"
    and "reads view d (sled_check db (jc_idempotency js) d i h) (im_check (ms_records m) i h)"
    and "reads view d (sled_get_utxo db (jc_utxo js) d p) (Inr (get_utxo (ms_utxos m) p))"
    and "reads view d (sled_wd_get db (jc_withdrawal js) d i) (Inr (wd_get (ms_withdrawals m) i))"
    and "reads view d (sled_get_node db (jc_node js) d i) (Inr (get_node (ms_members m) i))"
proof -
  note r = assms [unfolded represents_def]
  obtain q d1 where q: "sl_get db d (nonce_key n) = (q, d1)" by force
  then have "view d1 = view d" "\<And>v. q = Inr v \<Longrightarrow> v = view d (nonce_key n)"
    using get_same [of d "nonce_key n"] get_ok by auto
  moreover have "view d (nonce_key n) \<noteq> None \<longleftrightarrow> n \<in> ms_nonces m" using r unfolding nonces_stored_def by blast
  ultimately show "reads view d (sled_is_consumed db d n) (Inr (is_consumed (ms_nonces m) n))"
    using q by (cases q) (simp_all add: reads_def sled_is_consumed_def map_err_def is_consumed_def)
  show "reads view d (sled_get_account db (jc_account js) d i) (Inr (im_get_account (ms_accounts m) i))"
    using r read_matched [of "jc_account js" account_key d "map_of (ms_accounts m)" i]
    by (simp add: reads_def sled_get_account_def im_get_account_def accounts_stored_def)
  show "reads view d (sled_get_snapshot db (jc_snapshot js) d w) (Inr (get_snapshot (ms_snapshots m) w))"
    using r read_matched [of "jc_snapshot js" snapshot_key d "map_of (snapshots (ms_snapshots m))" w]
    by (simp add: reads_def sled_get_snapshot_def get_snapshot_def snapshots_stored_def)
  show "reads view d (sled_get_reservation db (jc_reservation js) d i) (Inr (get_reservation (ms_reservations m) i))"
    using r read_matched [of "jc_reservation js" reservation_key d "map_of (ms_reservations m)" i] by (simp add: reads_def sled_get_reservation_def get_reservation_def)
  show "reads view d (sled_get_utxo db (jc_utxo js) d p) (Inr (get_utxo (ms_utxos m) p))"
    using r read_matched [of "jc_utxo js" utxo_key d "utxo_lookup (ms_utxos m)" "to_canonical_string p"] by (simp add: reads_def sled_get_utxo_def get_utxo_def find_utxo_lookup)
  show "reads view d (sled_wd_get db (jc_withdrawal js) d i) (Inr (wd_get (ms_withdrawals m) i))"
    using r read_matched [of "jc_withdrawal js" withdrawal_key d "map_of (ms_withdrawals m)" i] by (simp add: reads_def sled_wd_get_def wd_get_def)
  show "reads view d (sled_get_node db (jc_node js) d i) (Inr (get_node (ms_members m) i))"
    using r read_matched [of "jc_node js" member_key d "map_of (ms_members m)" i] by (simp add: reads_def sled_get_node_def get_node_def)
  obtain a d2 where a: "sled_read db (jc_idempotency js) (idempotency_key i) d = (a, d2)" by force
  with r read_matched [of "jc_idempotency js" idempotency_key d "map_of (ms_records m)" i]
  have "view d2 = view d" "a = Inr (map_of (ms_records m) i) \<or> faulted a" by simp_all
  then show "reads view d (sled_check db (jc_idempotency js) d i h) (im_check (ms_records m) i h)"
    using a by (cases a) (auto simp: reads_def sled_check_def im_check_def split: option.split)
qed

text \<open>
  \<open>latest_snapshot\<close> on the database answers with the snapshot saved last, which is the newest one
  of the in-memory store only if no newer one was saved before; \<open>is_consumed_sync\<close> takes an error of
  the database for a nonce that was not consumed.
\<close>

lemma latest_read:
  assumes "represents js (view d) m"
  shows "reads view d (sled_latest_snapshot db (jc_snapshot js) d) (Inr (last_saved_snapshot m))"
proof -
  obtain q d1 where q: "sl_get db d key_latest_snapshot = (q, d1)" by force
  then have v: "view d1 = view d" "\<And>x. q = Inr x \<Longrightarrow> x = map_option u64_le (ms_last_saved m)"
    using get_same [of d key_latest_snapshot] get_ok assms by (auto simp: represents_def snapshots_stored_def)
  have "represents js (view d1) m" using assms v(1) by simp
  note read = point_reads(3) [OF this]
  show ?thesis
  proof (cases q)
    case (Inl e)
    then show ?thesis using q v(1) by (simp add: reads_def sled_latest_snapshot_def map_err_def)
  next
    case (Inr x)
    then show ?thesis using q v read
      by (cases "ms_last_saved m")
        (simp_all add: reads_def sled_latest_snapshot_def map_err_def last_saved_snapshot_def from_le_bytes_roundtrip)
  qed
qed

lemma consumed_sync_read:
  assumes "represents js (view d) m"
  shows "view (snd (sled_is_consumed_sync db d n)) = view d \<and>
    fst (sled_is_consumed_sync db d n) = (is_ok (fst (sl_get db d (nonce_key n))) \<and> is_consumed_sync (ms_nonces m) n)"
proof -
  obtain q d1 where q: "sl_get db d (nonce_key n) = (q, d1)" by force
  then have "view d1 = view d" "\<And>v. q = Inr v \<Longrightarrow> v = view d (nonce_key n)"
    using get_same [of d "nonce_key n"] get_ok by auto
  moreover have "view d (nonce_key n) \<noteq> None \<longleftrightarrow> n \<in> ms_nonces m"
    using assms unfolding represents_def nonces_stored_def by blast
  ultimately show ?thesis
    using q by (cases q) (simp_all add: sled_is_consumed_sync_def is_consumed_sync_def)
qed

lemma role_list_read:
  assumes "represents js (view d) m" and "mem_ok m"
    and "\<forall>r \<in> set (fst (sl_scan_prefix db d (str_bytes prefix_membership))). is_ok r"
  shows "fst (sled_list_by_role db (jc_node js) d role) = Inr (list_by_role (ms_members m) role)"
proof -
  note r = assms(1) [unfolded represents_def] and ok = assms(2) [unfolded mem_ok_def]
  let ?ns = "decoded (jc_node js) (fst (sl_scan_prefix db d (str_bytes prefix_membership)))"
  have "set ?ns = set (map snd (ms_members m)) \<and> distinct (map nm_node_id ?ns)"
  proof -
    have "set (map snd (ms_members m)) = ran (map_of (ms_members m))"
      using ok by (simp add: ran_distinct hm_ok_def)
    then show ?thesis
      using decoded_stored [of "jc_node js" prefix_membership d "map_of (ms_members m)" nm_node_id] r ok assms(3)
      by (simp add: member_key_def [abs_def])
  qed
  moreover have "distinct (map nm_node_id (map snd (ms_members m)))"
  proof -
    have "map nm_node_id (map snd (ms_members m)) = map fst (ms_members m)"
      using ok by (auto simp: hm_ok_def intro!: map_cong)
    then show ?thesis using ok by (metis hm_ok_def)
  qed
  ultimately have "sort_key nm_node_id (filter P (sort_key nm_node_id ?ns)) = sort_key nm_node_id (filter P (map snd (ms_members m)))" for P
    by (rule decoded_sorted)
  then show ?thesis
    by (cases "sl_scan_prefix db d (str_bytes prefix_membership)")
      (simp add: sled_list_by_role_def list_all_nodes_def list_by_role_def)
qed

lemma utxo_list_reads:
  assumes "represents js (view d) m" and "mem_ok m"
    and "\<forall>r \<in> set (fst (sl_scan_prefix db d (str_bytes prefix_utxo))). is_ok r"
  shows "fst (sled_list_by_state db (jc_utxo js) d s) = Inr (list_by_state (ms_utxos m) s) \<and>
      fst (sled_list_all db (jc_utxo js) d) = Inr (list_all_utxos (ms_utxos m)) \<and>
      fst (sled_compute_utxo_root_hash db c (jc_utxo js) d) = Inr (compute_utxo_root_hash c (ms_utxos m))"
proof -
  note r = assms(1) [unfolded represents_def] and ok = assms(2) [unfolded mem_ok_def]
  let ?es = "decoded (jc_utxo js) (fst (sl_scan_prefix db d (str_bytes prefix_utxo)))"
  have "utxo_lookup (ms_utxos m) (canonical_key e) = Some e" if "e \<in> set (ms_utxos m)" for e
    using ok that by (simp add: utxo_lookup_in)
  then have "set (ms_utxos m) = ran (utxo_lookup (ms_utxos m))"
    by (auto simp: ran_def utxo_lookup_def find_Some_iff)
  then have es: "set ?es = set (ms_utxos m) \<and> distinct (map canonical_key ?es)"
    using decoded_stored [of "jc_utxo js" prefix_utxo d "utxo_lookup (ms_utxos m)" canonical_key] r assms(3) utxo_lookup_key
    by (simp add: utxo_key_def [abs_def])
  have same: "sort_key canonical_key (filter (\<lambda>e. ut_state e = s) (sort_key canonical_key ?es)) =
        sort_key canonical_key (filter (\<lambda>e. ut_state e = s) (ms_utxos m))"
      "sort_key canonical_key ?es = sort_key canonical_key (ms_utxos m)"
    using decoded_sorted [OF es] ok by simp_all
  have "mset ?es = mset (ms_utxos m)" using same(2) ok by (metis mset_sort)
  then have "compute_utxo_root c (sort_key canonical_key ?es) = compute_utxo_root c (ms_utxos m)"
    by (intro compute_utxo_root_perm) simp
  then show ?thesis
    using same ok
    by (cases "sl_scan_prefix db d (str_bytes prefix_utxo)")
      (simp add: sled_list_by_state_def list_all_entries_def list_by_state_def sled_list_all_def list_all_utxos_def
        sled_compute_utxo_root_hash_def compute_utxo_root_hash_def)
qed

end

section \<open>The simulation\<close>

text \<open>
  C10. The persistent stores refine the in-memory ones. On a database that represents in-memory
  stores, let any calls be made on the eight stores, in any order and with any failures of the
  database. The answers and the final content are those of a run of the in-memory stores in which
  every call is answered as in memory, except that a call that fails with an error of the
  database has its whole effect or none, that a refused balance command changes nothing, that
  \<open>mark_consumed_sync\<close> may be lost, and that \<open>expire_stale\<close> may expire some of the stale
  reservations only. If none of these exceptions occurs, the answers are exactly those in memory.
  To the content belongs the pointer to the latest snapshot, which holds the sequence of the
  snapshot saved last; this is the fourth difference, since the in-memory store remembers the
  highest sequence saved.
\<close>

theorem sled_refines_memory:
  assumes "sled_ledger db view js" and "represents js (view d) m"
  shows "(\<exists>m'. store_run c m (sled_answers db c js d ks) m' \<and> represents js (view (sled_run db c js d ks)) m') \<and>
    ((\<forall>x \<in> set (sled_answers db c js d ks). plain x) \<longrightarrow>
      sled_answers db c js d ks = mem_answers c m ks \<and> represents js (view (sled_run db c js d ks)) (mem_run c m ks))"
proof -
  obtain m' where m': "store_run c m (sled_answers db c js d ks) m'" "represents js (view (sled_run db c js d ks)) m'"
    using sled_ledger.run_simulated [OF assms] by blast
  with store_run_exact [OF m'(1)] show ?thesis by (auto simp: map_fst_sled_answers)
qed

lemma sim_new_represents: "represents js (sim_view (sim_new faults)) mem_new"
  using represents_new by (simp add: sim_view_def sim_new_def)

theorem sled_refines_memory_witness:
  "let ks = [ScNonce (MarkConsumed ''n''), ScAddUtxo (demo_utxo ''t'' OcSeen), ScNonce (MarkConsumed ''n''),
       ScUpdateState (outpoint_new ''t'' 0) OcInMempool, ScUpdateState (outpoint_new ''t'' 0) OcSpent] in
   (\<exists>m'. store_run demo_crypto mem_new
        (sled_answers sim_sled demo_crypto demo_ledger_codecs (sim_new (\<lambda>n. if n = 1 then Some True else None)) ks) m') \<and>
   sled_answers sim_sled demo_crypto demo_ledger_codecs (sim_new (\<lambda>_. None)) ks = mem_answers demo_crypto mem_new ks"
proof -
  let ?ks = "[ScNonce (MarkConsumed ''n''), ScAddUtxo (demo_utxo ''t'' OcSeen), ScNonce (MarkConsumed ''n''),
       ScUpdateState (outpoint_new ''t'' 0) OcInMempool, ScUpdateState (outpoint_new ''t'' 0) OcSpent]"
  have utxo: "to_vec (jc_utxo demo_ledger_codecs) (demo_utxo ''t'' OcSeen) = Inr [1]"
      "to_vec (jc_utxo demo_ledger_codecs) ((demo_utxo ''t'' OcSeen)\<lparr>ut_state := OcInMempool\<rparr>) = Inr [2]"
      "deserialize (jc_utxo demo_ledger_codecs) [1] = Inr (demo_utxo ''t'' OcSeen)"
      "deserialize (jc_utxo demo_ledger_codecs) [2] = Inr (demo_utxo ''t'' OcInMempool)"
      "canonical_key (demo_utxo ''t'' s) = to_canonical_string (outpoint_new ''t'' 0)" "ut_state (demo_utxo ''t'' s) = s" for s
    by (simp_all add: demo_ledger_codecs_def table_codec_def demo_utxo_def deserialize_def canonical_key_def new_seen_def)
  have keys: "nonce_key i \<noteq> utxo_key j" "utxo_key j \<noteq> nonce_key i" for i j
    using stores_disjoint store_keys(1) [of i] store_keys(5) [of j] by (metis store_name.distinct(7))+
  have "\<forall>x \<in> set (sled_answers sim_sled demo_crypto demo_ledger_codecs (sim_new (\<lambda>_. None)) ?ks). plain x"
    by (simp add: plain_def answered_def sled_mark_consumed_def sled_add_utxo_def sled_create_def sled_update_state_def sled_update_def
        sled_read_alt sled_write_alt sim_eval rec_of_def utxo keys validate_transition_def store_fault_def)
  moreover note sim = sled_refines_memory [OF sim_ledger.sled_ledger_axioms sim_new_represents, where c = demo_crypto and ks = ?ks]
  ultimately show ?thesis
    using conjunct1 [OF sim [of "\<lambda>n. if n = 1 then Some True else None"]] conjunct2 [OF sim [of "\<lambda>_. None"]]
    unfolding Let_def by blast
qed

text \<open>
  C21. What a client reads from the persistent stores. After any calls on an empty database, with
  any failures, there is a state of the in-memory stores that explains all answers so far, and
  with which every read agrees, but for two. A read leaves the database as it is, and a lookup
  answers as in memory or with an error of the database; a listing or the root of the outputs
  agrees when the scan behind it reports no error, which the code drops. The two exceptions:
  \<open>is_consumed_sync\<close> answers that a nonce is not consumed when the database fails, and
  \<open>latest_snapshot\<close> answers with the snapshot saved last, where the in-memory store answers with
  the one of the highest sequence; the two are the same exactly when their sequences are.
\<close>

theorem sled_reads_memory:
  assumes "sled_ledger db view js" and "view d = (\<lambda>_. None)"
    and "d' = sled_run db c js d ks"
  shows "\<exists>m. store_run c mem_new (sled_answers db c js d ks) m \<and>
    (\<forall>n. reads view d' (sled_is_consumed db d' n) (Inr (is_consumed (ms_nonces m) n))) \<and>
    (\<forall>n. view (snd (sled_is_consumed_sync db d' n)) = view d' \<and>
       fst (sled_is_consumed_sync db d' n) = (is_ok (fst (sl_get db d' (nonce_key n))) \<and> is_consumed_sync (ms_nonces m) n)) \<and>
    reads view d' (sled_latest_snapshot db (jc_snapshot js) d') (Inr (last_saved_snapshot m)) \<and>
    (last_saved_snapshot m = None \<longleftrightarrow> latest_snapshot (ms_snapshots m) = None) \<and>
    (\<forall>k l. last_saved_snapshot m = Some k \<and> latest_snapshot (ms_snapshots m) = Some l \<longrightarrow>
       cs_sequence k \<le> cs_sequence l \<and> (cs_sequence k = cs_sequence l \<longrightarrow> k = l)) \<and>
    (\<forall>i. reads view d' (sled_get_account db (jc_account js) d' i) (Inr (im_get_account (ms_accounts m) i))) \<and>
    (\<forall>n. reads view d' (sled_get_snapshot db (jc_snapshot js) d' n) (Inr (get_snapshot (ms_snapshots m) n))) \<and>
    (\<forall>i. reads view d' (sled_get_reservation db (jc_reservation js) d' i) (Inr (get_reservation (ms_reservations m) i))) \<and>
    (\<forall>i h. reads view d' (sled_check db (jc_idempotency js) d' i h) (im_check (ms_records m) i h)) \<and>
    (\<forall>p. reads view d' (sled_get_utxo db (jc_utxo js) d' p) (Inr (get_utxo (ms_utxos m) p))) \<and>
    (\<forall>i. reads view d' (sled_wd_get db (jc_withdrawal js) d' i) (Inr (wd_get (ms_withdrawals m) i))) \<and>
    (\<forall>i. reads view d' (sled_get_node db (jc_node js) d' i) (Inr (get_node (ms_members m) i))) \<and>
    ((\<forall>r \<in> set (fst (sl_scan_prefix db d' (str_bytes prefix_membership))). is_ok r) \<longrightarrow>
      (\<forall>role. fst (sled_list_by_role db (jc_node js) d' role) = Inr (list_by_role (ms_members m) role))) \<and>
    ((\<forall>r \<in> set (fst (sl_scan_prefix db d' (str_bytes prefix_utxo))). is_ok r) \<longrightarrow>
      (\<forall>s. fst (sled_list_by_state db (jc_utxo js) d' s) = Inr (list_by_state (ms_utxos m) s)) \<and>
      fst (sled_list_all db (jc_utxo js) d') = Inr (list_all_utxos (ms_utxos m)) \<and>
      fst (sled_compute_utxo_root_hash db c (jc_utxo js) d') = Inr (compute_utxo_root_hash c (ms_utxos m)))"
proof -
  have "represents js (view d) mem_new" using represents_new assms(2) by simp
  from sled_ledger.run_simulated [OF assms(1) this] obtain m where
    m: "store_run c mem_new (sled_answers db c js d ks) m" "represents js (view d') m" unfolding assms(3) by blast
  have "mem_ok m" by (rule store_run_ok [OF m(1) mem_ok_new])
  then show ?thesis
    using m(1) last_saved_le_latest [OF \<open>mem_ok m\<close>] sled_ledger.latest_read [OF assms(1) m(2)]
      sled_ledger.consumed_sync_read [OF assms(1) m(2)] sled_ledger.point_reads [OF assms(1) m(2)] sled_ledger.role_list_read [OF assms(1) m(2)] sled_ledger.utxo_list_reads [OF assms(1) m(2)]
    by (intro exI [of _ m] conjI impI allI) blast+
qed

theorem sled_reads_memory_witness:
  "\<exists>m. store_run demo_crypto mem_new (sled_answers sim_sled demo_crypto demo_ledger_codecs
       (sim_new (\<lambda>n. if n = 0 then Some False else None)) [ScNonce (MarkConsumed ''n''), ScNonce (MarkConsumed ''n'')]) m \<and>
     reads sim_view
       (sled_run sim_sled demo_crypto demo_ledger_codecs (sim_new (\<lambda>n. if n = 0 then Some False else None))
          [ScNonce (MarkConsumed ''n''), ScNonce (MarkConsumed ''n'')])
       (sled_is_consumed sim_sled (sled_run sim_sled demo_crypto demo_ledger_codecs
          (sim_new (\<lambda>n. if n = 0 then Some False else None)) [ScNonce (MarkConsumed ''n''), ScNonce (MarkConsumed ''n'')]) ''n'')
       (Inr (is_consumed (ms_nonces m) ''n''))"
proof -
  let ?d = "sim_new (\<lambda>n. if n = 0 then Some False else None)"
  have "sim_view ?d = (\<lambda>_. None)" by (simp add: sim_view_def sim_new_def)
  from sled_reads_memory [OF sim_ledger.sled_ledger_axioms this refl, of demo_crypto "[ScNonce (MarkConsumed ''n''), ScNonce (MarkConsumed ''n'')]"]
  show ?thesis by (elim exE conjE) (intro exI conjI, assumption, erule spec)
qed

section \<open>Marks of refused commands\<close>

text \<open>
  What a refused balance command may leave behind on the in-memory store. A reservation whose
  reserved total would overflow is refused after the amount was taken from the available
  balance: the amount is lost. A refused command on an unknown account leaves an empty account,
  and a transfer to it succeeds; on the database there is no such account.
\<close>

lemma in_memory_refused_reserve_loses:
  assumes "map_of m (bc_account_id cmd) = Some a" and "acc_version a = bc_expected_version cmd"
    and "bc_operation cmd = Reserve" and "bc_amount_sats cmd \<le> available_sats a"
    and "2 ^ 64 \<le> unat (reserved_sats a) + unat (bc_amount_sats cmd)"
  shows "im_apply_command m cmd =
    (Inl (InvariantViolation (''reserved overflow for account '' @ account_id a)),
     hm_insert (bc_account_id cmd) (a\<lparr>available_sats := available_sats a - bc_amount_sats cmd\<rparr>) m)"
  using assms
  by (simp add: im_apply_command_def im_run_operation_def check_version_def apply_reserve_def spendable_def
      checked_sub_def checked_add_def Let_def not_le [symmetric])

lemma refused_debit_opens_account:
  "let m = snd (im_apply_command [(''a'', demo_credited 5)] (balance_command_new ''c'' ''b'' 0 Debit 1 1));
       t = internal_transfer_command_new ''t'' ''a'' 1 ''b'' 0 5 [] in
   \<not> is_ok (fst (im_apply_command [(''a'', demo_credited 5)] (balance_command_new ''c'' ''b'' 0 Debit 1 1))) \<and>
   is_ok (fst (im_apply_transfer m t)) \<and>
   \<not> is_ok (fst (im_apply_transfer [(''a'', demo_credited 5)] t))"
  by (simp add: store_eval demo_credited_def)

end
