(* ===== verification/Store_Interleaving.thy ===== *)
theory Store_Interleaving
  imports Sled_Refinement
begin

text \<open>
  The persistent stores under concurrent calls (\<open>persistent.rs\<close>). An operation that changes a
  record reads it, decides and writes it back in separate calls of the database, and the stores
  hold no lock, so that another task may run in between. The halves of such an operation are
  given here, with what happens when two operations on one record both read before either
  writes: both succeed, and of the first nothing is left. The nonce checker is not affected,
  since it decides on the answer of a single insert.
\<close>

section \<open>The two halves of an update\<close>

definition update_finish ::
    "'d sled \<Rightarrow> 'r codec \<Rightarrow> bytes \<Rightarrow> ('r option \<Rightarrow> ledger_error + 'r \<times> 'a) \<Rightarrow> 'r option \<Rightarrow> 'd \<Rightarrow> ('d, 'a) mut_result" where
  "update_finish db j key f v d =
     (case f v of
        Inl e \<Rightarrow> (Inl e, d)
      | Inr (r, a) \<Rightarrow> io_bind (sled_write db j key r d) (\<lambda>_ d1. (Inr a, d1)))"

lemma update_halves: "sled_update db j key f d = io_bind (sled_read db j key d) (update_finish db j key f)"
  unfolding sled_update_def update_finish_def ..

context sled_db
begin

lemma update_finish_effect:
  assumes "codec_ok j" and "update_finish db j key f v d = (Inr a, d')"
  shows "\<exists>r b. f v = Inr (r, a) \<and> record_in j (view d' key) = Some r \<and> view d' = (view d)(key \<mapsto> b)"
proof (cases "f v")
  case (Inr p)
  obtain r x where p: "p = (r, x)" by force
  obtain w d1 where w: "sled_write db j key r d = (w, d1)" by force
  then have "w = Inr ()" "a = x" "d' = d1" using assms(2) Inr p by (cases w; simp add: update_finish_def)+
  with write_effect [OF w] obtain b where b: "to_vec j r = Inr b" "view d' = (view d)(key \<mapsto> b)" by auto
  with record_in_written [OF assms(1) b(1)] Inr p \<open>a = x\<close> show ?thesis by auto
qed (use assms(2) in \<open>simp add: update_finish_def\<close>)

text \<open>Two updates of one record that both read before either writes.\<close>

lemma interleaved_updates:
  assumes "codec_ok j"
    and "sled_read db j key d = (Inr v1, d1)" and "sled_read db j key d1 = (Inr v2, d2)"
    and "update_finish db j key f v1 d2 = (Inr a1, d3)" and "update_finish db j key g v2 d3 = (Inr a2, d4)"
  shows "v1 = record_in j (view d key) \<and>
    (\<exists>r1 r2. f v1 = Inr (r1, a1) \<and> g v1 = Inr (r2, a2) \<and>
       record_in j (view d3 key) = Some r1 \<and> record_in j (view d4 key) = Some r2) \<and>
    (\<forall>k. k \<noteq> key \<longrightarrow> view d4 k = view d k)"
proof -
  have v: "view d1 = view d" "rec_of j (view d key) = Inr v1" "view d2 = view d" "v2 = v1"
    using read_effect [OF assms(2)] read_effect [OF assms(3)] by auto
  from update_finish_effect [OF assms(1,4)] update_finish_effect [OF assms(1,5)] v show ?thesis
    by (auto simp: record_in_def)
qed

end

section \<open>Outputs reserved twice\<close>

definition reserve_read :: "'d sled \<Rightarrow> utxo_entry codec \<Rightarrow> 'd \<Rightarrow> outpoint \<Rightarrow> ('d, utxo_entry option) mut_result" where
  "reserve_read db j d p = sled_read db j (utxo_key (to_canonical_string p)) d"

definition reserve_change :: "outpoint \<Rightarrow> string \<Rightarrow> u64 \<Rightarrow> utxo_entry option \<Rightarrow> ledger_error + utxo_entry \<times> unit" where
  "reserve_change p by_id bucket v =
     (case v of
        None \<Rightarrow> Inl (UtxoNotFound (txid p) (vout p))
      | Some e \<Rightarrow>
          if ut_state e \<notin> {OcSpendable, OcFinalizedByPolicy} then Inl (InvalidUtxoTransition (ut_state e) (ut_state e))
          else (case reserved_by e of
              Some existing \<Rightarrow> Inl (UtxoAlreadyReserved existing)
            | None \<Rightarrow> Inr (e\<lparr>reserved_by := Some by_id, reserved_at_bucket := Some bucket\<rparr>, ())))"

definition reserve_finish ::
    "'d sled \<Rightarrow> utxo_entry codec \<Rightarrow> outpoint \<Rightarrow> string \<Rightarrow> u64 \<Rightarrow> utxo_entry option \<Rightarrow> 'd \<Rightarrow> ('d, unit) mut_result" where
  "reserve_finish db j p by_id bucket v d =
     update_finish db j (utxo_key (to_canonical_string p)) (reserve_change p by_id bucket) v d"

lemma reserve_halves: "sled_reserve db j d p i b = io_bind (reserve_read db j d p) (reserve_finish db j p i b)"
  unfolding sled_reserve_def reserve_read_def reserve_finish_def [abs_def] update_halves reserve_change_def [abs_def] ..

lemma reserve_change_ok:
  "reserve_change p i b v = Inr (r, u) \<longleftrightarrow>
     (\<exists>e. v = Some e \<and> is_available e \<and> r = e\<lparr>reserved_by := Some i, reserved_at_bucket := Some b\<rparr>)"
  by (auto simp: reserve_change_def is_available_def split: option.splits if_splits)

lemma reserve_finish_available:
  assumes "is_available e" and "to_vec j (e\<lparr>reserved_by := Some i, reserved_at_bucket := Some b\<rparr>) = Inr x"
    and "sl_insert db d (utxo_key (to_canonical_string p)) x = (Inr old, d')"
  shows "reserve_finish db j p i b (Some e) d = (Inr (), d')"
proof -
  have "reserve_change p i b (Some e) = Inr (e\<lparr>reserved_by := Some i, reserved_at_bucket := Some b\<rparr>, ())"
    using assms(1) by (simp add: reserve_change_ok)
  then show ?thesis using assms(2,3) by (simp add: reserve_finish_def update_finish_def sled_write_alt)
qed

text \<open>
  C22. An output on the database is reserved by one caller at a time only if the calls run
  one after the other. Then a second reservation is refused. But take an available output and
  two reservations of it that both read before either writes. If the database fails in none of
  these reads and inserts and the two entries can be serialized, then both reservations report
  success; after the first the first caller holds the output, after the second the second, and
  of the first reservation nothing is left.
\<close>

theorem sled_reservation_race:
  assumes "sled_ledger db view js" and "utxo_in view js d p = Some e" and "is_available e"
    and "reserve_read db (jc_utxo js) d p = (Inr v1, d1)" and "reserve_read db (jc_utxo js) d1 p = (Inr v2, d2)"
    and "to_vec (jc_utxo js) (e\<lparr>reserved_by := Some i1, reserved_at_bucket := Some b1\<rparr>) = Inr x1"
    and "to_vec (jc_utxo js) (e\<lparr>reserved_by := Some i2, reserved_at_bucket := Some b2\<rparr>) = Inr x2"
    and "sl_insert db d2 (utxo_key (to_canonical_string p)) x1 = (Inr old1, d3)"
    and "sl_insert db d3 (utxo_key (to_canonical_string p)) x2 = (Inr old2, d4)"
  shows "(is_ok (fst (sled_reserve db (jc_utxo js) d p i1 b1)) \<longrightarrow>
      \<not> is_ok (fst (sled_reserve db (jc_utxo js) (snd (sled_reserve db (jc_utxo js) d p i1 b1)) p i2 b2))) \<and>
    reserve_finish db (jc_utxo js) p i1 b1 v1 d2 = (Inr (), d3) \<and>
    reserve_finish db (jc_utxo js) p i2 b2 v2 d3 = (Inr (), d4) \<and>
    utxo_in view js d3 p = Some (e\<lparr>reserved_by := Some i1, reserved_at_bucket := Some b1\<rparr>) \<and>
    utxo_in view js d4 p = Some (e\<lparr>reserved_by := Some i2, reserved_at_bucket := Some b2\<rparr>)"
proof (intro conjI impI)
  assume "is_ok (fst (sled_reserve db (jc_utxo js) d p i1 b1))"
  then obtain u d' where r: "sled_reserve db (jc_utxo js) d p i1 b1 = (Inr u, d')" by (metis is_ok_iff prod.collapse)
  from sled_ledger.output_exclusive [OF assms(1) r, of i2 b2] r
  show "\<not> is_ok (fst (sled_reserve db (jc_utxo js) (snd (sled_reserve db (jc_utxo js) d p i1 b1)) p i2 b2))" by auto
next
  note sd = sled_ledger.axioms(1) [OF assms(1)] and jc = sled_ledger.utxo_codec [OF assms(1)]
  have v: "v1 = Some e" "v2 = Some e"
    using sled_db.read_effect [OF sd assms(4) [unfolded reserve_read_def]]
      sled_db.read_effect [OF sd assms(5) [unfolded reserve_read_def]] assms(2)
    by (auto simp: utxo_in_def record_in_def)
  show f: "reserve_finish db (jc_utxo js) p i1 b1 v1 d2 = (Inr (), d3)"
    "reserve_finish db (jc_utxo js) p i2 b2 v2 d3 = (Inr (), d4)"
    unfolding v by (rule reserve_finish_available [OF assms(3,6,8)], rule reserve_finish_available [OF assms(3,7,9)])
  from sled_db.interleaved_updates [OF sd jc assms(4,5) [unfolded reserve_read_def] f [unfolded reserve_finish_def]]
  show "utxo_in view js d3 p = Some (e\<lparr>reserved_by := Some i1, reserved_at_bucket := Some b1\<rparr>)"
    "utxo_in view js d4 p = Some (e\<lparr>reserved_by := Some i2, reserved_at_bucket := Some b2\<rparr>)"
    unfolding reserve_change_ok utxo_in_def v by auto
qed

definition demo_held :: "string \<Rightarrow> utxo_entry" where
  "demo_held i = (demo_utxo ''t'' OcSpendable)\<lparr>reserved_by := Some i, reserved_at_bucket := Some 1\<rparr>"

definition demo_race_codecs :: ledger_codecs where
  "demo_race_codecs = demo_ledger_codecs\<lparr>jc_utxo := table_codec [(demo_utxo ''t'' OcSpendable, 1), (demo_held ''x'', 2), (demo_held ''y'', 3)]\<rparr>"

interpretation race_ledger: sled_ledger sim_sled sim_view demo_race_codecs
  by unfold_locales (simp_all add: demo_race_codecs_def demo_ledger_codecs_def table_codec_ok)

lemma demo_race_eval:
  "to_vec (jc_utxo demo_race_codecs) (demo_held ''x'') = Inr [2]" "to_vec (jc_utxo demo_race_codecs) (demo_held ''y'') = Inr [3]"
  "deserialize (jc_utxo demo_race_codecs) [1] = Inr (demo_utxo ''t'' OcSpendable)"
  "reserve_change p i 1 (Some (demo_utxo ''t'' OcSpendable)) = Inr (demo_held i, ())"
  by (simp_all add: demo_race_codecs_def table_codec_def demo_held_def demo_utxo_def deserialize_def reserve_change_def new_seen_def)

theorem sled_reservation_race_witness:
  "\<exists>d2 d3 d4. let p = outpoint_new ''t'' 0; j = jc_utxo demo_race_codecs; v = Some (demo_utxo ''t'' OcSpendable) in
     reserve_finish sim_sled j p ''x'' 1 v d2 = (Inr (), d3) \<and> reserve_finish sim_sled j p ''y'' 1 v d3 = (Inr (), d4) \<and>
     utxo_in sim_view demo_race_codecs d3 p = Some (demo_held ''x'') \<and>
     utxo_in sim_view demo_race_codecs d4 p = Some (demo_held ''y'')"
proof -
  let ?p = "outpoint_new ''t'' 0" and ?j = "jc_utxo demo_race_codecs" and ?v = "Some (demo_utxo ''t'' OcSpendable)"
  let ?d = "\<lambda>b n. \<lparr>sim_map = [(utxo_key (to_canonical_string ?p), [b])], sim_faults = (\<lambda>_. None), sim_calls = n\<rparr>"
  have r: "reserve_read sim_sled ?j (?d 1 0) ?p = (Inr ?v, ?d 1 1)" "reserve_read sim_sled ?j (?d 1 1) ?p = (Inr ?v, ?d 1 2)"
    by (simp_all add: reserve_read_def sled_read_alt sim_eval rec_of_def demo_race_eval)
  have e: "utxo_in sim_view demo_race_codecs (?d 1 0) ?p = ?v" "is_available (demo_utxo ''t'' OcSpendable)"
    by (simp_all add: utxo_in_def sim_view_def record_in_def rec_of_def demo_race_eval)
      (simp add: is_available_def demo_utxo_def new_seen_def)
  have w: "sl_insert sim_sled (?d 1 2) (utxo_key (to_canonical_string ?p)) [2] = (Inr (Some [1]), ?d 2 3)"
      "sl_insert sim_sled (?d 2 3) (utxo_key (to_canonical_string ?p)) [3] = (Inr (Some [2]), ?d 3 4)"
    by (simp_all add: sim_eval)
  from sled_reservation_race [OF race_ledger.sled_ledger_axioms e r
      demo_race_eval(1) [unfolded demo_held_def] demo_race_eval(2) [unfolded demo_held_def] w]
  show ?thesis unfolding Let_def demo_held_def by blast
qed

section \<open>Withdrawals broadcast twice\<close>

definition txid_change :: "string \<Rightarrow> string \<Rightarrow> withdrawal_record option \<Rightarrow> ledger_error + withdrawal_record \<times> unit" where
  "txid_change wid tx v =
     (case v of
        None \<Rightarrow> Inl (WithdrawalNotFound wid)
      | Some r \<Rightarrow> if broadcast_txid r \<noteq> None
          then Inl (InvalidStateTransition (''withdrawal '' @ wid @ '' already has broadcast txid '' @ option_debug (broadcast_txid r)))
          else Inr (r\<lparr>broadcast_txid := Some tx\<rparr>, ()))"

lemma txid_halves:
  "sled_set_broadcast_txid db j d wid tx =
     io_bind (sled_read db j (withdrawal_key wid) d) (update_finish db j (withdrawal_key wid) (txid_change wid tx))"
  unfolding sled_set_broadcast_txid_def update_halves txid_change_def [abs_def] ..

text \<open>
  One after the other, a transaction id is never replaced (\<open>sled_withdrawal_lifecycle\<close>); two calls
  that both read first both succeed, and the second id replaces the first.
\<close>

lemma sled_txid_race:
  assumes "sled_ledger db view js"
    and "sled_read db (jc_withdrawal js) (withdrawal_key w) d = (Inr v1, d1)"
    and "sled_read db (jc_withdrawal js) (withdrawal_key w) d1 = (Inr v2, d2)"
    and "update_finish db (jc_withdrawal js) (withdrawal_key w) (txid_change w t1) v1 d2 = (Inr (), d3)"
    and "update_finish db (jc_withdrawal js) (withdrawal_key w) (txid_change w t2) v2 d3 = (Inr (), d4)"
  shows "\<exists>r. withdrawal_in view js d w = Some r \<and> broadcast_txid r = None \<and>
    withdrawal_in view js d3 w = Some (r\<lparr>broadcast_txid := Some t1\<rparr>) \<and>
    withdrawal_in view js d4 w = Some (r\<lparr>broadcast_txid := Some t2\<rparr>)"
  using sled_db.interleaved_updates [OF sled_ledger.axioms(1) [OF assms(1)] sled_ledger.withdrawal_codec [OF assms(1)] assms(2-5)]
  by (auto simp: withdrawal_in_def txid_change_def split: option.splits if_splits)

end
