(* ===== verification/Contracts.thy ===== *)
theory Contracts
  imports Kerosene_Prelude
begin

text \<open>
  The vocabulary the network crates share. The crate \<open>kerosene_contracts\<close> and the crate
  \<open>url\<close> are not part of the repository: their types appear here with the fields the sources
  read and write, and their functions are the parameters of the record \<open>contracts\<close>. What the
  sources rely on is stated where it is used, as a hypothesis. The endpoint check, which the
  membership and the discovery crate both have, is here as well.
\<close>

section \<open>Types of the contracts crate\<close>

datatype discovery_plane = BankPlane | VaultPlane

datatype membership_phase = Stable | Joint

record manifest_member =
  mm_member_id :: string
  mm_root_public_key :: string
  mm_endpoint :: string

record manifest_signature =
  signer_id :: string
  ms_signature :: string

record membership_manifest =
  mf_contract_version :: string
  mf_network_id :: string
  mf_plane :: discovery_plane
  mf_epoch :: u64
  mf_phase :: membership_phase
  previous_manifest_hash :: string
  mf_threshold :: u16
  mf_members :: "manifest_member list"
  next_epoch :: "u64 option"
  mf_signatures :: "manifest_signature list"

record trust_member =
  tm_member_id :: string
  tm_root_public_key :: string

record trust_plane =
  tp_threshold :: u16
  tp_members :: "trust_member list"

record genesis_trust_bundle =
  gb_contract_version :: string
  gb_network_id :: string
  gb_bank :: trust_plane
  gb_vault :: trust_plane

record peer_hello =
  ph_contract_version :: string
  ph_network_id :: string
  ph_plane :: discovery_plane
  ph_member_id :: string
  ph_root_public_key :: string
  ph_challenge :: string
  issued_at_epoch_ms :: u64
  ph_endpoint :: string
  ph_signature :: string

text \<open>A parsed URL, as the accessors of the crate \<open>url\<close> present it.\<close>

record url_parts =
  url_scheme :: string
  url_username :: string
  url_password :: "string option"
  url_host :: "string option"
  url_path :: string
  url_query :: "string option"
  url_fragment :: "string option"

record contracts =
  contract_version :: string
  canonical_hash :: "membership_manifest \<Rightarrow> string"
  contract_member_id :: "string \<Rightarrow> bytes \<Rightarrow> string"
  manifest_signing_bytes :: "membership_manifest \<Rightarrow> bytes"
  hello_signing_bytes :: "peer_hello \<Rightarrow> bytes"
  parse_url :: "string \<Rightarrow> url_parts option"

section \<open>Onion endpoints\<close>

definition onion_suffix :: string where
  "onion_suffix = ''.onion''"

definition strip_suffix :: "string \<Rightarrow> string \<Rightarrow> string option" where
  "strip_suffix suf s =
     (if length suf \<le> length s \<and> drop (length s - length suf) s = suf
      then Some (take (length s - length suf) s) else None)"

definition service_char :: "char \<Rightarrow> bool" where
  "service_char ch \<longleftrightarrow> (let n = of_char ch :: nat in (97 \<le> n \<and> n \<le> 122) \<or> (50 \<le> n \<and> n \<le> 55))"

text \<open>The endpoint check; the error is the \<open>InvalidEndpoint\<close> of the calling crate.\<close>

definition validate_onion_endpoint :: "contracts \<Rightarrow> 'e \<Rightarrow> string \<Rightarrow> 'e + unit" where
  "validate_onion_endpoint k invalid endpoint =
     res_bind (ok_or (parse_url k endpoint) invalid) (\<lambda>u.
     res_bind (require (\<not> (url_scheme u \<noteq> ''https'' \<or> url_username u \<noteq> [] \<or> url_password u \<noteq> None \<or>
         url_query u \<noteq> None \<or> url_fragment u \<noteq> None \<or> (url_path u \<noteq> [] \<and> url_path u \<noteq> ''/''))) invalid) (\<lambda>_.
     res_bind (ok_or (url_host u) invalid) (\<lambda>host.
     res_bind (ok_or (strip_suffix onion_suffix host) invalid) (\<lambda>service_id.
     require (\<not> (length service_id \<noteq> 56 \<or> \<not> list_all service_char service_id)) invalid))))"

text \<open>What an accepted endpoint is: HTTPS to a 56-character base32 onion host and nothing else.\<close>

definition onion_url :: "url_parts \<Rightarrow> bool" where
  "onion_url u \<longleftrightarrow> url_scheme u = ''https'' \<and> url_username u = [] \<and> url_password u = None \<and>
     url_query u = None \<and> url_fragment u = None \<and> url_path u \<in> {[], ''/''} \<and>
     (\<exists>sid. url_host u = Some (sid @ ''.onion'') \<and> length sid = 56 \<and> list_all service_char sid)"

lemma strip_suffix_Some: "strip_suffix suf s = Some t \<longleftrightarrow> s = t @ suf"
  by (auto simp: strip_suffix_def) (metis append_take_drop_id)

lemma validate_onion_endpoint_ok [result_simps]:
  "validate_onion_endpoint k e p = Inr x \<longleftrightarrow> (\<exists>u. parse_url k p = Some u \<and> onion_url u)"
  by (auto simp: validate_onion_endpoint_def onion_url_def result_simps strip_suffix_Some onion_suffix_def)

lemma validate_onion_endpoint_err:
  "validate_onion_endpoint k e p = Inl e' \<Longrightarrow> e' = e"
  by (auto simp: validate_onion_endpoint_def result_simps)

section \<open>Keys and signatures\<close>

text \<open>\<open>decode_array::<N>\<close>: the hexadecimal form of exactly \<open>n\<close> bytes.\<close>

definition decode_array :: "crypto \<Rightarrow> nat \<Rightarrow> string \<Rightarrow> bytes option" where
  "decode_array c n s = (case hex_decode c s of None \<Rightarrow> None | Some b \<Rightarrow> if length b = n then Some b else None)"

lemma decode_array_Some: "decode_array c n s = Some b \<longleftrightarrow> hex_decode c s = Some b \<and> length b = n"
  by (auto simp: decode_array_def split: option.splits)

end
