(* ===== verification/Manifest_Verifier.thy ===== *)
theory Manifest_Verifier
  imports Contracts
begin

text \<open>
  The membership verifier (\<open>kerosene-membership\<close>): which signed membership manifests a node
  accepts, starting from the genesis trust bundle. A change of roster goes through a joint
  manifest (OLD, JOINT, NEW). The theorems: what an accepted manifest proves, that conflicting
  successors need a member that signed both, and that the hash of the current manifest
  determines the whole history.
\<close>

section \<open>Errors and signatures\<close>

datatype membership_error =
    MeContractVersion
  | MeScopeMismatch
  | MeInvalidThreshold
  | MeMemberIdMismatch
  | MeInvalidEndpoint
  | MeDuplicateIdentity
  | MeHashChain
  | MeEpochTransition
  | MeJointConsensusRequired
  | MeJointRosterMismatch
  | MeInsufficientSignatures

fun membership_error_display :: "membership_error \<Rightarrow> string" where
  "membership_error_display MeContractVersion = ''unsupported discovery contract version''"
| "membership_error_display MeScopeMismatch = ''network or discovery plane mismatch''"
| "membership_error_display MeInvalidThreshold = ''threshold is invalid for the roster''"
| "membership_error_display MeMemberIdMismatch = ''member ID does not match its network-bound root key''"
| "membership_error_display MeInvalidEndpoint = ''member endpoint must be an HTTPS v3 onion URL''"
| "membership_error_display MeDuplicateIdentity = ''duplicate member or signer''"
| "membership_error_display MeHashChain = ''manifest hash chain is invalid''"
| "membership_error_display MeEpochTransition = ''manifest epoch transition is invalid''"
| "membership_error_display MeJointConsensusRequired = ''membership change must use OLD -> JOINT -> NEW''"
| "membership_error_display MeJointRosterMismatch = ''joint consensus transition changed its proposed roster''"
| "membership_error_display MeInsufficientSignatures = ''manifest has insufficient valid signatures''"

definition manifest_signature_valid :: "crypto \<Rightarrow> contracts \<Rightarrow> string \<Rightarrow> string \<Rightarrow> membership_manifest \<Rightarrow> bool" where
  "manifest_signature_valid c k public_key sig m =
     (case decode_array c 32 public_key of None \<Rightarrow> False | Some key_bytes \<Rightarrow>
     (case decode_array c 64 sig of None \<Rightarrow> False | Some signature_bytes \<Rightarrow>
       key_rejected c key_bytes = None \<and>
       sig_valid c key_bytes (manifest_signing_bytes k m) signature_bytes))"

text \<open>Collecting an iterator of pairs into a \<open>HashMap\<close>.\<close>

definition collect_map :: "('k \<times> 'v) list \<Rightarrow> ('k, 'v) hashmap" where
  "collect_map kvs = fold (\<lambda>(k, v) h. hm_insert k v h) kvs []"

definition trust_keys :: "trust_member list \<Rightarrow> (string, string) hashmap" where
  "trust_keys ms = collect_map (map (\<lambda>m. (tm_member_id m, tm_root_public_key m)) ms)"

definition manifest_keys :: "manifest_member list \<Rightarrow> (string, string) hashmap" where
  "manifest_keys ms = collect_map (map (\<lambda>m. (mm_member_id m, mm_root_public_key m)) ms)"

definition signed_by :: "crypto \<Rightarrow> contracts \<Rightarrow> membership_manifest \<Rightarrow> (string, string) hashmap \<Rightarrow> manifest_signature \<Rightarrow> bool" where
  "signed_by c k m allowed candidate =
     (case map_of allowed (signer_id candidate) of
        None \<Rightarrow> False
      | Some key \<Rightarrow> manifest_signature_valid c k key (ms_signature candidate) m)"

definition require_signatures ::
    "crypto \<Rightarrow> contracts \<Rightarrow> membership_manifest \<Rightarrow> (string, string) hashmap \<Rightarrow> u16 \<Rightarrow> membership_error + unit" where
  "require_signatures c k m allowed threshold =
     require (\<not> length (filter (signed_by c k m allowed) (mf_signatures m)) < unat threshold)
       MeInsufficientSignatures"

definition require_chain ::
    "contracts \<Rightarrow> membership_manifest \<Rightarrow> membership_manifest \<Rightarrow> u64 \<Rightarrow> membership_error + unit" where
  "require_chain k current next expected_epoch =
     res_bind (require (previous_manifest_hash next = canonical_hash k current) MeHashChain) (\<lambda>_.
     require (mf_epoch next = expected_epoch) MeEpochTransition)"

definition same_roster :: "membership_manifest \<Rightarrow> membership_manifest \<Rightarrow> bool" where
  "same_roster l r \<longleftrightarrow> mf_threshold l = mf_threshold r \<and> mf_members l = mf_members r"

section \<open>Structure\<close>

definition validate_member :: "crypto \<Rightarrow> contracts \<Rightarrow> string \<Rightarrow> string \<Rightarrow> string \<Rightarrow> membership_error + unit" where
  "validate_member c k network mid key =
     res_bind (ok_or (decode_array c 32 key) MeMemberIdMismatch) (\<lambda>b.
     require (contract_member_id k network b = mid) MeMemberIdMismatch)"

text \<open>The loop over the members, with the set of identifiers seen so far.\<close>

fun check_members :: "('m \<Rightarrow> membership_error + unit) \<Rightarrow> ('m \<Rightarrow> string) \<Rightarrow> string set \<Rightarrow> 'm list \<Rightarrow> membership_error + unit" where
  "check_members f ident seen [] = Inr ()"
| "check_members f ident seen (m # ms) =
     res_bind (f m) (\<lambda>_.
     res_bind (require (ident m \<notin> seen) MeDuplicateIdentity) (\<lambda>_.
     check_members f ident (insert (ident m) seen) ms))"

definition validate_trust_plane :: "crypto \<Rightarrow> contracts \<Rightarrow> string \<Rightarrow> trust_plane \<Rightarrow> membership_error + unit" where
  "validate_trust_plane c k network p =
     res_bind (require (\<not> (tp_threshold p = 0 \<or> unat (tp_threshold p) > length (tp_members p))) MeInvalidThreshold) (\<lambda>_.
     check_members (\<lambda>m. validate_member c k network (tm_member_id m) (tm_root_public_key m)) tm_member_id {}
       (tp_members p))"

definition validate_manifest_members ::
    "crypto \<Rightarrow> contracts \<Rightarrow> string \<Rightarrow> manifest_member list \<Rightarrow> u16 \<Rightarrow> membership_error + unit" where
  "validate_manifest_members c k network ms threshold =
     res_bind (require (\<not> (threshold = 0 \<or> unat threshold > length ms)) MeInvalidThreshold) (\<lambda>_.
     check_members (\<lambda>m.
         res_bind (validate_member c k network (mm_member_id m) (mm_root_public_key m)) (\<lambda>_.
         validate_onion_endpoint k MeInvalidEndpoint (mm_endpoint m)))
       mm_member_id {} ms)"

section \<open>The verifier\<close>

record membership_verifier =
  mv_network_id :: string
  mv_plane :: discovery_plane
  mv_genesis :: trust_plane
  mv_current :: "membership_manifest option"

definition verifier_new ::
    "crypto \<Rightarrow> contracts \<Rightarrow> genesis_trust_bundle \<Rightarrow> discovery_plane \<Rightarrow> membership_error + membership_verifier" where
  "verifier_new c k bundle plane =
     res_bind (require (gb_contract_version bundle = contract_version k) MeContractVersion) (\<lambda>_.
     res_bind (validate_trust_plane c k (gb_network_id bundle) (gb_bank bundle)) (\<lambda>_.
     res_bind (validate_trust_plane c k (gb_network_id bundle) (gb_vault bundle)) (\<lambda>_.
     Inr \<lparr>mv_network_id = gb_network_id bundle, mv_plane = plane,
          mv_genesis = (case plane of BankPlane \<Rightarrow> gb_bank bundle | VaultPlane \<Rightarrow> gb_vault bundle),
          mv_current = None\<rparr>)))"

definition authorized_keys :: "membership_verifier \<Rightarrow> (string, string) hashmap" where
  "authorized_keys v =
     (case mv_current v of Some m \<Rightarrow> manifest_keys (mf_members m) | None \<Rightarrow> trust_keys (tp_members (mv_genesis v)))"

definition threshold :: "membership_verifier \<Rightarrow> nat" where
  "threshold v = (case mv_current v of None \<Rightarrow> unat (tp_threshold (mv_genesis v)) | Some m \<Rightarrow> unat (mf_threshold m))"

definition member_count :: "membership_verifier \<Rightarrow> nat" where
  "member_count v = (case mv_current v of None \<Rightarrow> length (tp_members (mv_genesis v)) | Some m \<Rightarrow> length (mf_members m))"

definition is_member :: "membership_verifier \<Rightarrow> string \<Rightarrow> string \<Rightarrow> bool" where
  "is_member v member public_key = (map_of (authorized_keys v) member = Some public_key)"

definition current_hash :: "contracts \<Rightarrow> membership_verifier \<Rightarrow> string option" where
  "current_hash k v = map_option (canonical_hash k) (mv_current v)"

definition validate_structure ::
    "crypto \<Rightarrow> contracts \<Rightarrow> membership_verifier \<Rightarrow> membership_manifest \<Rightarrow> membership_error + unit" where
  "validate_structure c k v m =
     res_bind (require (mf_contract_version m = contract_version k) MeContractVersion) (\<lambda>_.
     res_bind (require (\<not> (mf_network_id m \<noteq> mv_network_id v \<or> mf_plane m \<noteq> mv_plane v)) MeScopeMismatch) (\<lambda>_.
     res_bind (validate_manifest_members c k (mv_network_id v) (mf_members m) (mf_threshold m)) (\<lambda>_.
     res_bind (require (distinct (map signer_id (mf_signatures m))) MeDuplicateIdentity) (\<lambda>_.
     (case mf_phase m of
        Stable \<Rightarrow> require (next_epoch m = None) MeEpochTransition
      | Joint \<Rightarrow> (case next_epoch m of
           None \<Rightarrow> Inl MeEpochTransition
         | Some n \<Rightarrow> require (\<not> n \<le> mf_epoch m) MeEpochTransition))))))"

definition zero_hash :: string where
  "zero_hash = replicate 64 (CHR ''0'')"

definition verify_initial ::
    "crypto \<Rightarrow> contracts \<Rightarrow> membership_verifier \<Rightarrow> membership_manifest \<Rightarrow> membership_error + unit" where
  "verify_initial c k v m =
     res_bind (require (\<not> (mf_phase m \<noteq> Stable \<or> mf_epoch m = 0 \<or> previous_manifest_hash m \<noteq> zero_hash))
       MeEpochTransition) (\<lambda>_.
     require_signatures c k m (trust_keys (tp_members (mv_genesis v))) (tp_threshold (mv_genesis v)))"

definition verify_after_stable ::
    "crypto \<Rightarrow> contracts \<Rightarrow> membership_manifest \<Rightarrow> membership_manifest \<Rightarrow> membership_error + unit" where
  "verify_after_stable c k current next =
     res_bind (require_chain k current next (saturating_add (mf_epoch current) 1)) (\<lambda>_.
     res_bind (require_signatures c k next (manifest_keys (mf_members current)) (mf_threshold current)) (\<lambda>_.
     if mf_phase next = Stable then require (same_roster current next) MeJointConsensusRequired
     else require_signatures c k next (manifest_keys (mf_members next)) (mf_threshold next)))"

definition verify_after_joint ::
    "crypto \<Rightarrow> contracts \<Rightarrow> membership_manifest \<Rightarrow> membership_manifest \<Rightarrow> membership_error + unit" where
  "verify_after_joint c k joint next =
     res_bind (require (mf_phase next = Stable) MeEpochTransition) (\<lambda>_.
     res_bind (ok_or (next_epoch joint) MeEpochTransition) (\<lambda>expected_epoch.
     res_bind (require_chain k joint next expected_epoch) (\<lambda>_.
     res_bind (require (same_roster joint next) MeJointRosterMismatch) (\<lambda>_.
     require_signatures c k next (manifest_keys (mf_members joint)) (mf_threshold joint)))))"

definition verify_next ::
    "crypto \<Rightarrow> contracts \<Rightarrow> membership_verifier \<Rightarrow> membership_manifest \<Rightarrow> membership_error + unit" where
  "verify_next c k v m =
     res_bind (validate_structure c k v m) (\<lambda>_.
     (case mv_current v of
        None \<Rightarrow> verify_initial c k v m
      | Some current \<Rightarrow>
          if mf_phase current = Stable then verify_after_stable c k current m
          else verify_after_joint c k current m))"

definition accept ::
    "crypto \<Rightarrow> contracts \<Rightarrow> membership_verifier \<Rightarrow> membership_manifest \<Rightarrow>
       (membership_error + unit) \<times> membership_verifier" where
  "accept c k v m =
     (case verify_next c k v m of Inl e \<Rightarrow> (Inl e, v) | Inr _ \<Rightarrow> (Inr (), v\<lparr>mv_current := Some m\<rparr>))"

text \<open>\<open>for manifest in manifests \<open>{\<close> verifier.accept(manifest)?; \<open>}\<close>\<close>.\<close>

fun step_all :: "('s \<Rightarrow> 'm \<Rightarrow> ('e + unit) \<times> 's) \<Rightarrow> 's \<Rightarrow> 'm list \<Rightarrow> 'e + 's" where
  "step_all f s [] = Inr s"
| "step_all f s (m # ms) = (case f s m of (Inl e, _) \<Rightarrow> Inl e | (Inr _, s') \<Rightarrow> step_all f s' ms)"

definition restore ::
    "crypto \<Rightarrow> contracts \<Rightarrow> genesis_trust_bundle \<Rightarrow> discovery_plane \<Rightarrow> membership_manifest list \<Rightarrow>
       membership_error + membership_verifier" where
  "restore c k bundle plane manifests =
     res_bind (verifier_new c k bundle plane) (\<lambda>v. step_all (accept c k) v manifests)"

section \<open>Logs\<close>

text \<open>
  The contract a component offers when its state is rebuilt from a log of what it accepted: a
  refused element leaves the state as it is. Then the state after a log and one more accepted
  element is the state rebuilt from the longer log.
\<close>

locale event_log =
  fixes step :: "'s \<Rightarrow> 'm \<Rightarrow> ('e + unit) \<times> 's"
  assumes step_err: "step s m = (Inl e, s') \<Longrightarrow> s' = s"
begin

lemma step_all_snoc:
  "step_all step s (ms @ [m]) =
     (case step_all step s ms of
        Inl e \<Rightarrow> Inl e
      | Inr t \<Rightarrow> (case step t m of (Inl e, _) \<Rightarrow> Inl e | (Inr _, t') \<Rightarrow> Inr t'))"
  by (induction ms arbitrary: s) (auto split: sum.splits prod.splits)

lemma log_extended:
  "step_all step s ms = Inr t \<Longrightarrow> step t m = (Inr u, t') \<Longrightarrow> step_all step s (ms @ [m]) = Inr t'"
  by (simp add: step_all_snoc)

lemma log_invariant:
  assumes "step_all step s ms = Inr t" and "P s" and "\<And>s m s'. P s \<Longrightarrow> step s m = (Inr (), s') \<Longrightarrow> P s'"
  shows "P t"
  using assms(1,2)
  by (induction ms arbitrary: s) (auto intro: assms(3) split: sum.splits prod.splits)

end

interpretation verifier_log: event_log "accept c k" for c k
  by unfold_locales (auto simp: accept_def split: sum.splits)

section \<open>What acceptance proves\<close>

text \<open>
  \<open>quorum_signed\<close>: at least \<open>t\<close> different identities of the key map have validly signed.
\<close>

definition has_signed :: "crypto \<Rightarrow> contracts \<Rightarrow> (string, string) hashmap \<Rightarrow> membership_manifest \<Rightarrow> string \<Rightarrow> bool" where
  "has_signed c k keys m i \<longleftrightarrow>
     (\<exists>sig \<in> set (mf_signatures m). signer_id sig = i \<and> signed_by c k m keys sig)"

definition quorum_signed :: "crypto \<Rightarrow> contracts \<Rightarrow> (string, string) hashmap \<Rightarrow> nat \<Rightarrow> membership_manifest \<Rightarrow> bool" where
  "quorum_signed c k keys t m \<longleftrightarrow>
     (\<exists>Q. finite Q \<and> t \<le> card Q \<and> Q \<subseteq> dom (map_of keys) \<and> (\<forall>i \<in> Q. has_signed c k keys m i))"

lemma signed_in_keys: "signed_by c k m keys sig \<Longrightarrow> signer_id sig \<in> dom (map_of keys)"
  by (auto simp: signed_by_def split: option.splits)

lemma require_signatures_quorum:
  assumes "require_signatures c k m keys t = Inr u" and "distinct (map signer_id (mf_signatures m))"
  shows "quorum_signed c k keys (unat t) m"
proof -
  let ?sigs = "filter (signed_by c k m keys) (mf_signatures m)"
  let ?Q = "signer_id ` set ?sigs"
  have "distinct (map signer_id ?sigs)"
    using assms(2) by (simp add: distinct_map_filter)
  then have "card ?Q = length ?sigs"
    by (metis distinct_card length_map set_map)
  moreover have "unat t \<le> length ?sigs"
    using assms(1) by (simp add: require_signatures_def require_Inr not_less)
  ultimately show ?thesis
    unfolding quorum_signed_def has_signed_def
    by (intro exI [of _ ?Q]) (auto dest: signed_in_keys)
qed

lemma collect_map_get: "map_of (collect_map kvs) = map_of (rev kvs)"
proof -
  have "map_of (fold (\<lambda>(k, v) h. hm_insert k v h) kvs h) = map_of h ++ map_of (rev kvs)" for h
    by (induction kvs arbitrary: h) (auto simp: fun_eq_iff map_add_def split: option.splits)
  then show ?thesis by (simp add: collect_map_def)
qed

lemma collect_map_dom: "dom (map_of (collect_map kvs)) = fst ` set kvs"
  by (simp add: collect_map_get dom_map_of_conv_image_fst)

lemma accept_ok:
  "accept c k v m = (Inr u, v') \<longleftrightarrow> verify_next c k v m = Inr () \<and> v' = v\<lparr>mv_current := Some m\<rparr>"
  by (auto simp: accept_def split: sum.splits)

lemma verify_next_structure: "verify_next c k v m = Inr u \<Longrightarrow> validate_structure c k v m = Inr ()"
  by (auto simp: verify_next_def res_bind_Inr)

lemma structure_signers:
  "validate_structure c k v m = Inr u \<Longrightarrow> distinct (map signer_id (mf_signatures m))"
  by (auto simp: validate_structure_def res_bind_Inr require_Inr)

lemma verify_next_signatures:
  assumes "verify_next c k v m = Inr u"
  shows "quorum_signed c k (authorized_keys v) (threshold v) m"
proof -
  have "distinct (map signer_id (mf_signatures m))"
    by (rule structure_signers [OF verify_next_structure [OF assms]])
  moreover have "require_signatures c k m (authorized_keys v)
      (case mv_current v of None \<Rightarrow> tp_threshold (mv_genesis v) | Some cur \<Rightarrow> mf_threshold cur) = Inr ()"
    using assms
    by (auto simp: verify_next_def verify_initial_def verify_after_stable_def verify_after_joint_def
        authorized_keys_def res_bind_Inr split: option.splits if_splits)
  ultimately show ?thesis
    using require_signatures_quorum [of c k m "authorized_keys v"]
    by (cases "mv_current v") (auto simp: threshold_def)
qed

lemma verify_next_joint:
  assumes "verify_next c k v m = Inr u" and "mf_phase m = Joint"
  shows "quorum_signed c k (manifest_keys (mf_members m)) (unat (mf_threshold m)) m \<and>
    (\<exists>cur. mv_current v = Some cur \<and> mf_phase cur = Stable)"
proof -
  have "distinct (map signer_id (mf_signatures m))"
    by (rule structure_signers [OF verify_next_structure [OF assms(1)]])
  moreover obtain cur where "mv_current v = Some cur" "mf_phase cur = Stable"
    "require_signatures c k m (manifest_keys (mf_members m)) (mf_threshold m) = Inr ()"
    using assms
    by (auto simp: verify_next_def verify_initial_def verify_after_stable_def verify_after_joint_def
        res_bind_Inr require_Inr split: option.splits if_splits)
  ultimately show ?thesis using require_signatures_quorum by blast
qed

lemma verify_next_chain:
  assumes "verify_next c k v m = Inr u" and "mv_current v = Some cur"
  shows "previous_manifest_hash m = canonical_hash k cur \<and>
    (mf_phase m = Stable \<longrightarrow> same_roster cur m) \<and>
    mf_epoch m = (case mf_phase cur of Stable \<Rightarrow> saturating_add (mf_epoch cur) 1 | Joint \<Rightarrow> the (next_epoch cur))"
  using assms
  by (auto simp: verify_next_def verify_after_stable_def verify_after_joint_def require_chain_def
      res_bind_Inr require_Inr ok_or_Inr split: if_splits membership_phase.splits)

lemma verify_next_first:
  assumes "verify_next c k v m = Inr u" and "mv_current v = None"
  shows "previous_manifest_hash m = zero_hash \<and> mf_phase m = Stable \<and> mf_epoch m \<noteq> 0"
  using assms by (auto simp: verify_next_def verify_initial_def res_bind_Inr require_Inr)

text \<open>The epoch that the manifest in force asks of its successor.\<close>

definition successor_epoch :: "membership_manifest \<Rightarrow> u64 option" where
  "successor_epoch cur = (case mf_phase cur of Stable \<Rightarrow> Some (saturating_add (mf_epoch cur) 1) | Joint \<Rightarrow> next_epoch cur)"

lemma verify_next_epoch:
  assumes "verify_next c k v m = Inr u" and "mv_current v = Some cur"
  shows "successor_epoch cur = Some (mf_epoch m)"
  using assms
  by (auto simp: verify_next_def verify_after_stable_def verify_after_joint_def require_chain_def
      successor_epoch_def res_bind_Inr require_Inr ok_or_Inr split: if_splits membership_phase.splits)

text \<open>
  C4. An accepted manifest is authorized by the membership in force: at least the threshold of
  different current members (of the genesis members, for the first manifest) have validly signed
  it. The roster never changes in one step: a stable manifest has the roster of the manifest
  before it, and a joint manifest follows a stable one and is also signed by the threshold of
  the roster it proposes. It names the hash of the manifest before it and is in the epoch that
  one asks for: the next number after a stable manifest, the announced epoch after a joint one;
  the first manifest names the zero hash, is stable and is not in epoch zero. A refused
  manifest changes nothing.
\<close>

theorem manifest_accept_authorized:
  "case accept c k v m of
     (Inl e, v') \<Rightarrow> v' = v
   | (Inr _, v') \<Rightarrow> v' = v\<lparr>mv_current := Some m\<rparr> \<and>
       quorum_signed c k (authorized_keys v) (threshold v) m \<and>
       (case (mv_current v, mf_phase m) of
          (None, ph) \<Rightarrow> ph = Stable \<and> previous_manifest_hash m = zero_hash \<and> mf_epoch m \<noteq> 0
        | (Some cur, Stable) \<Rightarrow> same_roster cur m \<and> previous_manifest_hash m = canonical_hash k cur \<and>
            successor_epoch cur = Some (mf_epoch m)
        | (Some cur, Joint) \<Rightarrow> mf_phase cur = Stable \<and> previous_manifest_hash m = canonical_hash k cur \<and>
            successor_epoch cur = Some (mf_epoch m) \<and>
            quorum_signed c k (manifest_keys (mf_members m)) (unat (mf_threshold m)) m)"
proof (cases "verify_next c k v m")
  case (Inl e)
  then show ?thesis by (simp add: accept_def)
next
  case (Inr u)
  then have "verify_next c k v m = Inr ()" by simp
  note facts = verify_next_signatures [OF this] verify_next_chain [OF this] verify_next_first [OF this]
    verify_next_joint [OF this] verify_next_epoch [OF this]
  show ?thesis
  proof (cases "mv_current v")
    case None
    then show ?thesis using Inr facts(1,3) by (simp add: accept_def split: membership_phase.splits)
  next
    case (Some cur)
    then show ?thesis using Inr facts by (auto simp: accept_def split: membership_phase.splits)
  qed
qed

text \<open>
  C7. Conflicting manifests need a double signer: when the threshold in force is more than half
  of the members, two manifests accepted as successors of the same verifier state have a common
  signer, a current member that has validly signed both.
\<close>

theorem manifest_fork_needs_double_signer:
  assumes "accept c k v m = (Inr u, v')" and "accept c k v n = (Inr u', v'')"
    and "member_count v < 2 * threshold v"
  shows "\<exists>i. i \<in> dom (map_of (authorized_keys v)) \<and>
    has_signed c k (authorized_keys v) m i \<and> has_signed c k (authorized_keys v) n i"
proof -
  let ?M = "dom (map_of (authorized_keys v))"
  obtain Q where Q: "threshold v \<le> card Q" "Q \<subseteq> ?M" "\<forall>i \<in> Q. has_signed c k (authorized_keys v) m i"
    using verify_next_signatures [of c k v m] assms(1) unfolding accept_ok quorum_signed_def by blast
  obtain R where R: "threshold v \<le> card R" "R \<subseteq> ?M" "\<forall>i \<in> R. has_signed c k (authorized_keys v) n i"
    using verify_next_signatures [of c k v n] assms(2) unfolding accept_ok quorum_signed_def by blast
  have "card ?M \<le> member_count v"
    by (auto simp: authorized_keys_def trust_keys_def manifest_keys_def collect_map_dom member_count_def
        card_image_le card_length image_image intro: order_trans [OF card_image_le] split: option.splits)
  moreover have "card (Q \<union> R) \<le> card ?M"
    using Q R by (intro card_mono) (auto simp: finite_dom_map_of)
  moreover have "finite Q" "finite R"
    using Q(2) R(2) finite_subset finite_dom_map_of by blast+
  ultimately have "Q \<inter> R \<noteq> {}"
    using card_Un_disjoint [of Q R] Q(1) R(1) assms(3) by force
  then show ?thesis using Q R by blast
qed

section \<open>Histories\<close>

fun linked :: "contracts \<Rightarrow> string \<Rightarrow> membership_manifest list \<Rightarrow> bool" where
  "linked k prev [] = True"
| "linked k prev (m # ms) = (previous_manifest_hash m = prev \<and> linked k (canonical_hash k m) ms)"

lemma linked_append [simp]:
  "linked k prev (ms @ [m]) \<longleftrightarrow> linked k prev ms \<and>
     previous_manifest_hash m = (if ms = [] then prev else canonical_hash k (last ms))"
  by (induction ms arbitrary: prev) auto

definition chained_history :: "contracts \<Rightarrow> membership_manifest list \<Rightarrow> membership_verifier \<Rightarrow> bool" where
  "chained_history k ms v \<longleftrightarrow> linked k zero_hash ms \<and> mv_current v = (if ms = [] then None else Some (last ms))"

lemma restored_history:
  assumes "verifier_new c k b p = Inr v0" and "step_all (accept c k) v0 ms = Inr v"
  shows "chained_history k ms v \<and> mv_genesis v = mv_genesis v0"
  using assms(2)
proof (induction ms arbitrary: v rule: rev_induct)
  case Nil
  then show ?case using assms(1) by (auto simp: chained_history_def verifier_new_def res_bind_Inr)
next
  case (snoc m ms)
  then obtain w where w: "step_all (accept c k) v0 ms = Inr w" "accept c k w m = (Inr (), v)"
    by (auto simp: verifier_log.step_all_snoc split: sum.splits prod.splits)
  with snoc.IH [OF w(1)] show ?case
    using verify_next_first [of c k w m] verify_next_chain [of c k w m]
    by (auto simp: chained_history_def accept_ok split: if_splits)
qed

definition head_of :: "contracts \<Rightarrow> membership_manifest list \<Rightarrow> string option" where
  "head_of k ms = (if ms = [] then None else Some (canonical_hash k (last ms)))"

lemma linked_determined:
  assumes "linked k zero_hash ms" and "linked k zero_hash ns"
    and "inj_on (canonical_hash k) (set ms \<union> set ns)" and "zero_hash \<notin> canonical_hash k ` (set ms \<union> set ns)"
    and "head_of k ms = head_of k ns"
  shows "ms = ns"
  using assms
proof (induction ms arbitrary: ns rule: rev_induct)
  case Nil
  then show ?case by (simp add: head_of_def split: if_splits)
next
  case (snoc m ms)
  then have "ns \<noteq> []" by (simp add: head_of_def split: if_splits)
  then obtain n ns' where ns: "ns = ns' @ [n]" by (cases ns rule: rev_cases) simp_all
  have "canonical_hash k m = canonical_hash k n" using snoc.prems(5) by (simp add: head_of_def ns)
  from inj_onD [OF snoc.prems(3) this] have mn: "m = n" by (simp add: ns)
  have nonzero: "canonical_hash k x \<noteq> zero_hash" if "x \<in> set ms \<union> set ns'" for x
    using snoc.prems(4) that unfolding ns by (metis Un_iff image_eqI set_append)
  have "head_of k ms = head_of k ns'"
    using snoc.prems(1,2) nonzero [of "last ms"] nonzero [of "last ns'"]
    unfolding ns mn head_of_def by (auto split: if_splits)
  moreover have "inj_on (canonical_hash k) (set ms \<union> set ns')"
    using snoc.prems(3) by (rule inj_on_subset) (auto simp: ns)
  ultimately have "ms = ns'"
    using snoc.prems(1,2,4) ns by (intro snoc.IH) simp_all
  then show ?case using ns mn by simp
qed

lemma restore_ok:
  "restore c k b p ms = Inr v \<longleftrightarrow> (\<exists>v0. verifier_new c k b p = Inr v0 \<and> step_all (accept c k) v0 ms = Inr v)"
  by (simp add: restore_def res_bind_Inr)

text \<open>
  C18. The hash of the current manifest determines the whole history: two nodes that have
  restored their verifiers from lists of manifests, and agree on the current hash, have accepted
  the same manifests in the same order, as long as the canonical hash has no collision among
  these manifests and is none of them the 64 zeros that mark the beginning.
\<close>

theorem manifest_history_determined:
  assumes "restore c k b p ms = Inr v" and "restore c k b' p' ns = Inr w"
    and "inj_on (canonical_hash k) (set ms \<union> set ns)"
    and "zero_hash \<notin> canonical_hash k ` (set ms \<union> set ns)"
    and "current_hash k v = current_hash k w"
  shows "ms = ns"
proof -
  have hist: "chained_history k ms v" "chained_history k ns w"
    using assms(1,2) restored_history unfolding restore_ok by blast+
  have last: "head_of k ms = head_of k ns"
    using assms(5) hist by (auto simp: head_of_def current_hash_def chained_history_def split: if_splits)
  from linked_determined [OF _ _ assms(3,4) last] show ?thesis
    using hist by (simp add: chained_history_def)
qed

text \<open>Epochs: they never go back, and increase strictly until the counter saturates.\<close>

lemma accept_epoch:
  assumes "accept c k v m = (Inr u, v')" and "mv_current v = Some cur"
    and "mf_phase cur = Joint \<longrightarrow> (\<exists>n. next_epoch cur = Some n \<and> mf_epoch cur < n)"
  shows "mf_epoch cur \<le> mf_epoch m \<and> (mf_epoch cur \<noteq> - 1 \<longrightarrow> mf_epoch cur < mf_epoch m)"
proof -
  have m: "mf_epoch m = (case mf_phase cur of Stable \<Rightarrow> saturating_add (mf_epoch cur) 1 | Joint \<Rightarrow> the (next_epoch cur))"
    using assms(1) verify_next_chain [OF _ assms(2)] by (auto simp: accept_ok)
  show ?thesis
  proof (cases "mf_phase cur")
    case Stable
    then have m: "mf_epoch m = saturating_add (mf_epoch cur) 1" using m by simp
    show ?thesis
    proof (cases "unat (mf_epoch cur) + 1 < 2 ^ 64")
      case True
      then have "unat (mf_epoch m) = unat (mf_epoch cur) + 1"
        using m by (simp add: saturating_add_def unat_plus_no_overflow)
      then show ?thesis by (simp add: word_le_nat_alt word_less_nat_alt)
    next
      case False
      then have "unat (mf_epoch cur) = unat (- 1 :: u64)" "mf_epoch m = - 1"
        using unsigned_less [of "mf_epoch cur", where 'a = nat] m
        by (simp_all add: saturating_add_def unsigned_minus_1_eq_mask mask_eq_exp_minus_1)
      then show ?thesis by (simp add: word_le_nat_alt word_unat_eq_iff)
    qed
  next
    case Joint
    then show ?thesis using m assms(3) by auto
  qed
qed

section \<open>A concrete network\<close>

text \<open>
  An instance of the contracts, to exhibit that the hypotheses can hold: the hash of a manifest
  is its epoch, a member identifier is the hexadecimal key, an endpoint is its host.
\<close>

definition demo_contracts :: contracts where
  "demo_contracts = \<lparr>contract_version = ''v1'', canonical_hash = (\<lambda>m. show_word (mf_epoch m)),
     contract_member_id = (\<lambda>n b. demo_hex_encode b),
     manifest_signing_bytes = (\<lambda>m. replicate 24 0 @ u64_le (mf_epoch m)),
     hello_signing_bytes = (\<lambda>h. replicate 24 0 @ u64_le (issued_at_epoch_ms h)),
     parse_url = (\<lambda>s. Some \<lparr>url_scheme = ''https'', url_username = [], url_password = None,
        url_host = Some s, url_path = [], url_query = None, url_fragment = None\<rparr>)\<rparr>"

definition demo_key :: "u8 \<Rightarrow> string" where
  "demo_key b = demo_hex_encode (replicate 32 b)"

definition demo_host :: string where
  "demo_host = replicate 56 CHR ''a'' @ ''.onion''"

definition demo_roster :: "u8 list \<Rightarrow> manifest_member list" where
  "demo_roster bs = map (\<lambda>b. \<lparr>mm_member_id = demo_key b, mm_root_public_key = demo_key b, mm_endpoint = demo_host\<rparr>) bs"

definition demo_bundle :: genesis_trust_bundle where
  "demo_bundle = (let p = \<lparr>tp_threshold = 2,
       tp_members = map (\<lambda>b. \<lparr>tm_member_id = demo_key b, tm_root_public_key = demo_key b\<rparr>) [7, 8, 9]\<rparr>
     in \<lparr>gb_contract_version = ''v1'', gb_network_id = ''net'', gb_bank = p, gb_vault = p\<rparr>)"

definition demo_sig :: "u64 \<Rightarrow> string" where
  "demo_sig e = demo_hex_encode ((replicate 24 0 @ u64_le e) @ (replicate 24 0 @ u64_le e))"

definition demo_manifest :: "u64 \<Rightarrow> string \<Rightarrow> u8 list \<Rightarrow> membership_manifest" where
  "demo_manifest e prev signers = \<lparr>mf_contract_version = ''v1'', mf_network_id = ''net'', mf_plane = VaultPlane,
     mf_epoch = e, mf_phase = Stable, previous_manifest_hash = prev, mf_threshold = 2,
     mf_members = demo_roster [7, 8, 9], next_epoch = None,
     mf_signatures = map (\<lambda>b. \<lparr>signer_id = demo_key b,
       ms_signature = demo_sig e\<rparr>) signers\<rparr>"

lemma demo_key_eq: "demo_key a = demo_key b \<longleftrightarrow> a = b"
proof -
  have "demo_hex_encode x = demo_hex_encode y \<longleftrightarrow> x = y" for x y
    by (metis demo_hex_roundtrip option.inject)
  then show ?thesis by (simp only: demo_key_def replicate_eq_replicate) simp
qed

lemma demo_key_decode [simp]: "decode_array demo_crypto 32 (demo_key b) = Some (replicate 32 b)"
  by (simp add: decode_array_def demo_crypto_def demo_key_def demo_hex_roundtrip)

lemma demo_host_ok: "validate_onion_endpoint demo_contracts e demo_host = Inr ()"
proof -
  have "onion_url \<lparr>url_scheme = ''https'', url_username = [], url_password = None,
      url_host = Some demo_host, url_path = [], url_query = None, url_fragment = None\<rparr>"
    by (simp add: onion_url_def demo_host_def list_all_iff service_char_def Let_def)
  then show ?thesis by (simp add: validate_onion_endpoint_ok demo_contracts_def)
qed

lemma demo_member_ok: "validate_member demo_crypto demo_contracts n (demo_key b) (demo_key b) = Inr ()"
  by (simp add: validate_member_def require_def) (simp add: demo_contracts_def demo_key_def)

lemma demo_signed:
  "manifest_signature_valid demo_crypto demo_contracts (demo_key b) (demo_sig e) m \<longleftrightarrow> mf_epoch m = e"
proof -
  have "decode_array demo_crypto 64 (demo_sig e) = Some ((replicate 24 0 @ u64_le e) @ (replicate 24 0 @ u64_le e))"
    by (simp add: demo_sig_def decode_array_def demo_crypto_def demo_hex_roundtrip)
  then show ?thesis
    by (simp add: manifest_signature_valid_def) (auto simp: demo_crypto_def demo_contracts_def)
qed

lemma demo_roster_keys: "manifest_keys (demo_roster bs) = collect_map (map (\<lambda>b. (demo_key b, demo_key b)) bs)"
  by (simp add: manifest_keys_def demo_roster_def comp_def)

lemma demo_keys_get: "map_of (collect_map (map (\<lambda>b. (demo_key b, demo_key b)) bs)) (demo_key b) =
    (if b \<in> set bs then Some (demo_key b) else None)"
proof -
  have "map_of (map (\<lambda>b. (demo_key b, demo_key b)) xs) (demo_key b) = (if b \<in> set xs then Some (demo_key b) else None)"
    for xs by (induction xs) (auto simp: demo_key_eq)
  then show ?thesis by (simp add: collect_map_get rev_map)
qed

lemma demo_manifest_signatures:
  assumes "set signers \<subseteq> set bs"
  shows "filter (signed_by demo_crypto demo_contracts (demo_manifest e prev signers)
      (collect_map (map (\<lambda>b. (demo_key b, demo_key b)) bs))) (mf_signatures (demo_manifest e prev signers)) =
    mf_signatures (demo_manifest e prev signers)"
  using assms
  by (intro filter_True)
    (auto simp: demo_manifest_def signed_by_def demo_keys_get demo_signed split: option.splits)

lemma demo_members_ok:
  "check_members (\<lambda>m. res_bind (validate_member demo_crypto demo_contracts n (mm_member_id m) (mm_root_public_key m))
       (\<lambda>_. validate_onion_endpoint demo_contracts MeInvalidEndpoint (mm_endpoint m))) mm_member_id {} (demo_roster [7, 8, 9]) = Inr ()"
  by (simp add: demo_roster_def demo_member_ok demo_host_ok demo_key_eq require_def)

lemma demo_structure:
  assumes "distinct signers" and "mv_network_id v = ''net''" and "mv_plane v = VaultPlane"
  shows "validate_structure demo_crypto demo_contracts v (demo_manifest e prev signers) = Inr ()"
proof -
  have "inj_on demo_key (set signers)" by (auto simp: inj_on_def demo_key_eq)
  then have "distinct (map signer_id (mf_signatures (demo_manifest e prev signers)))"
    using assms(1) by (simp add: demo_manifest_def comp_def distinct_map)
  moreover have "length (demo_roster [7, 8, 9]) = 3" by (simp add: demo_roster_def)
  moreover have "contract_version demo_contracts = ''v1''" by (simp add: demo_contracts_def)
  ultimately show ?thesis
    using demo_members_ok assms(2,3)
    by (simp add: validate_structure_def validate_manifest_members_def demo_manifest_def require_def)
qed

definition demo_verifier :: membership_verifier where
  "demo_verifier = \<lparr>mv_network_id = ''net'', mv_plane = VaultPlane, mv_genesis = gb_vault demo_bundle, mv_current = None\<rparr>"

lemma demo_new: "verifier_new demo_crypto demo_contracts demo_bundle VaultPlane = Inr demo_verifier"
proof -
  have "gb_contract_version demo_bundle = contract_version demo_contracts" "gb_network_id demo_bundle = ''net''"
    by (simp_all add: demo_bundle_def Let_def demo_contracts_def)
  moreover have "validate_trust_plane demo_crypto demo_contracts n (gb_vault demo_bundle) = Inr ()"
      "gb_bank demo_bundle = gb_vault demo_bundle" for n
    by (simp_all add: demo_bundle_def Let_def validate_trust_plane_def demo_member_ok demo_key_eq require_def)
  ultimately show ?thesis by (simp add: verifier_new_def demo_verifier_def require_def)
qed

lemma demo_genesis_keys:
  "authorized_keys demo_verifier = collect_map (map (\<lambda>b. (demo_key b, demo_key b)) [7, 8, 9])"
  by (simp add: authorized_keys_def demo_verifier_def trust_keys_def demo_bundle_def Let_def)

lemma demo_accept_first:
  assumes "distinct signers" and "set signers \<subseteq> {7, 8, 9}" and "length signers \<ge> 2" and "e \<noteq> 0"
  shows "accept demo_crypto demo_contracts demo_verifier (demo_manifest e zero_hash signers) =
    (Inr (), demo_verifier\<lparr>mv_current := Some (demo_manifest e zero_hash signers)\<rparr>)"
proof -
  have "require_signatures demo_crypto demo_contracts (demo_manifest e zero_hash signers)
      (trust_keys (tp_members (mv_genesis demo_verifier))) (tp_threshold (mv_genesis demo_verifier)) = Inr ()"
    using demo_manifest_signatures [of signers "[7, 8, 9]" e zero_hash] demo_genesis_keys assms
    by (simp add: authorized_keys_def demo_verifier_def require_signatures_def require_def)
      (simp add: demo_bundle_def Let_def demo_manifest_def)
  moreover have "validate_structure demo_crypto demo_contracts demo_verifier (demo_manifest e zero_hash signers) = Inr ()"
    using assms(1) by (intro demo_structure) (simp_all add: demo_verifier_def)
  moreover have "mv_current demo_verifier = None" by (simp add: demo_verifier_def)
  moreover have "verify_initial demo_crypto demo_contracts demo_verifier (demo_manifest e zero_hash signers) = Inr ()"
    using calculation(1) assms(4) by (simp add: verify_initial_def require_def demo_manifest_def)
  ultimately show ?thesis by (simp add: accept_def verify_next_def)
qed

lemma demo_accept_next:
  assumes "distinct signers" and "set signers \<subseteq> {7, 8, 9}" and "length signers \<ge> 2"
  shows "accept demo_crypto demo_contracts (demo_verifier\<lparr>mv_current := Some (demo_manifest 1 zero_hash ss)\<rparr>)
      (demo_manifest 2 (show_word (1 :: u64)) signers) =
    (Inr (), demo_verifier\<lparr>mv_current := Some (demo_manifest 2 (show_word (1 :: u64)) signers)\<rparr>)"
proof -
  let ?v = "demo_verifier\<lparr>mv_current := Some (demo_manifest 1 zero_hash ss)\<rparr>"
  let ?cur = "demo_manifest 1 zero_hash ss" and ?m = "demo_manifest 2 (show_word (1 :: u64)) signers"
  have "require_signatures demo_crypto demo_contracts ?m (manifest_keys (mf_members ?cur)) (mf_threshold ?cur) = Inr ()"
    using demo_manifest_signatures [of signers "[7, 8, 9]" 2] assms
    by (simp add: demo_manifest_def demo_roster_keys require_signatures_def require_def)
  moreover have "require_chain demo_contracts ?cur ?m (saturating_add (mf_epoch ?cur) 1) = Inr ()"
    by (simp add: require_chain_def require_def demo_manifest_def demo_contracts_def saturating_add_def)
  moreover have "mf_phase ?m = Stable" "mf_phase ?cur = Stable" "same_roster ?cur ?m"
    by (simp_all add: demo_manifest_def same_roster_def)
  moreover have "validate_structure demo_crypto demo_contracts ?v ?m = Inr ()"
    using assms(1) by (intro demo_structure) (simp_all add: demo_verifier_def)
  ultimately show ?thesis
    by (simp add: accept_def verify_next_def verify_after_stable_def require_def)
qed

theorem manifest_fork_needs_double_signer_witness:
  "\<exists>i. has_signed demo_crypto demo_contracts (authorized_keys demo_verifier) (demo_manifest 1 zero_hash [7, 8]) i \<and>
     has_signed demo_crypto demo_contracts (authorized_keys demo_verifier) (demo_manifest 5 zero_hash [8, 9]) i"
proof -
  have "accept demo_crypto demo_contracts demo_verifier (demo_manifest 1 zero_hash [7, 8]) =
      (Inr (), demo_verifier\<lparr>mv_current := Some (demo_manifest 1 zero_hash [7, 8])\<rparr>)"
    by (rule demo_accept_first) simp_all
  moreover have "accept demo_crypto demo_contracts demo_verifier (demo_manifest 5 zero_hash [8, 9]) =
      (Inr (), demo_verifier\<lparr>mv_current := Some (demo_manifest 5 zero_hash [8, 9])\<rparr>)"
    by (rule demo_accept_first) simp_all
  moreover have "member_count demo_verifier < 2 * threshold demo_verifier"
    by (simp add: member_count_def threshold_def demo_verifier_def demo_bundle_def Let_def)
  ultimately show ?thesis using manifest_fork_needs_double_signer by blast
qed

lemma demo_restore_one:
  "restore demo_crypto demo_contracts demo_bundle VaultPlane [demo_manifest 1 zero_hash [7, 8]] =
     Inr (demo_verifier\<lparr>mv_current := Some (demo_manifest 1 zero_hash [7, 8])\<rparr>)"
  using demo_accept_first [of "[7, 8]" 1] by (simp add: restore_def demo_new)

lemma demo_restore_two:
  "restore demo_crypto demo_contracts demo_bundle VaultPlane
       [demo_manifest 1 zero_hash [7, 8], demo_manifest 2 (show_word (1 :: u64)) [8, 9]] =
     Inr (demo_verifier\<lparr>mv_current := Some (demo_manifest 2 (show_word (1 :: u64)) [8, 9])\<rparr>)"
  using demo_accept_first [of "[7, 8]" 1] demo_accept_next [of "[8, 9]" "[7, 8]"]
  by (simp add: restore_def demo_new)

lemma demo_hashes: "show_word (1 :: u64) = ''1''" "show_word (2 :: u64) = ''2''"
  by (simp_all add: show_word_def show_nat_digit)

theorem manifest_history_determined_witness:
  "current_hash demo_contracts (demo_verifier\<lparr>mv_current := Some (demo_manifest 1 zero_hash [7, 8])\<rparr>) \<noteq>
   current_hash demo_contracts (demo_verifier\<lparr>mv_current := Some (demo_manifest 2 (show_word (1 :: u64)) [8, 9])\<rparr>)"
proof
  let ?m = "demo_manifest 1 zero_hash [7, 8]" and ?n = "demo_manifest 2 (show_word (1 :: u64)) [8, 9]"
  assume eq: "current_hash demo_contracts (demo_verifier\<lparr>mv_current := Some ?m\<rparr>) =
    current_hash demo_contracts (demo_verifier\<lparr>mv_current := Some ?n\<rparr>)"
  have h: "canonical_hash demo_contracts ?m = ''1''" "canonical_hash demo_contracts ?n = ''2''"
    by (simp_all add: demo_contracts_def demo_manifest_def demo_hashes)
  have "inj_on (canonical_hash demo_contracts) (set [?m] \<union> set [?m, ?n])"
    using h by (simp add: inj_on_def)
  moreover have "zero_hash \<notin> canonical_hash demo_contracts ` (set [?m] \<union> set [?m, ?n])"
    using h by (simp add: zero_hash_def numeral_eq_Suc)
  ultimately have "[?m] = [?m, ?n]"
    using manifest_history_determined [OF demo_restore_one demo_restore_two] eq by blast
  then show False by simp
qed

end
