(* ===== verification/Identity.thy ===== *)
theory Identity
  imports Contracts File_System
begin

text \<open>
  Node identities (\<open>kerosene-identity-core\<close>): a signing key bound to a network and a plane,
  the signed greeting of a peer and its verification, and the key file. Signing with a secret
  key (\<open>ed25519_dalek::SigningKey\<close>) is a parameter; random bytes are arguments.
\<close>

section \<open>Identities\<close>

record signing =
  verifying_key :: "bytes \<Rightarrow> bytes"
  sign :: "bytes \<Rightarrow> bytes \<Rightarrow> bytes"

text \<open>What the signing crate documents: keys and signatures have their sizes, and verify.\<close>

definition signing_ok :: "crypto \<Rightarrow> signing \<Rightarrow> bool" where
  "signing_ok c g \<longleftrightarrow>
     (\<forall>sk. length sk = 32 \<longrightarrow> length (verifying_key g sk) = 32 \<and> key_rejected c (verifying_key g sk) = None \<and>
        (\<forall>m. length (sign g sk m) = 64 \<and> sig_valid c (verifying_key g sk) m (sign g sk m)))"

datatype identity_error =
    IdIo string
  | InvalidSecret
  | InvalidPublicKey
  | IdInvalidSignature
  | IdMemberIdMismatch

fun identity_error_display :: "identity_error \<Rightarrow> string" where
  "identity_error_display (IdIo e) = ''identity key IO failed: '' @ e"
| "identity_error_display InvalidSecret = ''identity key must contain exactly 32 bytes encoded as lowercase hex''"
| "identity_error_display InvalidPublicKey = ''peer public key is invalid''"
| "identity_error_display IdInvalidSignature = ''peer signature is invalid''"
| "identity_error_display IdMemberIdMismatch = ''peer member ID does not match its network-bound root key''"

record node_identity =
  ni_network_id :: string
  ni_plane :: discovery_plane
  signing_key :: bytes
  ni_member_id :: string

definition from_signing_key :: "contracts \<Rightarrow> signing \<Rightarrow> string \<Rightarrow> discovery_plane \<Rightarrow> bytes \<Rightarrow> node_identity" where
  "from_signing_key k g network plane sk =
     \<lparr>ni_network_id = network, ni_plane = plane, signing_key = sk,
      ni_member_id = contract_member_id k network (verifying_key g sk)\<rparr>"

definition from_secret :: "contracts \<Rightarrow> signing \<Rightarrow> string \<Rightarrow> discovery_plane \<Rightarrow> bytes \<Rightarrow> node_identity" where
  "from_secret k g network plane secret = from_signing_key k g network plane secret"

text \<open>\<open>generate\<close>; the random secret is an argument.\<close>

definition generate :: "contracts \<Rightarrow> signing \<Rightarrow> string \<Rightarrow> discovery_plane \<Rightarrow> bytes \<Rightarrow> node_identity" where
  "generate k g network plane random_secret = from_signing_key k g network plane random_secret"

definition root_public_key_hex :: "crypto \<Rightarrow> signing \<Rightarrow> node_identity \<Rightarrow> string" where
  "root_public_key_hex c g i = hex_encode c (verifying_key g (signing_key i))"

section \<open>The greeting\<close>

definition unsigned_hello ::
    "crypto \<Rightarrow> contracts \<Rightarrow> signing \<Rightarrow> node_identity \<Rightarrow> string \<Rightarrow> string \<Rightarrow> u64 \<Rightarrow> peer_hello" where
  "unsigned_hello c k g i challenge endpoint now =
     \<lparr>ph_contract_version = contract_version k, ph_network_id = ni_network_id i,
      ph_plane = ni_plane i, ph_member_id = ni_member_id i,
      ph_root_public_key = root_public_key_hex c g i, ph_challenge = challenge,
      issued_at_epoch_ms = now, ph_endpoint = endpoint, ph_signature = []\<rparr>"

definition sign_hello ::
    "crypto \<Rightarrow> contracts \<Rightarrow> signing \<Rightarrow> node_identity \<Rightarrow> string \<Rightarrow> string \<Rightarrow> u64 \<Rightarrow> peer_hello" where
  "sign_hello c k g i challenge endpoint now =
     (let hello = unsigned_hello c k g i challenge endpoint now
      in hello\<lparr>ph_signature := hex_encode c (sign g (signing_key i) (hello_signing_bytes k hello))\<rparr>)"

lemma unsigned_hello_fields [simp]:
  "ph_network_id (unsigned_hello c k g i ch ep now) = ni_network_id i"
  "ph_plane (unsigned_hello c k g i ch ep now) = ni_plane i"
  "ph_member_id (unsigned_hello c k g i ch ep now) = ni_member_id i"
  "ph_root_public_key (unsigned_hello c k g i ch ep now) = root_public_key_hex c g i"
  "ph_challenge (unsigned_hello c k g i ch ep now) = ch"
  "ph_endpoint (unsigned_hello c k g i ch ep now) = ep"
  "ph_contract_version (unsigned_hello c k g i ch ep now) = contract_version k"
  "issued_at_epoch_ms (unsigned_hello c k g i ch ep now) = now"
  by (simp_all add: unsigned_hello_def)

definition verify_hello_signature :: "crypto \<Rightarrow> contracts \<Rightarrow> peer_hello \<Rightarrow> identity_error + unit" where
  "verify_hello_signature c k h =
     res_bind (ok_or (decode_array c 32 (ph_root_public_key h)) InvalidPublicKey) (\<lambda>public_bytes.
     res_bind (require (key_rejected c public_bytes = None) InvalidPublicKey) (\<lambda>_.
     res_bind (require (contract_member_id k (ph_network_id h) public_bytes = ph_member_id h) IdMemberIdMismatch) (\<lambda>_.
     res_bind (ok_or (decode_array c 64 (ph_signature h)) IdInvalidSignature) (\<lambda>signature_bytes.
     require (sig_valid c public_bytes (hello_signing_bytes k h) signature_bytes) IdInvalidSignature))))"

lemma verify_hello_ok [result_simps]:
  "verify_hello_signature c k h = Inr u \<longleftrightarrow>
     (\<exists>pk sg. hex_decode c (ph_root_public_key h) = Some pk \<and> length pk = 32 \<and> key_rejected c pk = None \<and>
        contract_member_id k (ph_network_id h) pk = ph_member_id h \<and>
        hex_decode c (ph_signature h) = Some sg \<and> length sg = 64 \<and>
        sig_valid c pk (hello_signing_bytes k h) sg)"
  by (auto simp: verify_hello_signature_def result_simps decode_array_Some)

text \<open>
  A greeting signed by an identity verifies: with a secret of 32 bytes, and signing bytes
  that do not depend on the signature itself, every greeting \<open>sign_hello\<close> produces passes
  \<open>verify_hello_signature\<close>, and carries the identity, the challenge and the endpoint it was
  made for.
\<close>

theorem signed_hello_verifies:
  assumes "crypto_ok c" and "signing_ok c g" and "length secret = 32"
    and "\<forall>h s. hello_signing_bytes k (h\<lparr>ph_signature := s\<rparr>) = hello_signing_bytes k h"
  shows "let i = from_secret k g network plane secret; h = sign_hello c k g i challenge endpoint now
    in verify_hello_signature c k h = Inr () \<and> ph_member_id h = ni_member_id i \<and>
       ph_root_public_key h = root_public_key_hex c g i \<and> ph_challenge h = challenge \<and>
       ph_endpoint h = endpoint \<and> ph_network_id h = network \<and> ph_plane h = plane"
proof -
  have "hex_decode c (hex_encode c b) = Some b" for b using assms(1) by (simp add: crypto_ok_def)
  moreover have "length (verifying_key g secret) = 32" "key_rejected c (verifying_key g secret) = None"
      "length (sign g secret m) = 64" "sig_valid c (verifying_key g secret) m (sign g secret m)" for m
    using assms(2,3) by (auto simp: signing_ok_def)
  ultimately show ?thesis
    using assms(4)
    by (simp add: Let_def verify_hello_ok sign_hello_def from_secret_def from_signing_key_def root_public_key_hex_def)
qed

section \<open>The key file\<close>

definition create_key_file :: "file_system \<Rightarrow> string \<Rightarrow> string \<Rightarrow> (string + unit) \<times> file_system" where
  "create_key_file fs path encoded =
     io_bind (fs_create_new fs path) (\<lambda>_ fs1.
     io_bind (fs_append fs1 path (str_bytes encoded)) (\<lambda>_ fs2.
     io_bind (fs_append fs2 path [10]) (\<lambda>_ fs3. fs_sync_all fs3)))"

text \<open>
  \<open>load_or_create\<close>: opening and reading the file are two calls; only a missing file leads to
  the creation of a key, with the random secret of the argument.
\<close>

definition load_or_create ::
    "crypto \<Rightarrow> contracts \<Rightarrow> signing \<Rightarrow> string \<Rightarrow> string \<Rightarrow> discovery_plane \<Rightarrow> bytes \<Rightarrow> file_system \<Rightarrow>
       (identity_error + node_identity) \<times> file_system" where
  "load_or_create c k g path network plane random_secret fs =
     (case fault_now fs of
        Some f \<Rightarrow> (Inl (IdIo (io_message f)), io_call fs)
      | None \<Rightarrow>
          if fs_exists fs path
          then io_bind (map_err IdIo (fs_read_to_string (io_call fs) path)) (\<lambda>encoded fs1.
            (case hex_decode c (trim encoded) of
               None \<Rightarrow> (Inl InvalidSecret, fs1)
             | Some b \<Rightarrow> if length b \<noteq> 32 then (Inl InvalidSecret, fs1)
                         else (Inr (from_secret k g network plane b), fs1)))
          else
            io_bind (map_err IdIo (ensure_parent (io_call fs) path)) (\<lambda>_ fs1.
            let identity = generate k g network plane random_secret in
            io_bind (map_err IdIo (create_key_file fs1 path (hex_encode c (signing_key identity)))) (\<lambda>_ fs2.
            (Inr identity, fs2))))"

definition demo_signing :: signing where
  "demo_signing = \<lparr>verifying_key = (\<lambda>sk. sk), sign = (\<lambda>sk m. if length m = 32 then m @ m else replicate 64 0)\<rparr>"

text \<open>A signature scheme that accepts what the demonstration signer produces.\<close>

definition demo_sign_crypto :: crypto where
  "demo_sign_crypto = demo_crypto\<lparr>sig_valid := (\<lambda>k m s. s = sign demo_signing k m)\<rparr>"

definition demo_hello_contracts :: contracts where
  "demo_hello_contracts = \<lparr>contract_version = ''v1'', canonical_hash = (\<lambda>m. show_word (mf_epoch m)),
     contract_member_id = (\<lambda>n b. demo_hex_encode b), manifest_signing_bytes = (\<lambda>m. u64_le (mf_epoch m)),
     hello_signing_bytes = (\<lambda>h. u64_le (issued_at_epoch_ms h) @ str_bytes (ph_challenge h)),
     parse_url = (\<lambda>s. None)\<rparr>"

lemma demo_signing_ok: "crypto_ok demo_sign_crypto" "signing_ok demo_sign_crypto demo_signing"
proof -
  show "crypto_ok demo_sign_crypto"
    using demo_crypto_ok unfolding crypto_ok_def demo_sign_crypto_def by simp
  show "signing_ok demo_sign_crypto demo_signing"
    by (simp add: signing_ok_def demo_sign_crypto_def demo_signing_def demo_crypto_def)
qed

theorem signed_hello_verifies_witness:
  "verify_hello_signature demo_sign_crypto demo_hello_contracts
     (sign_hello demo_sign_crypto demo_hello_contracts demo_signing
        (from_secret demo_hello_contracts demo_signing ''net'' VaultPlane (replicate 32 7)) ''ch'' ''ep'' 5) = Inr ()"
proof -
  have "\<forall>h s. hello_signing_bytes demo_hello_contracts (h\<lparr>ph_signature := s\<rparr>) = hello_signing_bytes demo_hello_contracts h"
    by (simp add: demo_hello_contracts_def)
  moreover have "length (replicate 32 (7 :: u8)) = 32" by simp
  ultimately show ?thesis
    using signed_hello_verifies [OF demo_signing_ok, of "replicate 32 7" demo_hello_contracts] by (simp add: Let_def)
qed

lemma newline_char: "char_of (10 :: nat) = CHR 0x0A"
  by (simp add: char_of_eq_iff)

lemma hex_not_space: "\<forall>x \<in> set ''0123456789abcdef''. \<not> ascii_space x"
  by (simp add: ascii_space_def)

text \<open>A successful call leaves a file that a later successful load reads as the same identity.\<close>

lemma load_creates:
  assumes "\<not> fs_exists fs path" and "load_or_create c k g path network plane secret fs = (Inr i, fs')"
  shows "i = generate k g network plane secret \<and>
    files fs' path = Some (str_bytes (hex_encode c secret) @ [10])"
proof -
  obtain fs1 where "create_key_file fs1 path (hex_encode c secret) = (Inr (), fs')"
      "i = generate k g network plane secret"
    using assms
    by (auto simp: load_or_create_def Let_def generate_def from_signing_key_def io_bind_Inr map_err_Inr
        split: option.splits)
  then show ?thesis
    by (auto simp: create_key_file_def io_bind_Inr fs_create_new_def fs_append_def fs_sync_all_def Let_def
        split: option.splits if_splits)
qed

lemma load_existing:
  assumes "fs_exists fs path"
  shows "files (snd (load_or_create c k g path network plane secret fs)) = files fs"
proof -
  obtain r fs1 where r: "fs_read_to_string (io_call fs) path = (r, fs1)" by force
  have "files fs1 = files fs" using fs_read_to_string_files [of "io_call fs" path] r by simp
  with assms r show ?thesis
    by (cases r) (auto simp: load_or_create_def split: option.splits)
qed

lemma load_reads:
  assumes "files fs path = Some b" and "\<forall>n \<ge> io_calls fs. io_faults fs n = None"
    and "utf8_valid b" and "hex_decode c (trim (bytes_str b)) = Some sk" and "length sk = 32"
  shows "fst (load_or_create c k g path network plane secret fs) = Inr (from_secret k g network plane sk)"
  using assms
  by (simp add: load_or_create_def fs_exists_def fault_now_def fs_read_to_string_def fs_read_def io_call_def)

lemma key_file_utf8:
  assumes "crypto_ok c"
  shows "utf8_valid (str_bytes (hex_encode c b) @ [10])"
proof (rule utf8_valid_ascii)
  have "\<forall>x \<in> set ''0123456789abcdef''. (of_char x :: u8) < 0x80" by simp
  then have "\<forall>x \<in> set (hex_encode c b). (of_char x :: u8) < 0x80"
    using assms unfolding crypto_ok_def by blast
  then show "\<forall>b \<in> set (str_bytes (hex_encode c b) @ [10]). b < 0x80" by (simp add: str_bytes_def)
qed

lemma key_file_text:
  assumes "crypto_ok c"
  shows "hex_decode c (trim (bytes_str (str_bytes (hex_encode c secret) @ [10]))) = Some secret"
proof -
  have "\<forall>x \<in> set (hex_encode c secret). \<not> ascii_space x" using assms hex_not_space unfolding crypto_ok_def by blast
  then have "trim (bytes_str (str_bytes (hex_encode c secret) @ [10])) = hex_encode c secret"
    using trim_line [of "hex_encode c secret"] bytes_str_inverse [of "hex_encode c secret"] by (simp add: bytes_str_def newline_char)
  then show ?thesis using assms by (simp add: crypto_ok_def)
qed

text \<open>
  The identity of a node survives: a call that creates the key file returns the identity of
  the new secret, and every later call that finds this file and meets no failure returns the
  same identity, whatever other secret was drawn; and a call that finds a file, whatever it
  holds, never changes it.
\<close>

theorem identity_file_roundtrip:
  assumes "crypto_ok c" and "length secret = 32"
    and "\<not> fs_exists fs path" and "load_or_create c k g path network plane secret fs = (Inr i, fs')"
    and "files fs'' path = files fs' path" and "\<forall>n \<ge> io_calls fs''. io_faults fs'' n = None"
  shows "fst (load_or_create c k g path network plane other fs'') = Inr i \<and>
    files (snd (load_or_create c k g path network plane other fs'')) = files fs''"
proof -
  note created = load_creates [OF assms(3,4)]
  have "fst (load_or_create c k g path network plane other fs'') = Inr (from_secret k g network plane secret)"
    using created assms(2,5,6) key_file_text [OF assms(1)] key_file_utf8 [OF assms(1)] by (intro load_reads) auto
  moreover have "fs_exists fs'' path" using created assms(5) by (simp add: fs_exists_def)
  ultimately show ?thesis
    using created load_existing [of fs'' path] by (simp add: generate_def from_secret_def)
qed

theorem identity_file_roundtrip_witness:
  "fst (load_or_create demo_sign_crypto demo_hello_contracts demo_signing ''key'' ''net'' VaultPlane (replicate 32 9)
      (snd (load_or_create demo_sign_crypto demo_hello_contracts demo_signing ''key'' ''net'' VaultPlane (replicate 32 7)
        (demo_fs {})))) =
    Inr (from_secret demo_hello_contracts demo_signing ''net'' VaultPlane (replicate 32 7))"
proof -
  let ?run = "load_or_create demo_sign_crypto demo_hello_contracts demo_signing ''key'' ''net'' VaultPlane (replicate 32 7) (demo_fs {})"
  have run: "fst ?run = Inr (from_secret demo_hello_contracts demo_signing ''net'' VaultPlane (replicate 32 7))"
      "io_faults (snd ?run) = (\<lambda>n. None)"
    by (simp_all add: load_or_create_def fault_now_def demo_fs_def fs_exists_def ensure_parent_def has_parent_def
        fs_create_dir_all_def create_key_file_def fs_create_new_def fs_append_def fs_sync_all_def io_call_def Let_def
        generate_def from_secret_def from_signing_key_def)
  have "fst (load_or_create demo_sign_crypto demo_hello_contracts demo_signing ''key'' ''net'' VaultPlane (replicate 32 9) (snd ?run)) =
      Inr (from_secret demo_hello_contracts demo_signing ''net'' VaultPlane (replicate 32 7))"
    by (rule identity_file_roundtrip [OF demo_signing_ok(1), THEN conjunct1, of "replicate 32 7" "demo_fs {}"])
      (use run in \<open>auto simp: fs_exists_def demo_fs_def intro: prod_eqI\<close>)
  then show ?thesis .
qed

end
