(* ===== verification/Discovery.thy ===== *)
theory Discovery
  imports Manifest_Verifier Identity "HOL-Library.Sublist"
begin

text \<open>
  Peer discovery (\<open>kerosene-discovery\<close>): one-time challenges, the authentication of a
  greeting, and the peer store on disk with its four files. The handshake client is
  in \<open>Tor_Client\<close>. The theorems: a challenge authenticates at most once per time
  it was issued, what authentication establishes, and the order of the candidate endpoints.
\<close>

section \<open>Errors and records\<close>

datatype discovery_error =
    DiInvalidEndpoint
  | DiScopeMismatch
  | DiClockSkew
  | DiChallengeRejected
  | DiNotMember
  | DiSelfConnection
  | DiIdentity identity_error
  | DiIo string
  | DiJson string
  | DiTransport string

fun discovery_error_display :: "discovery_error \<Rightarrow> string" where
  "discovery_error_display DiInvalidEndpoint = ''only HTTPS v3 onion endpoints are accepted''"
| "discovery_error_display DiScopeMismatch = ''peer hello contract, network, or plane mismatch''"
| "discovery_error_display DiClockSkew = ''peer hello timestamp is outside the accepted window''"
| "discovery_error_display DiChallengeRejected = ''challenge is unknown, expired, or already consumed''"
| "discovery_error_display DiNotMember = ''peer is authenticated but is not a verified member''"
| "discovery_error_display DiSelfConnection = ''a node cannot authenticate itself as a remote peer''"
| "discovery_error_display (DiIdentity e) = ''peer identity verification failed: '' @ identity_error_display e"
| "discovery_error_display (DiIo e) = ''peer-store IO failed: '' @ e"
| "discovery_error_display (DiJson e) = ''peer-store data is invalid: '' @ e"
| "discovery_error_display (DiTransport e) = ''Tor transport failed: '' @ e"

record authenticated_peer =
  ap_member_id :: string
  ap_plane :: discovery_plane
  ap_root_public_key :: string
  ap_endpoint :: string
  ap_authenticated_at :: u64

record stored_peer =
  sp_member_id :: string
  sp_plane :: discovery_plane
  sp_root_public_key :: string
  sp_endpoint :: string
  sp_authenticated_at :: u64
  last_success_epoch_ms :: "u64 option"

datatype discovery_source = PreviousConnection | CurrentManifest | Genesis | Mirror | AuthenticatedPeerSource

record endpoint_record =
  er_member_id :: string
  er_endpoint :: string
  er_source :: discovery_source
  observed_at_epoch_ms :: u64

record successful_connection =
  sc_member_id :: string
  sc_endpoint :: string
  connected_at_epoch_ms :: u64

record hello_exchange_request =
  rq_hello :: peer_hello
  response_challenge :: string

section \<open>Challenges\<close>

record challenge_store =
  ttl_ms :: u64
  pending :: "(string, u64) hashmap"

definition challenge_store_new :: "u64 \<Rightarrow> challenge_store" where
  "challenge_store_new ttl = \<lparr>ttl_ms = max ttl 1, pending = []\<rparr>"

text \<open>\<open>issue\<close>; the 32 random bytes are an argument.\<close>

definition issue :: "crypto \<Rightarrow> challenge_store \<Rightarrow> bytes \<Rightarrow> u64 \<Rightarrow> string \<times> challenge_store" where
  "issue c s random_bytes now =
     (let challenge = hex_encode c random_bytes
      in (challenge, s\<lparr>pending := hm_insert challenge (saturating_add now (ttl_ms s)) (pending s)\<rparr>))"

definition consume :: "challenge_store \<Rightarrow> string \<Rightarrow> u64 \<Rightarrow> (discovery_error + unit) \<times> challenge_store" where
  "consume s challenge now =
     (let live = filter (\<lambda>(_, expires_at). expires_at \<ge> now) (pending s);
          s' = s\<lparr>pending := hm_remove challenge live\<rparr>
      in case map_of live challenge of
           Some expires_at \<Rightarrow> if expires_at \<ge> now then (Inr (), s') else (Inl DiChallengeRejected, s')
         | None \<Rightarrow> (Inl DiChallengeRejected, s'))"

section \<open>Authentication\<close>

record peer_authenticator =
  pa_network_id :: string
  pa_plane :: discovery_plane
  max_clock_skew_ms :: u64

text \<open>The challenges and the membership are behind shared references: they are passed along.\<close>

definition authenticate ::
    "crypto \<Rightarrow> contracts \<Rightarrow> peer_authenticator \<Rightarrow> membership_verifier \<Rightarrow> challenge_store \<Rightarrow> peer_hello \<Rightarrow> u64 \<Rightarrow>
       (discovery_error + authenticated_peer) \<times> challenge_store" where
  "authenticate c k a v s hello now =
     (if ph_contract_version hello \<noteq> contract_version k \<or> ph_network_id hello \<noteq> pa_network_id a \<or>
         ph_plane hello \<noteq> pa_plane a
      then (Inl DiScopeMismatch, s)
      else if abs_diff (issued_at_epoch_ms hello) now > max_clock_skew_ms a then (Inl DiClockSkew, s)
      else case validate_onion_endpoint k DiInvalidEndpoint (ph_endpoint hello) of
        Inl e \<Rightarrow> (Inl e, s)
      | Inr _ \<Rightarrow> (case verify_hello_signature c k hello of
        Inl e \<Rightarrow> (Inl (DiIdentity e), s)
      | Inr _ \<Rightarrow> (case consume s (ph_challenge hello) now of
        (Inl e, s') \<Rightarrow> (Inl e, s')
      | (Inr _, s') \<Rightarrow>
          if \<not> is_member v (ph_member_id hello) (ph_root_public_key hello) then (Inl DiNotMember, s')
          else (Inr \<lparr>ap_member_id = ph_member_id hello, ap_plane = ph_plane hello,
                     ap_root_public_key = ph_root_public_key hello, ap_endpoint = ph_endpoint hello,
                     ap_authenticated_at = now\<rparr>, s'))))"

section \<open>The peer store\<close>

record peer_codecs =
  peers_codec :: "stored_peer list codec"
  endpoints_codec :: "endpoint_record list codec"
  successes_codec :: "successful_connection list codec"
  manifests_codec :: "membership_manifest list codec"

definition peers_db :: string where "peers_db = ''peers.db''"
definition endpoints_db :: string where "endpoints_db = ''endpoints.db''"
definition successful_connections_db :: string where "successful_connections_db = ''successful-connections.db''"
definition membership_manifests_db :: string where "membership_manifests_db = ''membership-manifests.db''"

text \<open>\<open>root.join(name)\<close>.\<close>

definition db_path :: "string \<Rightarrow> string \<Rightarrow> string" where
  "db_path root name = (if root = [] \<or> last root = CHR ''/'' then root @ name else root @ ''/'' @ name)"

definition db_read :: "'a codec \<Rightarrow> string \<Rightarrow> string \<Rightarrow> file_system \<Rightarrow> (discovery_error + 'a) \<times> file_system" where
  "db_read j root name fs =
     io_bind (map_err DiIo (fs_read fs (db_path root name))) (\<lambda>b fs1.
     (case from_slice j b of Inl e \<Rightarrow> Inl (DiJson e) | Inr x \<Rightarrow> Inr x, fs1))"

definition db_write :: "'a codec \<Rightarrow> string \<Rightarrow> string \<Rightarrow> file_system \<Rightarrow> 'a \<Rightarrow> (discovery_error + unit) \<times> file_system" where
  "db_write j root name fs x =
     (case to_vec j x of
        Inl e \<Rightarrow> (Inl (DiJson e), fs)
      | Inr b \<Rightarrow> map_err DiIo (replace_file fs (db_path root name) b))"

definition ensure_file :: "'a list codec \<Rightarrow> string \<Rightarrow> string \<Rightarrow> file_system \<Rightarrow> (discovery_error + unit) \<times> file_system" where
  "ensure_file j root name fs =
     (if \<not> fs_exists fs (db_path root name) then db_write j root name fs [] else (Inr (), fs))"

definition store_open :: "peer_codecs \<Rightarrow> string \<Rightarrow> file_system \<Rightarrow> (discovery_error + unit) \<times> file_system" where
  "store_open j root fs =
     io_bind (map_err DiIo (fs_create_dir_all fs root)) (\<lambda>_ fs1.
     io_bind (ensure_file (peers_codec j) root peers_db fs1) (\<lambda>_ fs2.
     io_bind (ensure_file (endpoints_codec j) root endpoints_db fs2) (\<lambda>_ fs3.
     io_bind (ensure_file (successes_codec j) root successful_connections_db fs3) (\<lambda>_ fs4.
     ensure_file (manifests_codec j) root membership_manifests_db fs4))))"

definition stored_of :: "authenticated_peer \<Rightarrow> stored_peer" where
  "stored_of p = \<lparr>sp_member_id = ap_member_id p, sp_plane = ap_plane p, sp_root_public_key = ap_root_public_key p,
     sp_endpoint = ap_endpoint p, sp_authenticated_at = ap_authenticated_at p, last_success_epoch_ms = None\<rparr>"

definition upsert_peer :: "authenticated_peer \<Rightarrow> stored_peer list \<Rightarrow> stored_peer list" where
  "upsert_peer p peers = filter (\<lambda>saved. sp_member_id saved \<noteq> ap_member_id p) peers @ [stored_of p]"

definition upsert_endpoint :: "authenticated_peer \<Rightarrow> endpoint_record list \<Rightarrow> endpoint_record list" where
  "upsert_endpoint p es =
     filter (\<lambda>saved. er_member_id saved \<noteq> ap_member_id p \<or> er_source saved \<noteq> AuthenticatedPeerSource) es @
     [\<lparr>er_member_id = ap_member_id p, er_endpoint = ap_endpoint p, er_source = AuthenticatedPeerSource,
       observed_at_epoch_ms = ap_authenticated_at p\<rparr>]"

definition upsert_authenticated ::
    "peer_codecs \<Rightarrow> string \<Rightarrow> file_system \<Rightarrow> authenticated_peer \<Rightarrow> (discovery_error + unit) \<times> file_system" where
  "upsert_authenticated j root fs p =
     io_bind (db_read (peers_codec j) root peers_db fs) (\<lambda>peers fs1.
     io_bind (db_write (peers_codec j) root peers_db fs1 (upsert_peer p peers)) (\<lambda>_ fs2.
     io_bind (db_read (endpoints_codec j) root endpoints_db fs2) (\<lambda>endpoints fs3.
     db_write (endpoints_codec j) root endpoints_db fs3 (upsert_endpoint p endpoints))))"

definition upsert_success :: "string \<Rightarrow> string \<Rightarrow> u64 \<Rightarrow> successful_connection list \<Rightarrow> successful_connection list" where
  "upsert_success mid ep now ss =
     filter (\<lambda>saved. sc_member_id saved \<noteq> mid \<or> sc_endpoint saved \<noteq> ep) ss @
     [\<lparr>sc_member_id = mid, sc_endpoint = ep, connected_at_epoch_ms = now\<rparr>]"

definition touch_peer :: "string \<Rightarrow> string \<Rightarrow> u64 \<Rightarrow> stored_peer \<Rightarrow> stored_peer" where
  "touch_peer mid ep now p =
     (if sp_member_id p = mid \<and> sp_endpoint p = ep then p\<lparr>last_success_epoch_ms := Some now\<rparr> else p)"

definition record_success ::
    "contracts \<Rightarrow> peer_codecs \<Rightarrow> string \<Rightarrow> file_system \<Rightarrow> string \<Rightarrow> string \<Rightarrow> u64 \<Rightarrow> (discovery_error + unit) \<times> file_system" where
  "record_success k j root fs mid ep now =
     (case validate_onion_endpoint k DiInvalidEndpoint ep of
        Inl e \<Rightarrow> (Inl e, fs)
      | Inr _ \<Rightarrow>
     io_bind (db_read (successes_codec j) root successful_connections_db fs) (\<lambda>successes fs1.
     io_bind (db_write (successes_codec j) root successful_connections_db fs1 (upsert_success mid ep now successes)) (\<lambda>_ fs2.
     io_bind (db_read (peers_codec j) root peers_db fs2) (\<lambda>peers fs3.
     db_write (peers_codec j) root peers_db fs3 (map (touch_peer mid ep now) peers)))))"

definition append_manifest ::
    "peer_codecs \<Rightarrow> string \<Rightarrow> file_system \<Rightarrow> membership_manifest \<Rightarrow> (discovery_error + unit) \<times> file_system" where
  "append_manifest j root fs m =
     io_bind (db_read (manifests_codec j) root membership_manifests_db fs) (\<lambda>ms fs1.
     db_write (manifests_codec j) root membership_manifests_db fs1 (ms @ [m]))"

definition manifests :: "peer_codecs \<Rightarrow> string \<Rightarrow> file_system \<Rightarrow> (discovery_error + membership_manifest list) \<times> file_system" where
  "manifests j root fs = db_read (manifests_codec j) root membership_manifests_db fs"

definition authenticated_count ::
    "peer_codecs \<Rightarrow> string \<Rightarrow> file_system \<Rightarrow> discovery_plane \<Rightarrow> (discovery_error + nat) \<times> file_system" where
  "authenticated_count j root fs plane =
     io_bind (db_read (peers_codec j) root peers_db fs) (\<lambda>peers fs1.
     (Inr (length (filter (\<lambda>p. sp_plane p = plane) peers)), fs1))"

definition authenticated_endpoints ::
    "peer_codecs \<Rightarrow> string \<Rightarrow> file_system \<Rightarrow> discovery_plane \<Rightarrow> (discovery_error + endpoint_record list) \<times> file_system" where
  "authenticated_endpoints j root fs plane =
     io_bind (db_read (peers_codec j) root peers_db fs) (\<lambda>peers fs1.
     (Inr (map (\<lambda>p. \<lparr>er_member_id = sp_member_id p, er_endpoint = sp_endpoint p,
                      er_source = AuthenticatedPeerSource, observed_at_epoch_ms = sp_authenticated_at p\<rparr>)
             (filter (\<lambda>p. sp_plane p = plane) peers)), fs1))"

section \<open>Candidates\<close>

fun dedup_from :: "contracts \<Rightarrow> string set \<Rightarrow> endpoint_record list \<Rightarrow> discovery_error + endpoint_record list" where
  "dedup_from k seen [] = Inr []"
| "dedup_from k seen (e # es) =
     res_bind (validate_onion_endpoint k DiInvalidEndpoint (er_endpoint e)) (\<lambda>_.
     if er_endpoint e \<in> seen then dedup_from k seen es
     else res_bind (dedup_from k (insert (er_endpoint e) seen) es) (\<lambda>rest. Inr (e # rest)))"

definition deduplicate_valid :: "contracts \<Rightarrow> endpoint_record list \<Rightarrow> discovery_error + endpoint_record list" where
  "deduplicate_valid k es = dedup_from k {} es"

definition newest_first :: "successful_connection list \<Rightarrow> successful_connection list" where
  "newest_first ss = sort_key (\<lambda>s. - uint (connected_at_epoch_ms s)) ss"

definition previous_candidate :: "discovery_plane \<Rightarrow> stored_peer list \<Rightarrow> successful_connection \<Rightarrow> endpoint_record option" where
  "previous_candidate plane peers s =
     (case List.find (\<lambda>p. sp_member_id p = sc_member_id s \<and> sp_plane p = plane) peers of
        None \<Rightarrow> None
      | Some p \<Rightarrow> Some \<lparr>er_member_id = sp_member_id p, er_endpoint = sc_endpoint s,
          er_source = PreviousConnection, observed_at_epoch_ms = connected_at_epoch_ms s\<rparr>)"

definition manifest_candidates :: "membership_manifest option \<Rightarrow> endpoint_record list" where
  "manifest_candidates mo =
     (case mo of
        None \<Rightarrow> []
      | Some m \<Rightarrow> map (\<lambda>mem. \<lparr>er_member_id = mm_member_id mem, er_endpoint = mm_endpoint mem,
          er_source = CurrentManifest, observed_at_epoch_ms = mf_epoch m\<rparr>) (mf_members m))"

definition all_candidates ::
    "discovery_plane \<Rightarrow> successful_connection list \<Rightarrow> stored_peer list \<Rightarrow> membership_manifest option \<Rightarrow>
       endpoint_record list \<Rightarrow> endpoint_record list \<Rightarrow> endpoint_record list \<Rightarrow> endpoint_record list" where
  "all_candidates plane successes peers mo genesis mirrors suggestions =
     List.map_filter (previous_candidate plane peers) (newest_first successes) @
     manifest_candidates mo @ genesis @ mirrors @ suggestions"

definition ordered_candidates ::
    "contracts \<Rightarrow> peer_codecs \<Rightarrow> string \<Rightarrow> file_system \<Rightarrow> discovery_plane \<Rightarrow> membership_manifest option \<Rightarrow>
       endpoint_record list \<Rightarrow> endpoint_record list \<Rightarrow> endpoint_record list \<Rightarrow>
       (discovery_error + endpoint_record list) \<times> file_system" where
  "ordered_candidates k j root fs plane mo genesis mirrors suggestions =
     io_bind (db_read (successes_codec j) root successful_connections_db fs) (\<lambda>successes fs1.
     io_bind (db_read (peers_codec j) root peers_db fs1) (\<lambda>peers fs2.
     (deduplicate_valid k (all_candidates plane successes peers mo genesis mirrors suggestions), fs2)))"

definition manifest_member_to_endpoint :: "manifest_member \<Rightarrow> endpoint_record" where
  "manifest_member_to_endpoint mem =
     \<lparr>er_member_id = mm_member_id mem, er_endpoint = mm_endpoint mem, er_source = CurrentManifest,
      observed_at_epoch_ms = 0\<rparr>"

definition manifest_endpoint_records :: "membership_manifest \<Rightarrow> endpoint_record list" where
  "manifest_endpoint_records m = map manifest_member_to_endpoint (mf_members m)"

definition db_files :: "string \<Rightarrow> string list" where
  "db_files root = map (db_path root) [peers_db, endpoints_db, successful_connections_db, membership_manifests_db]"

section \<open>What authentication establishes\<close>

definition pending_until :: "challenge_store \<Rightarrow> string \<Rightarrow> u64 option" where
  "pending_until s ch = map_of (pending s) ch"

lemma map_of_filter_live:
  "distinct (map fst m) \<Longrightarrow>
     map_of (filter (\<lambda>(_, e). P e) m) x = (case map_of m x of None \<Rightarrow> None | Some e \<Rightarrow> if P e then Some e else None)"
proof (induction m)
  case (Cons kv m)
  obtain k e where kv: "kv = (k, e)" by force
  show ?case
  proof (cases "x = k")
    case True
    have "map_of m k = None" using Cons.prems by (simp add: kv map_of_eq_None_iff)
    with Cons True show ?thesis by (simp add: kv)
  next
    case False
    with Cons show ?thesis by (auto simp: kv)
  qed
qed simp

lemma consume_exact:
  assumes "hm_ok (pending s)" and "consume s ch now = (r, s')"
  shows "(is_ok r \<longleftrightarrow> (\<exists>e. pending_until s ch = Some e \<and> now \<le> e)) \<and> (r = Inr () \<or> r = Inl DiChallengeRejected) \<and>
    hm_ok (pending s') \<and> ttl_ms s' = ttl_ms s \<and>
    (\<forall>x. pending_until s' x = (if x = ch then None else
       case pending_until s x of None \<Rightarrow> None | Some e \<Rightarrow> if now \<le> e then Some e else None))"
proof -
  let ?live = "filter (\<lambda>(_, e). now \<le> e) (pending s)"
  have live: "map_of ?live x = (case pending_until s x of None \<Rightarrow> None | Some e \<Rightarrow> if now \<le> e then Some e else None)" for x
    using map_of_filter_live [of "pending s" "\<lambda>e. now \<le> e"] assms(1) by (simp add: hm_ok_def pending_until_def)
  have "hm_ok ?live" using assms(1) by (simp add: hm_ok_def distinct_map_filter)
  moreover have "s' = s\<lparr>pending := hm_remove ch ?live\<rparr>"
    using assms(2) by (auto simp: consume_def Let_def split: option.splits if_splits)
  moreover have "r = (if \<exists>e. pending_until s ch = Some e \<and> now \<le> e then Inr () else Inl DiChallengeRejected)"
    using assms(2) live [of ch] by (auto simp: consume_def Let_def split: option.splits if_splits)
  ultimately show ?thesis using live by (auto simp: pending_until_def)
qed

lemma authenticate_cases:
  assumes "authenticate c k a v s h now = (r, s')"
  shows "s' = s \<and> \<not> is_ok r \<or> (\<exists>r'. consume s (ph_challenge h) now = (r', s') \<and> (is_ok r \<longrightarrow> is_ok r'))"
  using assms by (auto simp: authenticate_def split: if_splits sum.splits prod.splits)

text \<open>
  C32. A peer is authenticated exactly when its greeting is of this contract, network and plane;
  its clock is within the allowed skew; its endpoint is an HTTPS onion address; the signature is
  valid under its root key, whose network-bound identifier it carries; its challenge is pending
  and not expired; and the key is that of a current member under that identifier. The peer
  returned is the one that greeted.
\<close>

theorem authenticate_exact:
  assumes "hm_ok (pending s)"
  shows "(is_ok (fst (authenticate c k a v s h now)) \<longleftrightarrow>
      ph_contract_version h = contract_version k \<and> ph_network_id h = pa_network_id a \<and> ph_plane h = pa_plane a \<and>
      \<bar>uint (issued_at_epoch_ms h) - uint now\<bar> \<le> uint (max_clock_skew_ms a) \<and>
      (\<exists>u. parse_url k (ph_endpoint h) = Some u \<and> onion_url u) \<and>
      verify_hello_signature c k h = Inr () \<and>
      (\<exists>e. pending_until s (ph_challenge h) = Some e \<and> now \<le> e) \<and>
      map_of (authorized_keys v) (ph_member_id h) = Some (ph_root_public_key h)) \<and>
    (\<forall>p. fst (authenticate c k a v s h now) = Inr p \<longrightarrow>
      ap_member_id p = ph_member_id h \<and> ap_root_public_key p = ph_root_public_key h \<and>
      ap_endpoint p = ph_endpoint h \<and> ap_plane p = pa_plane a \<and> ap_authenticated_at p = now)"
proof -
  obtain r s' where con: "consume s (ph_challenge h) now = (r, s')" by force
  have r: "is_ok r \<longleftrightarrow> (\<exists>e. pending_until s (ph_challenge h) = Some e \<and> now \<le> e)" "r = Inr () \<or> r = Inl DiChallengeRejected"
    using consume_exact [OF assms con] by blast+
  have skew: "\<not> abs_diff (issued_at_epoch_ms h) now > max_clock_skew_ms a \<longleftrightarrow>
      \<bar>uint (issued_at_epoch_ms h) - uint now\<bar> \<le> uint (max_clock_skew_ms a)"
    by (simp add: abs_diff_le not_less)
  have ep: "is_ok (validate_onion_endpoint k DiInvalidEndpoint (ph_endpoint h)) \<longleftrightarrow>
      (\<exists>u. parse_url k (ph_endpoint h) = Some u \<and> onion_url u)"
    by (auto simp: is_ok_iff validate_onion_endpoint_ok)
  show ?thesis
    unfolding skew [symmetric] ep [symmetric] r(1) [symmetric]
    using r(2)
    by (cases "validate_onion_endpoint k DiInvalidEndpoint (ph_endpoint h)"; cases "verify_hello_signature c k h")
      (auto simp: authenticate_def con is_member_def)
qed

section \<open>Challenges are single use\<close>

datatype challenge_event =
    IssueChallenge bytes u64
  | GreetPeer membership_verifier peer_hello u64

text \<open>A run of the service's calls: the challenges issued and those that authenticated a peer.\<close>

fun challenge_run ::
    "crypto \<Rightarrow> contracts \<Rightarrow> peer_authenticator \<Rightarrow> challenge_store \<Rightarrow> challenge_event list \<Rightarrow> string list \<times> string list \<times> challenge_store" where
  "challenge_run c k a s [] = ([], [], s)"
| "challenge_run c k a s (IssueChallenge b now # es) =
     (case issue c s b now of (ch, s') \<Rightarrow>
      case challenge_run c k a s' es of (issued, used, t) \<Rightarrow> (ch # issued, used, t))"
| "challenge_run c k a s (GreetPeer v h now # es) =
     (case authenticate c k a v s h now of (r, s') \<Rightarrow>
      case challenge_run c k a s' es of (issued, used, t) \<Rightarrow>
        (issued, (if is_ok r then ph_challenge h # used else used), t))"

definition occurrences :: "string \<Rightarrow> string list \<Rightarrow> nat" where
  "occurrences x xs = length (filter (\<lambda>y. y = x) xs)"

definition outstanding :: "challenge_store \<Rightarrow> string \<Rightarrow> nat" where
  "outstanding s ch = (if pending_until s ch = None then 0 else 1)"

lemma authenticate_outstanding:
  assumes "hm_ok (pending s)" and "authenticate c k a v s h now = (r, s')"
  shows "hm_ok (pending s') \<and>
    outstanding s' ch + (if is_ok r \<and> ph_challenge h = ch then 1 else 0) \<le> outstanding s ch"
proof -
  consider "s' = s" "\<not> is_ok r" | r' where "consume s (ph_challenge h) now = (r', s')" "is_ok r \<longrightarrow> is_ok r'"
    using authenticate_cases [OF assms(2)] by blast
  then show ?thesis
  proof cases
    case 1
    then show ?thesis using assms(1) by simp
  next
    case 2
    then show ?thesis
      using consume_exact [OF assms(1) 2(1)] by (auto simp: outstanding_def split: option.splits)
  qed
qed

lemma issue_outstanding:
  assumes "hm_ok (pending s)" and "issue c s b now = (x, s')"
  shows "hm_ok (pending s') \<and> outstanding s' ch \<le> outstanding s ch + (if x = ch then 1 else 0)"
  using assms by (auto simp: issue_def Let_def outstanding_def pending_until_def)

lemma challenge_run_count:
  "hm_ok (pending s) \<Longrightarrow> challenge_run c k a s es = (issued, used, t) \<Longrightarrow>
     occurrences ch used + outstanding t ch \<le> occurrences ch issued + outstanding s ch"
proof (induction es arbitrary: s issued used)
  case (Cons ev es)
  show ?case
  proof (cases ev)
    case (IssueChallenge b now)
    obtain x s' where i: "issue c s b now = (x, s')" by force
    obtain xs where r: "challenge_run c k a s' es = (xs, used, t)" "issued = x # xs"
      using Cons.prems(2) by (auto simp: IssueChallenge i split: prod.splits)
    show ?thesis
      using Cons.IH [OF _ r(1)] issue_outstanding [OF Cons.prems(1) i, of ch] r(2)
      by (auto simp: occurrences_def)
  next
    case (GreetPeer v h now)
    obtain q s' where i: "authenticate c k a v s h now = (q, s')" by force
    obtain us where r: "challenge_run c k a s' es = (issued, us, t)"
        "used = (if is_ok q then ph_challenge h # us else us)"
      using Cons.prems(2) by (auto simp: GreetPeer i split: prod.splits)
    show ?thesis
      using Cons.IH [OF _ r(1)] authenticate_outstanding [OF Cons.prems(1) i, of ch] r(2)
      by (auto simp: occurrences_def split: if_splits)
  qed
qed (simp add: occurrences_def)

text \<open>
  C33. No greeting can be replayed: in any run of the challenge store from its creation, however
  issuing and authenticating interleave, the number of peers a challenge has authenticated is at
  most the number of times it was issued.
\<close>

theorem challenge_single_use:
  "case challenge_run c k a (challenge_store_new ttl) es of (issued, used, t) \<Rightarrow>
     occurrences ch used \<le> occurrences ch issued"
proof -
  obtain issued used t where run: "challenge_run c k a (challenge_store_new ttl) es = (issued, used, t)"
    by (metis prod_cases3)
  have "hm_ok (pending (challenge_store_new ttl))" "outstanding (challenge_store_new ttl) ch = 0"
    by (simp_all add: challenge_store_new_def outstanding_def pending_until_def)
  then show ?thesis using challenge_run_count [OF _ run, of ch] run by simp
qed

section \<open>Candidate endpoints\<close>

lemma dedup_from_ok:
  assumes "dedup_from k seen es = Inr out"
  shows "subseq out es \<and> distinct (map er_endpoint out) \<and>
    er_endpoint ` set out = er_endpoint ` set es - seen \<and>
    (\<forall>e \<in> set es. \<exists>u. parse_url k (er_endpoint e) = Some u \<and> onion_url u) \<and>
    (\<forall>e \<in> set out. List.find (\<lambda>x. er_endpoint x = er_endpoint e) es = Some e)"
  using assms
proof (induction es arbitrary: seen out)
  case (Cons e es)
  have valid: "\<exists>u. parse_url k (er_endpoint e) = Some u \<and> onion_url u"
    using Cons.prems by (auto simp: res_bind_Inr validate_onion_endpoint_ok)
  show ?case
  proof (cases "er_endpoint e \<in> seen")
    case True
    then have out: "dedup_from k seen es = Inr out" using Cons.prems by (auto simp: res_bind_Inr)
    note IH = Cons.IH [OF out]
    have "er_endpoint x \<noteq> er_endpoint e" if "x \<in> set out" for x
      using IH True that by (metis DiffE image_eqI)
    then show ?thesis using IH True valid by auto
  next
    case False
    then obtain rest where rest: "dedup_from k (insert (er_endpoint e) seen) es = Inr rest" "out = e # rest"
      using Cons.prems by (auto simp: res_bind_Inr)
    note IH = Cons.IH [OF rest(1)]
    have "er_endpoint x \<noteq> er_endpoint e" if "x \<in> set rest" for x
      using IH that by (metis DiffE image_eqI insertI1)
    then show ?thesis using IH False valid rest(2) by auto
  qed
qed simp

lemma db_read_ok:
  "db_read j root name fs = (Inr x, fs') \<Longrightarrow>
     files fs' = files fs \<and> (\<exists>b. files fs (db_path root name) = Some b \<and> from_slice j b = Inr x)"
  by (auto simp: db_read_def io_bind_Inr map_err_Inr fs_read_def split: option.splits sum.splits)

text \<open>
  The candidates to contact are the valid endpoints in order of trust: previous connections
  of known peers of the plane, the newest first, then the current manifest, the genesis list, the
  mirrors and the suggestions. Every endpoint of these sources is listed exactly once, by the
  first record that names it, and every one is an HTTPS onion address.
\<close>

theorem ordered_candidates_correct:
  assumes "ordered_candidates k j root fs plane mo genesis mirrors suggestions = (Inr out, fs')"
  shows "\<exists>successes peers. let all = all_candidates plane successes peers mo genesis mirrors suggestions in
    (\<exists>b. files fs (db_path root successful_connections_db) = Some b \<and> from_slice (successes_codec j) b = Inr successes) \<and>
    (\<exists>b. files fs (db_path root peers_db) = Some b \<and> from_slice (peers_codec j) b = Inr peers) \<and>
    subseq out all \<and> distinct (map er_endpoint out) \<and> er_endpoint ` set out = er_endpoint ` set all \<and>
    (\<forall>e \<in> set out. List.find (\<lambda>x. er_endpoint x = er_endpoint e) all = Some e \<and>
       (\<exists>u. parse_url k (er_endpoint e) = Some u \<and> onion_url u)) \<and>
    sorted (map (\<lambda>s. - uint (connected_at_epoch_ms s)) (newest_first successes)) \<and> files fs' = files fs"
proof -
  obtain successes peers fs1 where r:
    "db_read (successes_codec j) root successful_connections_db fs = (Inr successes, fs1)"
    "db_read (peers_codec j) root peers_db fs1 = (Inr peers, fs')"
    "dedup_from k {} (all_candidates plane successes peers mo genesis mirrors suggestions) = Inr out"
    using assms by (auto simp: ordered_candidates_def io_bind_Inr deduplicate_valid_def)
  note d = dedup_from_ok [OF r(3)] and f = db_read_ok [OF r(1)] db_read_ok [OF r(2)]
  have "set out \<subseteq> set (all_candidates plane successes peers mo genesis mirrors suggestions)"
    using d by (metis (no_types, lifting) find_Some_iff nth_mem subsetI)
  then have "\<forall>e \<in> set out. \<exists>u. parse_url k (er_endpoint e) = Some u \<and> onion_url u"
    using d by blast
  then show ?thesis
    using d f by (intro exI [of _ successes] exI [of _ peers]) (simp add: Let_def newest_first_def)
qed

section \<open>A concrete greeting\<close>

definition demo_hello :: peer_hello where
  "demo_hello = \<lparr>ph_contract_version = ''v1'', ph_network_id = ''net'', ph_plane = VaultPlane,
     ph_member_id = demo_key 7, ph_root_public_key = demo_key 7, ph_challenge = ''ch'',
     issued_at_epoch_ms = 45, ph_endpoint = demo_host, ph_signature = demo_sig 45\<rparr>"

definition demo_authenticator :: peer_authenticator where
  "demo_authenticator = \<lparr>pa_network_id = ''net'', pa_plane = VaultPlane, max_clock_skew_ms = 10\<rparr>"

lemma demo_hello_verifies: "verify_hello_signature demo_crypto demo_contracts demo_hello = Inr ()"
proof -
  have "decode_array demo_crypto 64 (demo_sig 45) = Some ((replicate 24 0 @ u64_le 45) @ (replicate 24 0 @ u64_le 45))"
    by (simp add: demo_sig_def decode_array_def demo_crypto_def demo_hex_roundtrip)
  then show ?thesis
    by (simp add: verify_hello_signature_def demo_hello_def require_def)
      (simp add: demo_crypto_def demo_contracts_def demo_key_def)
qed

lemma demo_hello_accepted:
  "is_ok (fst (authenticate demo_crypto demo_contracts demo_authenticator demo_verifier
     \<lparr>ttl_ms = 60, pending = [(''ch'', 100)]\<rparr> demo_hello 50))"
proof -
  have "verify_hello_signature demo_crypto demo_contracts demo_hello = Inr ()" by (rule demo_hello_verifies)
  moreover have "map_of (authorized_keys demo_verifier) (demo_key 7) = Some (demo_key 7)"
    unfolding demo_genesis_keys demo_keys_get by simp
  moreover have "validate_onion_endpoint demo_contracts DiInvalidEndpoint (ph_endpoint demo_hello) = Inr ()"
    by (simp add: demo_hello_def demo_host_ok)
  ultimately show ?thesis
    by (simp add: authenticate_def consume_def is_member_def)
      (simp add: demo_hello_def demo_contracts_def demo_authenticator_def abs_diff_def)
qed

theorem authenticate_exact_witness:
  "map_of (authorized_keys demo_verifier) (ph_member_id demo_hello) = Some (ph_root_public_key demo_hello)"
proof -
  have "hm_ok (pending \<lparr>ttl_ms = 60, pending = [(''ch'', 100)]\<rparr>)" by (simp add: hm_ok_def)
  from authenticate_exact [OF this, THEN conjunct1, THEN iffD1, OF demo_hello_accepted] show ?thesis by blast
qed

definition demo_list_codec :: "'a list codec" where
  "demo_list_codec = \<lparr>to_vec = (\<lambda>xs. if xs = [] then Inr [] else Inl ''unsupported''), from_slice = (\<lambda>b. Inr [])\<rparr>"

definition demo_codecs :: peer_codecs where
  "demo_codecs = \<lparr>peers_codec = demo_list_codec, endpoints_codec = demo_list_codec,
     successes_codec = demo_list_codec, manifests_codec = demo_list_codec\<rparr>"

definition demo_db :: file_system where
  "demo_db = (demo_fs {})\<lparr>files := (\<lambda>p. Some [])\<rparr>"

definition demo_endpoint :: "string \<Rightarrow> endpoint_record" where
  "demo_endpoint i = \<lparr>er_member_id = i, er_endpoint = demo_host, er_source = Genesis, observed_at_epoch_ms = 0\<rparr>"

theorem ordered_candidates_correct_witness:
  "fst (ordered_candidates demo_contracts demo_codecs ''r'' demo_db VaultPlane None [demo_endpoint ''a'', demo_endpoint ''b''] [] []) =
     Inr [demo_endpoint ''a''] \<and> distinct (map er_endpoint [demo_endpoint ''a''])"
proof -
  have run: "ordered_candidates demo_contracts demo_codecs ''r'' demo_db VaultPlane None [demo_endpoint ''a'', demo_endpoint ''b''] [] [] =
      (Inr [demo_endpoint ''a''], demo_db\<lparr>io_calls := 2\<rparr>)"
    by (simp add: ordered_candidates_def db_read_def fs_read_def fault_now_def demo_db_def demo_fs_def io_call_def
        demo_codecs_def demo_list_codec_def deduplicate_valid_def all_candidates_def newest_first_def
        manifest_candidates_def map_filter_simps demo_endpoint_def demo_host_ok)
  from ordered_candidates_correct [OF this] show ?thesis using run by (simp add: Let_def)
qed

end
