(* ===== verification/Lifecycle.thy ===== *)
theory Lifecycle
  imports File_System
begin

text \<open>
  The crate \<open>kerosene-sync\<close>: the life cycle of a node, its file, and the check of a
  synchronized snapshot. The theorems: the life cycle advances one state at a time in its fixed
  order, and saving it is atomic under any failure of the file system.
\<close>

section \<open>States\<close>

datatype lifecycle_state =
    Created
  | IdentityReady
  | TransportReady
  | Discovering
  | Authenticated
  | MemberVerified
  | Syncing
  | StateVerified
  | Eligible
  | Active

fun lifecycle_next :: "lifecycle_state \<Rightarrow> lifecycle_state option" where
  "lifecycle_next Created = Some IdentityReady"
| "lifecycle_next IdentityReady = Some TransportReady"
| "lifecycle_next TransportReady = Some Discovering"
| "lifecycle_next Discovering = Some Authenticated"
| "lifecycle_next Authenticated = Some MemberVerified"
| "lifecycle_next MemberVerified = Some Syncing"
| "lifecycle_next Syncing = Some StateVerified"
| "lifecycle_next StateVerified = Some Eligible"
| "lifecycle_next Eligible = Some Active"
| "lifecycle_next Active = None"

datatype sync_error =
    InvalidTransition lifecycle_state lifecycle_state
  | SnapshotRootMismatch
  | SyncIo string
  | SyncJson string
  | Synchronization string

fun lifecycle_state_debug :: "lifecycle_state \<Rightarrow> string" where
  "lifecycle_state_debug Created = ''Created''"
| "lifecycle_state_debug IdentityReady = ''IdentityReady''"
| "lifecycle_state_debug TransportReady = ''TransportReady''"
| "lifecycle_state_debug Discovering = ''Discovering''"
| "lifecycle_state_debug Authenticated = ''Authenticated''"
| "lifecycle_state_debug MemberVerified = ''MemberVerified''"
| "lifecycle_state_debug Syncing = ''Syncing''"
| "lifecycle_state_debug StateVerified = ''StateVerified''"
| "lifecycle_state_debug Eligible = ''Eligible''"
| "lifecycle_state_debug Active = ''Active''"

fun sync_error_display :: "sync_error \<Rightarrow> string" where
  "sync_error_display (InvalidTransition f t) =
     ''invalid lifecycle transition from '' @ lifecycle_state_debug f @ '' to '' @ lifecycle_state_debug t"
| "sync_error_display SnapshotRootMismatch = ''snapshot state root mismatch''"
| "sync_error_display (SyncIo e) = ''lifecycle persistence failed: '' @ e"
| "sync_error_display (SyncJson e) = ''lifecycle persistence is invalid: '' @ e"
| "sync_error_display (Synchronization e) = ''state synchronization failed: '' @ e"

record lifecycle =
  lc_state :: lifecycle_state

definition lifecycle_default :: lifecycle where
  "lifecycle_default = \<lparr>lc_state = Created\<rparr>"

definition advance :: "lifecycle \<Rightarrow> lifecycle_state \<Rightarrow> (sync_error + unit) \<times> lifecycle" where
  "advance l target =
     (if lifecycle_next (lc_state l) \<noteq> Some target then (Inl (InvalidTransition (lc_state l) target), l)
      else (Inr (), l\<lparr>lc_state := target\<rparr>))"

section \<open>Snapshots\<close>

record state_snapshot =
  sn_epoch :: u64
  sn_bytes :: bytes
  sn_state_root :: string

definition snapshot_verify :: "crypto \<Rightarrow> state_snapshot \<Rightarrow> sync_error + unit" where
  "snapshot_verify c s = require (hex_encode c (sha256 c (sn_bytes s)) = sn_state_root s) SnapshotRootMismatch"

section \<open>The file of the life cycle\<close>

definition lifecycle_load ::
    "lifecycle codec \<Rightarrow> string \<Rightarrow> file_system \<Rightarrow> (sync_error + lifecycle) \<times> file_system" where
  "lifecycle_load j path fs =
     (if \<not> fs_exists fs path then (Inr lifecycle_default, fs)
      else io_bind (map_err SyncIo (fs_read fs path)) (\<lambda>b fs1.
        (case from_slice j b of Inl e \<Rightarrow> Inl (SyncJson e) | Inr l \<Rightarrow> Inr l, fs1)))"

definition lifecycle_save ::
    "lifecycle codec \<Rightarrow> string \<Rightarrow> file_system \<Rightarrow> lifecycle \<Rightarrow> (sync_error + unit) \<times> file_system" where
  "lifecycle_save j path fs l =
     io_bind (map_err SyncIo (ensure_parent fs path)) (\<lambda>_ fs1.
     (case to_vec j l of
        Inl e \<Rightarrow> (Inl (SyncJson e), fs1)
      | Inr b \<Rightarrow> map_err SyncIo (replace_file fs1 path b)))"

section \<open>Order of the states\<close>

fun lifecycle_index :: "lifecycle_state \<Rightarrow> nat" where
  "lifecycle_index Created = 0"
| "lifecycle_index IdentityReady = 1"
| "lifecycle_index TransportReady = 2"
| "lifecycle_index Discovering = 3"
| "lifecycle_index Authenticated = 4"
| "lifecycle_index MemberVerified = 5"
| "lifecycle_index Syncing = 6"
| "lifecycle_index StateVerified = 7"
| "lifecycle_index Eligible = 8"
| "lifecycle_index Active = 9"

lemma next_index: "lifecycle_next s = Some t \<longleftrightarrow> lifecycle_index t = Suc (lifecycle_index s)"
  by (cases s; cases t) simp_all

lemma index_inject: "lifecycle_index s = lifecycle_index t \<longleftrightarrow> s = t"
  by (cases s; cases t) simp_all

lemma advance_ok:
  "advance l t = (Inr u, l') \<longleftrightarrow> lifecycle_index t = Suc (lifecycle_index (lc_state l)) \<and> l' = l\<lparr>lc_state := t\<rparr>"
  by (auto simp: advance_def next_index split: if_splits)

lemma advance_index: "lifecycle_index (lc_state l) \<le> lifecycle_index (lc_state (snd (advance l t)))"
  by (simp add: advance_def next_index)

section \<open>Saving is atomic\<close>

text \<open>What a load that meets no failure returns.\<close>

definition stored_lifecycle :: "lifecycle codec \<Rightarrow> string \<Rightarrow> file_system \<Rightarrow> sync_error + lifecycle" where
  "stored_lifecycle j path fs =
     (case files fs path of
        None \<Rightarrow> Inr lifecycle_default
      | Some b \<Rightarrow> (case from_slice j b of Inl e \<Rightarrow> Inl (SyncJson e) | Inr l \<Rightarrow> Inr l))"

lemma lifecycle_load_stored:
  assumes "fault_now fs = None"
  shows "fst (lifecycle_load j path fs) = stored_lifecycle j path fs"
  using assms
  by (auto simp: lifecycle_load_def stored_lifecycle_def fs_exists_def fs_read_def split: option.splits)

lemma lifecycle_save_files:
  assumes "lifecycle_save j path fs l = (r, fs')"
  shows "if is_ok r then \<exists>b. to_vec j l = Inr b \<and> files fs' path = Some b else files fs' path = files fs path"
proof -
  obtain r1 fs1 where 1: "map_err SyncIo (ensure_parent fs path) = (r1, fs1)" by force
  have same: "files fs1 = files fs"
    using 1 by (metis ensure_parent_files map_err_snd snd_conv)
  note save = lifecycle_save_def [of j path fs l]
  show ?thesis
  proof (cases "is_ok r1 \<and> is_ok (to_vec j l)")
    case True
    then obtain u b where ok: "r1 = Inr u" "to_vec j l = Inr b" by (auto simp: is_ok_iff)
    obtain r2 fs2 where 2: "replace_file fs1 path b = (r2, fs2)" by force
    then have "files fs2 path = (if is_ok r2 then Some b else files fs path)"
      using file_replacement.write_target [OF 2] same by simp
    moreover have "fs' = fs2" "is_ok r = is_ok r2"
      using assms 1 2 ok map_err_snd [of SyncIo "replace_file fs1 path b"]
        map_err_is_ok [of SyncIo "replace_file fs1 path b"] by (simp_all add: save)
    ultimately show ?thesis using ok by simp
  next
    case False
    then show ?thesis using assms 1 same by (cases r1; cases "to_vec j l") (auto simp: save)
  qed
qed

text \<open>
  Saving the life cycle is atomic: whichever calls of the file system fail, and whatever
  they leave behind, afterwards the file holds the saved value if the save reported success and
  exactly what it held before if it reported an error; and a load that meets no failure returns
  it.
\<close>

theorem lifecycle_save_atomic:
  assumes "codec_ok j" and "lifecycle_save j path fs l = (r, fs')"
  shows "(fault_now fs' = None \<longrightarrow>
      fst (lifecycle_load j path fs') = (if is_ok r then Inr l else stored_lifecycle j path fs)) \<and>
    (is_ok r \<or> files fs' path = files fs path)"
proof -
  have "stored_lifecycle j path fs' = (if is_ok r then Inr l else stored_lifecycle j path fs)"
    using lifecycle_save_files [OF assms(2)] assms(1)
    by (auto simp: stored_lifecycle_def codec_ok_def split: if_splits)
  then show ?thesis
    using lifecycle_load_stored [of fs' j path] lifecycle_save_files [OF assms(2)] by (auto split: if_splits)
qed

definition demo_state_codec :: "lifecycle codec" where
  "demo_state_codec = \<lparr>to_vec = (\<lambda>l. if lc_state l = Active then Inr [9] else Inl ''unsupported''),
     from_slice = (\<lambda>b. Inr \<lparr>lc_state = Active\<rparr>)\<rparr>"

theorem lifecycle_save_atomic_witness:
  "fst (lifecycle_load demo_state_codec ''f'' (snd (lifecycle_save demo_state_codec ''f'' (demo_fs {}) \<lparr>lc_state = Active\<rparr>))) =
     Inr \<lparr>lc_state = Active\<rparr> \<and>
   fst (lifecycle_load demo_state_codec ''f'' (snd (lifecycle_save demo_state_codec ''f'' (demo_fs {1}) \<lparr>lc_state = Active\<rparr>))) =
     Inr lifecycle_default"
proof -
  have ok: "codec_ok demo_state_codec" by (simp add: codec_ok_def demo_state_codec_def)
  have run: "is_ok (fst (lifecycle_save demo_state_codec ''f'' (demo_fs bad) \<lparr>lc_state = Active\<rparr>)) = (1 \<notin> bad)"
      "fault_now (snd (lifecycle_save demo_state_codec ''f'' (demo_fs bad) \<lparr>lc_state = Active\<rparr>)) = None"
    if "bad \<subseteq> {1}" for bad
    using that
    by (auto simp: lifecycle_save_def ensure_parent_def has_parent_def fs_create_dir_all_def demo_fs_def demo_state_codec_def replace_file_def
        fs_write_def fs_rename_def fault_now_def io_call_def subset_singleton_iff)
  show ?thesis
    using lifecycle_save_atomic [OF ok, of "''f''" "demo_fs {}" "\<lparr>lc_state = Active\<rparr>"]
      lifecycle_save_atomic [OF ok, of "''f''" "demo_fs {1}" "\<lparr>lc_state = Active\<rparr>"] run [of "{}"] run [of "{1}"]
    by (cases "lifecycle_save demo_state_codec ''f'' (demo_fs {}) \<lparr>lc_state = Active\<rparr>";
        cases "lifecycle_save demo_state_codec ''f'' (demo_fs {1}) \<lparr>lc_state = Active\<rparr>")
      (simp add: stored_lifecycle_def demo_fs_def)
qed

end
