(* ===== verification/Node_Service.thy ===== *)
theory Node_Service
  imports Discovery Lifecycle
begin

text \<open>
  The node service (\<open>kerosene-node/src/lib.rs\<close>): the state behind the HTTP routes and its
  handlers, built from identity, discovery, membership and life cycle. The clock is an argument
  of the handlers. Each handler runs under the locks it takes; the model runs handlers one after
  the other. The theorems: the membership a node has in memory is what it would restore from
  disk, whatever fails; and a node reports itself ready for financial operations only while a
  quorum of the members, itself included, is alive and its state has been verified.
\<close>

section \<open>The service\<close>

text \<open>Everything outside the repository that the service uses.\<close>

record node_env =
  ne_crypto :: crypto
  ne_contracts :: contracts
  ne_signing :: signing
  ne_codecs :: peer_codecs
  ne_lifecycle_codec :: "lifecycle codec"

record node_service =
  sv_identity :: node_identity
  sv_endpoint :: string
  sv_plane :: discovery_plane
  sv_challenges :: challenge_store
  sv_authenticator :: peer_authenticator
  sv_membership :: membership_verifier
  sv_peer_store :: string
  sv_lifecycle :: lifecycle
  sv_lifecycle_store :: string
  active_peers :: "(string, u64) hashmap"
  peer_live_window_ms :: u64
  sv_fs :: file_system

record readiness =
  rd_live :: bool
  local_ready :: bool
  member_ready :: bool
  quorum_ready :: bool
  financial_ready :: bool
  rd_plane :: discovery_plane
  rd_lifecycle :: lifecycle_state
  operational_state :: string
  verified_members :: nat
  live_members :: nat
  required_threshold :: nat
  manifest_hash :: "string option"

function bootstrap_local_lifecycle :: "lifecycle \<Rightarrow> (sync_error + unit) \<times> lifecycle" where
  "bootstrap_local_lifecycle l =
     (if lc_state l \<in> {Created, IdentityReady, TransportReady}
      then (case advance l (the (lifecycle_next (lc_state l))) of
              (Inl e, l') \<Rightarrow> (Inl e, l')
            | (Inr _, l') \<Rightarrow> bootstrap_local_lifecycle l')
      else (Inr (), l))"
  by pat_completeness auto

termination
  by (relation "measure (\<lambda>l. 9 - lifecycle_index (lc_state l))")
    (auto simp: advance_def split: if_splits)

definition service_new ::
    "node_env \<Rightarrow> node_identity \<Rightarrow> string \<Rightarrow> discovery_plane \<Rightarrow> membership_verifier \<Rightarrow> string \<Rightarrow> string \<Rightarrow> u64 \<Rightarrow> u64 \<Rightarrow>
       file_system \<Rightarrow> (string + node_service) \<times> file_system" where
  "service_new en identity endpoint plane membership store lifecycle_store challenge_ttl live_window fs =
     (case validate_onion_endpoint (ne_contracts en) DiInvalidEndpoint endpoint of
        Inl e \<Rightarrow> (Inl (discovery_error_display e), fs)
      | Inr _ \<Rightarrow>
     io_bind (map_err sync_error_display (lifecycle_load (ne_lifecycle_codec en) lifecycle_store fs)) (\<lambda>l fs1.
     (case bootstrap_local_lifecycle l of
        (Inl e, _) \<Rightarrow> (Inl (sync_error_display e), fs1)
      | (Inr _, l') \<Rightarrow>
     io_bind (map_err sync_error_display (lifecycle_save (ne_lifecycle_codec en) lifecycle_store fs1 l')) (\<lambda>_ fs2.
     (Inr \<lparr>sv_identity = identity, sv_endpoint = endpoint, sv_plane = plane,
           sv_challenges = challenge_store_new challenge_ttl,
           sv_authenticator = \<lparr>pa_network_id = ni_network_id identity, pa_plane = plane, max_clock_skew_ms = challenge_ttl\<rparr>,
           sv_membership = membership, sv_peer_store = store, sv_lifecycle = l',
           sv_lifecycle_store = lifecycle_store, active_peers = [], peer_live_window_ms = live_window,
           sv_fs = fs2\<rparr>, fs2)))))"

section \<open>Readiness\<close>

definition peer_alive :: "u64 \<Rightarrow> u64 \<Rightarrow> u64 \<Rightarrow> bool" where
  "peer_alive window now last_seen \<longleftrightarrow> saturating_sub now last_seen \<le> window"

definition expire_peers :: "node_service \<Rightarrow> u64 \<Rightarrow> node_service" where
  "expire_peers s now =
     s\<lparr>active_peers := filter (\<lambda>(_, last_seen). peer_alive (peer_live_window_ms s) now last_seen) (active_peers s)\<rparr>"

definition local_member :: "node_env \<Rightarrow> node_service \<Rightarrow> bool" where
  "local_member en s = is_member (sv_membership s) (ni_member_id (sv_identity s))
     (root_public_key_hex (ne_crypto en) (ne_signing en) (sv_identity s))"

definition readiness_of :: "node_env \<Rightarrow> node_service \<Rightarrow> readiness" where
  "readiness_of en s =
     (let authorized = authorized_keys (sv_membership s);
          live_remote = length (filter (\<lambda>(member_id, _). map_of authorized member_id \<noteq> None) (active_peers s));
          lm = local_member en s;
          live_count = live_remote + (if lm then 1 else 0);
          thr = threshold (sv_membership s);
          quorum = (lm \<and> live_count \<ge> thr);
          st = lc_state (sv_lifecycle s);
          state_verified = (st \<in> {StateVerified, Eligible, Active})
      in \<lparr>rd_live = True, local_ready = (st \<noteq> Created), member_ready = lm, quorum_ready = quorum,
          financial_ready = (quorum \<and> st = Active), rd_plane = sv_plane s, rd_lifecycle = st,
          operational_state = (if st = Active \<and> quorum then ''ACTIVE''
            else if state_verified then ''ELIGIBLE_WAITING_FOR_QUORUM'' else ''ACTIVE_LOCAL_WAITING_FOR_PEERS''),
          verified_members = member_count (sv_membership s), live_members = live_count,
          required_threshold = thr, manifest_hash = current_hash (ne_contracts en) (sv_membership s)\<rparr>)"

definition service_readiness :: "node_env \<Rightarrow> node_service \<Rightarrow> u64 \<Rightarrow> readiness \<times> node_service" where
  "service_readiness en s now = (let s' = expire_peers s now in (readiness_of en s', s'))"

definition readiness_status :: "readiness \<Rightarrow> (readiness \<Rightarrow> bool) \<Rightarrow> nat \<times> readiness" where
  "readiness_status r p = (if p r then 200 else 503, r)"

section \<open>Handlers\<close>

text \<open>Saving the life cycle; where the code ignores the result, only the file system is kept.\<close>

definition save_lifecycle :: "node_env \<Rightarrow> node_service \<Rightarrow> (sync_error + unit) \<times> node_service" where
  "save_lifecycle en s =
     (case lifecycle_save (ne_lifecycle_codec en) (sv_lifecycle_store s) (sv_fs s) (sv_lifecycle s) of
        (r, fs) \<Rightarrow> (r, s\<lparr>sv_fs := fs\<rparr>))"

definition advance_ignored :: "node_service \<Rightarrow> lifecycle_state \<Rightarrow> node_service" where
  "advance_ignored s t = s\<lparr>sv_lifecycle := snd (advance (sv_lifecycle s) t)\<rparr>"

definition issue_challenge :: "node_env \<Rightarrow> node_service \<Rightarrow> bytes \<Rightarrow> u64 \<Rightarrow> string \<times> node_service" where
  "issue_challenge en s random_bytes now =
     (case issue (ne_crypto en) (sv_challenges s) random_bytes now of
        (ch, cs) \<Rightarrow> (ch, s\<lparr>sv_challenges := cs\<rparr>))"

definition advance_after_authentication :: "node_env \<Rightarrow> node_service \<Rightarrow> node_service" where
  "advance_after_authentication en s =
     (let s1 = (if lc_state (sv_lifecycle s) = Discovering then advance_ignored s Authenticated else s);
          s2 = (if local_member en s1 \<and> lc_state (sv_lifecycle s1) = Authenticated
                then advance_ignored (advance_ignored s1 MemberVerified) Syncing else s1)
      in snd (save_lifecycle en s2))"

definition activate_if_quorum :: "node_env \<Rightarrow> node_service \<Rightarrow> u64 \<Rightarrow> node_service" where
  "activate_if_quorum en s now =
     (case service_readiness en s now of (r, s1) \<Rightarrow>
        if quorum_ready r \<and> lc_state (sv_lifecycle s1) = Eligible
        then snd (save_lifecycle en (advance_ignored s1 Active))
        else s1)"

text \<open>The common part of \<open>observe_peer\<close> and \<open>exchange_hello\<close>.\<close>

definition admit_peer :: "node_env \<Rightarrow> node_service \<Rightarrow> peer_hello \<Rightarrow> u64 \<Rightarrow> (discovery_error + unit) \<times> node_service" where
  "admit_peer en s hello now =
     (if ph_member_id hello = ni_member_id (sv_identity s) then (Inl DiSelfConnection, s)
      else case authenticate (ne_crypto en) (ne_contracts en) (sv_authenticator s) (sv_membership s)
                  (sv_challenges s) hello now of
        (Inl e, cs) \<Rightarrow> (Inl e, s\<lparr>sv_challenges := cs\<rparr>)
      | (Inr peer, cs) \<Rightarrow>
     (case io_bind (upsert_authenticated (ne_codecs en) (sv_peer_store s) (sv_fs s) peer) (\<lambda>_ fs1.
             record_success (ne_contracts en) (ne_codecs en) (sv_peer_store s) fs1 (ap_member_id peer) (ap_endpoint peer) now) of
        (Inl e, fs2) \<Rightarrow> (Inl e, s\<lparr>sv_challenges := cs, sv_fs := fs2\<rparr>)
      | (Inr _, fs2) \<Rightarrow>
          (let s1 = s\<lparr>sv_challenges := cs, sv_fs := fs2,
                 active_peers := hm_insert (ap_member_id peer) now (active_peers s)\<rparr>
           in (Inr (), activate_if_quorum en (advance_after_authentication en s1) now))))"

definition observe_peer :: "node_env \<Rightarrow> node_service \<Rightarrow> peer_hello \<Rightarrow> u64 \<Rightarrow> (discovery_error + unit) \<times> node_service" where
  "observe_peer en s hello now = admit_peer en s hello now"

definition exchange_hello ::
    "node_env \<Rightarrow> node_service \<Rightarrow> hello_exchange_request \<Rightarrow> u64 \<Rightarrow> (discovery_error + peer_hello) \<times> node_service" where
  "exchange_hello en s request now =
     (case admit_peer en s (rq_hello request) now of
        (Inl e, s') \<Rightarrow> (Inl e, s')
      | (Inr _, s') \<Rightarrow> (Inr (sign_hello (ne_crypto en) (ne_contracts en) (ne_signing en) (sv_identity s')
            (response_challenge request) (sv_endpoint s') now), s'))"

definition accept_membership ::
    "node_env \<Rightarrow> node_service \<Rightarrow> membership_manifest \<Rightarrow> u64 \<Rightarrow> (membership_error + unit) \<times> node_service" where
  "accept_membership en s m now =
     (if current_hash (ne_contracts en) (sv_membership s) = Some (canonical_hash (ne_contracts en) m) then (Inr (), s)
      else case accept (ne_crypto en) (ne_contracts en) (sv_membership s) m of
        (Inl e, _) \<Rightarrow> (Inl e, s)
      | (Inr _, candidate) \<Rightarrow>
     (case append_manifest (ne_codecs en) (sv_peer_store s) (sv_fs s) m of
        (Inl _, fs) \<Rightarrow> (Inl MeHashChain, s\<lparr>sv_fs := fs\<rparr>)
      | (Inr _, fs) \<Rightarrow> (Inr (), activate_if_quorum en (s\<lparr>sv_fs := fs, sv_membership := candidate\<rparr>) now)))"

definition service_current_manifest :: "node_service \<Rightarrow> membership_manifest option" where
  "service_current_manifest s = mv_current (sv_membership s)"

definition authenticated_peers :: "node_env \<Rightarrow> node_service \<Rightarrow> (discovery_error + endpoint_record list) \<times> node_service" where
  "authenticated_peers en s =
     (case authenticated_endpoints (ne_codecs en) (sv_peer_store s) (sv_fs s) (sv_plane s) of
        (r, fs) \<Rightarrow> (r, s\<lparr>sv_fs := fs\<rparr>))"

text \<open>What the discovery task asks the peer store for: the endpoints to try, in their order.\<close>

definition discovery_candidates ::
    "node_env \<Rightarrow> node_service \<Rightarrow> endpoint_record list \<Rightarrow> endpoint_record list \<Rightarrow>
       (discovery_error + endpoint_record list) \<times> node_service" where
  "discovery_candidates en s genesis_endpoints mirrors =
     (case io_bind (authenticated_endpoints (ne_codecs en) (sv_peer_store s) (sv_fs s) (sv_plane s)) (\<lambda>authenticated fs1.
             ordered_candidates (ne_contracts en) (ne_codecs en) (sv_peer_store s) fs1 (sv_plane s)
               (service_current_manifest s) genesis_endpoints mirrors authenticated) of
        (r, fs) \<Rightarrow> (r, s\<lparr>sv_fs := fs\<rparr>))"

definition verify_state_snapshot ::
    "node_env \<Rightarrow> node_service \<Rightarrow> state_snapshot \<Rightarrow> u64 \<Rightarrow> (sync_error + unit) \<times> node_service" where
  "verify_state_snapshot en s snap now =
     (case snapshot_verify (ne_crypto en) snap of
        Inl e \<Rightarrow> (Inl e, s)
      | Inr _ \<Rightarrow>
          if lc_state (sv_lifecycle s) \<noteq> Syncing
          then (Inl (InvalidTransition (lc_state (sv_lifecycle s)) StateVerified), s)
          else (case advance (sv_lifecycle s) StateVerified of
                  (Inl e, l) \<Rightarrow> (Inl e, s\<lparr>sv_lifecycle := l\<rparr>)
                | (Inr _, l) \<Rightarrow> (case advance l Eligible of
                    (Inl e, l') \<Rightarrow> (Inl e, s\<lparr>sv_lifecycle := l'\<rparr>)
                  | (Inr _, l') \<Rightarrow> (case save_lifecycle en (s\<lparr>sv_lifecycle := l'\<rparr>) of
                      (Inl e, s') \<Rightarrow> (Inl e, s')
                    | (Inr _, s') \<Rightarrow> (Inr (), activate_if_quorum en s' now)))))"

text \<open>\<open>synchronize_state\<close>; what the synchronizer returned is an argument.\<close>

definition synchronize_state ::
    "node_env \<Rightarrow> node_service \<Rightarrow> sync_error + state_snapshot \<Rightarrow> u64 \<Rightarrow> (sync_error + state_snapshot) \<times> node_service" where
  "synchronize_state en s received now =
     (case received of
        Inl e \<Rightarrow> (Inl e, s)
      | Inr snap \<Rightarrow> (case verify_state_snapshot en s snap now of
          (Inl e, s') \<Rightarrow> (Inl e, s') | (Inr _, s') \<Rightarrow> (Inr snap, s')))"

section \<open>Routes\<close>

text \<open>The answers of the two posting routes: a status with the body or the error message.\<close>

definition hello_route ::
    "node_env \<Rightarrow> node_service \<Rightarrow> hello_exchange_request \<Rightarrow> u64 \<Rightarrow> (nat \<times> string + peer_hello) \<times> node_service" where
  "hello_route en s request now =
     map_err (\<lambda>e. (401, discovery_error_display e)) (exchange_hello en s request now)"

definition accept_manifest_route ::
    "node_env \<Rightarrow> node_service \<Rightarrow> membership_manifest \<Rightarrow> u64 \<Rightarrow> (nat \<times> string + string) \<times> node_service" where
  "accept_manifest_route en s m now =
     (let hash = canonical_hash (ne_contracts en) m
      in case accept_membership en s m now of
           (Inl e, s') \<Rightarrow> (Inl (422, membership_error_display e), s')
         | (Inr _, s') \<Rightarrow> (Inr hash, s'))"

definition current_manifest_route :: "node_service \<Rightarrow> nat + membership_manifest" where
  "current_manifest_route s = ok_or (mv_current (sv_membership s)) 404"

definition peers_route :: "node_env \<Rightarrow> node_service \<Rightarrow> (nat + endpoint_record list) \<times> node_service" where
  "peers_route en s = map_err (\<lambda>_. 500) (authenticated_peers en s)"

definition ready_route :: "(readiness \<Rightarrow> bool) \<Rightarrow> node_env \<Rightarrow> node_service \<Rightarrow> u64 \<Rightarrow> (nat \<times> readiness) \<times> node_service" where
  "ready_route p en s now = (case service_readiness en s now of (r, s') \<Rightarrow> (readiness_status r p, s'))"

section \<open>Runs\<close>

datatype node_event =
    EvChallenge bytes u64
  | EvReadiness u64
  | EvPeers
  | EvCandidates "endpoint_record list" "endpoint_record list"
  | EvObserve peer_hello u64
  | EvExchange hello_exchange_request u64
  | EvMembership membership_manifest u64
  | EvSnapshot state_snapshot u64

fun node_step :: "node_env \<Rightarrow> node_service \<Rightarrow> node_event \<Rightarrow> node_service" where
  "node_step en s (EvChallenge b now) = snd (issue_challenge en s b now)"
| "node_step en s (EvReadiness now) = snd (service_readiness en s now)"
| "node_step en s EvPeers = snd (authenticated_peers en s)"
| "node_step en s (EvCandidates g ms) = snd (discovery_candidates en s g ms)"
| "node_step en s (EvObserve h now) = snd (observe_peer en s h now)"
| "node_step en s (EvExchange r now) = snd (exchange_hello en s r now)"
| "node_step en s (EvMembership m now) = snd (accept_membership en s m now)"
| "node_step en s (EvSnapshot sn now) = snd (verify_state_snapshot en s sn now)"

definition node_run :: "node_env \<Rightarrow> node_service \<Rightarrow> node_event list \<Rightarrow> node_service" where
  "node_run en s es = fold (\<lambda>e s. node_step en s e) es s"

section \<open>What the handlers leave alone\<close>

definition manifests_path :: "node_service \<Rightarrow> string" where
  "manifests_path s = db_path (sv_peer_store s) membership_manifests_db"

definition paths_ok :: "node_service \<Rightarrow> bool" where
  "paths_ok s \<longleftrightarrow> sv_lifecycle_store s \<noteq> manifests_path s \<and> temporary_path (sv_lifecycle_store s) \<noteq> manifests_path s"

text \<open>
  \<open>quiet s t\<close>: the configuration, the membership and the file of the manifests are the same.
\<close>

definition same_config :: "node_service \<Rightarrow> node_service \<Rightarrow> bool" where
  "same_config s t \<longleftrightarrow> sv_identity t = sv_identity s \<and> sv_plane t = sv_plane s \<and>
     sv_authenticator t = sv_authenticator s \<and> sv_peer_store t = sv_peer_store s \<and>
     sv_lifecycle_store t = sv_lifecycle_store s \<and> peer_live_window_ms t = peer_live_window_ms s"

definition quiet :: "node_service \<Rightarrow> node_service \<Rightarrow> bool" where
  "quiet s t \<longleftrightarrow> same_config s t \<and> sv_membership t = sv_membership s \<and>
     (paths_ok s \<longrightarrow> files (sv_fs t) (manifests_path s) = files (sv_fs s) (manifests_path s))"

lemma quiet_refl [simp]: "quiet s s"
  by (simp add: quiet_def same_config_def)

lemma quiet_trans: "quiet s t \<Longrightarrow> quiet t u \<Longrightarrow> quiet s u"
  by (simp add: quiet_def same_config_def paths_ok_def manifests_path_def)

lemma lifecycle_save_frame:
  assumes "q \<noteq> path" and "q \<noteq> temporary_path path"
  shows "files (snd (lifecycle_save j path fs l)) q = files fs q"
proof -
  obtain r1 fs1 where 1: "map_err SyncIo (ensure_parent fs path) = (r1, fs1)" by force
  then have same: "files fs1 = files fs" by (metis ensure_parent_files map_err_snd snd_conv)
  have "files (snd (replace_file fs1 path b)) q = files fs1 q" for b
    by (cases "replace_file fs1 path b") (use assms file_replacement.write_frame in auto)
  then show ?thesis
    using 1 same by (cases r1) (auto simp: lifecycle_save_def split: sum.splits)
qed

lemma db_read_frame: "files (snd (db_read j root name fs)) = files fs"
proof -
  obtain r fs1 where r: "map_err DiIo (fs_read fs (db_path root name)) = (r, fs1)" by force
  then have "files fs1 = files fs" by (metis fs_read_files map_err_snd snd_conv)
  with r show ?thesis by (cases r) (auto simp: db_read_def split: sum.splits)
qed

lemma db_write_frame:
  assumes "q \<noteq> db_path root name" and "q \<noteq> temporary_path (db_path root name)"
  shows "files (snd (db_write j root name fs x)) q = files fs q"
proof (cases "to_vec j x")
  case (Inr b)
  then show ?thesis
    by (cases "replace_file fs (db_path root name) b")
      (use assms file_replacement.write_frame in \<open>auto simp: db_write_def\<close>)
qed (simp add: db_write_def)

lemma manifests_file_apart:
  assumes "name \<in> {peers_db, endpoints_db, successful_connections_db}"
  shows "db_path root membership_manifests_db \<noteq> db_path root name"
    "db_path root membership_manifests_db \<noteq> temporary_path (db_path root name)"
  using assms
  by (auto simp: db_path_def temporary_path_def tmp_suffix_def membership_manifests_db_def peers_db_def
      endpoints_db_def successful_connections_db_def)

lemma upsert_authenticated_frame:
  "files (snd (upsert_authenticated j root fs p)) (db_path root membership_manifests_db) =
     files fs (db_path root membership_manifests_db)"
proof -
  let ?q = "db_path root membership_manifests_db"
  have w: "files (snd (db_write jj root peers_db fs' x)) ?q = files fs' ?q"
      "files (snd (db_write jj' root endpoints_db fs' y)) ?q = files fs' ?q" for jj jj' fs' x y
    by (rule db_write_frame; simp add: manifests_file_apart)+
  show ?thesis
    unfolding upsert_authenticated_def
    by (intro fs_bind_frame [where P = "\<lambda>t. files t ?q = files fs ?q"])
      (auto simp: w db_read_frame dest: arg_cong [where f = snd])
qed

lemma record_success_frame:
  "files (snd (record_success k j root fs mid ep now)) (db_path root membership_manifests_db) =
     files fs (db_path root membership_manifests_db)"
proof (cases "validate_onion_endpoint k DiInvalidEndpoint ep")
  case (Inr u)
  let ?q = "db_path root membership_manifests_db"
  have w: "files (snd (db_write jj root peers_db fs' x)) ?q = files fs' ?q"
      "files (snd (db_write jj' root successful_connections_db fs' y)) ?q = files fs' ?q" for jj jj' fs' x y
    by (rule db_write_frame; simp add: manifests_file_apart)+
  show ?thesis
    unfolding record_success_def Inr sum.case
    by (intro fs_bind_frame [where P = "\<lambda>t. files t ?q = files fs ?q"])
      (auto simp: w db_read_frame dest: arg_cong [where f = snd])
qed (simp add: record_success_def)

lemma save_lifecycle_quiet: "quiet s (snd (save_lifecycle en s))"
proof -
  obtain r fs where l: "lifecycle_save (ne_lifecycle_codec en) (sv_lifecycle_store s) (sv_fs s) (sv_lifecycle s) = (r, fs)"
    by force
  have "files fs (manifests_path s) = files (sv_fs s) (manifests_path s)" if "paths_ok s"
  proof -
    have "manifests_path s \<noteq> sv_lifecycle_store s" "manifests_path s \<noteq> temporary_path (sv_lifecycle_store s)"
      using that unfolding paths_ok_def by metis+
    from lifecycle_save_frame [OF this, of "ne_lifecycle_codec en" "sv_fs s" "sv_lifecycle s"] show ?thesis
      by (simp add: l)
  qed
  then show ?thesis by (auto simp: save_lifecycle_def l quiet_def same_config_def)
qed

lemma save_lifecycle_fields [simp]:
  "sv_lifecycle (snd (save_lifecycle en s)) = sv_lifecycle s"
  "active_peers (snd (save_lifecycle en s)) = active_peers s"
  "sv_membership (snd (save_lifecycle en s)) = sv_membership s"
  "sv_identity (snd (save_lifecycle en s)) = sv_identity s"
  "peer_live_window_ms (snd (save_lifecycle en s)) = peer_live_window_ms s"
  by (simp_all add: save_lifecycle_def split: prod.splits)

lemma advance_ignored_fields [simp]:
  "active_peers (advance_ignored s t) = active_peers s"
  "sv_membership (advance_ignored s t) = sv_membership s"
  "sv_identity (advance_ignored s t) = sv_identity s"
  "peer_live_window_ms (advance_ignored s t) = peer_live_window_ms s"
  "quiet s (advance_ignored s t)"
  by (simp_all add: advance_ignored_def quiet_def same_config_def)

lemma expire_peers_fields [simp]:
  "sv_lifecycle (expire_peers s now) = sv_lifecycle s"
  "sv_membership (expire_peers s now) = sv_membership s"
  "sv_identity (expire_peers s now) = sv_identity s"
  "peer_live_window_ms (expire_peers s now) = peer_live_window_ms s"
  "quiet s (expire_peers s now)"
  by (simp_all add: expire_peers_def quiet_def same_config_def)

lemma quiet_then:
  "quiet s t \<Longrightarrow> quiet s (advance_ignored t x)"
  "quiet s t \<Longrightarrow> quiet s (expire_peers t now)"
  "quiet s t \<Longrightarrow> quiet s (snd (save_lifecycle en t))"
  "save_lifecycle en t = (r, u) \<Longrightarrow> quiet s t \<Longrightarrow> quiet s u"
  by (auto intro: quiet_trans [OF _ advance_ignored_fields(5)] quiet_trans [OF _ expire_peers_fields(5)]
      quiet_trans [OF _ save_lifecycle_quiet])
    (metis quiet_trans save_lifecycle_quiet snd_conv)

lemma advance_after_authentication_quiet: "quiet s (advance_after_authentication en s)"
  unfolding advance_after_authentication_def Let_def by (auto intro!: quiet_then(1-3))

lemma activate_if_quorum_quiet: "quiet s (activate_if_quorum en s now)"
  unfolding activate_if_quorum_def service_readiness_def Let_def by (auto intro!: quiet_then(1-3))

lemma admit_peer_quiet: "quiet s (snd (admit_peer en s h now))"
proof (cases "ph_member_id h = ni_member_id (sv_identity s)")
  case False
  obtain r cs where a: "authenticate (ne_crypto en) (ne_contracts en) (sv_authenticator s) (sv_membership s)
      (sv_challenges s) h now = (r, cs)" by force
  show ?thesis
  proof (cases r)
    case (Inl e)
    then show ?thesis using False a by (simp add: admit_peer_def quiet_def same_config_def)
  next
    case (Inr p)
    let ?io = "io_bind (upsert_authenticated (ne_codecs en) (sv_peer_store s) (sv_fs s) p) (\<lambda>_ fs1.
        record_success (ne_contracts en) (ne_codecs en) (sv_peer_store s) fs1 (ap_member_id p) (ap_endpoint p) now)"
    obtain q fs2 where io: "?io = (q, fs2)" by force
    have "files (snd ?io) (manifests_path s) = files (sv_fs s) (manifests_path s)"
      unfolding manifests_path_def
      by (rule fs_bind_frame [where P = "\<lambda>t. files t (db_path (sv_peer_store s) membership_manifests_db) =
            files (sv_fs s) (db_path (sv_peer_store s) membership_manifests_db)"])
        (simp_all add: upsert_authenticated_frame record_success_frame)
    then have "quiet s (s\<lparr>sv_challenges := cs, sv_fs := fs2\<rparr>)"
        "quiet s (s\<lparr>sv_challenges := cs, sv_fs := fs2, active_peers := hm_insert (ap_member_id p) now (active_peers s)\<rparr>)"
      by (simp_all add: io quiet_def same_config_def)
    then show ?thesis
      using False a Inr io
      by (cases q)
        (auto simp: admit_peer_def Let_def intro: quiet_trans [OF _ quiet_trans [OF advance_after_authentication_quiet activate_if_quorum_quiet]])
  qed
qed (simp add: admit_peer_def)

lemma verify_state_snapshot_quiet: "quiet s (snd (verify_state_snapshot en s sn now))"
proof -
  have "quiet s (s\<lparr>sv_lifecycle := l\<rparr>)" for l by (simp add: quiet_def same_config_def)
  then show ?thesis
    unfolding verify_state_snapshot_def
    by (auto split: sum.splits prod.splits
        intro!: quiet_trans [OF _ activate_if_quorum_quiet] intro: quiet_then(4))
qed

section \<open>The membership survives a restart\<close>

text \<open>The manifests on disk decode, and restoring from them gives the membership in memory.\<close>

definition persisted :: "node_env \<Rightarrow> genesis_trust_bundle \<Rightarrow> node_service \<Rightarrow> bool" where
  "persisted en b s \<longleftrightarrow>
     (\<exists>bs ms. files (sv_fs s) (manifests_path s) = Some bs \<and> from_slice (manifests_codec (ne_codecs en)) bs = Inr ms \<and>
        restore (ne_crypto en) (ne_contracts en) b (sv_plane s) ms = Inr (sv_membership s))"

lemma persisted_quiet: "quiet s t \<Longrightarrow> paths_ok s \<Longrightarrow> persisted en b s \<Longrightarrow> persisted en b t \<and> paths_ok t"
  by (auto simp: quiet_def same_config_def persisted_def paths_ok_def manifests_path_def)

lemma db_write_target:
  "db_write j root name fs x = (r, fs') \<Longrightarrow>
     (if is_ok r then \<exists>b. to_vec j x = Inr b \<and> files fs' (db_path root name) = Some b
      else files fs' (db_path root name) = files fs (db_path root name))"
proof (cases "to_vec j x")
  case (Inr b)
  assume w: "db_write j root name fs x = (r, fs')"
  obtain r' where "replace_file fs (db_path root name) b = (r', fs')" "is_ok r' = is_ok r"
    using w Inr by (cases "replace_file fs (db_path root name) b"; cases "fst (replace_file fs (db_path root name) b)")
      (auto simp: db_write_def)
  then show ?thesis using file_replacement.write_target Inr by fastforce
qed (auto simp: db_write_def)

lemma append_manifest_file:
  assumes "append_manifest j root fs m = (r, fs')"
    and "files fs (db_path root membership_manifests_db) = Some bs" and "from_slice (manifests_codec j) bs = Inr ms"
  shows "if is_ok r then \<exists>b. to_vec (manifests_codec j) (ms @ [m]) = Inr b \<and>
      files fs' (db_path root membership_manifests_db) = Some b
    else files fs' (db_path root membership_manifests_db) = Some bs"
proof -
  obtain q fs1 where rd: "db_read (manifests_codec j) root membership_manifests_db fs = (q, fs1)" by force
  then have same: "files fs1 = files fs" using db_read_frame by (metis snd_conv)
  show ?thesis
  proof (cases q)
    case (Inl e)
    then show ?thesis using assms(1,2) rd same by (auto simp: append_manifest_def)
  next
    case (Inr xs)
    then have "xs = ms" using db_read_ok [of "manifests_codec j" root membership_manifests_db fs xs fs1] rd assms(2,3) by auto
    then have "db_write (manifests_codec j) root membership_manifests_db fs1 (ms @ [m]) = (r, fs')"
      using assms(1) rd Inr by (simp add: append_manifest_def)
    from db_write_target [OF this] show ?thesis using same assms(2) by auto
  qed
qed

lemma accept_membership_persisted:
  assumes "codec_ok (manifests_codec (ne_codecs en))" and "persisted en b s" and "paths_ok s"
  shows "persisted en b (snd (accept_membership en s m now)) \<and> paths_ok (snd (accept_membership en s m now))"
proof (cases "current_hash (ne_contracts en) (sv_membership s) = Some (canonical_hash (ne_contracts en) m)")
  case True
  then show ?thesis using assms by (simp add: accept_membership_def)
next
  case False
  obtain r v where acc: "accept (ne_crypto en) (ne_contracts en) (sv_membership s) m = (r, v)" by force
  show ?thesis
  proof (cases r)
    case (Inl e)
    then show ?thesis using assms False acc by (simp add: accept_membership_def)
  next
    case (Inr u)
    obtain q fs where app: "append_manifest (ne_codecs en) (sv_peer_store s) (sv_fs s) m = (q, fs)" by force
    obtain bs ms where disk: "files (sv_fs s) (manifests_path s) = Some bs"
        "from_slice (manifests_codec (ne_codecs en)) bs = Inr ms"
        "restore (ne_crypto en) (ne_contracts en) b (sv_plane s) ms = Inr (sv_membership s)"
      using assms(2) unfolding persisted_def by blast
    note onfile = append_manifest_file [OF app disk(1,2) [unfolded manifests_path_def]]
    show ?thesis
    proof (cases q)
      case (Inl e)
      then have "snd (accept_membership en s m now) = s\<lparr>sv_fs := fs\<rparr>"
        using False acc Inr app by (simp add: accept_membership_def)
      then show ?thesis
        using onfile Inl disk assms(3) by (auto simp: persisted_def paths_ok_def manifests_path_def)
    next
      case (Inr u')
      let ?s1 = "s\<lparr>sv_fs := fs, sv_membership := v\<rparr>"
      have "restore (ne_crypto en) (ne_contracts en) b (sv_plane s) (ms @ [m]) = Inr v"
        using disk(3) acc \<open>r = Inr u\<close> unfolding restore_ok by (auto intro: verifier_log.log_extended)
      then have "persisted en b ?s1" "paths_ok ?s1"
        using onfile Inr assms(1,3) by (auto simp: persisted_def paths_ok_def manifests_path_def codec_ok_def)
      moreover have "snd (accept_membership en s m now) = activate_if_quorum en ?s1 now"
        using False acc \<open>r = Inr u\<close> app Inr by (simp add: accept_membership_def)
      ultimately show ?thesis using persisted_quiet [OF activate_if_quorum_quiet] by metis
    qed
  qed
qed

lemma authenticated_endpoints_frame: "files (snd (authenticated_endpoints j root fs p)) = files fs"
  unfolding authenticated_endpoints_def
  by (rule fs_bind_frame [where P = "\<lambda>t. files t = files fs"]) (simp_all add: db_read_frame)

lemma ordered_candidates_frame: "files (snd (ordered_candidates k j root fs p mo g ms a)) = files fs"
  unfolding ordered_candidates_def
  by (intro fs_bind_frame [where P = "\<lambda>t. files t = files fs"]) (simp_all add: db_read_frame)

lemma discovery_candidates_state:
  "\<exists>fs. snd (discovery_candidates en s g ms) = s\<lparr>sv_fs := fs\<rparr> \<and> files fs = files (sv_fs s)"
proof -
  let ?r = "io_bind (authenticated_endpoints (ne_codecs en) (sv_peer_store s) (sv_fs s) (sv_plane s)) (\<lambda>authenticated fs1.
      ordered_candidates (ne_contracts en) (ne_codecs en) (sv_peer_store s) fs1 (sv_plane s)
        (service_current_manifest s) g ms authenticated)"
  have "files (snd ?r) = files (sv_fs s)"
    by (rule fs_bind_frame [where P = "\<lambda>t. files t = files (sv_fs s)"])
      (simp_all add: authenticated_endpoints_frame ordered_candidates_frame)
  then show ?thesis unfolding discovery_candidates_def by (cases ?r) auto
qed

lemma node_step_persisted:
  assumes "codec_ok (manifests_codec (ne_codecs en))" and "persisted en b s" and "paths_ok s"
  shows "persisted en b (node_step en s ev) \<and> paths_ok (node_step en s ev)"
proof (cases ev)
  case (EvMembership m now)
  then show ?thesis using accept_membership_persisted [OF assms] by simp
next
  case EvPeers
  have "quiet s (snd (authenticated_peers en s))"
    using authenticated_endpoints_frame [of "ne_codecs en" "sv_peer_store s" "sv_fs s" "sv_plane s"]
    by (auto simp: authenticated_peers_def quiet_def same_config_def split: prod.splits)
  from persisted_quiet [OF this assms(3,2)] show ?thesis using EvPeers by simp
next
  case (EvCandidates g ms)
  then show ?thesis
    using assms discovery_candidates_state [of en s g ms] by (auto simp: persisted_def paths_ok_def manifests_path_def)
next
  case (EvChallenge x now)
  then show ?thesis
    using assms by (simp add: issue_challenge_def persisted_def paths_ok_def manifests_path_def split: prod.splits)
next
  case (EvReadiness now)
  then show ?thesis
    using persisted_quiet [OF expire_peers_fields(5)] assms by (simp add: service_readiness_def Let_def)
next
  case (EvObserve h now)
  then show ?thesis using persisted_quiet [OF admit_peer_quiet] assms by (simp add: observe_peer_def)
next
  case (EvExchange r now)
  have "snd (exchange_hello en s r now) = snd (admit_peer en s (rq_hello r) now)"
    by (auto simp: exchange_hello_def split: sum.splits prod.splits)
  then show ?thesis using EvExchange persisted_quiet [OF admit_peer_quiet] assms by simp
next
  case (EvSnapshot sn now)
  then show ?thesis using persisted_quiet [OF verify_state_snapshot_quiet] assms by simp
qed

lemma node_run_persisted:
  assumes "codec_ok (manifests_codec (ne_codecs en))" and "persisted en b s" and "paths_ok s"
  shows "persisted en b (node_run en s es) \<and> paths_ok (node_run en s es)"
  unfolding node_run_def using assms(2,3)
proof (induction es arbitrary: s)
  case (Cons e es)
  then show ?case using node_step_persisted [OF assms(1), of b s e] by simp
qed simp

text \<open>
  The membership survives a restart: if the manifests on disk restore to the membership in
  memory, then so they do after any sequence of requests, whichever calls of the file system
  fail on the way and whatever they leave behind. In particular no manifest is in force that a
  restart would not bring back, and no refused or half-written manifest comes back.
\<close>

theorem membership_survives_restart:
  assumes "codec_ok (manifests_codec (ne_codecs en))" and "persisted en b s" and "paths_ok s"
  shows "\<exists>bs ms. files (sv_fs (node_run en s es)) (manifests_path (node_run en s es)) = Some bs \<and>
    from_slice (manifests_codec (ne_codecs en)) bs = Inr ms \<and>
    restore (ne_crypto en) (ne_contracts en) b (sv_plane (node_run en s es)) ms = Inr (sv_membership (node_run en s es))"
  using node_run_persisted [OF assms] by (simp add: persisted_def)

section \<open>Financial readiness\<close>

text \<open>\<open>greets ev h now\<close>: the event hands the greeting \<open>h\<close> to the service.\<close>

fun greets :: "node_event \<Rightarrow> peer_hello \<Rightarrow> u64 \<Rightarrow> bool" where
  "greets (EvObserve h now) h' now' = (h' = h \<and> now' = now)"
| "greets (EvExchange r now) h' now' = (h' = rq_hello r \<and> now' = now)"
| "greets _ h' now' = False"

text \<open>At some point of the run the member was greeted by a peer that the service admitted.\<close>

definition greeted :: "node_env \<Rightarrow> node_service \<Rightarrow> node_event list \<Rightarrow> string \<Rightarrow> u64 \<Rightarrow> bool" where
  "greeted en s es i at \<longleftrightarrow>
     (\<exists>before ev after h. es = before @ ev # after \<and> greets ev h at \<and> ph_member_id h = i \<and>
        is_ok (fst (admit_peer en (node_run en s before) h at)))"

lemma greeted_append: "greeted en s es i at \<Longrightarrow> greeted en s (es @ fs) i at"
  unfolding greeted_def by (metis append.assoc append_Cons)

lemma node_run_snoc [simp]: "node_run en s (es @ [e]) = node_step en (node_run en s es) e"
  by (simp add: node_run_def)

lemma set_hm_insert: "set (hm_insert k v m) \<subseteq> insert (k, v) (set m)"
  by (induction m) (auto split: if_splits)

lemma peers_after_activation:
  "set (active_peers (activate_if_quorum en s now)) \<subseteq> set (active_peers s)"
  "hm_ok (active_peers s) \<Longrightarrow> hm_ok (active_peers (activate_if_quorum en s now))"
  by (auto simp: activate_if_quorum_def service_readiness_def Let_def expire_peers_def hm_ok_def distinct_map_filter)

lemma peers_after_authentication [simp]:
  "active_peers (advance_after_authentication en s) = active_peers s"
  by (simp add: advance_after_authentication_def Let_def)

definition peers_step :: "node_env \<Rightarrow> node_service \<Rightarrow> node_event \<Rightarrow> node_service \<Rightarrow> bool" where
  "peers_step en s ev t \<longleftrightarrow> (hm_ok (active_peers s) \<longrightarrow> hm_ok (active_peers t)) \<and>
     (\<forall>(i, at) \<in> set (active_peers t). (i, at) \<in> set (active_peers s) \<or>
        i \<noteq> ni_member_id (sv_identity s) \<and>
        (\<exists>h. greets ev h at \<and> ph_member_id h = i \<and> is_ok (fst (admit_peer en s h at))))"

lemma peers_shrink:
  "set (active_peers t) \<subseteq> set (active_peers s) \<Longrightarrow> (hm_ok (active_peers s) \<Longrightarrow> hm_ok (active_peers t)) \<Longrightarrow>
     peers_step en s ev t"
  by (auto simp: peers_step_def)

lemma peers_same: "active_peers t = active_peers s \<Longrightarrow> peers_step en s ev t"
  by (rule peers_shrink) simp_all

lemma peers_activation:
  "active_peers u = active_peers s \<Longrightarrow> peers_step en s ev (activate_if_quorum en' u now)"
  using peers_after_activation [where s = u] by (intro peers_shrink) auto

lemma admit_peer_peers:
  assumes "greets ev h now"
  shows "peers_step en s ev (snd (admit_peer en s h now))"
proof (cases "admit_peer en s h now")
  case (Pair r t)
  show ?thesis
  proof (cases r)
    case (Inl e)
    then have "active_peers t = active_peers s"
      using Pair by (auto simp: admit_peer_def Let_def split: if_splits sum.splits prod.splits)
    then show ?thesis using Pair by (auto simp: peers_step_def)
  next
    case (Inr u)
    obtain p cs fs where ok: "ph_member_id h \<noteq> ni_member_id (sv_identity s)"
        "authenticate (ne_crypto en) (ne_contracts en) (sv_authenticator s) (sv_membership s) (sv_challenges s) h now = (Inr p, cs)"
        "t = activate_if_quorum en (advance_after_authentication en (s\<lparr>sv_challenges := cs, sv_fs := fs,
           active_peers := hm_insert (ap_member_id p) now (active_peers s)\<rparr>)) now"
      using Pair Inr by (auto simp: admit_peer_def Let_def split: if_splits sum.splits prod.splits)
    have "ap_member_id p = ph_member_id h"
      using ok(2) by (auto simp: authenticate_def split: if_splits sum.splits prod.splits)
    then have "set (active_peers t) \<subseteq> set (hm_insert (ph_member_id h) now (active_peers s))"
        "hm_ok (active_peers s) \<longrightarrow> hm_ok (active_peers t)"
      using peers_after_activation [where en = en and now = now and s = "advance_after_authentication en
          (s\<lparr>sv_challenges := cs, sv_fs := fs, active_peers := hm_insert (ap_member_id p) now (active_peers s)\<rparr>)"] ok(3)
      by simp_all
    then have "set (active_peers t) \<subseteq> insert (ph_member_id h, now) (set (active_peers s))"
        "hm_ok (active_peers s) \<longrightarrow> hm_ok (active_peers t)"
      using set_hm_insert [of "ph_member_id h" now "active_peers s"] by auto
    moreover have "\<exists>h'. greets ev h' now \<and> ph_member_id h' = ph_member_id h \<and> is_ok (fst (admit_peer en s h' now))"
      using assms Pair Inr by auto
    ultimately show ?thesis using ok(1) Pair unfolding peers_step_def by auto
  qed
qed

lemma exchange_hello_state: "snd (exchange_hello en s r now) = snd (admit_peer en s (rq_hello r) now)"
  by (auto simp: exchange_hello_def split: sum.splits prod.splits)

lemma node_step_peers: "peers_step en s ev (node_step en s ev)"
proof (cases ev)
  case (EvObserve h now)
  then show ?thesis using admit_peer_peers [of ev h now] by (simp add: observe_peer_def)
next
  case (EvExchange r now)
  then show ?thesis using admit_peer_peers [of ev "rq_hello r" now] by (simp add: exchange_hello_state)
next
  case (EvReadiness now)
  then show ?thesis
    by (auto simp: peers_step_def service_readiness_def Let_def expire_peers_def hm_ok_def distinct_map_filter)
next
  case (EvMembership m now)
  then show ?thesis
    by (auto simp: accept_membership_def intro: peers_same peers_activation split: sum.splits prod.splits)
next
  case (EvSnapshot sn now)
  have "active_peers t = active_peers s" if "save_lifecycle en (s\<lparr>sv_lifecycle := l\<rparr>) = (r, t)" for l r t
    using save_lifecycle_fields(2) [of en "s\<lparr>sv_lifecycle := l\<rparr>"] that by simp
  then show ?thesis
    using EvSnapshot
    by (auto simp: verify_state_snapshot_def intro: peers_same peers_activation split: sum.splits prod.splits)
next
  case (EvCandidates g ms)
  then show ?thesis using discovery_candidates_state [of en s g ms] by (auto intro: peers_same)
qed (auto simp: peers_step_def issue_challenge_def authenticated_peers_def split: prod.splits)

abbreviation stage :: "node_service \<Rightarrow> nat" where
  "stage s \<equiv> lifecycle_index (lc_state (sv_lifecycle s))"

lemma index_9: "lifecycle_index x = 9 \<longleftrightarrow> x = Active" "lifecycle_index x \<le> 9"
  by (cases x; simp)+

lemma quorum_ready_cong:
  "sv_membership s = sv_membership t \<Longrightarrow> active_peers s = active_peers t \<Longrightarrow> sv_identity s = sv_identity t \<Longrightarrow>
     quorum_ready (readiness_of en s) = quorum_ready (readiness_of en t)"
  by (simp add: readiness_of_def Let_def local_member_def)

lemma activation_stage:
  "stage s \<le> stage (activate_if_quorum en s now)"
  "stage s < 8 \<Longrightarrow> stage (activate_if_quorum en s now) = stage s"
  "stage s \<noteq> 9 \<Longrightarrow> stage (activate_if_quorum en s now) = 9 \<Longrightarrow>
     quorum_ready (readiness_of en (activate_if_quorum en s now))"
proof -
  let ?e = "expire_peers s now" and ?t = "activate_if_quorum en s now"
  have t: "?t = (if quorum_ready (readiness_of en ?e) \<and> lc_state (sv_lifecycle s) = Eligible
      then snd (save_lifecycle en (advance_ignored ?e Active)) else ?e)"
    by (simp add: activate_if_quorum_def service_readiness_def Let_def)
  have a: "lc_state (sv_lifecycle s) = Eligible \<Longrightarrow> lc_state (sv_lifecycle (advance_ignored ?e Active)) = Active"
    by (simp add: advance_ignored_def advance_def)
  show "stage s \<le> stage ?t" "stage s < 8 \<Longrightarrow> stage ?t = stage s" using t a by auto
  assume "stage s \<noteq> 9" "stage ?t = 9"
  then have "quorum_ready (readiness_of en ?e)" "?t = snd (save_lifecycle en (advance_ignored ?e Active))"
    using t by (auto split: if_splits)
  then show "quorum_ready (readiness_of en ?t)"
    using quorum_ready_cong [of ?t ?e] by (simp add: expire_peers_def)
qed

lemma authentication_stage:
  "stage s \<le> stage (advance_after_authentication en s)"
  "stage s < 7 \<Longrightarrow> stage (advance_after_authentication en s) < 7"
  "stage s \<noteq> 9 \<Longrightarrow> stage (advance_after_authentication en s) \<noteq> 9"
proof -
  have "stage (advance_after_authentication en s) =
      (let x = lc_state (sv_lifecycle s); y = (if x = Discovering then Authenticated else x)
       in lifecycle_index (if local_member en s \<and> y = Authenticated then Syncing else y))"
    by (auto simp: advance_after_authentication_def Let_def advance_ignored_def advance_def local_member_def)
  then show "stage s \<le> stage (advance_after_authentication en s)"
      "stage s < 7 \<Longrightarrow> stage (advance_after_authentication en s) < 7"
      "stage s \<noteq> 9 \<Longrightarrow> stage (advance_after_authentication en s) \<noteq> 9"
    by (cases "lc_state (sv_lifecycle s)"; simp add: Let_def)+
qed

text \<open>What one request can do to the life cycle.\<close>

definition stage_step :: "node_env \<Rightarrow> node_service \<Rightarrow> node_event \<Rightarrow> node_service \<Rightarrow> bool" where
  "stage_step en s ev t \<longleftrightarrow> stage s \<le> stage t \<and>
     (stage s < 7 \<and> 7 \<le> stage t \<longrightarrow>
        stage s = 6 \<and> (\<exists>sn now. ev = EvSnapshot sn now \<and> snapshot_verify (ne_crypto en) sn = Inr ())) \<and>
     (stage s \<noteq> 9 \<and> stage t = 9 \<longrightarrow> quorum_ready (readiness_of en t))"

lemma stage_same: "sv_lifecycle t = sv_lifecycle s \<Longrightarrow> stage_step en s ev t"
  by (auto simp: stage_step_def)

lemma stage_activation:
  assumes "stage s \<le> stage u" and "stage s < 7 \<longrightarrow> stage u < 7" and "stage s \<noteq> 9 \<longrightarrow> stage u \<noteq> 9"
  shows "stage_step en s ev (activate_if_quorum en u now)"
  using assms activation_stage [of u en now] unfolding stage_step_def
  by auto

lemma admit_peer_stage: "stage_step en s ev (snd (admit_peer en s h now))"
proof (cases "admit_peer en s h now")
  case (Pair r t)
  then have "sv_lifecycle t = sv_lifecycle s \<or> (\<exists>cs fs ps. t = activate_if_quorum en
      (advance_after_authentication en (s\<lparr>sv_challenges := cs, sv_fs := fs, active_peers := ps\<rparr>)) now)"
    by (fastforce simp: admit_peer_def Let_def split: if_splits sum.splits prod.splits)
  then show ?thesis
  proof (elim disjE exE)
    assume "sv_lifecycle t = sv_lifecycle s"
    then show ?thesis using Pair by (simp add: stage_same)
  next
    fix cs fs ps
    let ?u = "s\<lparr>sv_challenges := cs, sv_fs := fs, active_peers := ps\<rparr>"
    assume t: "t = activate_if_quorum en (advance_after_authentication en ?u) now"
    have "stage_step en s ev (activate_if_quorum en (advance_after_authentication en ?u) now)"
      by (rule stage_activation) (use authentication_stage [of ?u en] in simp_all)
    then show ?thesis using Pair t by simp
  qed
qed

lemma node_step_stage: "stage_step en s ev (node_step en s ev)"
proof (cases ev)
  case (EvObserve h now)
  then show ?thesis using admit_peer_stage by (simp add: observe_peer_def)
next
  case (EvExchange r now)
  then show ?thesis using admit_peer_stage by (simp add: exchange_hello_state)
next
  case (EvMembership m now)
  have "stage_step en s ev (activate_if_quorum en (s\<lparr>sv_fs := f, sv_membership := v\<rparr>) now)" for f v
    by (rule stage_activation) simp_all
  moreover have "stage_step en s ev s" "stage_step en s ev (s\<lparr>sv_fs := f\<rparr>)" for f by (simp_all add: stage_same)
  ultimately show ?thesis
    using EvMembership by (simp add: accept_membership_def split: sum.splits prod.splits)
next
  case (EvReadiness now)
  then show ?thesis by (auto simp: service_readiness_def Let_def intro!: stage_same)
next
  case (EvSnapshot sn now)
  show ?thesis
  proof (cases "snapshot_verify (ne_crypto en) sn = Inr () \<and> lc_state (sv_lifecycle s) = Syncing")
    case True
    let ?l = "(sv_lifecycle s)\<lparr>lc_state := Eligible\<rparr>"
    obtain r t where save: "save_lifecycle en (s\<lparr>sv_lifecycle := ?l\<rparr>) = (r, t)" by force
    then have t: "sv_lifecycle t = ?l" using save_lifecycle_fields(1) [of en "s\<lparr>sv_lifecycle := ?l\<rparr>"] by simp
    have "node_step en s ev = (case r of Inl e \<Rightarrow> t | Inr _ \<Rightarrow> activate_if_quorum en t now)"
      using True save by (simp add: EvSnapshot verify_state_snapshot_def advance_def split: sum.splits)
    then show ?thesis
      using activation_stage [of t en now] t True EvSnapshot
      by (cases r) (auto simp: stage_step_def)
  next
    case False
    then have "node_step en s ev = s"
      by (cases "snapshot_verify (ne_crypto en) sn") (auto simp: EvSnapshot verify_state_snapshot_def)
    then show ?thesis by (simp add: stage_same)
  qed
next
  case (EvCandidates g ms)
  then show ?thesis using discovery_candidates_state [of en s g ms] by (auto intro: stage_same)
qed (auto simp: issue_challenge_def authenticated_peers_def split: prod.splits intro!: stage_same)

lemma node_step_config: "same_config s (node_step en s ev)"
proof (cases ev)
  case (EvMembership m now)
  have "same_config s t \<Longrightarrow> same_config s (activate_if_quorum en t now)" for t
    using activate_if_quorum_quiet [of t en now] by (simp add: quiet_def same_config_def)
  then show ?thesis
    using EvMembership by (auto simp: accept_membership_def same_config_def split: sum.splits prod.splits)
next
  case (EvObserve h now)
  then show ?thesis using admit_peer_quiet [of s en h now] by (simp add: observe_peer_def quiet_def)
next
  case (EvExchange r now)
  then show ?thesis using admit_peer_quiet [of s en "rq_hello r" now] by (simp add: exchange_hello_state quiet_def)
next
  case (EvSnapshot sn now)
  then show ?thesis using verify_state_snapshot_quiet [of s en sn now] by (simp add: quiet_def)
next
  case (EvCandidates g ms)
  then show ?thesis using discovery_candidates_state [of en s g ms] by (auto simp: same_config_def)
qed (auto simp: issue_challenge_def authenticated_peers_def service_readiness_def Let_def expire_peers_def
    same_config_def split: prod.splits)

lemma node_run_facts:
  assumes "active_peers s = []"
  shows "same_config s (node_run en s es) \<and> hm_ok (active_peers (node_run en s es)) \<and>
    (\<forall>(i, at) \<in> set (active_peers (node_run en s es)). i \<noteq> ni_member_id (sv_identity s) \<and> greeted en s es i at) \<and>
    stage s \<le> stage (node_run en s es) \<and>
    (stage s < 7 \<and> 7 \<le> stage (node_run en s es) \<longrightarrow>
       (\<exists>sn at. EvSnapshot sn at \<in> set es \<and> snapshot_verify (ne_crypto en) sn = Inr ()))"
proof (induction es rule: rev_induct)
  case Nil
  then show ?case using assms by (simp add: node_run_def same_config_def)
next
  case (snoc e es)
  let ?t = "node_run en s es"
  note step = node_step_peers [of en ?t e, unfolded peers_step_def] node_step_stage [of en ?t e, unfolded stage_step_def]
    node_step_config [of ?t en e]
  have id: "sv_identity ?t = sv_identity s" using snoc by (simp add: same_config_def)
  have "i \<noteq> ni_member_id (sv_identity s) \<and> greeted en s (es @ [e]) i at"
    if "(i, at) \<in> set (active_peers (node_step en ?t e))" for i at
  proof (cases "(i, at) \<in> set (active_peers ?t)")
    case True
    then show ?thesis using snoc greeted_append by fastforce
  next
    case False
    then show ?thesis using step(1) that id unfolding greeted_def by fastforce
  qed
  then show ?case using snoc step by (auto simp: same_config_def)
qed

text \<open>
  C1. A node reports itself ready for financial operations only when it should: after any
  sequence of requests to a fresh service, if a readiness report at time \<open>now\<close> is
  \<open>financial_ready\<close>, then the node is in the state \<open>Active\<close>; at least the threshold of the
  current members, the node itself among them, is alive, where every other one has sent a
  greeting that the node admitted, no longer ago than the live window; and, unless its life
  cycle had passed that point before, a state snapshot whose hash verifies has been presented.
\<close>

theorem financial_ready_backed:
  assumes "active_peers s = []" and "t = node_run en s es"
    and "financial_ready (fst (service_readiness en t now))"
  shows "lc_state (sv_lifecycle t) = Active \<and>
    (\<exists>Q. finite Q \<and> threshold (sv_membership t) \<le> card Q \<and> Q \<subseteq> dom (map_of (authorized_keys (sv_membership t))) \<and>
       ni_member_id (sv_identity s) \<in> Q \<and>
       (\<forall>i \<in> Q - {ni_member_id (sv_identity s)}.
          \<exists>at. greeted en s es i at \<and> peer_alive (peer_live_window_ms s) now at)) \<and>
    (stage s < 7 \<longrightarrow> (\<exists>sn at. EvSnapshot sn at \<in> set es \<and> snapshot_verify (ne_crypto en) sn = Inr ()))"
proof -
  note facts = node_run_facts [OF assms(1), of en es, folded assms(2)]
  let ?own = "ni_member_id (sv_identity s)" and ?auth = "map_of (authorized_keys (sv_membership t))"
  let ?live = "filter (\<lambda>(i, at). ?auth i \<noteq> None \<and> peer_alive (peer_live_window_ms s) now at) (active_peers t)"
  have cfg: "sv_identity t = sv_identity s" "peer_live_window_ms t = peer_live_window_ms s"
    using facts by (simp_all add: same_config_def)
  have live: "filter (\<lambda>(i, _). \<exists>y. ?auth i = Some y) (active_peers (expire_peers t now)) = ?live"
    by (simp add: expire_peers_def cfg) (rule filter_cong, auto)
  have "local_member en (expire_peers t now) = local_member en t" by (simp add: local_member_def expire_peers_def)
  moreover have "financial_ready (readiness_of en (expire_peers t now))"
    using assms(3) by (simp add: service_readiness_def Let_def)
  ultimately have r: "lc_state (sv_lifecycle t) = Active" "local_member en t"
      "threshold (sv_membership t) \<le> Suc (length ?live)"
    unfolding readiness_of_def Let_def using live by (simp_all split: if_splits)
  let ?Q = "insert ?own (fst ` set ?live)"
  have "distinct (map fst ?live)" using facts by (simp add: hm_ok_def distinct_map_filter)
  then have "card (fst ` set ?live) = length ?live"
    using distinct_card [of "map fst ?live"] by (simp only: set_map length_map)
  moreover have "?own \<notin> fst ` set ?live" using facts by auto
  ultimately have "threshold (sv_membership t) \<le> card ?Q" using r(3) by simp
  moreover have "?Q \<subseteq> dom ?auth"
    using r(2) by (auto simp: local_member_def is_member_def cfg)
  moreover have "\<exists>at. greeted en s es i at \<and> peer_alive (peer_live_window_ms s) now at" if "i \<in> ?Q - {?own}" for i
    using that facts by fastforce
  moreover have "stage s < 7 \<longrightarrow> (\<exists>sn at. EvSnapshot sn at \<in> set es \<and> snapshot_verify (ne_crypto en) sn = Inr ())"
    using facts r(1) by auto
  ultimately show ?thesis using r(1) by (intro conjI exI [of _ ?Q]) auto
qed

section \<open>A run\<close>

text \<open>
  A member greets the node \<open>8\<close> and a snapshot is presented: two of three members are alive and
  the node becomes active. Then the first manifest is accepted and survives.
\<close>

definition demo_env :: node_env where
  "demo_env = \<lparr>ne_crypto = demo_crypto, ne_contracts = demo_contracts, ne_signing = demo_signing,
     ne_codecs = \<lparr>peers_codec = \<lparr>to_vec = (\<lambda>_. Inr []), from_slice = (\<lambda>_. Inr [])\<rparr>,
       endpoints_codec = \<lparr>to_vec = (\<lambda>_. Inr []), from_slice = (\<lambda>_. Inr [])\<rparr>,
       successes_codec = \<lparr>to_vec = (\<lambda>_. Inr []), from_slice = (\<lambda>_. Inr [])\<rparr>,
       manifests_codec =
         \<lparr>to_vec = (\<lambda>ms. if ms = [] then Inr [] else if ms = [demo_manifest 1 zero_hash [7, 8]] then Inr [1] else Inl ''unsupported''),
          from_slice = (\<lambda>b. if b = [] then Inr [] else Inr [demo_manifest 1 zero_hash [7, 8]])\<rparr>\<rparr>,
     ne_lifecycle_codec = \<lparr>to_vec = (\<lambda>_. Inr []), from_slice = (\<lambda>_. Inr lifecycle_default)\<rparr>\<rparr>"

definition demo_service :: node_service where
  "demo_service = \<lparr>sv_identity = from_secret demo_contracts demo_signing ''net'' VaultPlane (replicate 32 8),
     sv_endpoint = demo_host, sv_plane = VaultPlane, sv_challenges = \<lparr>ttl_ms = 60, pending = [(''ch'', 100)]\<rparr>,
     sv_authenticator = demo_authenticator, sv_membership = demo_verifier, sv_peer_store = ''r'',
     sv_lifecycle = \<lparr>lc_state = Syncing\<rparr>, sv_lifecycle_store = ''l'', active_peers = [],
     peer_live_window_ms = 30, sv_fs = demo_db\<rparr>"

lemma demo_env_simps [simp]:
  "ne_crypto demo_env = demo_crypto" "ne_contracts demo_env = demo_contracts" "ne_signing demo_env = demo_signing"
  by (simp_all add: demo_env_def)

lemma demo_service_simps [simp]:
  "sv_identity demo_service = from_secret demo_contracts demo_signing ''net'' VaultPlane (replicate 32 8)"
  "sv_plane demo_service = VaultPlane" "sv_challenges demo_service = \<lparr>ttl_ms = 60, pending = [(''ch'', 100)]\<rparr>"
  "sv_authenticator demo_service = demo_authenticator" "sv_membership demo_service = demo_verifier"
  "sv_peer_store demo_service = ''r''" "sv_lifecycle demo_service = \<lparr>lc_state = Syncing\<rparr>"
  "sv_lifecycle_store demo_service = ''l''" "active_peers demo_service = []"
  "peer_live_window_ms demo_service = 30" "sv_fs demo_service = demo_db"
  by (simp_all add: demo_service_def)

theorem membership_survives_restart_witness:
  "\<exists>bs ms. files (sv_fs (node_run demo_env demo_service [EvMembership (demo_manifest 1 zero_hash [7, 8]) 5]))
      (manifests_path (node_run demo_env demo_service [EvMembership (demo_manifest 1 zero_hash [7, 8]) 5])) = Some bs \<and>
    from_slice (manifests_codec (ne_codecs demo_env)) bs = Inr ms \<and>
    restore (ne_crypto demo_env) (ne_contracts demo_env) demo_bundle
      (sv_plane (node_run demo_env demo_service [EvMembership (demo_manifest 1 zero_hash [7, 8]) 5])) ms =
      Inr (sv_membership (node_run demo_env demo_service [EvMembership (demo_manifest 1 zero_hash [7, 8]) 5]))"
proof (rule membership_survives_restart)
  show "codec_ok (manifests_codec (ne_codecs demo_env))" by (auto simp: codec_ok_def demo_env_def)
  show "persisted demo_env demo_bundle demo_service"
    by (simp add: persisted_def demo_db_def) (simp add: demo_env_def restore_def demo_new)
  show "paths_ok demo_service"
    by (simp add: paths_ok_def manifests_path_def db_path_def membership_manifests_db_def temporary_path_def tmp_suffix_def)
qed

lemma demo_own: "ni_member_id (sv_identity demo_service) = demo_key 8"
    "local_member demo_env (demo_service\<lparr>sv_challenges := cs, sv_fs := fs, active_peers := ps, sv_lifecycle := l\<rparr>)"
proof -
  have "map_of (authorized_keys demo_verifier) (demo_key 8) = Some (demo_key 8)"
    unfolding demo_genesis_keys demo_keys_get by simp
  then show "ni_member_id (sv_identity demo_service) = demo_key 8"
      "local_member demo_env (demo_service\<lparr>sv_challenges := cs, sv_fs := fs, active_peers := ps, sv_lifecycle := l\<rparr>)"
    by (simp_all add: local_member_def is_member_def root_public_key_hex_def from_secret_def from_signing_key_def
        demo_env_def demo_signing_def demo_contracts_def demo_crypto_def demo_key_def)
qed

lemma demo_io:
  "\<exists>fs. io_bind (upsert_authenticated (ne_codecs demo_env) ''r'' demo_db peer) (\<lambda>_ fs1.
     record_success demo_contracts (ne_codecs demo_env) ''r'' fs1 i demo_host now) = (Inr (), fs) \<and> io_faults fs = (\<lambda>_. None)"
  by (simp add: upsert_authenticated_def record_success_def demo_host_ok db_read_def db_write_def replace_file_def
      fs_read_def fs_write_def fs_rename_def fault_now_def io_call_def demo_db_def demo_fs_def demo_env_def map_err_def
      db_path_def peers_db_def endpoints_db_def successful_connections_db_def temporary_path_def tmp_suffix_def)

lemma demo_save:
  assumes "io_faults (sv_fs s) = (\<lambda>_. None)" and "sv_lifecycle_store s = ''l''"
  shows "\<exists>fs. save_lifecycle demo_env s = (Inr (), s\<lparr>sv_fs := fs\<rparr>) \<and> io_faults fs = (\<lambda>_. None)"
  using assms
  by (simp add: save_lifecycle_def lifecycle_save_def ensure_parent_def has_parent_def fs_create_dir_all_def
      replace_file_def fs_write_def fs_rename_def fault_now_def io_call_def demo_env_def map_err_def)
    (rule exI, rule conjI, rule refl, simp)

definition demo_sync_snapshot :: state_snapshot where
  "demo_sync_snapshot = \<lparr>sn_epoch = 1, sn_bytes = [], sn_state_root = demo_hex_encode (replicate 24 0 @ usize_le 0)\<rparr>"

lemma demo_quorum:
  assumes "t = demo_service\<lparr>sv_challenges := cs, sv_fs := fs, active_peers := [(demo_key 7, 50)], sv_lifecycle := l\<rparr>"
    and "now \<in> {50, 55, 60}"
  shows "expire_peers t now = t" and "quorum_ready (readiness_of demo_env t)"
    and "financial_ready (readiness_of demo_env t) \<longleftrightarrow> lc_state l = Active"
proof -
  have "map_of (authorized_keys demo_verifier) (demo_key 7) = Some (demo_key 7)"
    unfolding demo_genesis_keys demo_keys_get by simp
  moreover have "threshold demo_verifier = 2" by (simp add: threshold_def demo_verifier_def demo_bundle_def Let_def)
  ultimately show "quorum_ready (readiness_of demo_env t)"
      "financial_ready (readiness_of demo_env t) \<longleftrightarrow> lc_state l = Active"
    using demo_own(2) [of l "[(demo_key 7, 50)]" fs cs] assms(1) by (simp_all add: readiness_of_def Let_def)
  show "expire_peers t now = t"
    using assms by (auto simp: expire_peers_def peer_alive_def saturating_sub_def demo_service_def)
qed

lemma demo_authenticated:
  "\<exists>cs. authenticate demo_crypto demo_contracts demo_authenticator demo_verifier
     \<lparr>ttl_ms = 60, pending = [(''ch'', 100)]\<rparr> demo_hello 50 =
     (Inr \<lparr>ap_member_id = demo_key 7, ap_plane = VaultPlane, ap_root_public_key = demo_key 7, ap_endpoint = demo_host,
        ap_authenticated_at = 50\<rparr>, cs)"
proof -
  have "map_of (authorized_keys demo_verifier) (demo_key 7) = Some (demo_key 7)"
    unfolding demo_genesis_keys demo_keys_get by simp
  then show ?thesis
    using demo_hello_accepted
    by (auto simp: authenticate_def demo_hello_def is_ok_def Let_def split: if_splits sum.splits prod.splits)
qed

lemma demo_greeting:
  "\<exists>cs fs. admit_peer demo_env demo_service demo_hello 50 = (Inr (),
     demo_service\<lparr>sv_challenges := cs, sv_fs := fs, active_peers := [(demo_key 7, 50)]\<rparr>) \<and> io_faults fs = (\<lambda>_. None)"
proof -
  let ?peer = "\<lparr>ap_member_id = demo_key 7, ap_plane = VaultPlane, ap_root_public_key = demo_key 7, ap_endpoint = demo_host,
        ap_authenticated_at = 50\<rparr>"
  obtain cs where a: "authenticate demo_crypto demo_contracts demo_authenticator demo_verifier
     \<lparr>ttl_ms = 60, pending = [(''ch'', 100)]\<rparr> demo_hello 50 = (Inr ?peer, cs)" using demo_authenticated by blast
  obtain fs where io: "io_bind (upsert_authenticated (ne_codecs demo_env) ''r'' demo_db ?peer) (\<lambda>_ fs1.
     record_success demo_contracts (ne_codecs demo_env) ''r'' fs1 (demo_key 7) demo_host 50) = (Inr (), fs)"
     "io_faults fs = (\<lambda>_. None)" using demo_io by blast
  let ?s = "demo_service\<lparr>sv_challenges := cs, sv_fs := fs, active_peers := [(demo_key 7, 50)]\<rparr>"
  obtain fs' where s: "save_lifecycle demo_env ?s = (Inr (), ?s\<lparr>sv_fs := fs'\<rparr>)" "io_faults fs' = (\<lambda>_. None)"
    using demo_save [of ?s] io(2) by auto
  have "advance_after_authentication demo_env ?s = ?s\<lparr>sv_fs := fs'\<rparr>"
    using s(1) by (simp add: advance_after_authentication_def)
  moreover have "activate_if_quorum demo_env (?s\<lparr>sv_fs := fs'\<rparr>) 50 = ?s\<lparr>sv_fs := fs'\<rparr>"
    using demo_quorum(1) [where cs = cs and fs = fs' and l = "\<lparr>lc_state = Syncing\<rparr>" and now = 50, OF refl]
    by (simp add: activate_if_quorum_def service_readiness_def demo_service_def Let_def)
  moreover have "ph_member_id demo_hello \<noteq> ni_member_id (sv_identity demo_service)"
    unfolding demo_own(1) by (simp add: demo_hello_def demo_key_eq)
  ultimately have "admit_peer demo_env demo_service demo_hello 50 = (Inr (), ?s\<lparr>sv_fs := fs'\<rparr>)"
    using a io(1) by (simp add: admit_peer_def Let_def hm_insert_def)
  with s(2) show ?thesis by (intro exI [of _ cs] exI [of _ fs']) simp
qed

definition demo_events :: "node_event list" where
  "demo_events = [EvObserve demo_hello 50, EvSnapshot demo_sync_snapshot 55]"

lemma demo_activation:
  "\<exists>cs fs. node_run demo_env demo_service demo_events =
     demo_service\<lparr>sv_challenges := cs, sv_fs := fs, active_peers := [(demo_key 7, 50)], sv_lifecycle := \<lparr>lc_state = Active\<rparr>\<rparr>"
proof -
  obtain cs fs where g: "admit_peer demo_env demo_service demo_hello 50 = (Inr (),
     demo_service\<lparr>sv_challenges := cs, sv_fs := fs, active_peers := [(demo_key 7, 50)]\<rparr>)" and fs: "io_faults fs = (\<lambda>_. None)"
    using demo_greeting by blast
  let ?s = "demo_service\<lparr>sv_challenges := cs, sv_fs := fs, active_peers := [(demo_key 7, 50)]\<rparr>"
  let ?e = "?s\<lparr>sv_lifecycle := \<lparr>lc_state = Eligible\<rparr>\<rparr>" and ?a = "?s\<lparr>sv_lifecycle := \<lparr>lc_state = Active\<rparr>\<rparr>"
  obtain fs1 where 1: "save_lifecycle demo_env ?e = (Inr (), ?e\<lparr>sv_fs := fs1\<rparr>)" "io_faults fs1 = (\<lambda>_. None)"
    using demo_save [of ?e] fs by auto
  obtain fs2 where 2: "save_lifecycle demo_env (?a\<lparr>sv_fs := fs1\<rparr>) = (Inr (), ?a\<lparr>sv_fs := fs2\<rparr>)"
    using demo_save [of "?a\<lparr>sv_fs := fs1\<rparr>"] 1(2) by auto
  have "snapshot_verify demo_crypto demo_sync_snapshot = Inr ()"
    by (simp add: snapshot_verify_def demo_sync_snapshot_def demo_crypto_def require_def)
  then have v: "verify_state_snapshot demo_env ?s demo_sync_snapshot 55 = (Inr (), activate_if_quorum demo_env (?e\<lparr>sv_fs := fs1\<rparr>) 55)"
    using 1(1) by (simp add: verify_state_snapshot_def advance_def)
  have "activate_if_quorum demo_env (?e\<lparr>sv_fs := fs1\<rparr>) 55 = ?a\<lparr>sv_fs := fs2\<rparr>"
    using 2 demo_quorum(1,2) [where cs = cs and fs = fs1 and l = "\<lparr>lc_state = Eligible\<rparr>" and now = 55, OF refl]
    by (simp add: activate_if_quorum_def service_readiness_def demo_service_def Let_def advance_ignored_def advance_def)
  with g v have "node_run demo_env demo_service demo_events = ?a\<lparr>sv_fs := fs2\<rparr>"
    by (simp add: node_run_def demo_events_def observe_peer_def)
  then show ?thesis by (intro exI [of _ cs] exI [of _ fs2]) simp
qed

theorem financial_ready_backed_witness:
  "\<exists>Q. finite Q \<and> 2 \<le> card Q \<and> demo_key 8 \<in> Q \<and>
     (\<forall>i \<in> Q - {demo_key 8}. \<exists>at. greeted demo_env demo_service demo_events i at \<and> peer_alive 30 60 at)"
proof -
  obtain cs fs where run: "node_run demo_env demo_service demo_events =
     demo_service\<lparr>sv_challenges := cs, sv_fs := fs, active_peers := [(demo_key 7, 50)], sv_lifecycle := \<lparr>lc_state = Active\<rparr>\<rparr>"
    using demo_activation by blast
  have "financial_ready (fst (service_readiness demo_env (node_run demo_env demo_service demo_events) 60))"
    using demo_quorum(1,3) [OF run, of 60] by (simp add: service_readiness_def Let_def)
  then show ?thesis
    using financial_ready_backed [of demo_service _ demo_env demo_events 60, OF _ refl] demo_own(1)
    by (auto simp: run threshold_def demo_verifier_def demo_bundle_def Let_def)
qed

end
