(* ===== verification/Http_Client.thy ===== *)
theory Http_Client
  imports File_System
begin

text \<open>
  The HTTP client library as the sources use it. The crate \<open>reqwest\<close> is not part of the
  repository: building a client and sending a request are parameters, on a network whose state
  is a type variable. What the sources configure on a client and put into a request is data, so
  that a theorem can speak about every request sent. The library follows redirects: one call
  may send further requests, to addresses that the answering host chooses. None of the sources
  sets a redirect policy, so the documented default holds, at most ten redirects in a row. What
  a call sends beyond the request given to it is a parameter too, and what the library documents
  about it is the predicate \<open>redirects_documented\<close>.
\<close>

section \<open>Clients and requests\<close>

datatype redirect_policy = LimitedRedirects nat | NoRedirects

record http_client =
  hc_proxy :: "string option"
  https_only :: bool
  hc_identity :: "bytes option"
  root_certificates :: "bytes list"
  hc_timeout_secs :: "u64 option"
  hc_unix_socket :: "string option"
  hc_redirects :: redirect_policy

definition client_builder :: http_client where
  "client_builder = \<lparr>hc_proxy = None, https_only = False, hc_identity = None, root_certificates = [],
     hc_timeout_secs = None, hc_unix_socket = None, hc_redirects = LimitedRedirects 10\<rparr>"

datatype http_method = HttpGet | HttpPost

record http_request =
  hq_method :: http_method
  hq_url :: string
  hq_headers :: "(string \<times> string) list"
  hq_body :: "bytes option"

record http_response =
  hr_status :: nat
  hr_body :: bytes

record 'n reqwest =
  proxy_all :: "string \<Rightarrow> string + unit"
  identity_from_pem :: "bytes \<Rightarrow> string + unit"
  certificate_from_pem :: "bytes \<Rightarrow> string + unit"
  client_build :: "http_client \<Rightarrow> string + unit"
  http_send :: "http_client \<Rightarrow> http_request \<Rightarrow> 'n \<Rightarrow> (string + http_response) \<times> 'n"
  redirects :: "http_client \<Rightarrow> http_request \<Rightarrow> 'n \<Rightarrow> http_request list"
  status_error :: "string \<Rightarrow> nat \<Rightarrow> string"

text \<open>
  \<open>http_send\<close> returns the final answer, after redirects, and \<open>redirects\<close> lists the requests that
  the same call sends, with the same client, to follow them. Their number is bounded by the policy
  of the client, and a client that is restricted to HTTPS follows no redirect to another scheme.
\<close>

definition redirects_documented :: "'n reqwest \<Rightarrow> bool" where
  "redirects_documented h \<longleftrightarrow> (\<forall>cl rq n.
     (case hc_redirects cl of
        NoRedirects \<Rightarrow> redirects h cl rq n = []
      | LimitedRedirects k \<Rightarrow> length (redirects h cl rq n) \<le> k) \<and>
     (https_only cl \<longrightarrow> (\<forall>r \<in> set (redirects h cl rq n). starts_with ''https://'' (hq_url r))))"

section \<open>Sending\<close>

text \<open>\<open>error_for_status\<close>: statuses from 400 to 599 are errors.\<close>

definition error_for_status :: "'n reqwest \<Rightarrow> string \<Rightarrow> http_response \<Rightarrow> string + http_response" where
  "error_for_status h url r =
     (if 400 \<le> hr_status r \<and> hr_status r < 600 then Inl (status_error h url (hr_status r)) else Inr r)"

text \<open>\<open>send().await?.error_for_status()?.json().await\<close>.\<close>

definition fetch_json :: "'n reqwest \<Rightarrow> 'a codec \<Rightarrow> http_client \<Rightarrow> http_request \<Rightarrow> 'n \<Rightarrow> (string + 'a) \<times> 'n" where
  "fetch_json h j cl rq n =
     io_bind (http_send h cl rq n) (\<lambda>r n1.
     (res_bind (error_for_status h (hq_url rq) r) (\<lambda>ok. from_slice j (hr_body ok)), n1))"

definition http_get :: "string \<Rightarrow> http_request" where
  "http_get url = \<lparr>hq_method = HttpGet, hq_url = url, hq_headers = [], hq_body = None\<rparr>"

text \<open>A body given by \<open>json(&value)\<close>; a value that cannot be encoded fails when the request is sent.\<close>

definition post_json :: "'n reqwest \<Rightarrow> 'b codec \<Rightarrow> 'a codec \<Rightarrow> http_client \<Rightarrow> string \<Rightarrow> 'b \<Rightarrow> 'n \<Rightarrow> (string + 'a) \<times> 'n" where
  "post_json h jb ja cl url x n =
     (case to_vec jb x of
        Inl e \<Rightarrow> (Inl e, n)
      | Inr b \<Rightarrow> fetch_json h ja cl \<lparr>hq_method = HttpPost, hq_url = url, hq_headers = [], hq_body = Some b\<rparr> n)"

lemma fetch_json_network: "snd (fetch_json h j cl rq n) = snd (http_send h cl rq n)"
  by (cases "http_send h cl rq n"; cases "fst (http_send h cl rq n)") (auto simp: fetch_json_def)

lemma fetch_json_ok:
  assumes "http_send h cl rq n = (Inr r, n')" and "hr_status r = 200" and "from_slice j (hr_body r) = Inr x"
  shows "fetch_json h j cl rq n = (Inr x, n')"
  using assms by (simp add: fetch_json_def error_for_status_def)

text \<open>
  The network seen from outside: a property that every request of a kind keeps is kept by the
  calls that send such requests only.
\<close>

locale traffic =
  fixes h :: "'n reqwest" and allowed :: "http_client \<Rightarrow> http_request \<Rightarrow> bool" and I :: "'n \<Rightarrow> bool"
  assumes send_keeps: "allowed cl rq \<Longrightarrow> I n \<Longrightarrow> I (snd (http_send h cl rq n))"
begin

lemma fetch_keeps: "allowed cl rq \<Longrightarrow> I n \<Longrightarrow> I (snd (fetch_json h j cl rq n))"
  by (simp add: fetch_json_network send_keeps)

lemma post_keeps:
  assumes "\<And>b. allowed cl \<lparr>hq_method = HttpPost, hq_url = url, hq_headers = [], hq_body = Some b\<rparr>" and "I n"
  shows "I (snd (post_json h jb ja cl url x n))"
  by (cases "to_vec jb x") (simp_all add: post_json_def assms fetch_keeps)

lemma bind_keeps:
  assumes "I (snd r)" and "\<And>x n. r = (Inr x, n) \<Longrightarrow> I n \<Longrightarrow> I (snd (f x n))"
  shows "I (snd (io_bind r f))"
  using assms by (cases r; cases "fst r") auto

end

text \<open>
  A network that answers with a given function and remembers the requests: every library gives
  one. An entry of its log is one call: the client, the request handed to it, and the requests
  it sent to follow redirects. The kept property is that all requests handed over were allowed.
\<close>

type_synonym http_call = "http_client \<times> http_request \<times> http_request list"

definition recording :: "'n reqwest \<Rightarrow> ('n \<times> http_call list) reqwest" where
  "recording h = \<lparr>proxy_all = proxy_all h, identity_from_pem = identity_from_pem h,
     certificate_from_pem = certificate_from_pem h, client_build = client_build h,
     http_send = (\<lambda>cl rq (n, log). case http_send h cl rq n of
       (r, n') \<Rightarrow> (r, (n', log @ [(cl, rq, redirects h cl rq n)]))),
     redirects = (\<lambda>cl rq (n, log). redirects h cl rq n),
     status_error = status_error h\<rparr>"

interpretation recorded: traffic "recording h" allowed
    "\<lambda>(n, log). \<forall>(cl, rq, rs) \<in> set log. allowed cl rq \<and> (\<exists>m. rs = redirects h cl rq m)" for h allowed
  by unfold_locales (auto simp: recording_def split: prod.splits)

end
