(* ===== verification/Tor_Client.thy ===== *)
theory Tor_Client
  imports Http_Client Discovery
begin

text \<open>
  The handshake client of \<open>kerosene-discovery\<close>: it asks a peer for a challenge, answers it with
  a signed greeting and fetches membership manifests. The library that sends the requests is a
  parameter. The lemmas: whatever the network answers, every request that the handshake hands
  to a client that \<open>new_mtls\<close> returned goes through a \<open>socks5h\<close> proxy, with mutual TLS, to an
  onion service. The client follows redirects, as the library does by default.
\<close>

section \<open>The client\<close>

record challenge_response =
  cr_challenge :: string

record wire_codecs =
  challenge_codec :: "challenge_response codec"
  exchange_codec :: "hello_exchange_request codec"
  hello_codec :: "peer_hello codec"
  manifest_codec :: "membership_manifest codec"

definition socks5h :: string where
  "socks5h = ''socks5h://''"

definition transport :: "string + 'a \<Rightarrow> discovery_error + 'a" where
  "transport r = (case r of Inl e \<Rightarrow> Inl (DiTransport e) | Inr x \<Rightarrow> Inr x)"

lemma transport_Inr [result_simps]: "transport r = Inr x \<longleftrightarrow> r = Inr x"
  by (cases r) (simp_all add: transport_def)

definition new_mtls :: "'n reqwest \<Rightarrow> string \<Rightarrow> bytes \<Rightarrow> bytes \<Rightarrow> discovery_error + http_client" where
  "new_mtls h socks_proxy client_identity_pem ca_pem =
     res_bind (require (starts_with socks5h socks_proxy) (DiTransport ''Tor proxy must use socks5h remote resolution'')) (\<lambda>_.
     res_bind (transport (proxy_all h socks_proxy)) (\<lambda>_.
     res_bind (transport (identity_from_pem h client_identity_pem)) (\<lambda>_.
     res_bind (transport (certificate_from_pem h ca_pem)) (\<lambda>_.
     let client = client_builder\<lparr>hc_proxy := Some socks_proxy, https_only := True,
           hc_identity := Some client_identity_pem, root_certificates := [ca_pem]\<rparr>
     in res_bind (transport (client_build h client)) (\<lambda>_. Inr client)))))"

definition challenge_path :: string where "challenge_path = ''/v1/discovery/challenge''"
definition hello_path :: string where "hello_path = ''/v1/discovery/hello''"
definition manifest_path :: string where "manifest_path = ''/v1/membership/current''"

definition exchange ::
    "'n reqwest \<Rightarrow> crypto \<Rightarrow> contracts \<Rightarrow> signing \<Rightarrow> wire_codecs \<Rightarrow> http_client \<Rightarrow> string \<Rightarrow> node_identity \<Rightarrow> string \<Rightarrow>
       string \<Rightarrow> u64 \<Rightarrow> 'n \<Rightarrow> (discovery_error + peer_hello) \<times> 'n" where
  "exchange h c k g w client endpoint local_identity local_endpoint expected now n =
     (case validate_onion_endpoint k DiInvalidEndpoint endpoint of
        Inl e \<Rightarrow> (Inl e, n)
      | Inr _ \<Rightarrow>
     (case validate_onion_endpoint k DiInvalidEndpoint local_endpoint of
        Inl e \<Rightarrow> (Inl e, n)
      | Inr _ \<Rightarrow>
     io_bind (map_err DiTransport (fetch_json h (challenge_codec w) client (http_get (endpoint @ challenge_path)) n)) (\<lambda>challenge n1.
     let request = \<lparr>rq_hello = sign_hello c k g local_identity (cr_challenge challenge) local_endpoint now,
                    response_challenge = expected\<rparr>
     in map_err DiTransport (post_json h (exchange_codec w) (hello_codec w) client (endpoint @ hello_path) request n1))))"

definition fetch_manifest ::
    "'n reqwest \<Rightarrow> contracts \<Rightarrow> wire_codecs \<Rightarrow> http_client \<Rightarrow> string \<Rightarrow> 'n \<Rightarrow> (discovery_error + membership_manifest) \<times> 'n" where
  "fetch_manifest h k w client endpoint n =
     (case validate_onion_endpoint k DiInvalidEndpoint endpoint of
        Inl e \<Rightarrow> (Inl e, n)
      | Inr _ \<Rightarrow> map_err DiTransport (fetch_json h (manifest_codec w) client (http_get (endpoint @ manifest_path)) n))"

section \<open>What goes over the network\<close>

definition tor_client :: "http_client \<Rightarrow> bool" where
  "tor_client cl \<longleftrightarrow> (\<exists>p. hc_proxy cl = Some p \<and> starts_with socks5h p) \<and> https_only cl \<and>
     hc_identity cl \<noteq> None \<and> root_certificates cl \<noteq> [] \<and> hc_unix_socket cl = None \<and>
     hc_redirects cl = LimitedRedirects 10"

definition tor_request :: "contracts \<Rightarrow> http_client \<Rightarrow> http_request \<Rightarrow> bool" where
  "tor_request k cl rq \<longleftrightarrow> tor_client cl \<and>
     (\<exists>ep u. parse_url k ep = Some u \<and> onion_url u \<and>
        hq_url rq \<in> {ep @ challenge_path, ep @ hello_path, ep @ manifest_path})"

lemma new_mtls_tor: "new_mtls h p i ca = Inr cl \<Longrightarrow> tor_client cl \<and> hc_proxy cl = Some p"
  by (auto simp: new_mtls_def result_simps Let_def tor_client_def client_builder_def)

lemma tor_client_redirects:
  assumes "redirects_documented h" and "tor_client cl"
  shows "length (redirects h cl rq n) \<le> 10 \<and> (\<forall>r \<in> set (redirects h cl rq n). starts_with ''https://'' (hq_url r))"
proof -
  have "(case hc_redirects cl of NoRedirects \<Rightarrow> redirects h cl rq n = []
      | LimitedRedirects k \<Rightarrow> length (redirects h cl rq n) \<le> k) \<and>
     (https_only cl \<longrightarrow> (\<forall>r \<in> set (redirects h cl rq n). starts_with ''https://'' (hq_url r)))"
    using assms(1) unfolding redirects_documented_def by blast
  then show ?thesis using assms(2) by (simp add: tor_client_def)
qed

context traffic
begin

lemma exchange_keeps:
  assumes "\<And>rq. tor_request k cl rq \<Longrightarrow> allowed cl rq" and "tor_client cl" and "I n"
  shows "I (snd (exchange h c k g w cl ep i lep ch now n))"
proof (cases "\<exists>u. parse_url k ep = Some u \<and> onion_url u")
  case True
  then have ok: "allowed cl rq" if "hq_url rq \<in> {ep @ challenge_path, ep @ hello_path}" for rq
    using assms(1,2) that by (auto simp: tor_request_def)
  then show ?thesis
    using assms(3) unfolding exchange_def Let_def
    by (auto intro!: bind_keeps fetch_keeps post_keeps simp: http_get_def split: sum.splits)
next
  case False
  then have "\<not> is_ok (validate_onion_endpoint k DiInvalidEndpoint ep)"
    using validate_onion_endpoint_ok [of k DiInvalidEndpoint ep] by (auto simp: is_ok_def split: sum.splits)
  then show ?thesis using assms(3) by (auto simp: exchange_def split: sum.splits)
qed

lemma fetch_manifest_keeps:
  assumes "\<And>rq. tor_request k cl rq \<Longrightarrow> allowed cl rq" and "tor_client cl" and "I n"
  shows "I (snd (fetch_manifest h k w cl ep n))"
proof (cases "validate_onion_endpoint k DiInvalidEndpoint ep")
  case (Inr u)
  then have "tor_request k cl (http_get (ep @ manifest_path))"
    using assms(2) by (auto simp: tor_request_def validate_onion_endpoint_ok http_get_def)
  then show ?thesis using assms(1,3) Inr by (simp add: fetch_manifest_def fetch_keeps)
qed (simp add: fetch_manifest_def assms(3))

end

end
