(* ===== verification/Node_Router.thy ===== *)
theory Node_Router
  imports Node_Service Tor_Client
begin

text \<open>
  The HTTP routes of the node (\<open>NodeService::router\<close> in \<open>kerosene-node/src/lib.rs\<close>). The framework
  that dispatches requests is a parameter as far as the sources leave it to it: how values are
  written as JSON, and the status of a body that does not parse. The lemmas: every request acts
  on the service as at most one of its events, so that what holds over all events holds over all
  requests.
\<close>

section \<open>Routes\<close>

record node_wire =
  nw_codecs :: wire_codecs
  readiness_codec :: "readiness codec"
  peer_list_codec :: "endpoint_record list codec"
  error_body_codec :: "string codec"
  accepted_codec :: "string codec"
  live_body :: bytes
  body_rejection :: "bytes option \<Rightarrow> nat"

definition plain_response :: "nat \<Rightarrow> http_response" where
  "plain_response status = \<lparr>hr_status = status, hr_body = []\<rparr>"

text \<open>\<open>Json(value)\<close> as an answer: a value that cannot be encoded becomes a server error.\<close>

definition json_response :: "nat \<Rightarrow> 'a codec \<Rightarrow> 'a \<Rightarrow> http_response" where
  "json_response status j x =
     (case to_vec j x of Inl e \<Rightarrow> \<lparr>hr_status = 500, hr_body = str_bytes e\<rparr> | Inr b \<Rightarrow> \<lparr>hr_status = status, hr_body = b\<rparr>)"

text \<open>\<open>Json(request)\<close> as an argument of a handler.\<close>

definition with_json ::
    "node_wire \<Rightarrow> 'a codec \<Rightarrow> bytes option \<Rightarrow> node_service \<Rightarrow> ('a \<Rightarrow> http_response \<times> node_service) \<Rightarrow> http_response \<times> node_service" where
  "with_json w j body s handler =
     (case body of
        None \<Rightarrow> (plain_response (body_rejection w None), s)
      | Some b \<Rightarrow> (case from_slice j b of
          Inl e \<Rightarrow> (plain_response (body_rejection w (Some b)), s)
        | Inr x \<Rightarrow> handler x))"

definition ready_response ::
    "node_env \<Rightarrow> node_wire \<Rightarrow> (readiness \<Rightarrow> bool) \<Rightarrow> node_service \<Rightarrow> u64 \<Rightarrow> http_response \<times> node_service" where
  "ready_response en w p s now =
     (case ready_route p en s now of ((status, r), s') \<Rightarrow> (json_response status (readiness_codec w) r, s'))"

definition readiness_response :: "node_env \<Rightarrow> node_wire \<Rightarrow> node_service \<Rightarrow> u64 \<Rightarrow> http_response \<times> node_service" where
  "readiness_response en w s now =
     (case service_readiness en s now of (r, s') \<Rightarrow> (json_response 200 (readiness_codec w) r, s'))"

definition challenge_route :: "node_env \<Rightarrow> node_wire \<Rightarrow> node_service \<Rightarrow> bytes \<Rightarrow> u64 \<Rightarrow> http_response \<times> node_service" where
  "challenge_route en w s random_bytes now =
     (case issue_challenge en s random_bytes now of
        (ch, s') \<Rightarrow> (json_response 200 (challenge_codec (nw_codecs w)) \<lparr>cr_challenge = ch\<rparr>, s'))"

definition peers_response :: "node_env \<Rightarrow> node_wire \<Rightarrow> node_service \<Rightarrow> http_response \<times> node_service" where
  "peers_response en w s =
     (case peers_route en s of
        (Inl status, s') \<Rightarrow> (plain_response status, s')
      | (Inr es, s') \<Rightarrow> (json_response 200 (peer_list_codec w) es, s'))"

definition hello_response :: "node_env \<Rightarrow> node_wire \<Rightarrow> node_service \<Rightarrow> u64 \<Rightarrow> hello_exchange_request \<Rightarrow> http_response \<times> node_service" where
  "hello_response en w s now request =
     (case hello_route en s request now of
        (Inl (status, e), s') \<Rightarrow> (json_response status (error_body_codec w) e, s')
      | (Inr h, s') \<Rightarrow> (json_response 200 (hello_codec (nw_codecs w)) h, s'))"

definition current_manifest_response :: "node_wire \<Rightarrow> node_service \<Rightarrow> http_response \<times> node_service" where
  "current_manifest_response w s =
     (case current_manifest_route s of
        Inl status \<Rightarrow> (plain_response status, s)
      | Inr m \<Rightarrow> (json_response 200 (manifest_codec (nw_codecs w)) m, s))"

definition accept_manifest_response :: "node_env \<Rightarrow> node_wire \<Rightarrow> node_service \<Rightarrow> u64 \<Rightarrow> membership_manifest \<Rightarrow> http_response \<times> node_service" where
  "accept_manifest_response en w s now m =
     (case accept_manifest_route en s m now of
        (Inl (status, e), s') \<Rightarrow> (json_response status (error_body_codec w) e, s')
      | (Inr hash, s') \<Rightarrow> (json_response 200 (accepted_codec w) hash, s'))"

text \<open>
  The table of the router. A known path with another method is refused with 405, an unknown
  path with 404; both leave the service alone. The clock and the random bytes of the challenge
  are arguments.
\<close>

definition router ::
    "node_env \<Rightarrow> node_wire \<Rightarrow> node_service \<Rightarrow> bytes \<Rightarrow> u64 \<Rightarrow> http_method \<Rightarrow> string \<Rightarrow> bytes option \<Rightarrow> http_response \<times> node_service" where
  "router en w s random_bytes now meth path body =
     (let only = (\<lambda>wanted (answer :: http_response \<times> node_service). if meth = wanted then answer else (plain_response 405, s)) in
      if path = ''/live'' then only HttpGet (\<lparr>hr_status = 200, hr_body = live_body w\<rparr>, s)
      else if path = ''/ready-local'' then only HttpGet (ready_response en w local_ready s now)
      else if path = ''/ready-member'' then only HttpGet (ready_response en w member_ready s now)
      else if path = ''/ready-quorum'' then only HttpGet (ready_response en w quorum_ready s now)
      else if path = ''/ready-financial'' then only HttpGet (ready_response en w financial_ready s now)
      else if path = ''/v1/readiness'' then only HttpGet (readiness_response en w s now)
      else if path = ''/v1/discovery/challenge'' then only HttpGet (challenge_route en w s random_bytes now)
      else if path = ''/v1/discovery/peers'' then only HttpGet (peers_response en w s)
      else if path = ''/v1/discovery/hello''
        then only HttpPost (with_json w (exchange_codec (nw_codecs w)) body s (hello_response en w s now))
      else if path = ''/v1/membership/current'' then only HttpGet (current_manifest_response w s)
      else if path = ''/v1/membership''
        then only HttpPost (with_json w (manifest_codec (nw_codecs w)) body s (accept_manifest_response en w s now))
      else (plain_response 404, s))"

section \<open>Requests are events\<close>

text \<open>Every request changes the service as at most one event of \<open>node_step\<close>, so runs of requests are runs of events.\<close>

definition request_events ::
    "node_wire \<Rightarrow> bytes \<Rightarrow> u64 \<Rightarrow> http_method \<Rightarrow> string \<Rightarrow> bytes option \<Rightarrow> node_event list" where
  "request_events w random_bytes now meth path body =
     (let only = (\<lambda>wanted es. if meth = wanted then es else []);
          with = (\<lambda>ev. case body of None \<Rightarrow> [] | Some b \<Rightarrow> ev b) in
      if path = ''/live'' then []
      else if path = ''/ready-local'' then only HttpGet [EvReadiness now]
      else if path = ''/ready-member'' then only HttpGet [EvReadiness now]
      else if path = ''/ready-quorum'' then only HttpGet [EvReadiness now]
      else if path = ''/ready-financial'' then only HttpGet [EvReadiness now]
      else if path = ''/v1/readiness'' then only HttpGet [EvReadiness now]
      else if path = ''/v1/discovery/challenge'' then only HttpGet [EvChallenge random_bytes now]
      else if path = ''/v1/discovery/peers'' then only HttpGet [EvPeers]
      else if path = ''/v1/discovery/hello'' then only HttpPost (with (\<lambda>b.
        case from_slice (exchange_codec (nw_codecs w)) b of Inl e \<Rightarrow> [] | Inr rq \<Rightarrow> [EvExchange rq now]))
      else if path = ''/v1/membership/current'' then []
      else if path = ''/v1/membership'' then only HttpPost (with (\<lambda>b.
        case from_slice (manifest_codec (nw_codecs w)) b of Inl e \<Rightarrow> [] | Inr m \<Rightarrow> [EvMembership m now]))
      else [])"

lemma response_states:
  "snd (ready_response en w p s now) = snd (service_readiness en s now)"
  "snd (readiness_response en w s now) = snd (service_readiness en s now)"
  "snd (challenge_route en w s rb now) = snd (issue_challenge en s rb now)"
  "snd (peers_response en w s) = snd (authenticated_peers en s)"
  "snd (hello_response en w s now rq) = snd (exchange_hello en s rq now)"
  "snd (current_manifest_response w s) = s"
  "snd (accept_manifest_response en w s now m) = snd (accept_membership en s m now)"
  by (auto simp: ready_response_def ready_route_def readiness_response_def challenge_route_def peers_response_def
      peers_route_def hello_response_def hello_route_def current_manifest_response_def accept_manifest_response_def
      accept_manifest_route_def readiness_status_def map_err_def Let_def split: prod.splits sum.splits)

lemma with_json_state:
  "snd (with_json w j body s f) =
     (case body of None \<Rightarrow> s | Some b \<Rightarrow> (case from_slice j b of Inl e \<Rightarrow> s | Inr x \<Rightarrow> snd (f x)))"
  by (simp add: with_json_def split: option.splits sum.splits)

lemma node_run_short [simp]: "node_run en t [] = t" "node_run en t [e] = node_step en t e"
  by (simp_all add: node_run_def)

lemma body_event:
  assumes "\<And>y. snd (g y) = node_step en s (ev y)"
  shows "snd (with_json w j body s g) =
    node_run en s (case body of None \<Rightarrow> [] | Some b \<Rightarrow> (case from_slice j b of Inl e \<Rightarrow> [] | Inr y \<Rightarrow> [ev y]))"
  using assms by (simp add: with_json_state split: option.split sum.split)

lemma router_events:
  "snd (router en w s rb now meth path body) = node_run en s (request_events w rb now meth path body)"
proof -
  have hello: "snd (hello_response en w s now rq) = node_step en s (EvExchange rq now)"
    and manifest: "snd (accept_manifest_response en w s now m) = node_step en s (EvMembership m now)" for rq m
    by (simp_all add: response_states)
  show ?thesis
    unfolding router_def request_events_def Let_def
    by (simp add: if_distrib [of snd] if_distrib [of "node_run en s"] response_states(1-4,6)
        body_event [OF hello] body_event [OF manifest] split del: if_split cong: if_cong)
qed

end
