(* ===== verification/Handshake.thy ===== *)
theory Handshake
  imports Node_Router
begin

text \<open>
  Two nodes: the handshake client of one (\<open>TorHandshakeClient::exchange\<close>, then
  \<open>NodeService::observe_peer\<close>, as the discovery task calls them) against the routes of the other.
  The theorem: members whose clocks agree authenticate each other in one exchange.
\<close>

section \<open>The other node as the network\<close>

record served =
  srv_service :: node_service
  srv_random :: "nat \<Rightarrow> bytes"
  srv_clock :: "nat \<Rightarrow> u64"
  srv_requests :: nat

text \<open>The library, on a network in which one node answers under the endpoint \<open>ep\<close>.\<close>

definition deliver ::
    "node_env \<Rightarrow> node_wire \<Rightarrow> string \<Rightarrow> http_request \<Rightarrow> served \<Rightarrow> (string + http_response) \<times> served" where
  "deliver en w ep rq n =
     (if starts_with ep (hq_url rq)
      then (case router en w (srv_service n) (srv_random n (srv_requests n)) (srv_clock n (srv_requests n))
                   (hq_method rq) (drop (length ep) (hq_url rq)) (hq_body rq) of
              (r, s') \<Rightarrow> (Inr r, n\<lparr>srv_service := s', srv_requests := Suc (srv_requests n)\<rparr>))
      else (Inl ''host unreachable'', n))"

definition served_by :: "node_env \<Rightarrow> node_wire \<Rightarrow> string \<Rightarrow> served reqwest" where
  "served_by en w ep = \<lparr>proxy_all = (\<lambda>_. Inr ()), identity_from_pem = (\<lambda>_. Inr ()), certificate_from_pem = (\<lambda>_. Inr ()),
     client_build = (\<lambda>_. Inr ()), http_send = (\<lambda>cl rq n. deliver en w ep rq n), redirects = (\<lambda>cl rq n. []), status_error = (\<lambda>url status. url)\<rparr>"

section \<open>Admission\<close>

text \<open>The peer store takes the record of a peer.\<close>

definition stores_peer :: "node_env \<Rightarrow> node_service \<Rightarrow> authenticated_peer \<Rightarrow> u64 \<Rightarrow> bool" where
  "stores_peer en s peer now \<longleftrightarrow>
     is_ok (fst (io_bind (upsert_authenticated (ne_codecs en) (sv_peer_store s) (sv_fs s) peer) (\<lambda>_ fs1.
       record_success (ne_contracts en) (ne_codecs en) (sv_peer_store s) fs1 (ap_member_id peer) (ap_endpoint peer) now)))"

lemma map_of_filter_some:
  "map_of m i = Some v \<Longrightarrow> P (i, v) \<Longrightarrow> hm_ok m \<Longrightarrow> map_of (filter P m) i = Some v"
  by (auto simp: hm_ok_def distinct_map_filter intro!: map_of_is_SomeI dest: map_of_SomeD)

lemma activation_keeps_peer:
  assumes "map_of (active_peers s) i = Some now" and "hm_ok (active_peers s)"
  shows "map_of (active_peers (activate_if_quorum en s now)) i = Some now"
proof -
  have "peer_alive win now now" for win by (simp add: peer_alive_def saturating_sub_def)
  then have "map_of (active_peers (expire_peers s now)) i = Some now"
    using assms by (simp add: expire_peers_def map_of_filter_some)
  then show ?thesis
    by (simp add: activate_if_quorum_def service_readiness_def Let_def)
qed

lemma admit_peer_ok:
  assumes "ph_member_id h \<noteq> ni_member_id (sv_identity s)"
    and "authenticate (ne_crypto en) (ne_contracts en) (sv_authenticator s) (sv_membership s) (sv_challenges s) h now = (Inr peer, cs)"
    and "stores_peer en s peer now" and "hm_ok (active_peers s)"
  shows "fst (admit_peer en s h now) = Inr () \<and> map_of (active_peers (snd (admit_peer en s h now))) (ap_member_id peer) = Some now"
proof -
  let ?r = "io_bind (upsert_authenticated (ne_codecs en) (sv_peer_store s) (sv_fs s) peer) (\<lambda>_ fs1.
       record_success (ne_contracts en) (ne_codecs en) (sv_peer_store s) fs1 (ap_member_id peer) (ap_endpoint peer) now)"
  obtain fs2 where io: "?r = (Inr (), fs2)"
    using assms(3) unfolding stores_peer_def by (cases ?r; cases "fst ?r") auto
  let ?s = "s\<lparr>sv_challenges := cs, sv_fs := fs2, active_peers := hm_insert (ap_member_id peer) now (active_peers s)\<rparr>"
  have "admit_peer en s h now = (Inr (), activate_if_quorum en (advance_after_authentication en ?s) now)"
    unfolding admit_peer_def using assms(1,2) io by (simp add: Let_def)
  moreover have "map_of (active_peers (activate_if_quorum en (advance_after_authentication en ?s) now)) (ap_member_id peer) = Some now"
    using assms(4) by (intro activation_keeps_peer) simp_all
  ultimately show ?thesis by simp
qed

section \<open>A greeting that is accepted\<close>

text \<open>
  \<open>greets_as en s i h t now\<close>: the greeting \<open>h\<close> is one that the identity \<open>i\<close>, a member, signed at
  time \<open>t\<close> for a challenge of the service that is still good at \<open>now\<close>.
\<close>

definition peer_of :: "crypto \<Rightarrow> signing \<Rightarrow> node_identity \<Rightarrow> string \<Rightarrow> u64 \<Rightarrow> authenticated_peer" where
  "peer_of c g i ep now = \<lparr>ap_member_id = ni_member_id i, ap_plane = ni_plane i, ap_root_public_key = root_public_key_hex c g i,
     ap_endpoint = ep, ap_authenticated_at = now\<rparr>"

definition node_ok :: "node_env \<Rightarrow> node_service \<Rightarrow> bool" where
  "node_ok en s \<longleftrightarrow> pa_network_id (sv_authenticator s) = ni_network_id (sv_identity s) \<and>
     pa_plane (sv_authenticator s) = ni_plane (sv_identity s) \<and> length (signing_key (sv_identity s)) = 32 \<and>
     ni_member_id (sv_identity s) =
       contract_member_id (ne_contracts en) (ni_network_id (sv_identity s)) (verifying_key (ne_signing en) (signing_key (sv_identity s))) \<and>
     is_ok (validate_onion_endpoint (ne_contracts en) DiInvalidEndpoint (sv_endpoint s)) \<and>
     hm_ok (pending (sv_challenges s)) \<and> hm_ok (active_peers s)"

definition knows :: "node_env \<Rightarrow> node_service \<Rightarrow> node_service \<Rightarrow> bool" where
  "knows en s t \<longleftrightarrow> is_member (sv_membership s) (ni_member_id (sv_identity t))
     (root_public_key_hex (ne_crypto en) (ne_signing en) (sv_identity t))"

definition crypto_env_ok :: "node_env \<Rightarrow> bool" where
  "crypto_env_ok en \<longleftrightarrow> crypto_ok (ne_crypto en) \<and> signing_ok (ne_crypto en) (ne_signing en) \<and>
     (\<forall>h s. hello_signing_bytes (ne_contracts en) (h\<lparr>ph_signature := s\<rparr>) = hello_signing_bytes (ne_contracts en) h)"

lemma signed_hello_fields [simp]:
  "ph_network_id (sign_hello c k g i ch ep now) = ni_network_id i"
  "ph_plane (sign_hello c k g i ch ep now) = ni_plane i"
  "ph_member_id (sign_hello c k g i ch ep now) = ni_member_id i"
  "ph_root_public_key (sign_hello c k g i ch ep now) = root_public_key_hex c g i"
  "ph_challenge (sign_hello c k g i ch ep now) = ch"
  "ph_endpoint (sign_hello c k g i ch ep now) = ep"
  "ph_contract_version (sign_hello c k g i ch ep now) = contract_version k"
  "issued_at_epoch_ms (sign_hello c k g i ch ep now) = now"
  by (simp_all add: sign_hello_def Let_def)

lemma signed_hello_ok:
  assumes "crypto_env_ok en" and "node_ok en t"
  shows "verify_hello_signature (ne_crypto en) (ne_contracts en)
    (sign_hello (ne_crypto en) (ne_contracts en) (ne_signing en) (sv_identity t) ch ep now) = Inr ()"
proof -
  have "hex_decode (ne_crypto en) (hex_encode (ne_crypto en) b) = Some b" for b
    using assms(1) by (simp add: crypto_env_ok_def crypto_ok_def)
  then show ?thesis
    using assms unfolding verify_hello_ok crypto_env_ok_def node_ok_def signing_ok_def
    by (simp add: sign_hello_def Let_def root_public_key_hex_def)
qed

lemma authenticate_signed:
  assumes "crypto_env_ok en" and "node_ok en s" and "node_ok en t" and "knows en s t"
    and "ni_network_id (sv_identity t) = ni_network_id (sv_identity s)" and "ni_plane (sv_identity t) = ni_plane (sv_identity s)"
    and "abs_diff at now \<le> max_clock_skew_ms (sv_authenticator s)"
    and "pending_until (sv_challenges s) ch = Some e" and "now \<le> e"
    and "h = sign_hello (ne_crypto en) (ne_contracts en) (ne_signing en) (sv_identity t) ch (sv_endpoint t) at"
  shows "\<exists>cs. authenticate (ne_crypto en) (ne_contracts en) (sv_authenticator s) (sv_membership s) (sv_challenges s) h now =
    (Inr (peer_of (ne_crypto en) (ne_signing en) (sv_identity t) (sv_endpoint t) now), cs)"
proof -
  obtain r cs where c: "consume (sv_challenges s) ch now = (r, cs)" by force
  then have "r = Inr ()"
    using consume_exact [of "sv_challenges s" ch now r cs] assms(2,8,9) by (auto simp: node_ok_def)
  moreover have "\<not> max_clock_skew_ms (sv_authenticator s) < abs_diff at now" using assms(7) by simp
  moreover obtain u where "validate_onion_endpoint (ne_contracts en) DiInvalidEndpoint (sv_endpoint t) = Inr u"
    using assms(3) by (auto simp: node_ok_def is_ok_iff)
  ultimately show ?thesis
    using assms(2,4,5,6) c signed_hello_ok [OF assms(1,3)]
    by (simp add: authenticate_def node_ok_def knows_def peer_of_def assms(10))
qed

section \<open>The exchange\<close>

definition encodes :: "'a codec \<Rightarrow> 'a \<Rightarrow> bool" where
  "encodes j x \<longleftrightarrow> codec_ok j \<and> is_ok (to_vec j x)"

lemma encodes_body: "encodes j x \<Longrightarrow> \<exists>b. to_vec j x = Inr b \<and> from_slice j b = Inr x"
  by (auto simp: encodes_def codec_ok_def is_ok_iff)

lemma json_response_decodes:
  assumes "encodes j x"
  shows "hr_status (json_response 200 j x) = 200 \<and> from_slice j (hr_body (json_response 200 j x)) = Inr x"
  using encodes_body [OF assms] by (auto simp: json_response_def)

lemma router_paths:
  "router en w s rb now HttpGet challenge_path body = challenge_route en w s rb now"
  "router en w s rb now HttpPost hello_path body = with_json w (exchange_codec (nw_codecs w)) body s (hello_response en w s now)"
  by (simp_all add: router_def Let_def challenge_path_def hello_path_def)

lemma served_send:
  "http_send (served_by en w ep) cl \<lparr>hq_method = m, hq_url = ep @ path, hq_headers = hs, hq_body = body\<rparr> n =
     (case router en w (srv_service n) (srv_random n (srv_requests n)) (srv_clock n (srv_requests n)) m path body of
        (r, s') \<Rightarrow> (Inr r, n\<lparr>srv_service := s', srv_requests := Suc (srv_requests n)\<rparr>))"
  by (simp add: served_by_def deliver_def starts_with_def)

lemma get_challenge:
  assumes "encodes (challenge_codec (nw_codecs w)) \<lparr>cr_challenge = ch\<rparr>"
    and "issue_challenge en (srv_service n) (srv_random n (srv_requests n)) (srv_clock n (srv_requests n)) = (ch, s')"
  shows "fetch_json (served_by en w ep) (challenge_codec (nw_codecs w)) cl (http_get (ep @ challenge_path)) n =
    (Inr \<lparr>cr_challenge = ch\<rparr>, n\<lparr>srv_service := s', srv_requests := Suc (srv_requests n)\<rparr>)"
  using json_response_decodes [OF assms(1)] assms(2)
  by (intro fetch_json_ok) (auto simp: http_get_def served_send router_paths challenge_route_def)

lemma post_hello:
  assumes "encodes (exchange_codec (nw_codecs w)) rq" and "encodes (hello_codec (nw_codecs w)) hello"
    and "exchange_hello en (srv_service n) rq (srv_clock n (srv_requests n)) = (Inr hello, s')"
  shows "post_json (served_by en w ep) (exchange_codec (nw_codecs w)) (hello_codec (nw_codecs w)) cl (ep @ hello_path) rq n =
    (Inr hello, n\<lparr>srv_service := s', srv_requests := Suc (srv_requests n)\<rparr>)"
proof -
  obtain b where b: "to_vec (exchange_codec (nw_codecs w)) rq = Inr b" "from_slice (exchange_codec (nw_codecs w)) b = Inr rq"
    using encodes_body [OF assms(1)] by blast
  have "hello_response en w (srv_service n) (srv_clock n (srv_requests n)) rq = (json_response 200 (hello_codec (nw_codecs w)) hello, s')"
    using assms(3) by (simp add: hello_response_def hello_route_def)
  then have "fetch_json (served_by en w ep) (hello_codec (nw_codecs w)) cl
      \<lparr>hq_method = HttpPost, hq_url = ep @ hello_path, hq_headers = [], hq_body = Some b\<rparr> n =
      (Inr hello, n\<lparr>srv_service := s', srv_requests := Suc (srv_requests n)\<rparr>)"
    using json_response_decodes [OF assms(2)] b(2)
    by (intro fetch_json_ok) (auto simp: served_send router_paths with_json_def)
  with b(1) show ?thesis by (simp add: post_json_def)
qed

lemma admit_peer_endpoint:
  "sv_endpoint (snd (admit_peer en s h now)) = sv_endpoint s \<and> sv_identity (snd (admit_peer en s h now)) = sv_identity s"
proof -
  have save: "sv_endpoint (snd (save_lifecycle en t)) = sv_endpoint t" for t
    by (simp add: save_lifecycle_def split: prod.splits)
  have act: "sv_endpoint (activate_if_quorum en t now) = sv_endpoint t" for t
    by (simp add: activate_if_quorum_def service_readiness_def Let_def save expire_peers_def advance_ignored_def)
  have auth: "sv_endpoint (advance_after_authentication en t) = sv_endpoint t" for t
    by (simp add: advance_after_authentication_def Let_def save advance_ignored_def)
  have "sv_endpoint (snd (admit_peer en s h now)) = sv_endpoint s"
    by (simp add: admit_peer_def Let_def act auth split: sum.split prod.split)
  moreover have "sv_identity (snd (admit_peer en s h now)) = sv_identity s"
    using admit_peer_quiet [of s en h now] by (simp add: quiet_def same_config_def)
  ultimately show ?thesis ..
qed

text \<open>
  One half: a service that has issued a challenge admits the member who answers it in time.
\<close>

lemma admits_answer:
  assumes "crypto_env_ok en" and "node_ok en s" and "node_ok en t" and "knows en s t"
    and "ni_network_id (sv_identity t) = ni_network_id (sv_identity s)" and "ni_plane (sv_identity t) = ni_plane (sv_identity s)"
    and "ni_member_id (sv_identity t) \<noteq> ni_member_id (sv_identity s)"
    and "issue_challenge en s rb issued = (ch, s1)"
    and "now \<le> saturating_add issued (ttl_ms (sv_challenges s))"
    and "abs_diff at now \<le> max_clock_skew_ms (sv_authenticator s)"
    and "stores_peer en s (peer_of (ne_crypto en) (ne_signing en) (sv_identity t) (sv_endpoint t) now) now"
    and "h = sign_hello (ne_crypto en) (ne_contracts en) (ne_signing en) (sv_identity t) ch (sv_endpoint t) at"
  shows "fst (admit_peer en s1 h now) = Inr () \<and>
    map_of (active_peers (snd (admit_peer en s1 h now))) (ni_member_id (sv_identity t)) = Some now"
proof -
  let ?peer = "peer_of (ne_crypto en) (ne_signing en) (sv_identity t) (sv_endpoint t) now"
  have s1: "s1 = s\<lparr>sv_challenges := (sv_challenges s)\<lparr>pending :=
      hm_insert ch (saturating_add issued (ttl_ms (sv_challenges s))) (pending (sv_challenges s))\<rparr>\<rparr>"
    using assms(8) by (auto simp: issue_challenge_def issue_def Let_def)
  have ok: "node_ok en s1" "knows en s1 t" "stores_peer en s1 ?peer now" "hm_ok (active_peers s1)"
    using assms(2,4,11) by (simp_all add: s1 node_ok_def knows_def stores_peer_def)
  have "pending_until (sv_challenges s1) ch = Some (saturating_add issued (ttl_ms (sv_challenges s)))"
    by (simp add: s1 pending_until_def)
  then obtain cs where "authenticate (ne_crypto en) (ne_contracts en) (sv_authenticator s1) (sv_membership s1) (sv_challenges s1) h now =
      (Inr ?peer, cs)"
    using authenticate_signed [OF assms(1) ok(1) assms(3) ok(2), of at now ch _ h] assms(5,6,9,10,12) by (auto simp: s1)
  moreover have "ph_member_id h \<noteq> ni_member_id (sv_identity s1)" using assms(7,12) by (simp add: s1)
  ultimately have "fst (admit_peer en s1 h now) = Inr () \<and>
      map_of (active_peers (snd (admit_peer en s1 h now))) (ap_member_id ?peer) = Some now"
    using admit_peer_ok ok(3,4) by blast
  then show ?thesis by (simp add: peer_of_def)
qed

text \<open>
  C8. Two members authenticate each other in one exchange. Let \<open>a\<close> and \<open>b\<close> be different nodes of
  one network and plane, each a member in the eyes of the other, with the clocks within the
  allowed skew and the answer within the life time of the challenge. When the discovery task of
  \<open>a\<close> issues a challenge, exchanges greetings with the routes of \<open>b\<close> and observes the answer,
  then, provided the two peer stores can be written and the messages encoded, the exchange
  succeeds, \<open>b\<close> counts \<open>a\<close> among its live peers from the moment it was greeted, and \<open>a\<close> counts \<open>b\<close>.
\<close>

theorem handshake_mutual:
  assumes "crypto_env_ok en" and "node_ok en a" and "node_ok en b" and "knows en a b" and "knows en b a"
    and "ni_network_id (sv_identity a) = ni_network_id (sv_identity b)" and "ni_plane (sv_identity a) = ni_plane (sv_identity b)"
    and "ni_member_id (sv_identity a) \<noteq> ni_member_id (sv_identity b)"
    and "issue_challenge en a rb now = (ch, a1)"
    and "srv_service n = b" and "issued = srv_clock n (srv_requests n)" and "answered = srv_clock n (Suc (srv_requests n))"
    and "answered \<le> saturating_add issued (ttl_ms (sv_challenges b))"
    and "abs_diff now answered \<le> max_clock_skew_ms (sv_authenticator b)" and "abs_diff answered now \<le> max_clock_skew_ms (sv_authenticator a)"
    and "stores_peer en b (peer_of (ne_crypto en) (ne_signing en) (sv_identity a) (sv_endpoint a) answered) answered"
    and "stores_peer en a (peer_of (ne_crypto en) (ne_signing en) (sv_identity b) (sv_endpoint b) now) now"
    and "bch = hex_encode (ne_crypto en) (srv_random n (srv_requests n))"
    and "encodes (challenge_codec (nw_codecs w)) \<lparr>cr_challenge = bch\<rparr>"
    and "encodes (exchange_codec (nw_codecs w)) \<lparr>rq_hello = sign_hello (ne_crypto en) (ne_contracts en) (ne_signing en)
           (sv_identity a) bch (sv_endpoint a) now, response_challenge = ch\<rparr>"
    and "encodes (hello_codec (nw_codecs w)) (sign_hello (ne_crypto en) (ne_contracts en) (ne_signing en)
           (sv_identity b) ch (sv_endpoint b) answered)"
  shows "\<exists>hello n'.
    exchange (served_by en w (sv_endpoint b)) (ne_crypto en) (ne_contracts en) (ne_signing en) (nw_codecs w) cl
      (sv_endpoint b) (sv_identity a) (sv_endpoint a) ch now n = (Inr hello, n') \<and>
    fst (observe_peer en a1 hello now) = Inr () \<and>
    map_of (active_peers (srv_service n')) (ni_member_id (sv_identity a)) = Some answered \<and>
    map_of (active_peers (snd (observe_peer en a1 hello now))) (ni_member_id (sv_identity b)) = Some now"
proof -
  let ?h = "sign_hello (ne_crypto en) (ne_contracts en) (ne_signing en) (sv_identity a) bch (sv_endpoint a) now"
  let ?hello = "sign_hello (ne_crypto en) (ne_contracts en) (ne_signing en) (sv_identity b) ch (sv_endpoint b) answered"
  obtain b1 where b1: "issue_challenge en b (srv_random n (srv_requests n)) issued = (bch, b1)"
    by (simp add: issue_challenge_def issue_def Let_def assms(18))
  let ?n1 = "n\<lparr>srv_service := b1, srv_requests := Suc (srv_requests n)\<rparr>"
  have id: "sv_endpoint b1 = sv_endpoint b" "sv_identity b1 = sv_identity b"
    using b1 by (auto simp: issue_challenge_def issue_def Let_def)
  have B: "fst (admit_peer en b1 ?h answered) = Inr () \<and>
      map_of (active_peers (snd (admit_peer en b1 ?h answered))) (ni_member_id (sv_identity a)) = Some answered"
    using assms(1,2,3,5,6,7,8,13,14,16) by (intro admits_answer [OF _ _ _ _ _ _ _ b1]) simp_all
  then have "exchange_hello en b1 \<lparr>rq_hello = ?h, response_challenge = ch\<rparr> answered = (Inr ?hello, snd (admit_peer en b1 ?h answered))"
    using admit_peer_endpoint [of en b1 ?h answered] id by (auto simp: exchange_hello_def split: prod.splits sum.splits)
  then have post: "post_json (served_by en w (sv_endpoint b)) (exchange_codec (nw_codecs w)) (hello_codec (nw_codecs w)) cl
      (sv_endpoint b @ hello_path) \<lparr>rq_hello = ?h, response_challenge = ch\<rparr> ?n1 =
      (Inr ?hello, ?n1\<lparr>srv_service := snd (admit_peer en b1 ?h answered), srv_requests := Suc (srv_requests ?n1)\<rparr>)"
    using assms(20,21) by (intro post_hello) (simp_all add: assms(12))
  have get: "fetch_json (served_by en w (sv_endpoint b)) (challenge_codec (nw_codecs w)) cl
      (http_get (sv_endpoint b @ challenge_path)) n = (Inr \<lparr>cr_challenge = bch\<rparr>, ?n1)"
    using b1 assms(10,11,19) by (intro get_challenge) simp_all
  obtain u v where "validate_onion_endpoint (ne_contracts en) DiInvalidEndpoint (sv_endpoint b) = Inr u"
      "validate_onion_endpoint (ne_contracts en) DiInvalidEndpoint (sv_endpoint a) = Inr v"
    using assms(2,3) by (auto simp: node_ok_def is_ok_iff)
  then have run: "exchange (served_by en w (sv_endpoint b)) (ne_crypto en) (ne_contracts en) (ne_signing en) (nw_codecs w) cl
      (sv_endpoint b) (sv_identity a) (sv_endpoint a) ch now n =
      (Inr ?hello, ?n1\<lparr>srv_service := snd (admit_peer en b1 ?h answered), srv_requests := Suc (srv_requests ?n1)\<rparr>)"
    unfolding exchange_def using get post by (simp add: Let_def)
  have "now \<le> saturating_add now (ttl_ms (sv_challenges a))" by (rule saturating_add_ge)
  then have "fst (admit_peer en a1 ?hello now) = Inr () \<and>
      map_of (active_peers (snd (admit_peer en a1 ?hello now))) (ni_member_id (sv_identity b)) = Some now"
    using assms(1,2,3,4,6,7,8,15,17) by (intro admits_answer [OF _ _ _ _ _ _ _ assms(9)]) simp_all
  with run B show ?thesis by (auto simp: observe_peer_def)
qed

section \<open>Two nodes\<close>

text \<open>The member \<open>8\<close> of the demonstration network greets the member \<open>7\<close>.\<close>

definition demo_pair_env :: node_env where
  "demo_pair_env = demo_env\<lparr>ne_crypto := demo_sign_crypto\<rparr>"

definition demo_peer_service :: node_service where
  "demo_peer_service = demo_service\<lparr>sv_identity := from_secret demo_contracts demo_signing ''net'' VaultPlane (replicate 32 7)\<rparr>"

definition demo_served :: served where
  "demo_served = \<lparr>srv_service = demo_peer_service, srv_random = (\<lambda>_. [1]), srv_clock = (\<lambda>_. 50), srv_requests = 0\<rparr>"

definition single_codec :: "'a \<Rightarrow> 'a codec" where
  "single_codec x = \<lparr>to_vec = (\<lambda>y. if y = x then Inr [] else Inl ''unsupported''), from_slice = (\<lambda>_. Inr x)\<rparr>"

lemma single_codec_encodes: "encodes (single_codec x) x"
  by (auto simp: encodes_def single_codec_def codec_ok_def)

definition demo_challenge :: "u8 \<Rightarrow> string" where
  "demo_challenge b = hex_encode demo_sign_crypto [b]"

definition demo_wire :: node_wire where
  "demo_wire = \<lparr>nw_codecs = \<lparr>challenge_codec = single_codec \<lparr>cr_challenge = demo_challenge 1\<rparr>,
       exchange_codec = single_codec \<lparr>rq_hello = sign_hello demo_sign_crypto demo_contracts demo_signing
           (sv_identity demo_service) (demo_challenge 1) demo_host 50, response_challenge = demo_challenge 2\<rparr>,
       hello_codec = single_codec (sign_hello demo_sign_crypto demo_contracts demo_signing
           (sv_identity demo_peer_service) (demo_challenge 2) demo_host 50),
       manifest_codec = single_codec (demo_manifest 1 zero_hash [7, 8])\<rparr>,
     readiness_codec = \<lparr>to_vec = (\<lambda>_. Inr []), from_slice = (\<lambda>_. Inl [])\<rparr>,
     peer_list_codec = single_codec [], error_body_codec = single_codec [], accepted_codec = single_codec [],
     live_body = [], body_rejection = (\<lambda>_. 422)\<rparr>"

lemma demo_pair_simps [simp]:
  "ne_crypto demo_pair_env = demo_sign_crypto" "ne_contracts demo_pair_env = demo_contracts"
  "ne_signing demo_pair_env = demo_signing" "ne_codecs demo_pair_env = ne_codecs demo_env"
  "sv_endpoint demo_service = demo_host" "sv_endpoint demo_peer_service = demo_host"
  "sv_authenticator demo_peer_service = demo_authenticator" "sv_membership demo_peer_service = demo_verifier"
  "sv_challenges demo_peer_service = \<lparr>ttl_ms = 60, pending = [(''ch'', 100)]\<rparr>" "active_peers demo_peer_service = []"
  "sv_identity demo_peer_service = from_secret demo_contracts demo_signing ''net'' VaultPlane (replicate 32 7)"
  "sv_fs demo_peer_service = demo_db" "sv_peer_store demo_peer_service = ''r''"
  by (simp_all add: demo_pair_env_def demo_peer_service_def demo_service_def)

lemma demo_identity_scope [simp]:
  "ni_network_id (from_secret k g network p sk) = network" "ni_plane (from_secret k g network p sk) = p"
  by (simp_all add: from_secret_def from_signing_key_def)

lemma demo_pair_ids:
  "ni_member_id (from_secret demo_contracts demo_signing ''net'' VaultPlane (replicate 32 b)) = demo_key b"
  "root_public_key_hex demo_sign_crypto demo_signing (from_secret demo_contracts demo_signing ''net'' VaultPlane (replicate 32 b)) = demo_key b"
  by (simp_all add: from_secret_def from_signing_key_def root_public_key_hex_def demo_signing_def demo_contracts_def
      demo_sign_crypto_def demo_crypto_def demo_key_def)

lemma demo_pair_ok:
  "crypto_env_ok demo_pair_env" "node_ok demo_pair_env demo_service" "node_ok demo_pair_env demo_peer_service"
  "knows demo_pair_env demo_service demo_peer_service" "knows demo_pair_env demo_peer_service demo_service"
proof -
  show "crypto_env_ok demo_pair_env"
    using demo_signing_ok by (simp add: crypto_env_ok_def) (simp add: demo_contracts_def)
  show "node_ok demo_pair_env demo_service" "node_ok demo_pair_env demo_peer_service"
    by (simp_all add: node_ok_def demo_host_ok hm_ok_def from_secret_def from_signing_key_def demo_authenticator_def)
  have "map_of (authorized_keys demo_verifier) (demo_key b) = Some (demo_key b)" if "b \<in> {7, 8}" for b
    unfolding demo_genesis_keys demo_keys_get using that by auto
  then show "knows demo_pair_env demo_service demo_peer_service" "knows demo_pair_env demo_peer_service demo_service"
    by (simp_all add: knows_def is_member_def demo_pair_ids)
qed

lemma demo_stores:
  "sv_peer_store s = ''r'' \<Longrightarrow> sv_fs s = demo_db \<Longrightarrow> ap_endpoint p = demo_host \<Longrightarrow> stores_peer demo_pair_env s p now"
  using demo_io [of p "ap_member_id p" now] by (auto simp: stores_peer_def)

theorem handshake_mutual_witness:
  "\<exists>hello n'.
    exchange (served_by demo_pair_env demo_wire demo_host) demo_sign_crypto demo_contracts demo_signing (nw_codecs demo_wire)
      client_builder demo_host (sv_identity demo_service) demo_host (demo_challenge 2) 50 demo_served = (Inr hello, n') \<and>
    map_of (active_peers (srv_service n')) (demo_key 8) = Some 50"
proof -
  obtain a1 where a1: "issue_challenge demo_pair_env demo_service [2] 50 = (demo_challenge 2, a1)"
    by (simp add: issue_challenge_def issue_def Let_def demo_challenge_def)
  have "\<exists>hello n'.
    exchange (served_by demo_pair_env demo_wire (sv_endpoint demo_peer_service)) (ne_crypto demo_pair_env)
      (ne_contracts demo_pair_env) (ne_signing demo_pair_env) (nw_codecs demo_wire)
      client_builder (sv_endpoint demo_peer_service) (sv_identity demo_service) (sv_endpoint demo_service) (demo_challenge 2) 50
      demo_served = (Inr hello, n') \<and>
    fst (observe_peer demo_pair_env a1 hello 50) = Inr () \<and>
    map_of (active_peers (srv_service n')) (ni_member_id (sv_identity demo_service)) = Some 50 \<and>
    map_of (active_peers (snd (observe_peer demo_pair_env a1 hello 50))) (ni_member_id (sv_identity demo_peer_service)) = Some 50"
    by (rule handshake_mutual [OF demo_pair_ok _ _ _ a1, where bch = "demo_challenge 1" and issued = 50])
      (simp_all add: demo_served_def demo_wire_def single_codec_encodes demo_pair_ids demo_key_eq demo_stores peer_of_def
        demo_challenge_def abs_diff_def saturating_add_def demo_authenticator_def)
  then show ?thesis by (auto simp: demo_pair_ids)
qed

end
