(* ===== verification/Process_Env.thy ===== *)
theory Process_Env
  imports File_System
begin

text \<open>
  What the two programs (\<open>kerosene-node/src/main.rs\<close>, \<open>kerosene-rsctl/src/main.rs\<close>) take from the
  process they run in: errors with context (\<open>anyhow\<close>), environment variables and the readers of
  the configuration.
\<close>

section \<open>Errors with context\<close>

datatype anyhow_error = Anyhow string | Context string anyhow_error

text \<open>\<open>?\<close> on an error that is shown, and \<open>context(...)\<close> around it.\<close>

definition lift_err :: "('e \<Rightarrow> string) \<Rightarrow> 'e + 'a \<Rightarrow> anyhow_error + 'a" where
  "lift_err display r = (case r of Inl e \<Rightarrow> Inl (Anyhow (display e)) | Inr x \<Rightarrow> Inr x)"

definition with_context :: "string \<Rightarrow> string + 'a \<Rightarrow> anyhow_error + 'a" where
  "with_context ctx r = (case r of Inl e \<Rightarrow> Inl (Context ctx (Anyhow e)) | Inr x \<Rightarrow> Inr x)"

lemma lift_err_Inr [result_simps]: "lift_err f r = Inr x \<longleftrightarrow> r = Inr x"
  by (cases r) (simp_all add: lift_err_def)

lemma with_context_Inr [result_simps]: "with_context ctx r = Inr x \<longleftrightarrow> r = Inr x"
  by (cases r) (simp_all add: with_context_def)

lemma lift_err_ok [simp]: "lift_err f (Inr x) = Inr x" and with_context_ok [simp]: "with_context ctx (Inr x) = Inr x"
  by (simp_all add: lift_err_def with_context_def)

text \<open>A step that does not touch the state, inside a sequence of steps that do.\<close>

definition io_lift :: "'e + 'a \<Rightarrow> 's \<Rightarrow> ('e + 'a) \<times> 's" where
  "io_lift r s = (r, s)"

lemma io_lift_Inr [result_simps]: "io_lift r s = (Inr x, t) \<longleftrightarrow> r = Inr x \<and> t = s"
  by (auto simp: io_lift_def)

section \<open>Environment variables\<close>

type_synonym env_vars = "string \<Rightarrow> string option"

definition non_blank :: "string option \<Rightarrow> string option" where
  "non_blank v = (case v of None \<Rightarrow> None | Some s \<Rightarrow> if trim s = [] then None else Some s)"

definition required :: "env_vars \<Rightarrow> string \<Rightarrow> anyhow_error + string" where
  "required ev name = ok_or (non_blank (ev name)) (Anyhow (name @ '' is required''))"

definition path_var :: "env_vars \<Rightarrow> string \<Rightarrow> string \<Rightarrow> string" where
  "path_var ev name default_path = unwrap_or (non_blank (ev name)) default_path"

definition integer :: "env_vars \<Rightarrow> string \<Rightarrow> u64 \<Rightarrow> anyhow_error + u64" where
  "integer ev name default_value =
     (case ev name of
        None \<Rightarrow> Inr default_value
      | Some v \<Rightarrow> with_context (name @ '' is invalid'')
          (case parse_word v of Inl e \<Rightarrow> Inl (parse_int_error_display e) | Inr n \<Rightarrow> Inr n))"

definition env_flag :: "env_vars \<Rightarrow> string \<Rightarrow> bool" where
  "env_flag ev name =
     (case ev name of None \<Rightarrow> False | Some v \<Rightarrow> trim v \<in> {''1'', ''true'', ''TRUE'', ''yes'', ''YES''})"

section \<open>Text\<close>

text \<open>\<open>split(',')\<close>: always at least one piece.\<close>

fun split_char :: "char \<Rightarrow> string \<Rightarrow> string list" where
  "split_char c [] = [[]]"
| "split_char c (x # xs) =
     (if x = c then [] # split_char c xs
      else case split_char c xs of [] \<Rightarrow> [[x]] | p # ps \<Rightarrow> (x # p) # ps)"

lemma split_char_nonempty: "split_char c s \<noteq> []"
  by (cases s) (auto split: list.split)

definition join_char :: "char \<Rightarrow> string list \<Rightarrow> string" where
  "join_char c ps = (case ps of [] \<Rightarrow> [] | p # qs \<Rightarrow> p @ concat (map (\<lambda>q. c # q) qs))"

lemma join_split: "join_char c (split_char c s) = s \<and> (\<forall>p \<in> set (split_char c s). c \<notin> set p)"
proof (induction s)
  case (Cons x xs)
  obtain p ps where "split_char c xs = p # ps" using split_char_nonempty by (meson neq_Nil_conv)
  with Cons show ?case by (auto simp: join_char_def)
qed (simp add: join_char_def)

definition ascii_lower :: "char \<Rightarrow> char" where
  "ascii_lower ch = (let n = of_char ch :: nat in if 65 \<le> n \<and> n \<le> 90 then char_of (n + 32) else ch)"

definition to_ascii_lowercase :: "string \<Rightarrow> string" where
  "to_ascii_lowercase s = map ascii_lower s"

definition eq_ignore_ascii_case :: "string \<Rightarrow> string \<Rightarrow> bool" where
  "eq_ignore_ascii_case a b \<longleftrightarrow> to_ascii_lowercase a = to_ascii_lowercase b"

text \<open>\<open>trim_end_matches('/')\<close>.\<close>

definition trim_end :: "char \<Rightarrow> string \<Rightarrow> string" where
  "trim_end c s = rev (dropWhile (\<lambda>x. x = c) (rev s))"

end
