(* ===== verification/Node_Process.thy ===== *)
theory Node_Process
  imports Handshake Process_Env
begin

text \<open>
  The node process (\<open>kerosene-node/src/main.rs\<close>): the configuration from the environment, the
  wait for the onion host name, the start of the services and the discovery task. The parsers of
  socket addresses and TLS material are parameters, as is what a ledger database answers when it
  is opened; the clock, the random bytes and what other processes do to the host name file are
  arguments. The theorems: reading the configuration ends and accepts only onion endpoints, a
  restarted node has the membership it had, and discovery sends its requests through Tor to
  onion services, from where the HTTP library may be redirected.
\<close>

section \<open>Configuration\<close>

record config =
  cf_network_id :: string
  cf_plane :: discovery_plane
  listen_addr :: string
  onion_endpoint :: string
  identity_key :: string
  genesis_bundle :: string
  peer_store :: string
  tls_cert :: string
  tls_key :: string
  tls_client_ca :: string
  tls_client_identity :: "string option"
  socks_proxy :: string
  genesis_endpoints :: "endpoint_record list"
  cf_mirrors :: "endpoint_record list"
  cf_observer :: bool
  challenge_ttl_ms :: u64
  cf_peer_live_window_ms :: u64
  discovery_interval_ms :: u64
  ledger_db_path :: string

text \<open>
  The host: its environment, what reading the host name file gives at each attempt, and how
  many milliseconds have passed at that attempt.
\<close>

record host =
  host_env :: env_vars
  parse_socket_addr :: "string \<Rightarrow> string + string"
  hostname_read :: "nat \<Rightarrow> string + string"
  elapsed_ms :: "nat \<Rightarrow> nat"

fun discovery_source_debug :: "discovery_source \<Rightarrow> string" where
  "discovery_source_debug PreviousConnection = ''PreviousConnection''"
| "discovery_source_debug CurrentManifest = ''CurrentManifest''"
| "discovery_source_debug Genesis = ''Genesis''"
| "discovery_source_debug Mirror = ''Mirror''"
| "discovery_source_debug AuthenticatedPeerSource = ''AuthenticatedPeer''"

definition check_endpoint :: "contracts \<Rightarrow> string \<Rightarrow> anyhow_error + unit" where
  "check_endpoint k ep = lift_err discovery_error_display (validate_onion_endpoint k DiInvalidEndpoint ep)"

fun collect_results :: "('e + 'a) list \<Rightarrow> 'e + 'a list" where
  "collect_results [] = Inr []"
| "collect_results (r # rs) = res_bind r (\<lambda>x. res_bind (collect_results rs) (\<lambda>xs. Inr (x # xs)))"

definition configured_endpoint :: "contracts \<Rightarrow> discovery_source \<Rightarrow> nat \<times> string \<Rightarrow> anyhow_error + endpoint_record" where
  "configured_endpoint k source = (\<lambda>(index, endpoint).
     res_bind (check_endpoint k endpoint) (\<lambda>_.
     Inr \<lparr>er_member_id = to_ascii_lowercase (discovery_source_debug source @ ''-'' @ show_nat index),
          er_endpoint = endpoint, er_source = source, observed_at_epoch_ms = 0\<rparr>))"

definition listed_endpoints :: "string \<Rightarrow> string list" where
  "listed_endpoints raw = filter (\<lambda>v. v \<noteq> []) (map trim (split_char (CHR '','') raw))"

definition endpoints_from_env ::
    "contracts \<Rightarrow> env_vars \<Rightarrow> string \<Rightarrow> string \<Rightarrow> discovery_source \<Rightarrow> anyhow_error + endpoint_record list" where
  "endpoints_from_env k ev primary_name fallback_name source =
     (let raw = (case non_blank (ev primary_name) of
            Some v \<Rightarrow> v
          | None \<Rightarrow> if fallback_name = [] then [] else unwrap_or (ev fallback_name) [])
      in collect_results (map (configured_endpoint k source) (enumerate 0 (listed_endpoints raw))))"

section \<open>The onion host name\<close>

definition hostname_endpoint :: "contracts \<Rightarrow> u64 \<Rightarrow> string \<Rightarrow> anyhow_error + string" where
  "hostname_endpoint k port hostname =
     (let endpoint = ''https://'' @ trim hostname @ '':'' @ show_word port
      in res_bind (check_endpoint k endpoint) (\<lambda>_. Inr endpoint))"

text \<open>The loop of \<open>onion_endpoint\<close>, from attempt \<open>i\<close> on; \<open>None\<close> is a loop that never ends.\<close>

partial_function (option) await_hostname ::
    "contracts \<Rightarrow> host \<Rightarrow> string \<Rightarrow> u64 \<Rightarrow> u64 \<Rightarrow> nat \<Rightarrow> (anyhow_error + string) option" where
  "await_hostname k hs hostname_path port timeout i =
     (case hostname_read hs i of
        Inr hostname \<Rightarrow>
          if trim hostname \<noteq> [] then Some (hostname_endpoint k port hostname)
          else if elapsed_ms hs i < unat timeout then await_hostname k hs hostname_path port timeout (Suc i)
          else Some (Inl (Anyhow (''onion hostname file remained empty: '' @ hostname_path)))
      | Inl e \<Rightarrow>
          if elapsed_ms hs i < unat timeout then await_hostname k hs hostname_path port timeout (Suc i)
          else Some (Inl (Context (''read onion hostname after waiting '' @ show_word timeout @ '' ms: '' @ hostname_path) (Anyhow e))))"

definition find_onion_endpoint :: "contracts \<Rightarrow> host \<Rightarrow> (anyhow_error + string) option" where
  "find_onion_endpoint k hs =
     (let ev = host_env hs in
      case required ev ''KEROSENE_NODE_ONION_ENDPOINT'' of
        Inr endpoint \<Rightarrow> Some (Inr endpoint)
      | Inl _ \<Rightarrow>
     (case required ev ''KEROSENE_NODE_ONION_HOSTNAME_PATH'' of
        Inl e \<Rightarrow> Some (Inl e)
      | Inr hostname_path \<Rightarrow>
     (case integer ev ''KEROSENE_NODE_ONION_PORT'' 8800 of
        Inl e \<Rightarrow> Some (Inl e)
      | Inr port \<Rightarrow>
     if port = 0 \<or> port > 65535 then Some (Inl (Anyhow ''KEROSENE_NODE_ONION_PORT is invalid''))
     else (case integer ev ''KEROSENE_NODE_ONION_WAIT_TIMEOUT_MS'' 120000 of
        Inl e \<Rightarrow> Some (Inl e)
      | Inr timeout \<Rightarrow> await_hostname k hs hostname_path port timeout 0))))"

section \<open>Reading the configuration\<close>

definition parse_plane :: "string \<Rightarrow> anyhow_error + discovery_plane" where
  "parse_plane v =
     (if v = ''bank'' then Inr BankPlane else if v = ''vault'' then Inr VaultPlane
      else Inl (Anyhow (''unknown KEROSENE_DISCOVERY_PLANE='' @ v)))"

definition read_scope :: "host \<Rightarrow> anyhow_error + string \<times> discovery_plane \<times> string" where
  "read_scope hs =
     (let ev = host_env hs in
     res_bind (required ev ''KEROSENE_NETWORK_ID'') (\<lambda>network_id.
     res_bind (required ev ''KEROSENE_DISCOVERY_PLANE'') (\<lambda>v.
     res_bind (parse_plane v) (\<lambda>plane.
     res_bind (with_context ''KEROSENE_NODE_LISTEN_ADDR is invalid''
         (parse_socket_addr hs (unwrap_or (ev ''KEROSENE_NODE_LISTEN_ADDR'') ''127.0.0.1:8800''))) (\<lambda>addr.
     Inr (network_id, plane, addr))))))"

definition read_config ::
    "contracts \<Rightarrow> env_vars \<Rightarrow> string \<Rightarrow> discovery_plane \<Rightarrow> string \<Rightarrow> string \<Rightarrow> anyhow_error + config" where
  "read_config k ev network_id plane addr onion =
     res_bind (check_endpoint k onion) (\<lambda>_.
     res_bind (required ev ''KEROSENE_TOR_SOCKS_PROXY'') (\<lambda>socks.
     res_bind (require (starts_with socks5h socks) (Anyhow ''KEROSENE_TOR_SOCKS_PROXY must use socks5h remote resolution'')) (\<lambda>_.
     res_bind (require (\<not> env_flag ev ''KEROSENE_CLEARNET_PUBLISH'') (Anyhow ''KEROSENE_CLEARNET_PUBLISH is forbidden'')) (\<lambda>_.
     res_bind (endpoints_from_env k ev ''KEROSENE_GENESIS_ENDPOINTS'' ''KEROSENE_DISCOVERY_SEEDS'' Genesis) (\<lambda>genesis.
     res_bind (endpoints_from_env k ev ''KEROSENE_DISCOVERY_MIRRORS'' '''' Mirror) (\<lambda>mirrors.
     res_bind (required ev ''KEROSENE_GENESIS_TRUST_BUNDLE'') (\<lambda>bundle.
     res_bind (required ev ''KEROSENE_TLS_CERT_PATH'') (\<lambda>cert.
     res_bind (required ev ''KEROSENE_TLS_KEY_PATH'') (\<lambda>key.
     res_bind (required ev ''KEROSENE_TLS_CLIENT_CA_PATH'') (\<lambda>ca.
     res_bind (integer ev ''KEROSENE_CHALLENGE_TTL_MS'' 30000) (\<lambda>ttl.
     res_bind (integer ev ''KEROSENE_PEER_LIVE_WINDOW_MS'' 90000) (\<lambda>window.
     res_bind (integer ev ''KEROSENE_DISCOVERY_INTERVAL_MS'' 15000) (\<lambda>interval.
     Inr \<lparr>cf_network_id = network_id, cf_plane = plane, listen_addr = addr, onion_endpoint = onion,
          identity_key = path_var ev ''KEROSENE_IDENTITY_KEY_PATH'' ''peer-store/identity.key'',
          genesis_bundle = bundle,
          peer_store = path_var ev ''KEROSENE_PEER_STORE'' ''peer-store'',
          tls_cert = cert, tls_key = key, tls_client_ca = ca,
          tls_client_identity = non_blank (ev ''KEROSENE_TLS_CLIENT_IDENTITY_PEM''),
          socks_proxy = socks, genesis_endpoints = genesis, cf_mirrors = mirrors,
          cf_observer = env_flag ev ''KEROSENE_DISCOVERY_OBSERVER'',
          challenge_ttl_ms = ttl, cf_peer_live_window_ms = window, discovery_interval_ms = interval,
          ledger_db_path = path_var ev ''KEROSENE_LEDGER_DB_PATH'' ''ledger-data''\<rparr>)))))))))))))"

definition from_env :: "contracts \<Rightarrow> host \<Rightarrow> (anyhow_error + config) option" where
  "from_env k hs =
     (case read_scope hs of
        Inl e \<Rightarrow> Some (Inl e)
      | Inr (network_id, plane, addr) \<Rightarrow>
     (case find_onion_endpoint k hs of
        None \<Rightarrow> None
      | Some (Inl e) \<Rightarrow> Some (Inl e)
      | Some (Inr onion) \<Rightarrow> Some (read_config k (host_env hs) network_id plane addr onion)))"

section \<open>The wait ends\<close>

text \<open>What the loop returns when it stops at attempt \<open>i\<close>.\<close>

definition host_named :: "host \<Rightarrow> nat \<Rightarrow> bool" where
  "host_named hs i \<longleftrightarrow> (\<exists>s. hostname_read hs i = Inr s \<and> trim s \<noteq> [])"

definition wait_outcome :: "contracts \<Rightarrow> host \<Rightarrow> string \<Rightarrow> u64 \<Rightarrow> u64 \<Rightarrow> nat \<Rightarrow> anyhow_error + string" where
  "wait_outcome k hs p port timeout i =
     (case hostname_read hs i of
        Inr s \<Rightarrow> if trim s \<noteq> [] then hostname_endpoint k port s
                 else Inl (Anyhow (''onion hostname file remained empty: '' @ p))
      | Inl e \<Rightarrow> Inl (Context (''read onion hostname after waiting '' @ show_word timeout @ '' ms: '' @ p) (Anyhow e)))"

lemma await_step:
  "await_hostname k hs p port timeout i =
     (if host_named hs i \<or> unat timeout \<le> elapsed_ms hs i then Some (wait_outcome k hs p port timeout i)
      else await_hostname k hs p port timeout (Suc i))"
  by (subst await_hostname.simps) (auto simp: host_named_def wait_outcome_def split: sum.splits)

lemma await_from:
  assumes "host_named hs (i + d) \<or> unat timeout \<le> elapsed_ms hs (i + d)"
    and "\<forall>j < i + d. i \<le> j \<longrightarrow> \<not> host_named hs j \<and> elapsed_ms hs j < unat timeout"
  shows "await_hostname k hs p port timeout i = Some (wait_outcome k hs p port timeout (i + d))"
  using assms
proof (induction d arbitrary: i)
  case 0
  then show ?case by (subst await_step) simp
next
  case (Suc d)
  then have "\<not> host_named hs i" "elapsed_ms hs i < unat timeout" by auto
  moreover have "await_hostname k hs p port timeout (Suc i) = Some (wait_outcome k hs p port timeout (Suc i + d))"
    using Suc.prems by (intro Suc.IH) auto
  ultimately show ?case by (subst await_step) simp
qed

text \<open>
  The wait for the onion host name ends. Because every round of the loop sleeps for 250 ms,
  it returns after at most one attempt per 250 ms of the timeout and one more: at the first
  attempt that finds a name or has reached the timeout, and not before. What it returns is the
  endpoint of that name if there is one, and an error otherwise; an endpoint it returns is a
  valid onion endpoint.
\<close>

theorem onion_wait_ends:
  assumes "\<forall>i. elapsed_ms hs i + 250 \<le> elapsed_ms hs (Suc i)"
  shows "\<exists>n \<le> unat timeout div 250 + 1.
    await_hostname k hs p port timeout 0 = Some (wait_outcome k hs p port timeout n) \<and>
    (host_named hs n \<or> unat timeout \<le> elapsed_ms hs n) \<and>
    (\<forall>i < n. \<not> host_named hs i \<and> elapsed_ms hs i < unat timeout) \<and>
    (\<forall>ep. wait_outcome k hs p port timeout n = Inr ep \<longrightarrow> host_named hs n \<and> check_endpoint k ep = Inr ())"
proof -
  let ?done = "\<lambda>n. host_named hs n \<or> unat timeout \<le> elapsed_ms hs n"
  let ?m = "unat timeout div 250 + 1"
  have "250 * i \<le> elapsed_ms hs i" for i
  proof (induction i)
    case (Suc i)
    then show ?case using assms [rule_format, of i] by simp
  qed simp
  moreover have "x \<le> 250 * (x div 250 + 1)" for x :: nat
    using mult_div_mod_eq [of 250 x] mod_less_divisor [of 250 x] by simp
  ultimately have "unat timeout \<le> elapsed_ms hs ?m" using order_trans by blast
  then have m: "?done ?m" by simp
  then obtain n where n: "?done n" "\<forall>i < n. \<not> ?done i"
    using exists_least_iff [of ?done] by blast
  then have le: "n \<le> ?m" using m not_le by blast
  have before: "\<forall>i < n. \<not> host_named hs i \<and> elapsed_ms hs i < unat timeout"
    using n(2) by (simp add: not_le)
  then have "await_hostname k hs p port timeout 0 = Some (wait_outcome k hs p port timeout n)"
    using await_from [of hs 0 n timeout] n(1) by simp
  moreover have "host_named hs n \<and> check_endpoint k ep = Inr ()" if "wait_outcome k hs p port timeout n = Inr ep" for ep
    using that by (auto simp: wait_outcome_def host_named_def hostname_endpoint_def Let_def result_simps split: sum.splits if_splits)
  ultimately show ?thesis using n(1) le before by blast
qed

text \<open>The name appears at the third attempt.\<close>

definition demo_host_env :: host where
  "demo_host_env = \<lparr>host_env = Map.empty, parse_socket_addr = (\<lambda>s. Inr s),
     hostname_read = (\<lambda>i. if i < 2 then Inl ''No such file'' else Inr (demo_host @ [CHR 0x0A])), elapsed_ms = (\<lambda>i. 300 * i)\<rparr>"

theorem onion_wait_ends_witness:
  "\<exists>n \<le> 5. await_hostname demo_contracts demo_host_env ''hostname'' 8800 1000 0 =
     Some (wait_outcome demo_contracts demo_host_env ''hostname'' 8800 1000 n)"
proof -
  have "\<forall>i. elapsed_ms demo_host_env i + 250 \<le> elapsed_ms demo_host_env (Suc i)" by (simp add: demo_host_env_def)
  from onion_wait_ends [OF this, of 1000 demo_contracts "''hostname''" 8800]
  obtain n where "n \<le> unat (1000 :: u64) div 250 + 1"
      "await_hostname demo_contracts demo_host_env ''hostname'' 8800 1000 0 =
        Some (wait_outcome demo_contracts demo_host_env ''hostname'' 8800 1000 n)" by blast
  then show ?thesis by (intro exI [of _ n]) simp
qed

lemma collect_results_ok: "collect_results rs = Inr xs \<Longrightarrow> x \<in> set xs \<Longrightarrow> Inr x \<in> set rs"
  by (induction rs arbitrary: xs) (auto simp: result_simps)

lemma endpoints_checked:
  assumes "endpoints_from_env k ev a b source = Inr es" and "e \<in> set es"
  shows "check_endpoint k (er_endpoint e) = Inr ()"
proof -
  obtain index endpoint where "configured_endpoint k source (index, endpoint) = Inr e"
    using collect_results_ok [OF assms(1) [unfolded endpoints_from_env_def Let_def] assms(2)] by auto
  then show ?thesis by (auto simp: configured_endpoint_def result_simps)
qed

lemma read_config_ok:
  assumes "read_config k ev network plane addr onion = Inr cfg"
  shows "check_endpoint k (onion_endpoint cfg) = Inr () \<and> starts_with socks5h (socks_proxy cfg) \<and>
    \<not> env_flag ev ''KEROSENE_CLEARNET_PUBLISH'' \<and>
    (\<forall>e \<in> set (genesis_endpoints cfg @ cf_mirrors cfg). check_endpoint k (er_endpoint e) = Inr ())"
  using assms by (auto simp: read_config_def result_simps dest: endpoints_checked)

text \<open>
  C27. Reading the configuration ends, and what it accepts stays on Tor. Whatever the environment
  holds and the host name file gives, \<open>Config::from_env\<close> returns; and a configuration it returns
  has an onion endpoint that passes the endpoint check, a proxy that resolves names remotely,
  only configured endpoints that pass the check, and the flag that publishes the node outside
  Tor is not set.
\<close>

theorem from_env_ends:
  assumes "\<forall>i. elapsed_ms hs i + 250 \<le> elapsed_ms hs (Suc i)"
  shows "\<exists>r. from_env k hs = Some r \<and>
    (\<forall>cfg. r = Inr cfg \<longrightarrow>
       check_endpoint k (onion_endpoint cfg) = Inr () \<and> starts_with socks5h (socks_proxy cfg) \<and>
       \<not> env_flag (host_env hs) ''KEROSENE_CLEARNET_PUBLISH'' \<and>
       (\<forall>e \<in> set (genesis_endpoints cfg @ cf_mirrors cfg). check_endpoint k (er_endpoint e) = Inr ()))"
proof -
  have "\<exists>r. await_hostname k hs p port timeout 0 = Some r" for p port timeout
    using onion_wait_ends [OF assms, of timeout k p port] by blast
  then have "\<exists>r. find_onion_endpoint k hs = Some r" by (simp add: find_onion_endpoint_def Let_def split: sum.split)
  then show ?thesis using read_config_ok
    by (auto simp: from_env_def split: sum.split prod.split)
qed

text \<open>An environment that is accepted.\<close>

definition demo_vars :: env_vars where
  "demo_vars = [''KEROSENE_NETWORK_ID'' \<mapsto> ''net'', ''KEROSENE_DISCOVERY_PLANE'' \<mapsto> ''vault'', ''KEROSENE_NODE_ONION_ENDPOINT'' \<mapsto> demo_host,
     ''KEROSENE_TOR_SOCKS_PROXY'' \<mapsto> ''socks5h://tor:9050'', ''KEROSENE_GENESIS_TRUST_BUNDLE'' \<mapsto> ''b'', ''KEROSENE_TLS_CERT_PATH'' \<mapsto> ''c'',
     ''KEROSENE_TLS_KEY_PATH'' \<mapsto> ''k'', ''KEROSENE_TLS_CLIENT_CA_PATH'' \<mapsto> ''a'', ''KEROSENE_GENESIS_ENDPOINTS'' \<mapsto> demo_host]"

theorem from_env_ends_witness:
  "\<exists>cfg. from_env demo_contracts (demo_host_env\<lparr>host_env := demo_vars\<rparr>) = Some (Inr cfg) \<and> starts_with socks5h (socks_proxy cfg)"
proof -
  let ?hs = "demo_host_env\<lparr>host_env := demo_vars\<rparr>"
  have "\<forall>i. elapsed_ms ?hs i + 250 \<le> elapsed_ms ?hs (Suc i)" by (simp add: demo_host_env_def)
  from from_env_ends [OF this, of demo_contracts] obtain r where r: "from_env demo_contracts ?hs = Some r"
      "\<forall>cfg. r = Inr cfg \<longrightarrow> starts_with socks5h (socks_proxy cfg)" by blast
  have host: "check_endpoint demo_contracts demo_host = Inr ()" by (simp add: check_endpoint_def demo_host_ok)
  have trim: "trim demo_host = demo_host" "demo_host \<noteq> []" by (simp_all add: demo_host_def trim_def ascii_space_def)
  have "split_char d s = [s]" if "d \<notin> set s" for d s using that by (induction s) auto
  then have list: "listed_endpoints demo_host = [demo_host]" using trim by (simp add: listed_endpoints_def) (simp add: demo_host_def)
  have words: "trim ''net'' = ''net''" "trim ''vault'' = ''vault''" "trim ''socks5h://tor:9050'' = ''socks5h://tor:9050''" "trim ''a'' = ''a''"
      "trim ''b'' = ''b''" "trim ''c'' = ''c''" "trim ''k'' = ''k''" "listed_endpoints [] = []"
    by (simp_all add: trim_def ascii_space_def listed_endpoints_def)
  have "\<exists>cfg. from_env demo_contracts ?hs = Some (Inr cfg)"
    by (simp add: from_env_def read_scope_def find_onion_endpoint_def read_config_def required_def non_blank_def integer_def env_flag_def
        endpoints_from_env_def configured_endpoint_def Let_def demo_vars_def demo_host_env_def parse_plane_def require_def host trim list words
        starts_with_def socks5h_def)
  with r show ?thesis by auto
qed

section \<open>Starting\<close>

text \<open>The TLS library and the database, as far as the process calls them.\<close>

record 'n process_libs =
  pl_reqwest :: "'n reqwest"
  ledger_open :: "string \<Rightarrow> string + unit"
  bundle_codec :: "genesis_trust_bundle codec"
  pem_certificates :: "bytes \<Rightarrow> string + bytes list"
  pem_private_key :: "bytes \<Rightarrow> string + bytes"
  pem_roots :: "bytes \<Rightarrow> (string + bytes) list"
  root_store_add :: "bytes list \<Rightarrow> bytes \<Rightarrow> string + unit"
  build_verifier :: "bytes list \<Rightarrow> string + unit"
  build_server :: "bytes list \<Rightarrow> bytes list \<Rightarrow> bytes \<Rightarrow> string + unit"

definition io_context :: "string \<Rightarrow> (string + 'a) \<times> 's \<Rightarrow> (anyhow_error + 'a) \<times> 's" where
  "io_context ctx r = map_err (\<lambda>e. Context ctx (Anyhow e)) r"

lemma io_context_Inr [result_simps]: "io_context ctx r = (Inr x, s) \<longleftrightarrow> r = (Inr x, s)"
  by (simp add: io_context_def map_err_Inr)

fun collect_roots :: "'n process_libs \<Rightarrow> bytes list \<Rightarrow> (string + bytes) list \<Rightarrow> anyhow_error + bytes list" where
  "collect_roots lb roots [] = Inr roots"
| "collect_roots lb roots (r # rs) =
     res_bind (with_context ''parse client CA'' r) (\<lambda>certificate.
     res_bind (lift_err id (root_store_add lb roots certificate)) (\<lambda>_.
     collect_roots lb (roots @ [certificate]) rs))"

text \<open>The certificates, the key and the client roots that the server is configured with.\<close>

definition tls_config ::
    "'n process_libs \<Rightarrow> string \<Rightarrow> string \<Rightarrow> string \<Rightarrow> file_system \<Rightarrow>
       (anyhow_error + bytes list \<times> bytes \<times> bytes list) \<times> file_system" where
  "tls_config lb cert_path key_path client_ca_path fs =
     io_bind (io_context ''read TLS cert'' (fs_read fs cert_path)) (\<lambda>cert_pem fs1.
     io_bind (io_lift (with_context ''parse TLS cert'' (pem_certificates lb cert_pem)) fs1) (\<lambda>certificates fs1.
     io_bind (io_context ''read TLS key'' (fs_read fs1 key_path)) (\<lambda>key_pem fs2.
     io_bind (io_lift (with_context ''parse TLS key'' (pem_private_key lb key_pem)) fs2) (\<lambda>key fs2.
     io_bind (io_context ''read client CA'' (fs_read fs2 client_ca_path)) (\<lambda>ca_pem fs3.
     io_bind (io_lift (collect_roots lb [] (pem_roots lb ca_pem)) fs3) (\<lambda>roots fs3.
     io_bind (io_lift (with_context ''build mTLS client verifier'' (build_verifier lb roots)) fs3) (\<lambda>_ fs3.
     io_bind (io_lift (with_context ''build TLS server config'' (build_server lb roots certificates key)) fs3) (\<lambda>_ fs3.
     (Inr (certificates, key, roots), fs3)))))))))"

definition discovery_configured :: "node_env \<Rightarrow> config \<Rightarrow> file_system \<Rightarrow> (anyhow_error + bool) \<times> file_system" where
  "discovery_configured en cfg fs =
     (if genesis_endpoints cfg \<noteq> [] \<or> cf_mirrors cfg \<noteq> [] then (Inr True, fs)
      else io_bind (map_err (\<lambda>e. Anyhow (discovery_error_display e))
          (authenticated_count (ne_codecs en) (peer_store cfg) fs (cf_plane cfg))) (\<lambda>n fs1. (Inr (n > 0), fs1)))"

definition discovery_client ::
    "'n process_libs \<Rightarrow> node_env \<Rightarrow> config \<Rightarrow> file_system \<Rightarrow> (anyhow_error + http_client option) \<times> file_system" where
  "discovery_client lb en cfg fs =
     io_bind (discovery_configured en cfg fs) (\<lambda>configured fs1.
     if \<not> configured then (Inr None, fs1)
     else
       io_bind (io_lift (ok_or (tls_client_identity cfg)
           (Anyhow ''KEROSENE_TLS_CLIENT_IDENTITY_PEM is required when discovery endpoints exist'')) fs1) (\<lambda>identity_path fs1.
       io_bind (io_context ''read outbound mTLS client identity'' (fs_read fs1 identity_path)) (\<lambda>client_identity fs2.
       io_bind (io_context ''read mTLS CA'' (fs_read fs2 (tls_client_ca cfg))) (\<lambda>ca_pem fs3.
       io_bind (io_lift (lift_err discovery_error_display (new_mtls (pl_reqwest lb) (socks_proxy cfg) client_identity ca_pem)) fs3)
         (\<lambda>client fs3. (Inr (Some client), fs3))))))"

record node_process =
  np_service :: node_service
  np_client :: "http_client option"

definition lifecycle_path :: "config \<Rightarrow> string" where
  "lifecycle_path cfg = db_path (peer_store cfg) ''lifecycle.db''"

definition open_membership ::
    "'n process_libs \<Rightarrow> node_env \<Rightarrow> config \<Rightarrow> file_system \<Rightarrow> (anyhow_error + genesis_trust_bundle \<times> membership_verifier) \<times> file_system" where
  "open_membership lb en cfg fs =
     io_bind (io_context ''read GenesisTrustBundle'' (fs_read fs (genesis_bundle cfg))) (\<lambda>b fs1.
     io_bind (io_lift (with_context ''parse GenesisTrustBundle'' (from_slice (bundle_codec lb) b)) fs1) (\<lambda>bundle fs1.
     io_bind (io_lift (require (gb_network_id bundle = cf_network_id cfg) (Anyhow ''GenesisTrustBundle network mismatch'')) fs1) (\<lambda>_ fs1.
     io_bind (io_lift (lift_err (\<lambda>e. ''failed to open ledger database: '' @ e) (ledger_open lb (ledger_db_path cfg))) fs1) (\<lambda>_ fs1.
     io_bind (map_err (\<lambda>e. Anyhow (discovery_error_display e)) (store_open (ne_codecs en) (peer_store cfg) fs1)) (\<lambda>_ fs2.
     io_bind (map_err (\<lambda>e. Anyhow (discovery_error_display e)) (manifests (ne_codecs en) (peer_store cfg) fs2)) (\<lambda>ms fs3.
     io_bind (io_lift (lift_err membership_error_display
         (restore (ne_crypto en) (ne_contracts en) bundle (cf_plane cfg) ms)) fs3) (\<lambda>membership fs3.
     (Inr (bundle, membership), fs3))))))))"

definition start_node ::
    "'n process_libs \<Rightarrow> node_env \<Rightarrow> config \<Rightarrow> bytes \<Rightarrow> file_system \<Rightarrow> (anyhow_error + node_process) \<times> file_system" where
  "start_node lb en cfg random_secret fs =
     io_bind (open_membership lb en cfg fs) (\<lambda>(bundle, membership) fs1.
     io_bind (map_err (\<lambda>e. Anyhow (identity_error_display e))
         (load_or_create (ne_crypto en) (ne_contracts en) (ne_signing en) (identity_key cfg) (cf_network_id cfg)
            (cf_plane cfg) random_secret fs1)) (\<lambda>identity fs2.
     io_bind (map_err Anyhow (service_new en identity (onion_endpoint cfg) (cf_plane cfg) membership (peer_store cfg)
         (lifecycle_path cfg) (challenge_ttl_ms cfg) (cf_peer_live_window_ms cfg) fs2)) (\<lambda>service fs3.
     io_bind (discovery_client lb en cfg fs3) (\<lambda>client fs4.
     io_bind (tls_config lb (tls_cert cfg) (tls_key cfg) (tls_client_ca cfg) fs4) (\<lambda>_ fs5.
     (Inr \<lparr>np_service = service\<lparr>sv_fs := fs5\<rparr>, np_client = client\<rparr>, fs5))))))"

text \<open>\<open>main\<close>, up to serving; \<open>None\<close> is a start that waits for ever.\<close>

definition node_main ::
    "'n process_libs \<Rightarrow> node_env \<Rightarrow> host \<Rightarrow> bytes \<Rightarrow> file_system \<Rightarrow> ((anyhow_error + config \<times> node_process) \<times> file_system) option" where
  "node_main lb en hs random_secret fs =
     (case from_env (ne_contracts en) hs of
        None \<Rightarrow> None
      | Some (Inl e) \<Rightarrow> Some (Inl e, fs)
      | Some (Inr cfg) \<Rightarrow> Some (io_bind (start_node lb en cfg random_secret fs) (\<lambda>p fs1. (Inr (cfg, p), fs1))))"

section \<open>The discovery task\<close>

text \<open>
  One candidate of a round. The arguments \<open>now\<close>, \<open>random_bytes\<close> and \<open>later\<close> are the time of the
  attempt, the bytes of the challenge and the time at which a manifest is taken over.
\<close>

definition try_candidate ::
    "'n reqwest \<Rightarrow> node_env \<Rightarrow> wire_codecs \<Rightarrow> http_client \<Rightarrow> bool \<Rightarrow> u64 \<times> bytes \<times> u64 \<Rightarrow> string \<Rightarrow> node_service \<Rightarrow> 'n \<Rightarrow>
       (string + unit) \<times> node_service \<times> 'n" where
  "try_candidate h en w client observer inputs endpoint s n =
     (case inputs of (now, random_bytes, later) \<Rightarrow>
      if observer then
        (case fetch_manifest h (ne_contracts en) w client endpoint n of
           (Inl e, n1) \<Rightarrow> (Inl (discovery_error_display e), s, n1)
         | (Inr m, n1) \<Rightarrow> (case accept_membership en s m later of
             (Inl e, s1) \<Rightarrow> (Inl (membership_error_display e), s1, n1)
           | (Inr _, s1) \<Rightarrow> (Inr (), s1, n1)))
      else
        (case issue_challenge en s random_bytes now of (ch, s1) \<Rightarrow>
        (case exchange h (ne_crypto en) (ne_contracts en) (ne_signing en) w client endpoint (sv_identity s) (sv_endpoint s) ch now n of
           (Inl e, n1) \<Rightarrow> (Inl (discovery_error_display e), s1, n1)
         | (Inr hello, n1) \<Rightarrow>
        (case observe_peer en s1 hello now of
           (Inl e, s2) \<Rightarrow> (Inl (discovery_error_display e), s2, n1)
         | (Inr _, s2) \<Rightarrow>
        (case fetch_manifest h (ne_contracts en) w client endpoint n1 of
           (Inl _, n2) \<Rightarrow> (Inr (), s2, n2)
         | (Inr m, n2) \<Rightarrow> (Inr (), snd (accept_membership en s2 m later), n2))))))"

fun try_candidates ::
    "'n reqwest \<Rightarrow> node_env \<Rightarrow> wire_codecs \<Rightarrow> http_client \<Rightarrow> bool \<Rightarrow> (nat \<Rightarrow> u64 \<times> bytes \<times> u64) \<Rightarrow> nat \<Rightarrow>
       endpoint_record list \<Rightarrow> node_service \<Rightarrow> 'n \<Rightarrow> node_service \<times> 'n" where
  "try_candidates h en w client observer inputs i [] s n = (s, n)"
| "try_candidates h en w client observer inputs i (c # cs) s n =
     (case try_candidate h en w client observer (inputs i) (er_endpoint c) s n of
        (_, s1, n1) \<Rightarrow> try_candidates h en w client observer inputs (Suc i) cs s1 n1)"

text \<open>One round of the loop of \<open>spawn_discovery\<close>, up to its sleep.\<close>

definition discovery_round ::
    "'n reqwest \<Rightarrow> node_env \<Rightarrow> wire_codecs \<Rightarrow> http_client \<Rightarrow> config \<Rightarrow> (nat \<Rightarrow> u64 \<times> bytes \<times> u64) \<Rightarrow>
       node_service \<Rightarrow> 'n \<Rightarrow> node_service \<times> 'n" where
  "discovery_round h en w client cfg inputs s n =
     (case discovery_candidates en s (genesis_endpoints cfg) (cf_mirrors cfg) of
        (Inl e, s1) \<Rightarrow> (s1, n)
      | (Inr candidates, s1) \<Rightarrow> try_candidates h en w client (cf_observer cfg) inputs 0 candidates s1 n)"

definition discovery_interval :: "config \<Rightarrow> u64" where
  "discovery_interval cfg = max (discovery_interval_ms cfg) 1000"

section \<open>Runs of the process\<close>

datatype process_event =
    PrRequest bytes u64 http_method string "bytes option"
  | PrRound "nat \<Rightarrow> u64 \<times> bytes \<times> u64"

text \<open>A request to the routes, or a round of the discovery task if there is one.\<close>

fun process_step ::
    "'n reqwest \<Rightarrow> node_env \<Rightarrow> node_wire \<Rightarrow> config \<Rightarrow> http_client option \<Rightarrow> process_event \<Rightarrow> node_service \<times> 'n \<Rightarrow> node_service \<times> 'n" where
  "process_step h en w cfg client (PrRequest rb now meth path body) (s, n) = (snd (router en w s rb now meth path body), n)"
| "process_step h en w cfg client (PrRound inputs) (s, n) =
     (case client of None \<Rightarrow> (s, n) | Some cl \<Rightarrow> discovery_round h en (nw_codecs w) cl cfg inputs s n)"

definition process_run ::
    "'n reqwest \<Rightarrow> node_env \<Rightarrow> node_wire \<Rightarrow> config \<Rightarrow> http_client option \<Rightarrow> process_event list \<Rightarrow> node_service \<times> 'n \<Rightarrow> node_service \<times> 'n" where
  "process_run h en w cfg client evs x = fold (process_step h en w cfg client) evs x"

text \<open>
  \<open>node_reaches en s t\<close>: calls of the service lead it from \<open>s\<close> to \<open>t\<close>, none of which presents a
  state snapshot. Neither the routes nor the discovery task present one.
\<close>

fun presents_state :: "node_event \<Rightarrow> bool" where
  "presents_state (EvSnapshot sn now) = True"
| "presents_state ev = False"

definition node_reaches :: "node_env \<Rightarrow> node_service \<Rightarrow> node_service \<Rightarrow> bool" where
  "node_reaches en s t \<longleftrightarrow> (\<exists>es. t = node_run en s es \<and> list_all (\<lambda>ev. \<not> presents_state ev) es)"

lemma node_reaches_refl [simp]: "node_reaches en s s"
  unfolding node_reaches_def by (rule exI [of _ "[]"]) simp

lemma node_reaches_step:
  assumes "node_reaches en s t" and "\<not> presents_state ev"
  shows "node_reaches en s (node_step en t ev)"
proof -
  obtain es where "t = node_run en s es" "list_all (\<lambda>ev. \<not> presents_state ev) es" using assms(1) by (auto simp: node_reaches_def)
  then show ?thesis unfolding node_reaches_def using assms(2) by (intro exI [of _ "es @ [ev]"]) (simp add: node_run_snoc)
qed

lemma node_reaches_run:
  "node_reaches en s t \<Longrightarrow> list_all (\<lambda>ev. \<not> presents_state ev) es \<Longrightarrow> node_reaches en s (node_run en t es)"
  by (induction es rule: rev_induct) (auto simp: node_run_snoc intro: node_reaches_step)

lemma node_reaches_trans: "node_reaches en s t \<Longrightarrow> node_reaches en t u \<Longrightarrow> node_reaches en s u"
  unfolding node_reaches_def [of en t] using node_reaches_run by blast

lemma request_events_state: "list_all (\<lambda>ev. \<not> presents_state ev) (request_events w rb now meth path body)"
  by (simp add: request_events_def Let_def split: option.split sum.split)

lemma node_reaches_calls:
  assumes "node_reaches en s t"
  shows "accept_membership en t m later = (r1, u) \<Longrightarrow> node_reaches en s u"
    and "issue_challenge en t rb now = (ch, u) \<Longrightarrow> node_reaches en s u"
    and "observe_peer en t hello now = (r2, u) \<Longrightarrow> node_reaches en s u"
    and "discovery_candidates en t g ms = (r3, u) \<Longrightarrow> node_reaches en s u"
  using node_reaches_step [OF assms, of "EvMembership m later"] node_reaches_step [OF assms, of "EvChallenge rb now"]
    node_reaches_step [OF assms, of "EvObserve hello now"] node_reaches_step [OF assms, of "EvCandidates g ms"]
  by simp_all

lemma try_candidate_reaches:
  assumes "try_candidate h en w cl ob inp ep s n = (r, t, n')"
  shows "node_reaches en s t"
proof (cases "ob")
  case True
  obtain now rb later where inp: "inp = (now, rb, later)" by (cases inp)
  obtain q n1 where f: "fetch_manifest h (ne_contracts en) w cl ep n = (q, n1)" by force
  show ?thesis
  proof (cases q)
    case (Inr m)
    obtain e u where a: "accept_membership en s m later = (e, u)" by force
    then have "t = u" using assms True f Inr by (cases e) (simp_all add: try_candidate_def inp)
    then show ?thesis using node_reaches_calls(1) [OF node_reaches_refl a] by simp
  qed (use assms True f in \<open>simp add: try_candidate_def inp\<close>)
next
  case False
  obtain now rb later where inp: "inp = (now, rb, later)" by (cases inp)
  obtain ch s1 where i: "issue_challenge en s rb now = (ch, s1)" by force
  note s1 = node_reaches_calls(2) [OF node_reaches_refl i]
  obtain q n1 where x: "exchange h (ne_crypto en) (ne_contracts en) (ne_signing en) w cl ep (sv_identity s) (sv_endpoint s) ch now n = (q, n1)"
    by force
  show ?thesis
  proof (cases q)
    case (Inl e)
    then show ?thesis using assms False i x s1 by (simp add: try_candidate_def inp)
  next
    case (Inr hello)
    obtain e s2 where o: "observe_peer en s1 hello now = (e, s2)" by force
    note s2 = node_reaches_calls(3) [OF s1 o]
    obtain f n2 where m: "fetch_manifest h (ne_contracts en) w cl ep n1 = (f, n2)" by force
    have "t = s2 \<or> (\<exists>mf. t = node_step en s2 (EvMembership mf later))"
      using assms False i x o m Inr by (cases e; cases f) (auto simp: try_candidate_def inp)
    then show ?thesis using s2 node_reaches_step [OF s2, of "EvMembership mf later" for mf] by auto
  qed
qed

lemma try_candidates_reaches: "node_reaches en s (fst (try_candidates h en w cl ob inp i cs s n))"
proof (induction cs arbitrary: i s n)
  case (Cons c cs)
  obtain r s1 n1 where t: "try_candidate h en w cl ob (inp i) (er_endpoint c) s n = (r, s1, n1)" by (metis prod_cases3)
  then show ?case using node_reaches_trans [OF try_candidate_reaches [OF t]] Cons.IH by simp
qed simp

lemma discovery_round_reaches: "node_reaches en s (fst (discovery_round h en w cl cfg inp s n))"
proof -
  obtain r s1 where c: "discovery_candidates en s (genesis_endpoints cfg) (cf_mirrors cfg) = (r, s1)" by force
  note s1 = node_reaches_calls(4) [OF node_reaches_refl c]
  show ?thesis
    by (cases r) (use c s1 node_reaches_trans [OF s1 try_candidates_reaches] in \<open>simp_all add: discovery_round_def\<close>)
qed

lemma process_run_reaches: "node_reaches en s (fst (process_run h en w cfg client evs (s, n)))"
proof (induction evs arbitrary: s n)
  case (Cons ev evs)
  obtain s1 n1 where step: "process_step h en w cfg client ev (s, n) = (s1, n1)" by force
  have "node_reaches en s s1"
  proof (cases ev)
    case (PrRequest rb now meth path body)
    then have "s1 = node_run en s (request_events w rb now meth path body)" using step router_events by simp
    then show ?thesis using node_reaches_run [OF node_reaches_refl request_events_state] by simp
  next
    case (PrRound inp)
    then show ?thesis
      using step discovery_round_reaches [of en s h "nw_codecs w" _ cfg inp n]
      by (cases client) (auto, metis fst_conv)
  qed
  moreover have "node_reaches en s1 (fst (process_run h en w cfg client evs (s1, n1)))" by (rule Cons.IH)
  ultimately show ?case using step node_reaches_trans by (auto simp: process_run_def)
qed (simp add: process_run_def)

text \<open>Nothing that the process does moves its life cycle past \<open>Syncing\<close>.\<close>

lemma node_reaches_stage:
  assumes "node_reaches en s t" and "stage s < 7"
  shows "stage t < 7"
proof -
  have "stage (node_run en s es) < 7" if "list_all (\<lambda>ev. \<not> presents_state ev) es" for es
    using that
  proof (induction es rule: rev_induct)
    case (snoc ev es)
    then show ?case using node_step_stage [of en "node_run en s es" ev] by (cases ev) (auto simp: stage_step_def)
  qed (use assms(2) in simp)
  then show ?thesis using assms(1) by (auto simp: node_reaches_def)
qed

section \<open>What a started node has\<close>

lemmas io_bind_files = fs_bind_frame [where P = "\<lambda>t. files t = F" for F]

lemma reading_files [simp]:
  "files (snd (io_lift r fs)) = files fs" "files (snd (io_context ctx q)) = files (snd q)"
  by (simp_all add: io_lift_def io_context_def)

lemma tls_config_files: "files (snd (tls_config lb cert key ca fs)) = files fs"
  unfolding tls_config_def by (intro io_bind_files) simp_all

lemma authenticated_count_files: "files (snd (authenticated_count j root fs plane)) = files fs"
  unfolding authenticated_count_def by (intro io_bind_files) (simp_all add: db_read_frame)

lemma discovery_configured_files: "files (snd (discovery_configured en cfg fs)) = files fs"
  by (auto simp: discovery_configured_def authenticated_count_files intro!: io_bind_files)

lemma discovery_client_files: "files (snd (discovery_client lb en cfg fs)) = files fs"
  unfolding discovery_client_def
  by (rule io_bind_files, simp add: discovery_configured_files) (auto intro!: io_bind_files)

lemma load_or_create_frame:
  assumes "q \<noteq> path"
  shows "files (snd (load_or_create c k g path network plane secret fs)) q = files fs q"
proof (cases "fs_exists fs path")
  case True
  then show ?thesis by (simp add: load_existing)
next
  case False
  have create: "files (snd (create_key_file t path enc)) q = files t q" for t enc
    unfolding create_key_file_def using assms
    by (auto simp: fs_create_new_def fs_append_def fs_sync_all_def io_bind_def Let_def split: option.splits sum.splits)
  have "files (snd (io_bind (map_err IdIo (ensure_parent (io_call fs) path)) (\<lambda>_ fs1.
      io_bind (map_err IdIo (create_key_file fs1 path enc)) (\<lambda>_ fs2. (Inr i, fs2))))) q = files fs q" for enc and i :: node_identity
    by (intro fs_bind_frame [where P = "\<lambda>t. files t q = files fs q"]) (simp_all add: create)
  then show ?thesis using False by (simp add: load_or_create_def Let_def split: option.split)
qed

definition config_manifests :: "config \<Rightarrow> string" where
  "config_manifests cfg = db_path (peer_store cfg) membership_manifests_db"

lemma ensure_file_frame:
  assumes "q \<noteq> db_path root name" and "q \<noteq> temporary_path (db_path root name)"
  shows "files (snd (ensure_file j root name fs)) q = files fs q"
  using assms by (simp add: ensure_file_def db_write_frame)

lemma store_open_manifests:
  assumes "files fs (db_path root membership_manifests_db) \<noteq> None"
  shows "files (snd (store_open j root fs)) (db_path root membership_manifests_db) = files fs (db_path root membership_manifests_db)"
proof -
  let ?q = "db_path root membership_manifests_db"
  have other: "files (snd (ensure_file j root name t)) ?q = files t ?q"
    if "name \<in> {peers_db, endpoints_db, successful_connections_db}" for j :: "'a list codec" and name t
    using that manifests_file_apart by (intro ensure_file_frame) auto
  show ?thesis
    unfolding store_open_def
    using assms
    by (intro fs_bind_frame [where P = "\<lambda>t. files t ?q = files fs ?q"])
      (auto simp: other ensure_file_def [of _ root membership_manifests_db] fs_exists_def)
qed

lemma open_membership_ok:
  assumes "open_membership lb en cfg fs = (Inr (bundle, v), fs')"
  shows "(\<exists>b. files fs (genesis_bundle cfg) = Some b \<and> from_slice (bundle_codec lb) b = Inr bundle) \<and>
    (\<exists>bs ms. files fs' (config_manifests cfg) = Some bs \<and> from_slice (manifests_codec (ne_codecs en)) bs = Inr ms \<and>
       restore (ne_crypto en) (ne_contracts en) bundle (cf_plane cfg) ms = Inr v) \<and>
    (files fs (config_manifests cfg) \<noteq> None \<longrightarrow> files fs' (config_manifests cfg) = files fs (config_manifests cfg))"
proof -
  from assms obtain b fs1 fs2 ms where run: "fs_read fs (genesis_bundle cfg) = (Inr b, fs1)"
      "from_slice (bundle_codec lb) b = Inr bundle" "store_open (ne_codecs en) (peer_store cfg) fs1 = (Inr (), fs2)"
      "manifests (ne_codecs en) (peer_store cfg) fs2 = (Inr ms, fs')"
      "restore (ne_crypto en) (ne_contracts en) bundle (cf_plane cfg) ms = Inr v"
    by (auto simp: open_membership_def result_simps)
  have b: "files fs (genesis_bundle cfg) = Some b" "files fs1 = files fs"
    using run(1) by (auto simp: fs_read_def split: option.splits)
  obtain bs where bs: "files fs' (config_manifests cfg) = Some bs" "from_slice (manifests_codec (ne_codecs en)) bs = Inr ms"
      "files fs' = files fs2"
    using run(4) by (auto simp: manifests_def db_read_def config_manifests_def result_simps fs_read_def split: option.splits sum.splits)
  have "files fs (config_manifests cfg) \<noteq> None \<longrightarrow> files fs' (config_manifests cfg) = files fs (config_manifests cfg)"
    using store_open_manifests [of fs1 "peer_store cfg" "ne_codecs en"] run(3) b(2) bs(3) by (simp add: config_manifests_def)
  then show ?thesis using run(2,5) b(1) bs by blast
qed

lemma lifecycle_apart: "lifecycle_path cfg \<noteq> config_manifests cfg" "temporary_path (lifecycle_path cfg) \<noteq> config_manifests cfg"
  by (auto simp: lifecycle_path_def config_manifests_def db_path_def temporary_path_def tmp_suffix_def membership_manifests_db_def)

lemma service_new_ok:
  assumes "service_new en i ep plane v store lpath ttl win fs = (Inr s, fs')"
  shows "sv_identity s = i \<and> sv_endpoint s = ep \<and> sv_plane s = plane \<and> sv_membership s = v \<and> sv_peer_store s = store \<and>
    sv_lifecycle_store s = lpath \<and> active_peers s = [] \<and>
    (\<forall>q. q \<noteq> lpath \<longrightarrow> q \<noteq> temporary_path lpath \<longrightarrow> files fs' q = files fs q)"
proof -
  obtain q fs1 where load: "lifecycle_load (ne_lifecycle_codec en) lpath fs = (q, fs1)" by force
  obtain l where q: "q = Inr l"
    using assms load by (cases q) (auto simp: service_new_def split: sum.splits)
  obtain r l' where boot: "bootstrap_local_lifecycle l = (r, l')" by force
  have run: "lifecycle_load (ne_lifecycle_codec en) lpath fs = (Inr l, fs1)"
      "lifecycle_save (ne_lifecycle_codec en) lpath fs1 l' = (Inr (), fs')" "sv_identity s = i" "sv_endpoint s = ep" "sv_plane s = plane"
      "sv_membership s = v" "sv_peer_store s = store" "sv_lifecycle_store s = lpath" "active_peers s = []"
    using assms load q boot
    by (cases r; auto simp: service_new_def result_simps simp del: bootstrap_local_lifecycle.simps split: sum.splits)+
  have "files fs1 = files fs"
    using run(1) by (auto simp: lifecycle_load_def fs_read_def result_simps split: if_splits option.splits sum.splits)
  then show ?thesis using run lifecycle_save_frame [of _ lpath "ne_lifecycle_codec en" fs1 l'] by auto
qed

text \<open>A node that has started is fresh, has its files apart and its membership on disk.\<close>

lemma start_node_ok:
  assumes "start_node lb en cfg secret fs = (Inr p, fs')" and "identity_key cfg \<noteq> config_manifests cfg"
  shows "\<exists>bundle b fs1. open_membership lb en cfg fs = (Inr (bundle, sv_membership (np_service p)), fs1) \<and>
    files fs (genesis_bundle cfg) = Some b \<and> from_slice (bundle_codec lb) b = Inr bundle \<and>
    persisted en bundle (np_service p) \<and> paths_ok (np_service p) \<and> active_peers (np_service p) = [] \<and>
    manifests_path (np_service p) = config_manifests cfg \<and> sv_plane (np_service p) = cf_plane cfg \<and> sv_fs (np_service p) = fs'"
proof -
  from assms(1) obtain bd v fs1 i fs2 s fs3 cl fs4 t where run:
      "open_membership lb en cfg fs = (Inr (bd, v), fs1)"
      "load_or_create (ne_crypto en) (ne_contracts en) (ne_signing en) (identity_key cfg) (cf_network_id cfg)
         (cf_plane cfg) secret fs1 = (Inr i, fs2)"
      "service_new en i (onion_endpoint cfg) (cf_plane cfg) v (peer_store cfg)
         (lifecycle_path cfg) (challenge_ttl_ms cfg) (cf_peer_live_window_ms cfg) fs2 = (Inr s, fs3)"
      "discovery_client lb en cfg fs3 = (Inr cl, fs4)"
      "tls_config lb (tls_cert cfg) (tls_key cfg) (tls_client_ca cfg) fs4 = (Inr t, fs')"
      "p = \<lparr>np_service = s\<lparr>sv_fs := fs'\<rparr>, np_client = cl\<rparr>"
    by (auto simp: start_node_def result_simps)
  have s: "sv_membership s = v" "sv_peer_store s = peer_store cfg" "sv_lifecycle_store s = lifecycle_path cfg"
      "sv_plane s = cf_plane cfg" "active_peers s = []"
      "files fs3 (config_manifests cfg) = files fs2 (config_manifests cfg)"
    using service_new_ok [OF run(3)] lifecycle_apart [of cfg] by auto
  have "files fs' = files fs3"
    using tls_config_files [of lb "tls_cert cfg" "tls_key cfg" "tls_client_ca cfg" fs4] discovery_client_files [of lb en cfg fs3] run(4,5) by simp
  moreover have "files fs2 (config_manifests cfg) = files fs1 (config_manifests cfg)"
    using load_or_create_frame [of "config_manifests cfg" "identity_key cfg" "ne_crypto en" "ne_contracts en" "ne_signing en"
        "cf_network_id cfg" "cf_plane cfg" secret fs1] assms(2) run(2) by simp
  ultimately have disk: "files fs' (config_manifests cfg) = files fs1 (config_manifests cfg)" using s(6) by simp
  have path: "manifests_path (np_service p) = config_manifests cfg"
    using s(2) run(6) by (simp add: manifests_path_def config_manifests_def)
  note op = open_membership_ok [OF run(1)]
  have "persisted en bd (np_service p)"
    using op disk path s(1,4) run(6) by (auto simp: persisted_def)
  moreover have "paths_ok (np_service p)"
    using path s(3) run(6) lifecycle_apart [of cfg] by (simp add: paths_ok_def)
  ultimately show ?thesis using run(1,6) s op path by auto
qed

section \<open>Restarting\<close>

lemma node_run_config: "same_config s (node_run en s es)"
proof (induction es rule: rev_induct)
  case (snoc e es)
  then show ?case using node_step_config [of "node_run en s es" en e] by (simp add: same_config_def)
qed (simp add: same_config_def)

text \<open>
  C5. A node that restarts has the membership it had. Start a node, let it serve any requests
  and run any rounds of discovery, while any calls of the file system and of the network may
  fail, and stop it at any point between two of them. If a node is started again from the files that are left, with the same configuration
  and the same trust bundle, and it starts, then its membership, and with it the members, the
  threshold and the hash of the manifest, are those of the node that was stopped.
\<close>

theorem restart_keeps_membership:
  assumes "codec_ok (manifests_codec (ne_codecs en))" and "identity_key cfg \<noteq> config_manifests cfg"
    and "start_node lb en cfg secret fs = (Inr p, fs1)"
    and "s = fst (process_run h en w cfg (np_client p) evs (np_service p, n))"
    and "files fs2 = files (sv_fs s)" and "files fs2 (genesis_bundle cfg) = files fs (genesis_bundle cfg)"
    and "start_node lb en cfg secret' fs2 = (Inr p', fs3)"
  shows "sv_membership (np_service p') = sv_membership s"
proof -
  obtain bd b where first: "from_slice (bundle_codec lb) b = Inr bd" "files fs (genesis_bundle cfg) = Some b"
      "persisted en bd (np_service p)" "paths_ok (np_service p)" "manifests_path (np_service p) = config_manifests cfg"
      "sv_plane (np_service p) = cf_plane cfg"
    using start_node_ok [OF assms(3,2)] by blast
  have "node_reaches en (np_service p) s" using process_run_reaches assms(4) by simp
  then obtain es where s: "s = node_run en (np_service p) es" by (auto simp: node_reaches_def)
  then have "persisted en bd s" using node_run_persisted [OF assms(1) first(3,4)] by simp
  moreover have "manifests_path s = config_manifests cfg" "sv_plane s = cf_plane cfg"
    using node_run_config [of "np_service p" en es] s first(5,6) by (simp_all add: same_config_def manifests_path_def)
  ultimately obtain bs ms where disk: "files fs2 (config_manifests cfg) = Some bs" "from_slice (manifests_codec (ne_codecs en)) bs = Inr ms"
      "restore (ne_crypto en) (ne_contracts en) bd (cf_plane cfg) ms = Inr (sv_membership s)"
    using assms(5) by (auto simp: persisted_def)
  obtain bd' b' fs4 where second: "open_membership lb en cfg fs2 = (Inr (bd', sv_membership (np_service p')), fs4)"
    using start_node_ok [OF assms(7,2)] by blast
  from open_membership_ok [OF this] show ?thesis
    using disk first(1,2) assms(6) by auto
qed

text \<open>A node of the demonstration network, started twice on a disk without faults.\<close>

definition demo_libs :: "unit process_libs" where
  "demo_libs = \<lparr>pl_reqwest = \<lparr>proxy_all = (\<lambda>_. Inr ()), identity_from_pem = (\<lambda>_. Inr ()), certificate_from_pem = (\<lambda>_. Inr ()),
       client_build = (\<lambda>_. Inr ()), http_send = (\<lambda>_ _ n. (Inl ''unreachable'', n)), redirects = (\<lambda>_ _ _. []), status_error = (\<lambda>u _. u)\<rparr>,
     ledger_open = (\<lambda>_. Inr ()), bundle_codec = \<lparr>to_vec = (\<lambda>_. Inr []), from_slice = (\<lambda>_. Inr demo_bundle)\<rparr>,
     pem_certificates = (\<lambda>b. Inr [b]), pem_private_key = (\<lambda>b. Inr b), pem_roots = (\<lambda>b. [Inr b]),
     root_store_add = (\<lambda>_ _. Inr ()), build_verifier = (\<lambda>_. Inr ()), build_server = (\<lambda>_ _ _. Inr ())\<rparr>"

definition demo_config :: config where
  "demo_config = \<lparr>cf_network_id = ''net'', cf_plane = VaultPlane, listen_addr = ''127.0.0.1:8800'', onion_endpoint = demo_host,
     identity_key = ''k'', genesis_bundle = ''b'', peer_store = ''r'', tls_cert = ''c'', tls_key = ''c'', tls_client_ca = ''c'',
     tls_client_identity = Some ''c'', socks_proxy = ''socks5h://tor:9050'', genesis_endpoints = [], cf_mirrors = [], cf_observer = False,
     challenge_ttl_ms = 30000, cf_peer_live_window_ms = 90000, discovery_interval_ms = 15000, ledger_db_path = ''d''\<rparr>"

definition demo_files :: "(string \<Rightarrow> bytes option) \<Rightarrow> bool" where
  "demo_files F \<longleftrightarrow> F ''b'' = Some [] \<and> F ''k'' = Some (str_bytes (demo_hex_encode (replicate 32 8)) @ [10]) \<and> F ''c'' = Some [] \<and>
     (\<forall>name \<in> {peers_db, endpoints_db, successful_connections_db, membership_manifests_db}. F (db_path ''r'' name) = Some [])"

definition demo_disk :: file_system where
  "demo_disk = (demo_fs {})\<lparr>files := (\<lambda>q. if q = ''k'' then Some (str_bytes (demo_hex_encode (replicate 32 8)) @ [10]) else Some [])\<rparr>"

definition calm :: "file_system \<Rightarrow> bool" where
  "calm fs \<longleftrightarrow> io_faults fs = (\<lambda>_. None)"

lemma calm_calls:
  assumes "calm fs"
  shows "fs_read fs p = (case files fs p of None \<Rightarrow> Inl not_found_message | Some b \<Rightarrow> Inr b, io_call fs)"
    "fs_create_dir_all fs p = (Inr (), io_call fs)" "calm (io_call fs)" "fault_now fs = None"
  using assms by (simp_all add: calm_def fs_read_def fs_create_dir_all_def fault_now_def)

lemma demo_disk_ok: "calm demo_disk" "demo_files (files demo_disk)"
  by (simp_all add: demo_disk_def calm_def demo_fs_def demo_files_def db_path_def peers_db_def endpoints_db_def
      successful_connections_db_def membership_manifests_db_def)

lemma demo_config_same: "demo_config\<lparr>genesis_endpoints := []\<rparr> = demo_config"
  by (simp add: demo_config_def)

lemma demo_opens:
  assumes "calm fs" and "demo_files (files fs)"
  shows "\<exists>fs'. open_membership demo_libs demo_env (demo_config\<lparr>genesis_endpoints := g\<rparr>) fs = (Inr (demo_bundle, demo_verifier), fs') \<and> calm fs' \<and> files fs' = files fs"
proof -
  have "restore demo_crypto demo_contracts demo_bundle VaultPlane [] = Inr demo_verifier" by (simp add: restore_def demo_new)
  moreover have "gb_network_id demo_bundle = ''net''" by (simp add: demo_bundle_def Let_def)
  ultimately show ?thesis
    using assms
    by (simp add: open_membership_def calm_calls demo_files_def demo_config_def demo_libs_def io_context_def io_lift_def require_def
        store_open_def ensure_file_def fs_exists_def manifests_def db_read_def)
      (simp add: demo_env_def calm_calls)
qed

lemma demo_loads:
  assumes "calm fs" and "demo_files (files fs)"
  shows "load_or_create demo_crypto demo_contracts demo_signing ''k'' ''net'' VaultPlane sk fs =
    (Inr (sv_identity demo_service), io_call (io_call fs))"
proof -
  have "trim (bytes_str (str_bytes (demo_hex_encode (replicate 32 8)) @ [10])) = demo_hex_encode (replicate 32 8)"
    using trim_line [of "demo_hex_encode (replicate 32 8)"] bytes_str_inverse [of "demo_hex_encode (replicate 32 8)"] hex_not_space
      demo_hex_encode_digits [of "replicate 32 8"]
    by (auto simp: bytes_str_def newline_char)
  moreover have "utf8_valid (str_bytes (demo_hex_encode (replicate 32 8)) @ [10])"
    using key_file_utf8 [OF demo_crypto_ok, of "replicate 32 8"] by (simp add: demo_crypto_def)
  moreover have "hex_decode demo_crypto (demo_hex_encode b) = Some b" for b by (simp add: demo_crypto_def demo_hex_roundtrip)
  ultimately show ?thesis
    using assms
    by (simp add: load_or_create_def calm_calls demo_files_def fs_exists_def fs_read_to_string_def)
qed

lemma demo_boots: "\<exists>l. bootstrap_local_lifecycle lifecycle_default = (Inr (), l) \<and> lifecycle_index (lc_state l) < 7"
  by (simp add: lifecycle_default_def advance_def)

lemma demo_saves:
  assumes "calm fs"
  shows "\<exists>fs'. lifecycle_save (ne_lifecycle_codec demo_env) p fs l = (Inr (), fs') \<and> calm fs' \<and>
    (\<forall>q. q \<noteq> p \<longrightarrow> q \<noteq> temporary_path p \<longrightarrow> files fs' q = files fs q)"
proof -
  obtain r fs' where run: "lifecycle_save (ne_lifecycle_codec demo_env) p fs l = (r, fs')" by force
  then have "r = Inr () \<and> calm fs'"
    using assms
    by (cases "has_parent p") (auto simp: lifecycle_save_def ensure_parent_def fs_create_dir_all_def replace_file_def
        fs_write_def fs_rename_def fault_now_def io_call_def demo_env_def calm_def)
  then show ?thesis using run lifecycle_save_frame [of _ p "ne_lifecycle_codec demo_env" fs l] by auto
qed

lemma demo_lifecycle_loads:
  assumes "calm fs"
  shows "\<exists>fs'. lifecycle_load (ne_lifecycle_codec demo_env) p fs = (Inr lifecycle_default, fs') \<and> calm fs' \<and> files fs' = files fs"
  using assms by (auto simp: lifecycle_load_def calm_calls fs_exists_def demo_env_def)

definition demo_client :: http_client where
  "demo_client = client_builder\<lparr>hc_proxy := Some ''socks5h://tor:9050'', https_only := True, hc_identity := Some [], root_certificates := [[]]\<rparr>"

lemma demo_connects:
  assumes "calm fs" and "demo_files (files fs)"
  shows "\<exists>fs'. discovery_client demo_libs demo_env (demo_config\<lparr>genesis_endpoints := g\<rparr>) fs =
    (Inr (if g = [] then None else Some demo_client), fs') \<and> calm fs' \<and> files fs' = files fs"
proof (cases "g = []")
  case True
  then show ?thesis
    using assms
    by (simp add: discovery_client_def discovery_configured_def authenticated_count_def db_read_def demo_config_def calm_calls
        demo_files_def) (simp add: demo_env_def calm_calls)
next
  case False
  then show ?thesis
    using assms
    by (simp add: discovery_client_def discovery_configured_def demo_config_def calm_calls demo_files_def io_context_def io_lift_def
        demo_libs_def new_mtls_def require_def starts_with_def socks5h_def transport_def demo_client_def Let_def)
qed

lemma demo_starts:
  assumes "calm fs" and "demo_files (files fs)"
  shows "\<exists>p fs'. start_node demo_libs demo_env (demo_config\<lparr>genesis_endpoints := g\<rparr>) sk fs = (Inr p, fs') \<and>
    np_client p = (if g = [] then None else Some demo_client) \<and> demo_files (files fs') \<and> calm fs' \<and>
    sv_fs (np_service p) = fs' \<and> sv_endpoint (np_service p) = demo_host \<and> sv_membership (np_service p) = demo_verifier \<and>
    sv_peer_store (np_service p) = ''r'' \<and> stage (np_service p) < 7"
proof -
  let ?cfg = "demo_config\<lparr>genesis_endpoints := g\<rparr>"
  obtain fs1 where 1: "open_membership demo_libs demo_env ?cfg fs = (Inr (demo_bundle, demo_verifier), fs1)"
      "calm fs1" "files fs1 = files fs" using demo_opens [OF assms] by blast
  let ?fs2 = "io_call (io_call fs1)"
  have 2: "load_or_create demo_crypto demo_contracts demo_signing ''k'' ''net'' VaultPlane sk fs1 = (Inr (sv_identity demo_service), ?fs2)"
      "calm ?fs2" "files ?fs2 = files fs"
    using demo_loads [of fs1 sk] 1 assms(2) by (simp_all add: calm_calls)
  obtain fs3 where 3: "lifecycle_load (ne_lifecycle_codec demo_env) (lifecycle_path ?cfg) ?fs2 = (Inr lifecycle_default, fs3)"
      "calm fs3" "files fs3 = files fs" using demo_lifecycle_loads [OF 2(2)] 2(3) by metis
  obtain l where l: "bootstrap_local_lifecycle lifecycle_default = (Inr (), l)" "lifecycle_index (lc_state l) < 7" using demo_boots by blast
  obtain fs4 where 4: "lifecycle_save (ne_lifecycle_codec demo_env) (lifecycle_path ?cfg) fs3 l = (Inr (), fs4)" "calm fs4"
      "\<forall>q. q \<noteq> lifecycle_path ?cfg \<longrightarrow> q \<noteq> temporary_path (lifecycle_path ?cfg) \<longrightarrow> files fs4 q = files fs q"
    using demo_saves [OF 3(2)] 3(3) by metis
  have files4: "demo_files (files fs4)"
    using assms(2) 4(3)
    by (simp add: demo_files_def lifecycle_path_def demo_config_def db_path_def temporary_path_def tmp_suffix_def
        peers_db_def endpoints_db_def successful_connections_db_def membership_manifests_db_def)
  obtain s where 5: "service_new demo_env (sv_identity demo_service) demo_host VaultPlane demo_verifier ''r'' (lifecycle_path ?cfg)
      30000 90000 ?fs2 = (Inr s, fs4)" "sv_lifecycle s = l"
    using 3(1) l(1) 4(1) by (simp add: service_new_def demo_host_ok del: bootstrap_local_lifecycle.simps)
  obtain fs5 where 6: "discovery_client demo_libs demo_env ?cfg fs4 = (Inr (if g = [] then None else Some demo_client), fs5)"
      "calm fs5" "files fs5 = files fs4" using demo_connects [OF 4(2) files4] by blast
  have "\<exists>t fs6. tls_config demo_libs ''c'' ''c'' ''c'' fs5 = (Inr t, fs6) \<and> files fs6 = files fs4 \<and> calm fs6"
    using files4 6(2,3) by (simp add: tls_config_def io_context_def io_lift_def calm_calls demo_files_def demo_libs_def)
  then obtain t fs6 where 7: "tls_config demo_libs ''c'' ''c'' ''c'' fs5 = (Inr t, fs6)" "files fs6 = files fs4" "calm fs6" by blast
  have "start_node demo_libs demo_env ?cfg sk fs =
      (Inr \<lparr>np_service = s\<lparr>sv_fs := fs6\<rparr>, np_client = (if g = [] then None else Some demo_client)\<rparr>, fs6)"
    using 1(1) 2(1) 5(1) 6 7 unfolding start_node_def by (simp add: demo_config_def)
  then show ?thesis using service_new_ok [OF 5(1)] files4 7 5(2) l(2) by simp
qed

theorem restart_keeps_membership_witness:
  "\<exists>p p' fs fs1 fs3. start_node demo_libs demo_env demo_config [] fs = (Inr p, fs1) \<and>
     start_node demo_libs demo_env demo_config [] (fs1\<lparr>io_faults := \<lambda>_. None\<rparr>) = (Inr p', fs3) \<and>
     sv_membership (np_service p') = sv_membership (fst (process_run (pl_reqwest demo_libs) demo_env demo_wire demo_config (np_client p)
       [PrRequest [] 5 HttpGet ''/v1/readiness'' None] (np_service p, ())))"
proof -
  obtain p fs1 where 1: "start_node demo_libs demo_env demo_config [] demo_disk = (Inr p, fs1)" "demo_files (files fs1)"
    using demo_starts [OF demo_disk_ok, of "[]" "[]"] by (auto simp: demo_config_same)
  let ?run = "process_run (pl_reqwest demo_libs) demo_env demo_wire demo_config (np_client p)
       [PrRequest [] 5 HttpGet ''/v1/readiness'' None] (np_service p, ())"
  have key: "identity_key demo_config \<noteq> config_manifests demo_config"
    by (simp add: demo_config_def config_manifests_def db_path_def membership_manifests_db_def)
  have "fst ?run = expire_peers (np_service p) 5"
    by (simp add: process_run_def router_def readiness_response_def service_readiness_def Let_def)
  then have fs1: "sv_fs (fst ?run) = fs1" using start_node_ok [OF 1(1) key] by (auto simp: expire_peers_def)
  obtain p' fs3 where 2: "start_node demo_libs demo_env demo_config [] (fs1\<lparr>io_faults := \<lambda>_. None\<rparr>) = (Inr p', fs3)"
    using demo_starts [of "fs1\<lparr>io_faults := \<lambda>_. None\<rparr>" "[]" "[]"] 1(2) by (auto simp: calm_def demo_config_same)
  have "sv_membership (np_service p') = sv_membership (fst ?run)"
  proof (rule restart_keeps_membership [OF _ key 1(1) refl _ _ 2])
    show "codec_ok (manifests_codec (ne_codecs demo_env))" by (auto simp: codec_ok_def demo_env_def)
    show "files (fs1\<lparr>io_faults := \<lambda>_. None\<rparr>) (genesis_bundle demo_config) = files demo_disk (genesis_bundle demo_config)"
      using 1(2) demo_disk_ok(2) by (simp add: demo_config_def demo_files_def)
  qed (simp add: fs1)
  then show ?thesis using 1(1) 2 by blast
qed

section \<open>Staying on Tor\<close>

context traffic
begin

lemma try_candidate_keeps:
  assumes "\<And>rq. tor_request (ne_contracts en) cl rq \<Longrightarrow> allowed cl rq" and "tor_client cl" and "I n"
    and "try_candidate h en w cl ob inp ep s n = (r, t, n')"
  shows "I n'"
proof -
  obtain now rb later where inp: "inp = (now, rb, later)" by (cases inp)
  note fetch = fetch_manifest_keeps [OF assms(1,2)] and talk = exchange_keeps [OF assms(1,2)]
  show ?thesis
  proof (cases ob)
    case True
    then have "n' = snd (fetch_manifest h (ne_contracts en) w cl ep n)"
      using assms(4) by (auto simp: try_candidate_def inp split: prod.splits sum.splits)
    then show ?thesis using fetch assms(3) by simp
  next
    case False
    let ?x = "exchange h (ne_crypto en) (ne_contracts en) (ne_signing en) w cl ep (sv_identity s) (sv_endpoint s)
      (fst (issue_challenge en s rb now)) now n"
    have "n' = snd ?x \<or> n' = snd (fetch_manifest h (ne_contracts en) w cl ep (snd ?x))"
      using assms(4) False by (auto simp: try_candidate_def inp split: prod.splits sum.splits)
    then show ?thesis using fetch talk assms(3) by blast
  qed
qed

lemma try_candidates_keeps:
  assumes "\<And>rq. tor_request (ne_contracts en) cl rq \<Longrightarrow> allowed cl rq" and "tor_client cl" and "I n"
  shows "I (snd (try_candidates h en w cl ob inp i cs s n))"
  using assms(3)
proof (induction cs arbitrary: i s n)
  case (Cons c cs)
  obtain r s1 n1 where t: "try_candidate h en w cl ob (inp i) (er_endpoint c) s n = (r, s1, n1)" by (metis prod_cases3)
  then show ?case using Cons try_candidate_keeps [OF assms(1,2) Cons.prems t] by simp
qed simp

lemma process_run_keeps:
  assumes "\<And>cl rq. client = Some cl \<Longrightarrow> tor_request (ne_contracts en) cl rq \<Longrightarrow> allowed cl rq"
    and "\<And>cl. client = Some cl \<Longrightarrow> tor_client cl" and "I n"
  shows "I (snd (process_run h en w cfg client evs (s, n)))"
  using assms(3)
proof (induction evs arbitrary: s n)
  case (Cons ev evs)
  obtain s1 n1 where step: "process_step h en w cfg client ev (s, n) = (s1, n1)" by force
  have "I n1"
  proof (cases ev)
    case (PrRound inp)
    show ?thesis
    proof (cases client)
      case (Some cl)
      have "I (snd (discovery_round h en (nw_codecs w) cl cfg inp s n))"
        unfolding discovery_round_def
        using try_candidates_keeps [OF assms(1) assms(2), OF Some _ Some Cons.prems] Cons.prems
        by (auto split: prod.splits sum.splits)
      then show ?thesis using step PrRound Some by simp
    qed (use step PrRound Cons.prems in simp)
  qed (use step Cons.prems in simp)
  then show ?case using step Cons.IH by (simp add: process_run_def)
qed (simp add: process_run_def)

end

lemma started_client:
  assumes "start_node lb en cfg secret fs = (Inr p, fs1)" and "np_client p = Some cl"
  shows "tor_client cl \<and> hc_proxy cl = Some (socks_proxy cfg)"
proof -
  from assms obtain fs3 fs4 where "discovery_client lb en cfg fs3 = (Inr (Some cl), fs4)"
    by (auto simp: start_node_def result_simps)
  then obtain i ca where "new_mtls (pl_reqwest lb) (socks_proxy cfg) i ca = Inr cl"
    by (auto simp: discovery_client_def result_simps split: if_splits)
  then show ?thesis by (rule new_mtls_tor)
qed

text \<open>
  C19. Discovery speaks through Tor, to onion services first. Whatever environment, disk and
  network a node runs on, every request that its discovery task hands to the HTTP library, in
  any number of rounds between any requests the node serves, goes through the configured proxy,
  whose address starts with \<open>socks5h://\<close>, so that names are resolved behind it; it is sent by a
  client that speaks HTTPS only, with a client certificate and a pinned authority; and it
  addresses one of the three discovery paths of an HTTPS endpoint that is an onion service. The
  library follows redirects, up to ten in a row; as it documents them, they too go by HTTPS only,
  with the same client and so through the same proxy. Nothing restricts the hosts they lead to:
  a peer may send the client to a host that is no onion service.
\<close>

theorem discovery_stays_on_tor:
  assumes "start_node lb en cfg secret fs = (Inr p, fs1)" and "redirects_documented h"
    and "process_run (recording h) en w cfg (np_client p) evs (np_service p, (n, [])) = (s, (n', log))"
  shows "\<forall>(cl, rq, rs) \<in> set log. hc_proxy cl = Some (socks_proxy cfg) \<and> tor_request (ne_contracts en) cl rq \<and>
    length rs \<le> 10 \<and> (\<forall>r \<in> set rs. starts_with ''https://'' (hq_url r))"
proof -
  let ?allowed = "\<lambda>cl rq. hc_proxy cl = Some (socks_proxy cfg) \<and> tor_request (ne_contracts en) cl rq"
  have "case snd (process_run (recording h) en w cfg (np_client p) evs (np_service p, (n, []))) of
      (n', log) \<Rightarrow> \<forall>(cl, rq, rs) \<in> set log. ?allowed cl rq \<and> (\<exists>m. rs = redirects h cl rq m)"
    by (rule recorded.process_run_keeps [where allowed = ?allowed]) (use started_client [OF assms(1)] in auto)
  then have log: "\<forall>(cl, rq, rs) \<in> set log. ?allowed cl rq \<and> (\<exists>m. rs = redirects h cl rq m)"
    using assms(3) by simp
  have "length rs \<le> 10 \<and> (\<forall>r \<in> set rs. starts_with ''https://'' (hq_url r))" if "(cl, rq, rs) \<in> set log" for cl rq rs
  proof -
    from log that obtain m where "tor_client cl" "rs = redirects h cl rq m" by (auto simp: tor_request_def)
    then show ?thesis using tor_client_redirects [OF assms(2)] by blast
  qed
  with log show ?thesis by blast
qed

text \<open>A library on which every peer sends the client on to a host outside Tor.\<close>

definition demo_redirecting :: "unit reqwest" where
  "demo_redirecting = (pl_reqwest demo_libs)\<lparr>redirects := (\<lambda>cl rq n.
     case hc_redirects cl of LimitedRedirects (Suc _) \<Rightarrow> [http_get ''https://example.com/''] | _ \<Rightarrow> [])\<rparr>"

lemma demo_redirecting_documented: "redirects_documented demo_redirecting"
  by (auto simp: redirects_documented_def demo_redirecting_def http_get_def starts_with_def
      split: redirect_policy.splits nat.splits)

theorem discovery_stays_on_tor_witness:
  "\<exists>p fs fs1 s log.
     start_node demo_libs demo_env (demo_config\<lparr>genesis_endpoints := [demo_endpoint ''a'']\<rparr>) [] fs = (Inr p, fs1) \<and>
     process_run (recording demo_redirecting) demo_env demo_wire (demo_config\<lparr>genesis_endpoints := [demo_endpoint ''a'']\<rparr>)
       (np_client p) [PrRound (\<lambda>_. (5, [1], 6))] (np_service p, ((), [])) = (s, ((), log)) \<and>
     log \<noteq> [] \<and> (\<forall>(cl, rq, rs) \<in> set log. hc_proxy cl = Some ''socks5h://tor:9050'' \<and> tor_request demo_contracts cl rq \<and>
       rs = [http_get ''https://example.com/''])"
proof -
  let ?cfg = "demo_config\<lparr>genesis_endpoints := [demo_endpoint ''a'']\<rparr>"
  obtain p fs1 where 1: "start_node demo_libs demo_env ?cfg [] demo_disk = (Inr p, fs1)" "np_client p = Some demo_client"
      "demo_files (files fs1)" "calm fs1" "sv_fs (np_service p) = fs1" "sv_endpoint (np_service p) = demo_host"
      "sv_membership (np_service p) = demo_verifier" "sv_peer_store (np_service p) = ''r''"
    using demo_starts [OF demo_disk_ok, of "[demo_endpoint ''a'']" "[]"] by auto
  obtain s n log where run: "process_run (recording demo_redirecting) demo_env demo_wire ?cfg
       (np_client p) [PrRound (\<lambda>_. (5, [1], 6))] (np_service p, ((), [])) = (s, (n, log))" by (metis prod.exhaust)
  have "fst (discovery_candidates demo_env (np_service p) [demo_endpoint ''a''] []) = Inr [demo_endpoint ''a'']"
    using 1(3-8)
    by (simp add: discovery_candidates_def authenticated_endpoints_def ordered_candidates_def db_read_def calm_calls demo_files_def
        service_current_manifest_def)
      (simp add: demo_env_def demo_verifier_def all_candidates_def newest_first_def manifest_candidates_def map_filter_simps
        deduplicate_valid_def demo_endpoint_def demo_host_ok calm_calls)
  then obtain s1 where "discovery_candidates demo_env (np_service p) [demo_endpoint ''a''] [] = (Inr [demo_endpoint ''a''], s1)"
      "sv_endpoint s1 = demo_host"
    using discovery_candidates_state [of demo_env "np_service p" "[demo_endpoint ''a'']" "[]"] 1(6) by (cases "discovery_candidates demo_env (np_service p) [demo_endpoint ''a''] []") auto
  then have "log \<noteq> [] \<and> (\<forall>(cl, rq, rs) \<in> set log. rs = [http_get ''https://example.com/''])"
    using run 1(2)
    by (auto simp: process_run_def discovery_round_def demo_config_def try_candidate_def demo_endpoint_def exchange_def demo_host_ok
        fetch_json_def recording_def demo_redirecting_def demo_libs_def demo_client_def client_builder_def issue_challenge_def
        issue_def Let_def)
  moreover have "\<forall>(cl, rq, rs) \<in> set log. hc_proxy cl = Some ''socks5h://tor:9050'' \<and> tor_request demo_contracts cl rq"
    using discovery_stays_on_tor [OF 1(1) demo_redirecting_documented run] by (auto simp: demo_config_def)
  ultimately show ?thesis using 1(1) run by (intro exI [of _ p] exI [of _ demo_disk] exI [of _ fs1] exI [of _ s] exI [of _ log]) auto
qed

end
