(* ===== verification/Keygen.thy ===== *)
theory Keygen
  imports Identity Process_Env
begin

text \<open>
  The key generator (\<open>kerosene-node/src/bin/kerosene-node-keygen.rs\<close>): it creates the key file of
  a node ahead of its first start, or reads an existing one, and prints the public part of the
  identity. Arguments are byte strings. The printer of JSON and the lossy display of a path are
  parameters. The theorem: what it prints is the identity that the node later loads.
\<close>

section \<open>The program\<close>

datatype keygen_error = KgError anyhow_error | KgPanic string

record keygen_report =
  kg_network_id :: string
  kg_member_id :: string
  kg_root_public_key :: string
  kg_identity_key_path :: string

record keygen_env =
  ke_crypto :: crypto
  ke_contracts :: contracts
  ke_signing :: signing
  path_display :: "bytes \<Rightarrow> string"
  report_pretty :: "keygen_report \<Rightarrow> string + string"

definition keygen_usage :: "keygen_env \<Rightarrow> bytes option \<Rightarrow> keygen_error" where
  "keygen_usage en program =
     KgError (Anyhow (''usage: '' @ path_display en (unwrap_or program (str_bytes ''kerosene-node-keygen'')) @ '' <network-id> <identity-key-path>''))"

text \<open>The network and the path of the command line \<open>args\<close>, the name of the program first.\<close>

definition keygen_args :: "keygen_env \<Rightarrow> bytes list \<Rightarrow> keygen_error + string \<times> bytes" where
  "keygen_args en args =
     (case args of
        [] \<Rightarrow> Inl (keygen_usage en None)
      | [program] \<Rightarrow> Inl (keygen_usage en (Some program))
      | [program, network_id] \<Rightarrow> Inl (keygen_usage en (Some program))
      | program # network_id # path # rest \<Rightarrow>
          if rest \<noteq> [] then Inl (KgError (Anyhow ''unexpected extra arguments''))
          else if \<not> utf8_valid network_id then Inl (KgError (Anyhow ''network ID must be valid UTF-8''))
          else Inr (bytes_str network_id, path))"

text \<open>The value that is printed; \<open>json!\<close> panics on a path that is not UTF-8.\<close>

definition report_of :: "keygen_env \<Rightarrow> node_identity \<Rightarrow> bytes \<Rightarrow> keygen_error + keygen_report" where
  "report_of en i path =
     (if utf8_valid path
      then Inr \<lparr>kg_network_id = ni_network_id i, kg_member_id = ni_member_id i,
                kg_root_public_key = root_public_key_hex (ke_crypto en) (ke_signing en) i, kg_identity_key_path = bytes_str path\<rparr>
      else Inl (KgPanic ''path contains invalid UTF-8 characters''))"

definition keygen_identity ::
    "keygen_env \<Rightarrow> bytes \<Rightarrow> bytes list \<Rightarrow> file_system \<Rightarrow> (keygen_error + keygen_report) \<times> file_system" where
  "keygen_identity en random_secret args fs =
     io_bind (io_lift (keygen_args en args) fs) (\<lambda>(network, path) fs.
     io_bind (map_err (\<lambda>e. KgError (Context (''failed to load or create identity at '' @ path_display en path) (Anyhow (identity_error_display e))))
         (load_or_create (ke_crypto en) (ke_contracts en) (ke_signing en) (bytes_str path) network BankPlane random_secret fs)) (\<lambda>i fs1.
     io_lift (report_of en i path) fs1))"

definition keygen_main ::
    "keygen_env \<Rightarrow> bytes \<Rightarrow> bytes list \<Rightarrow> file_system \<Rightarrow> (keygen_error + string) \<times> file_system" where
  "keygen_main en random_secret args fs =
     io_bind (keygen_identity en random_secret args fs) (\<lambda>report fs1.
     (case report_pretty en report of Inl e \<Rightarrow> (Inl (KgError (Anyhow e)), fs1) | Inr line \<Rightarrow> (Inr line, fs1)))"

section \<open>The printed identity\<close>

lemma keygen_args_ok:
  "keygen_args en args = Inr (network, path) \<longleftrightarrow>
     (\<exists>program network_id. args = [program, network_id, path] \<and> utf8_valid network_id \<and> network = bytes_str network_id)"
  by (auto simp: keygen_args_def split: list.splits if_splits)

text \<open>What is loaded, whoever loads it, comes from the file at the path.\<close>

lemma load_from_file:
  assumes "load_or_create c k g path network plane secret fs = (Inr i, fs')" and "fs_exists fs path"
  shows "\<exists>b sk. files fs path = Some b \<and> hex_decode c (trim (bytes_str b)) = Some sk \<and> i = from_secret k g network plane sk \<and>
    files fs' = files fs"
proof -
  obtain r fs1 where r: "fs_read_to_string (io_call fs) path = (r, fs1)" by force
  have "files fs1 = files fs" using fs_read_to_string_files [of "io_call fs" path] r by simp
  moreover from r have "r = Inr s \<Longrightarrow> \<exists>b. files fs path = Some b \<and> s = bytes_str b" for s
    by (auto simp: fs_read_to_string_def fs_read_def io_call_def split: option.splits if_splits)
  ultimately show ?thesis
    using assms r by (cases r) (auto simp: load_or_create_def split: option.splits if_splits)
qed

lemma from_secret_public:
  "ni_member_id (from_secret k g network plane sk) = contract_member_id k network (verifying_key g sk)"
  "root_public_key_hex c g (from_secret k g network plane sk) = hex_encode c (verifying_key g sk)"
  "ni_network_id (from_secret k g network plane sk) = network"
  by (simp_all add: from_secret_def from_signing_key_def root_public_key_hex_def)

text \<open>
  C39. The key generator prints the identity that the node will have. If it prints a report, then
  whoever later loads an identity of that network from a file with the contents it left, on
  either plane and whatever secret is drawn meanwhile, gets the printed member identifier and
  the printed public key, and the file stays as it is.
\<close>

theorem keygen_report_exact:
  assumes "crypto_ok (ke_crypto en)" and "keygen_identity en secret args fs = (Inr report, fs1)"
    and "files fs2 (kg_identity_key_path report) = files fs1 (kg_identity_key_path report)"
    and "load_or_create (ke_crypto en) (ke_contracts en) (ke_signing en) (kg_identity_key_path report) (kg_network_id report) plane other fs2 =
      (Inr i, fs3)"
  shows "ni_member_id i = kg_member_id report \<and>
    root_public_key_hex (ke_crypto en) (ke_signing en) i = kg_root_public_key report \<and> files fs3 = files fs2"
proof -
  let ?load = "load_or_create (ke_crypto en) (ke_contracts en) (ke_signing en)" and ?p = "kg_identity_key_path report"
  obtain network path j where run: "?load (bytes_str path) network BankPlane secret fs = (Inr j, fs1)" "report_of en j path = Inr report"
    using assms(2) by (auto simp: keygen_identity_def result_simps)
  have rep: "?p = bytes_str path" "kg_member_id report = ni_member_id j" "kg_network_id report = ni_network_id j"
      "kg_root_public_key report = root_public_key_hex (ke_crypto en) (ke_signing en) j"
    using run(2) by (auto simp: report_of_def split: if_splits)
  obtain b sk where kf: "files fs1 ?p = Some b" "hex_decode (ke_crypto en) (trim (bytes_str b)) = Some sk"
      "j = from_secret (ke_contracts en) (ke_signing en) network BankPlane sk"
  proof (cases "fs_exists fs (bytes_str path)")
    case True
    then show ?thesis using load_from_file [OF run(1)] that by (auto simp: rep(1))
  next
    case False
    then show ?thesis
      using load_creates [OF False run(1)] key_file_text [OF assms(1)] that by (simp add: rep(1) generate_def from_secret_def)
  qed
  have "fs_exists fs2 ?p" using kf(1) assms(3) by (simp add: fs_exists_def)
  then have "i = from_secret (ke_contracts en) (ke_signing en) (kg_network_id report) plane sk \<and> files fs3 = files fs2"
    using load_from_file [OF assms(4)] kf(1,2) assms(3) by auto
  then show ?thesis using rep kf(3) by (simp add: from_secret_public)
qed

definition demo_keygen :: keygen_env where
  "demo_keygen = \<lparr>ke_crypto = demo_sign_crypto, ke_contracts = demo_hello_contracts, ke_signing = demo_signing,
     path_display = bytes_str, report_pretty = (\<lambda>r. Inr (kg_member_id r))\<rparr>"

theorem keygen_report_exact_witness:
  "\<exists>report fs1 i fs3. keygen_identity demo_keygen (replicate 32 7) [[], str_bytes ''net'', str_bytes ''key''] (demo_fs {}) = (Inr report, fs1) \<and>
     load_or_create demo_sign_crypto demo_hello_contracts demo_signing ''key'' ''net'' VaultPlane (replicate 32 9) fs1 = (Inr i, fs3) \<and>
     ni_member_id i = kg_member_id report"
proof -
  let ?i = "from_secret demo_hello_contracts demo_signing ''net''" and ?key = "str_bytes (demo_hex_encode (replicate 32 7)) @ [10]"
  have txts: "utf8_valid (str_bytes ''net'')" "utf8_valid (str_bytes ''key'')" "bytes_str (str_bytes ''net'') = ''net''" "bytes_str (str_bytes ''key'') = ''key''"
    by (intro utf8_valid_ascii, simp add: str_bytes_def)+ (rule bytes_str_inverse)+
  obtain fs1 where 1: "load_or_create demo_sign_crypto demo_hello_contracts demo_signing ''key'' ''net'' BankPlane (replicate 32 7) (demo_fs {}) =
      (Inr (?i BankPlane (replicate 32 7)), fs1)" "io_faults fs1 = (\<lambda>n. None)"
    by (simp add: load_or_create_def fault_now_def demo_fs_def fs_exists_def ensure_parent_def has_parent_def
        fs_create_dir_all_def create_key_file_def fs_create_new_def fs_append_def fs_sync_all_def io_call_def Let_def
        generate_def from_secret_def from_signing_key_def)
  have "\<not> fs_exists (demo_fs {}) ''key''" by (simp add: fs_exists_def demo_fs_def)
  from load_creates [OF this 1(1)] have kf: "files fs1 ''key'' = Some (str_bytes (hex_encode demo_sign_crypto (replicate 32 7)) @ [10])" by blast
  let ?load = "load_or_create demo_sign_crypto demo_hello_contracts demo_signing ''key'' ''net'' VaultPlane (replicate 32 9) fs1"
  have "fst ?load = Inr (?i VaultPlane (replicate 32 7))"
    by (rule load_reads [OF kf]) (simp_all add: 1(2) key_file_utf8 [OF demo_signing_ok(1)] key_file_text [OF demo_signing_ok(1)])
  then obtain fs3 where 2: "?load = (Inr (?i VaultPlane (replicate 32 7)), fs3)" by (metis prod.collapse)
  let ?report = "\<lparr>kg_network_id = ''net'', kg_member_id = ni_member_id (?i BankPlane (replicate 32 7)),
      kg_root_public_key = root_public_key_hex demo_sign_crypto demo_signing (?i BankPlane (replicate 32 7)), kg_identity_key_path = ''key''\<rparr>"
  have run: "keygen_identity demo_keygen (replicate 32 7) [[], str_bytes ''net'', str_bytes ''key''] (demo_fs {}) = (Inr ?report, fs1)"
    using 1(1) txts
    by (simp add: keygen_identity_def keygen_args_def io_lift_def demo_keygen_def report_of_def from_secret_public)
  have "ke_crypto demo_keygen = demo_sign_crypto" "ke_contracts demo_keygen = demo_hello_contracts" "ke_signing demo_keygen = demo_signing"
    by (simp_all add: demo_keygen_def)
  then have "ni_member_id (?i VaultPlane (replicate 32 7)) = kg_member_id ?report"
    using keygen_report_exact [of demo_keygen, OF _ run refl] 2 demo_signing_ok(1) by simp
  with run 2 show ?thesis by blast
qed

end
