(* ===== verification/Rsctl.thy ===== *)
theory Rsctl
  imports Http_Client Process_Env Discovery "HOL-Library.List_Lexorder" "HOL-Library.Char_ord"
begin

text \<open>
  The administration client (\<open>kerosene-rsctl/src/main.rs\<close>): profiles, the HTTP client it builds,
  the checks on credential files, and the membership ceremony (create, sign, assemble, verify,
  publish). The parsers of the command line, of TOML and of JSON, the HTTP library and the file
  metadata are parameters. The theorems: what a successful ceremony produces is accepted by the
  verifier, no run overwrites a file, and a client is never half secured.
\<close>

unbundle bit_operations_syntax

section \<open>Commands\<close>

datatype json =
    JNull
  | JBool bool
  | JNumber nat
  | JString string
  | JObject "(string \<times> json) list"

datatype output_format = OutText | OutJson | OutJsonPretty

record profile =
  pr_node_endpoint :: "string option"
  pr_vault_endpoint :: "string option"
  pr_identity_file :: "string option"
  pr_ca_file :: "string option"
  pr_socks5h :: "string option"
  pr_vault_socket :: "string option"

record create_manifest =
  ca_network :: string
  ca_plane :: discovery_plane
  ca_epoch :: u64
  ca_threshold :: u16
  ca_members :: string
  ca_output :: string
  ca_joint :: bool
  ca_previous_manifest_hash :: string
  ca_next_epoch :: "u64 option"

record sign_manifest =
  sa_manifest :: string
  sa_identity :: string
  sa_output :: string

record assemble_manifest =
  am_manifest :: string
  signed_manifests :: "string list"
  am_output :: string

record verify_manifest =
  va_manifest :: string
  va_trust_bundle :: string

record publish_manifest =
  pa_manifest :: string
  pa_endpoint :: string
  pa_identity_pem :: string
  pa_ca :: string
  pa_socks5h :: "string option"

datatype membership_command =
    McCreate create_manifest
  | McSign sign_manifest
  | McAssemble assemble_manifest
  | McVerify verify_manifest
  | McPublish publish_manifest

datatype rsctl_command =
    NodeStatus | NodePeers | NodeMembershipList
  | VaultStatus | VaultHealth | VaultCeremonyInspect
  | QuorumStatus
  | Membership membership_command
  | ArtifactVerify string "string option"
  | CompatibilityCheck
  | Doctor

record cli =
  cl_output :: output_format
  cl_timeout :: u64
  cl_endpoint :: "string option"
  cl_profile :: "string option"
  cl_identity_pem :: "string option"
  cl_ca :: "string option"
  cl_socks5h :: "string option"
  cl_unix_socket :: "string option"
  cl_request_id :: "string option"
  cl_verbose :: bool
  cl_command :: rsctl_command

text \<open>Metadata of a file: whether it is a regular file, and its permission bits.\<close>

record file_metadata =
  md_is_file :: bool
  md_mode :: u32

record rsctl_env =
  rc_crypto :: crypto
  rc_contracts :: contracts
  rc_signing :: signing
  rc_members_codec :: "manifest_member list codec"
  rc_manifest_codec :: "membership_manifest codec"
  rc_wire_manifest_codec :: "membership_manifest codec"
  rc_bundle_codec :: "genesis_trust_bundle codec"
  rc_json_codec :: "json codec"
  rc_json_pretty :: "json \<Rightarrow> string + string"
  rc_json_compact :: "json \<Rightarrow> string + string"
  rc_hex_error :: "string \<Rightarrow> string"
  rc_metadata :: "string \<Rightarrow> string + file_metadata"
  rc_profiles :: "string \<Rightarrow> string + (string \<times> profile) list"
  rc_env_vars :: env_vars
  rc_process_id :: nat

section \<open>Files\<close>

definition ensure_private_file :: "rsctl_env \<Rightarrow> string \<Rightarrow> anyhow_error + unit" where
  "ensure_private_file en path =
     res_bind (lift_err id (rc_metadata en path)) (\<lambda>metadata.
     res_bind (require (md_is_file metadata) (Anyhow ''credential path must be a regular file'')) (\<lambda>_.
     require (\<not> (md_mode metadata AND 0x3F \<noteq> 0))
       (Anyhow ''credential file permissions must not grant group or other access'')))"

definition read_json :: "'a codec \<Rightarrow> string \<Rightarrow> file_system \<Rightarrow> (anyhow_error + 'a) \<times> file_system" where
  "read_json j path fs =
     io_bind (map_err (\<lambda>e. Context (''read '' @ path) (Anyhow e)) (fs_read fs path)) (\<lambda>b fs1.
     (with_context (''parse '' @ path) (from_slice j b), fs1))"

definition read_secret :: "rsctl_env \<Rightarrow> string \<Rightarrow> file_system \<Rightarrow> (anyhow_error + bytes) \<times> file_system" where
  "read_secret en path fs =
     io_bind (io_lift (ensure_private_file en path) fs) (\<lambda>_ fs.
     io_bind (map_err Anyhow (fs_read_to_string fs path)) (\<lambda>s fs1.
     (case hex_decode (rc_crypto en) (trim s) of
        None \<Rightarrow> (Inl (Anyhow (rc_hex_error en (trim s))), fs1)
      | Some b \<Rightarrow> if length b = 32 then (Inr b, fs1) else (Inl (Anyhow ''identity key must contain 32 bytes''), fs1))))"

definition write_private_json :: "'a codec \<Rightarrow> string \<Rightarrow> 'a \<Rightarrow> file_system \<Rightarrow> (anyhow_error + unit) \<times> file_system" where
  "write_private_json j path x fs =
     io_bind (io_lift (lift_err id (to_vec j x)) fs) (\<lambda>b fs.
     map_err Anyhow (io_bind (fs_create_new fs path) (\<lambda>_ fs1. fs_append fs1 path b)))"

definition artifact_verify :: "rsctl_env \<Rightarrow> string \<Rightarrow> string option \<Rightarrow> file_system \<Rightarrow> (anyhow_error + json) \<times> file_system" where
  "artifact_verify en path expected fs =
     io_bind (map_err Anyhow (fs_read fs path)) (\<lambda>b fs1.
     let digest = hex_encode (rc_crypto en) (sha256 (rc_crypto en) b) in
     if (case expected of None \<Rightarrow> False | Some v \<Rightarrow> \<not> eq_ignore_ascii_case v digest)
     then (Inl (Anyhow ''artifact SHA-256 mismatch''), fs1)
     else (Inr (JObject [(''valid'', JBool True), (''sha256'', JString digest), (''path'', JString path)]), fs1))"

section \<open>Settings\<close>

definition profile_char :: "char \<Rightarrow> bool" where
  "profile_char ch \<longleftrightarrow> (let n = of_char ch :: nat in
     48 \<le> n \<and> n \<le> 57 \<or> 65 \<le> n \<and> n \<le> 90 \<or> 97 \<le> n \<and> n \<le> 122 \<or> ch = CHR ''-'' \<or> ch = CHR ''_'')"

definition load_profile :: "rsctl_env \<Rightarrow> string option \<Rightarrow> file_system \<Rightarrow> (anyhow_error + profile option) \<times> file_system" where
  "load_profile en name fs =
     (case name of
        None \<Rightarrow> (Inr None, fs)
      | Some name \<Rightarrow>
     if name = [] \<or> \<not> list_all profile_char name then (Inl (Anyhow ''profile name contains unsupported characters''), fs)
     else
     io_bind (io_lift (ok_or (case rc_env_vars en ''KEROSENE_PROFILES_FILE'' of
           Some p \<Rightarrow> Some p
         | None \<Rightarrow> map_option (\<lambda>home. db_path home ''.config/kerosene/profiles.toml'') (rc_env_vars en ''HOME''))
         (Anyhow ''HOME or KEROSENE_PROFILES_FILE is required for --profile'')) fs) (\<lambda>path fs.
     io_bind (map_err (\<lambda>e. Context (''read '' @ path) (Anyhow e)) (fs_read_to_string fs path)) (\<lambda>text fs1.
     io_bind (io_lift (with_context (''parse '' @ path) (rc_profiles en text)) fs1) (\<lambda>profiles fs1.
     (case map_of profiles name of
        None \<Rightarrow> Inl (Anyhow (''profile '' @ name @ '' is absent from '' @ path))
      | Some p \<Rightarrow> Inr (Some p), fs1)))))"

definition endpoint_setting :: "env_vars \<Rightarrow> string option \<Rightarrow> string \<Rightarrow> string option \<Rightarrow> anyhow_error + string" where
  "endpoint_setting ev cli_value env_name profile_value =
     ok_or (non_blank (case cli_value of Some v \<Rightarrow> Some v | None \<Rightarrow>
         (case ev env_name of Some v \<Rightarrow> Some v | None \<Rightarrow> profile_value)))
       (Anyhow (''--endpoint, '' @ env_name @ '', or a profile endpoint is required''))"

definition request_id :: "rsctl_env \<Rightarrow> string option \<Rightarrow> string" where
  "request_id en value = unwrap_or value (''rsctl-'' @ show_nat (rc_process_id en))"

definition or_profile :: "string option \<Rightarrow> profile option \<Rightarrow> (profile \<Rightarrow> string option) \<Rightarrow> string option" where
  "or_profile value p field = (case value of Some v \<Rightarrow> Some v | None \<Rightarrow> (case p of None \<Rightarrow> None | Some q \<Rightarrow> field q))"

section \<open>The client\<close>

definition client_credentials ::
    "rsctl_env \<Rightarrow> 'n reqwest \<Rightarrow> string option \<Rightarrow> string option \<Rightarrow> http_client \<Rightarrow> file_system \<Rightarrow> (anyhow_error + http_client) \<times> file_system" where
  "client_credentials en h identity_pem ca builder fs =
     (case (identity_pem, ca) of
        (Some identity_path, Some ca_path) \<Rightarrow>
          io_bind (io_lift (ensure_private_file en identity_path) fs) (\<lambda>_ fs.
          io_bind (map_err Anyhow (fs_read fs identity_path)) (\<lambda>identity_bytes fs1.
          io_bind (io_lift (lift_err id (identity_from_pem h identity_bytes)) fs1) (\<lambda>_ fs1.
          io_bind (map_err Anyhow (fs_read fs1 ca_path)) (\<lambda>ca_bytes fs2.
          io_bind (io_lift (lift_err id (certificate_from_pem h ca_bytes)) fs2) (\<lambda>_ fs2.
          (Inr (builder\<lparr>https_only := True, hc_identity := Some identity_bytes, root_certificates := [ca_bytes]\<rparr>), fs2))))))
      | _ \<Rightarrow> (Inr builder, fs))"

definition admin_client ::
    "rsctl_env \<Rightarrow> 'n reqwest \<Rightarrow> u64 \<Rightarrow> string option \<Rightarrow> string option \<Rightarrow> string option \<Rightarrow> string option \<Rightarrow> file_system \<Rightarrow>
       (anyhow_error + http_client) \<times> file_system" where
  "admin_client en h timeout identity_pem ca socks unix_socket fs =
     io_bind (io_lift (require (\<not> (unix_socket \<noteq> None \<and> (identity_pem \<noteq> None \<or> ca \<noteq> None \<or> socks \<noteq> None)))
         (Anyhow ''Unix socket cannot be combined with mTLS or proxy options'')) fs) (\<lambda>_ fs.
     io_bind (io_lift (require (\<not> ((identity_pem \<noteq> None) \<noteq> (ca \<noteq> None)))
         (Anyhow ''--identity-pem and --ca must be provided together'')) fs) (\<lambda>_ fs.
     io_bind (client_credentials en h identity_pem ca (client_builder\<lparr>hc_timeout_secs := Some timeout\<rparr>) fs) (\<lambda>builder fs1.
     io_bind (io_lift (case socks of
         None \<Rightarrow> Inr builder
       | Some proxy \<Rightarrow>
           res_bind (require (starts_with ''socks5h://'' proxy) (Anyhow ''proxy must use socks5h:// so DNS is resolved through Tor'')) (\<lambda>_.
           res_bind (lift_err id (proxy_all h proxy)) (\<lambda>_. Inr (builder\<lparr>hc_proxy := Some proxy\<rparr>)))) fs1) (\<lambda>builder fs1.
     let client = (case unix_socket of None \<Rightarrow> builder | Some socket \<Rightarrow> builder\<lparr>hc_unix_socket := Some socket\<rparr>)
     in io_bind (io_lift (lift_err id (client_build h client)) fs1) (\<lambda>_ fs1. (Inr client, fs1))))))"

definition rsctl_get_json ::
    "rsctl_env \<Rightarrow> 'n reqwest \<Rightarrow> http_client \<Rightarrow> string \<Rightarrow> string \<Rightarrow> string \<Rightarrow> 'n \<Rightarrow> (anyhow_error + json) \<times> 'n" where
  "rsctl_get_json en h client base path rid n =
     map_err Anyhow (fetch_json h (rc_json_codec en) client
       ((http_get (trim_end (CHR ''/'') base @ path))\<lparr>hq_headers := [(''X-Request-Id'', rid)]\<rparr>) n)"

section \<open>The membership ceremony\<close>

definition proposed_manifest :: "rsctl_env \<Rightarrow> create_manifest \<Rightarrow> manifest_member list \<Rightarrow> membership_manifest" where
  "proposed_manifest en args members =
     \<lparr>mf_contract_version = contract_version (rc_contracts en), mf_network_id = ca_network args, mf_plane = ca_plane args,
      mf_epoch = ca_epoch args, mf_phase = (if ca_joint args then Joint else Stable),
      previous_manifest_hash = ca_previous_manifest_hash args, mf_threshold = ca_threshold args, mf_members = members,
      next_epoch = ca_next_epoch args, mf_signatures = []\<rparr>"

definition manifest_report :: "rsctl_env \<Rightarrow> string \<Rightarrow> membership_manifest \<Rightarrow> string \<Rightarrow> json" where
  "manifest_report en done_key m path =
     JObject [(done_key, JBool True), (''manifest_hash'', JString (canonical_hash (rc_contracts en) m)), (''path'', JString path)]"

definition membership_create :: "rsctl_env \<Rightarrow> create_manifest \<Rightarrow> file_system \<Rightarrow> (anyhow_error + json) \<times> file_system" where
  "membership_create en args fs =
     io_bind (read_json (rc_members_codec en) (ca_members args) fs) (\<lambda>members fs1.
     if members = [] then (Inl (Anyhow ''membership roster cannot be empty''), fs1)
     else
       let manifest = proposed_manifest en args members in
       io_bind (write_private_json (rc_manifest_codec en) (ca_output args) manifest fs1) (\<lambda>_ fs2.
       (Inr (manifest_report en ''created'' manifest (ca_output args)), fs2)))"

text \<open>\<open>retain\<close> the signatures of others and push one.\<close>

definition put_signature :: "manifest_signature \<Rightarrow> manifest_signature list \<Rightarrow> manifest_signature list" where
  "put_signature sig sigs = filter (\<lambda>existing. signer_id existing \<noteq> signer_id sig) sigs @ [sig]"

definition signature_by :: "rsctl_env \<Rightarrow> bytes \<Rightarrow> membership_manifest \<Rightarrow> manifest_signature" where
  "signature_by en secret m =
     \<lparr>signer_id = contract_member_id (rc_contracts en) (mf_network_id m) (verifying_key (rc_signing en) secret),
      ms_signature = hex_encode (rc_crypto en) (sign (rc_signing en) secret (manifest_signing_bytes (rc_contracts en) m))\<rparr>"

text \<open>The manifest is signed after the old signature of the signer was dropped.\<close>

definition sign_with :: "rsctl_env \<Rightarrow> bytes \<Rightarrow> membership_manifest \<Rightarrow> anyhow_error + membership_manifest" where
  "sign_with en secret m =
     (let sid = contract_member_id (rc_contracts en) (mf_network_id m) (verifying_key (rc_signing en) secret);
          kept = m\<lparr>mf_signatures := filter (\<lambda>s. signer_id s \<noteq> sid) (mf_signatures m)\<rparr> in
     res_bind (require (\<exists>member \<in> set (mf_members m). mm_member_id member = sid)
         (Anyhow ''signing identity is absent from the proposed roster'')) (\<lambda>_.
     Inr (kept\<lparr>mf_signatures := mf_signatures kept @ [signature_by en secret kept]\<rparr>)))"

definition membership_sign :: "rsctl_env \<Rightarrow> sign_manifest \<Rightarrow> file_system \<Rightarrow> (anyhow_error + json) \<times> file_system" where
  "membership_sign en args fs =
     io_bind (read_json (rc_manifest_codec en) (sa_manifest args) fs) (\<lambda>m fs1.
     io_bind (read_secret en (sa_identity args) fs1) (\<lambda>secret fs2.
     io_bind (io_lift (sign_with en secret m) fs2) (\<lambda>signed fs2.
     io_bind (write_private_json (rc_manifest_codec en) (sa_output args) signed fs2) (\<lambda>_ fs3.
     (Inr (manifest_report en ''signed'' signed (sa_output args)), fs3)))))"

fun collect_signed ::
    "rsctl_env \<Rightarrow> bytes \<Rightarrow> string list \<Rightarrow> manifest_signature list \<Rightarrow> file_system \<Rightarrow> (anyhow_error + manifest_signature list) \<times> file_system" where
  "collect_signed en expected [] sigs fs = (Inr sigs, fs)"
| "collect_signed en expected (path # paths) sigs fs =
     io_bind (read_json (rc_manifest_codec en) path fs) (\<lambda>signed fs1.
     if manifest_signing_bytes (rc_contracts en) signed \<noteq> expected
     then (Inl (Anyhow (''signed manifest '' @ path @ '' does not describe the same proposal'')), fs1)
     else collect_signed en expected paths (fold put_signature (mf_signatures signed) sigs) fs1)"

definition membership_assemble :: "rsctl_env \<Rightarrow> assemble_manifest \<Rightarrow> file_system \<Rightarrow> (anyhow_error + json) \<times> file_system" where
  "membership_assemble en args fs =
     io_bind (read_json (rc_manifest_codec en) (am_manifest args) fs) (\<lambda>m fs1.
     io_bind (collect_signed en (manifest_signing_bytes (rc_contracts en) m) (signed_manifests args) (mf_signatures m) fs1) (\<lambda>sigs fs2.
     let manifest = m\<lparr>mf_signatures := sort_key signer_id sigs\<rparr> in
     io_bind (write_private_json (rc_manifest_codec en) (am_output args) manifest fs2) (\<lambda>_ fs3.
     (Inr (JObject [(''assembled'', JBool True), (''signature_count'', JNumber (length (mf_signatures manifest))),
        (''manifest_hash'', JString (canonical_hash (rc_contracts en) manifest)), (''path'', JString (am_output args))]), fs3))))"

definition membership_verify :: "rsctl_env \<Rightarrow> verify_manifest \<Rightarrow> file_system \<Rightarrow> (anyhow_error + json) \<times> file_system" where
  "membership_verify en args fs =
     io_bind (read_json (rc_manifest_codec en) (va_manifest args) fs) (\<lambda>m fs1.
     io_bind (read_json (rc_bundle_codec en) (va_trust_bundle args) fs1) (\<lambda>bdl fs2.
     io_bind (io_lift (lift_err membership_error_display (verifier_new (rc_crypto en) (rc_contracts en) bdl (mf_plane m))) fs2) (\<lambda>verifier fs2.
     io_bind (io_lift (lift_err membership_error_display (fst (accept (rc_crypto en) (rc_contracts en) verifier m))) fs2) (\<lambda>_ fs2.
     (Inr (JObject [(''valid'', JBool True), (''manifest_hash'', JString (canonical_hash (rc_contracts en) m))]), fs2)))))"

text \<open>The manifest to publish and the client it is sent with.\<close>

definition publish_client ::
    "rsctl_env \<Rightarrow> 'n reqwest \<Rightarrow> publish_manifest \<Rightarrow> file_system \<Rightarrow> (anyhow_error + membership_manifest \<times> http_client) \<times> file_system" where
  "publish_client en h args fs =
     io_bind (read_json (rc_manifest_codec en) (pa_manifest args) fs) (\<lambda>m fs1.
     io_bind (map_err Anyhow (fs_read fs1 (pa_identity_pem args))) (\<lambda>identity_bytes fs2.
     io_bind (io_lift (lift_err id (identity_from_pem h identity_bytes)) fs2) (\<lambda>_ fs2.
     io_bind (map_err Anyhow (fs_read fs2 (pa_ca args))) (\<lambda>ca_bytes fs3.
     io_bind (io_lift (lift_err id (certificate_from_pem h ca_bytes)) fs3) (\<lambda>_ fs3.
     let builder = client_builder\<lparr>https_only := True, hc_identity := Some identity_bytes,
           root_certificates := [ca_bytes], hc_timeout_secs := Some 15\<rparr> in
     io_bind (io_lift (case pa_socks5h args of
         None \<Rightarrow> Inr builder
       | Some proxy \<Rightarrow>
           res_bind (require (starts_with ''socks5h://'' proxy) (Anyhow ''membership publish proxy must use socks5h://'')) (\<lambda>_.
           res_bind (lift_err id (proxy_all h proxy)) (\<lambda>_. Inr (builder\<lparr>hc_proxy := Some proxy\<rparr>)))) fs3) (\<lambda>client fs3.
     io_bind (io_lift (lift_err id (client_build h client)) fs3) (\<lambda>_ fs3. (Inr (m, client), fs3))))))))"

definition membership_publish ::
    "rsctl_env \<Rightarrow> 'n reqwest \<Rightarrow> publish_manifest \<Rightarrow> file_system \<times> 'n \<Rightarrow> (anyhow_error + json) \<times> file_system \<times> 'n" where
  "membership_publish en h args = (\<lambda>(fs, n).
     (case publish_client en h args fs of
        (Inl e, fs') \<Rightarrow> (Inl e, fs', n)
      | (Inr (m, client), fs') \<Rightarrow>
          (case map_err Anyhow (post_json h (rc_wire_manifest_codec en) (rc_json_codec en) client
                  (trim_end (CHR ''/'') (pa_endpoint args) @ ''/v1/membership'') m n) of
             (r, n') \<Rightarrow> (r, fs', n'))))"

definition on_files :: "(file_system \<Rightarrow> ('e + 'a) \<times> file_system) \<Rightarrow> file_system \<times> 'n \<Rightarrow> ('e + 'a) \<times> file_system \<times> 'n" where
  "on_files f = (\<lambda>(fs, n). case f fs of (r, fs') \<Rightarrow> (r, fs', n))"

definition on_network :: "('n \<Rightarrow> ('e + 'a) \<times> 'n) \<Rightarrow> file_system \<times> 'n \<Rightarrow> ('e + 'a) \<times> file_system \<times> 'n" where
  "on_network f = (\<lambda>(fs, n). case f n of (r, n') \<Rightarrow> (r, fs, n'))"

fun membership :: "rsctl_env \<Rightarrow> 'n reqwest \<Rightarrow> membership_command \<Rightarrow> file_system \<times> 'n \<Rightarrow> (anyhow_error + json) \<times> file_system \<times> 'n" where
  "membership en h (McCreate args) st = on_files (membership_create en args) st"
| "membership en h (McSign args) st = on_files (membership_sign en args) st"
| "membership en h (McAssemble args) st = on_files (membership_assemble en args) st"
| "membership en h (McVerify args) st = on_files (membership_verify en args) st"
| "membership en h (McPublish args) st = membership_publish en h args st"

section \<open>The program\<close>

text \<open>The settings after the command line and the profile have been combined.\<close>

record session =
  ss_cli :: cli
  ss_profile :: "profile option"
  ss_unix_socket :: "string option"
  ss_request_id :: string
  network_client :: http_client
  vault_client :: http_client

definition node_endpoint :: "rsctl_env \<Rightarrow> session \<Rightarrow> anyhow_error + string" where
  "node_endpoint en ss = endpoint_setting (rc_env_vars en) (cl_endpoint (ss_cli ss)) ''KEROSENE_NODE_ENDPOINT''
     (or_profile None (ss_profile ss) pr_node_endpoint)"

definition vault_endpoint :: "rsctl_env \<Rightarrow> session \<Rightarrow> string option \<Rightarrow> anyhow_error + string" where
  "vault_endpoint en ss cli_value =
     (if ss_unix_socket ss \<noteq> None then Inr ''http://localhost''
      else endpoint_setting (rc_env_vars en) cli_value ''KEROSENE_VAULT_ENDPOINT'' (or_profile None (ss_profile ss) pr_vault_endpoint))"

definition node_get ::
    "rsctl_env \<Rightarrow> 'n reqwest \<Rightarrow> session \<Rightarrow> string \<Rightarrow> file_system \<times> 'n \<Rightarrow> (anyhow_error + json) \<times> file_system \<times> 'n" where
  "node_get en h ss path st =
     io_bind (io_lift (node_endpoint en ss) st) (\<lambda>base st.
     on_network (rsctl_get_json en h (network_client ss) base path (ss_request_id ss)) st)"

definition vault_get ::
    "rsctl_env \<Rightarrow> 'n reqwest \<Rightarrow> session \<Rightarrow> string option \<Rightarrow> string \<Rightarrow> file_system \<times> 'n \<Rightarrow> (anyhow_error + json) \<times> file_system \<times> 'n" where
  "vault_get en h ss cli_value path st =
     io_bind (io_lift (vault_endpoint en ss cli_value) st) (\<lambda>base st.
     on_network (rsctl_get_json en h (vault_client ss) base path (ss_request_id ss)) st)"

definition doctor :: "rsctl_env \<Rightarrow> 'n reqwest \<Rightarrow> session \<Rightarrow> file_system \<times> 'n \<Rightarrow> (anyhow_error + json) \<times> file_system \<times> 'n" where
  "doctor en h ss st =
     io_bind (node_get en h ss ''/live'' st) (\<lambda>live st1.
     io_bind (node_get en h ss ''/v1/readiness'' st1) (\<lambda>readiness st2.
     io_bind (if ss_unix_socket ss \<noteq> None \<or> or_profile None (ss_profile ss) pr_vault_endpoint \<noteq> None
              then vault_get en h ss None ''/v1/admin/status'' st2 else (Inr JNull, st2)) (\<lambda>vault st3.
     (Inr (JObject [(''healthy'', JBool True), (''live'', live), (''readiness'', readiness), (''vault'', vault)]), st3))))"

fun run_command ::
    "rsctl_env \<Rightarrow> 'n reqwest \<Rightarrow> session \<Rightarrow> rsctl_command \<Rightarrow> file_system \<times> 'n \<Rightarrow> (anyhow_error + json) \<times> file_system \<times> 'n" where
  "run_command en h ss NodeStatus st = node_get en h ss ''/v1/readiness'' st"
| "run_command en h ss NodeMembershipList st = node_get en h ss ''/v1/membership/current'' st"
| "run_command en h ss NodePeers st = node_get en h ss ''/v1/discovery/peers'' st"
| "run_command en h ss VaultStatus st = vault_get en h ss (cl_endpoint (ss_cli ss)) ''/v1/admin/status'' st"
| "run_command en h ss VaultHealth st = vault_get en h ss (cl_endpoint (ss_cli ss)) ''/v1/health'' st"
| "run_command en h ss VaultCeremonyInspect st = vault_get en h ss (cl_endpoint (ss_cli ss)) ''/v1/admin/ceremony'' st"
| "run_command en h ss QuorumStatus st = node_get en h ss ''/v1/readiness'' st"
| "run_command en h ss CompatibilityCheck st =
     (Inr (JObject [(''compatible'', JBool True), (''discovery_contract_version'', JString (contract_version (rc_contracts en))),
        (''request_id'', JString (ss_request_id ss))]), st)"
| "run_command en h ss (ArtifactVerify path digest) st = on_files (artifact_verify en path digest) st"
| "run_command en h ss (Membership command) st = membership en h command st"
| "run_command en h ss Doctor st = doctor en h ss st"

text \<open>The line printed on the standard output.\<close>

definition print_value :: "rsctl_env \<Rightarrow> output_format \<Rightarrow> json \<Rightarrow> anyhow_error + string" where
  "print_value en output value =
     lift_err id (case output of
        OutText \<Rightarrow> rc_json_pretty en value
      | OutJsonPretty \<Rightarrow> rc_json_pretty en value
      | OutJson \<Rightarrow> rc_json_compact en value)"

definition rsctl_main ::
    "rsctl_env \<Rightarrow> 'n reqwest \<Rightarrow> cli \<Rightarrow> file_system \<times> 'n \<Rightarrow> (anyhow_error + string) \<times> file_system \<times> 'n" where
  "rsctl_main en h args st =
     io_bind (on_files (load_profile en (cl_profile args)) st) (\<lambda>prof st1.
     let unix_socket = or_profile (cl_unix_socket args) prof pr_vault_socket in
     io_bind (on_files (admin_client en h (cl_timeout args) (or_profile (cl_identity_pem args) prof pr_identity_file)
         (or_profile (cl_ca args) prof pr_ca_file) (or_profile (cl_socks5h args) prof pr_socks5h) None) st1) (\<lambda>client st2.
     io_bind (case unix_socket of
         None \<Rightarrow> (Inr client, st2)
       | Some socket \<Rightarrow> on_files (admin_client en h (cl_timeout args) None None None (Some socket)) st2) (\<lambda>vclient st3.
     io_bind (run_command en h \<lparr>ss_cli = args, ss_profile = prof, ss_unix_socket = unix_socket, ss_request_id = request_id en (cl_request_id args),
       network_client = client, vault_client = vclient\<rparr> (cl_command args) st3) (\<lambda>value st4.
     io_lift (print_value en (cl_output args) value) st4))))"

section \<open>What a client may do\<close>

text \<open>
  A client that the tool builds is never half secured. If it succeeds, a client certificate
  and an authority were given together or not at all; with them the client speaks HTTPS only and
  the key file was a regular file without access for group or others; a proxy, if there is one,
  resolves names remotely; and a Unix socket excludes certificates and proxies.
\<close>

theorem admin_client_exact:
  assumes "admin_client en h timeout identity ca socks socket fs = (Inr client, fs')"
  shows "(identity \<noteq> None \<longleftrightarrow> ca \<noteq> None) \<and> (https_only client \<longleftrightarrow> identity \<noteq> None) \<and>
    (hc_identity client \<noteq> None \<longleftrightarrow> identity \<noteq> None) \<and> (root_certificates client \<noteq> [] \<longleftrightarrow> ca \<noteq> None) \<and>
    (\<forall>p. identity = Some p \<longrightarrow> (\<exists>md. rc_metadata en p = Inr md \<and> md_is_file md \<and> md_mode md AND 0x3F = 0)) \<and>
    hc_proxy client = socks \<and> (\<forall>p. socks = Some p \<longrightarrow> starts_with ''socks5h://'' p) \<and>
    hc_unix_socket client = socket \<and> (socket \<noteq> None \<longrightarrow> identity = None \<and> ca = None \<and> socks = None) \<and>
    hc_timeout_secs client = Some timeout \<and> files fs' = files fs"
proof -
  let ?b = "client_builder\<lparr>hc_timeout_secs := Some timeout\<rparr>"
  from assms obtain b where cred: "client_credentials en h identity ca ?b fs = (Inr b, fs')"
    and pair: "(identity \<noteq> None) = (ca \<noteq> None)" and sock: "socket \<noteq> None \<longrightarrow> identity = None \<and> ca = None \<and> socks = None"
    and proxy: "\<forall>p. socks = Some p \<longrightarrow> starts_with ''socks5h://'' p"
    and client: "client = b\<lparr>hc_proxy := (case socks of None \<Rightarrow> hc_proxy b | Some p \<Rightarrow> Some p),
        hc_unix_socket := (case socket of None \<Rightarrow> hc_unix_socket b | Some s \<Rightarrow> Some s)\<rparr>"
    by (cases socks; cases socket) (auto simp: admin_client_def result_simps Let_def)
  have none: "hc_proxy ?b = None" "hc_unix_socket ?b = None" "https_only ?b = False" "hc_identity ?b = None"
      "root_certificates ?b = []" "hc_timeout_secs ?b = Some timeout"
    by (simp_all add: client_builder_def)
  show ?thesis
  proof (cases identity)
    case None
    then have "b = ?b" "fs' = fs" "ca = None" using cred pair by (auto simp: client_credentials_def)
    then show ?thesis using None none sock proxy client by (simp split: option.splits)
  next
    case (Some p)
    then obtain q where q: "ca = Some q" using pair by auto
    from cred Some q obtain ib cb fs1 where b: "b = ?b\<lparr>https_only := True, hc_identity := Some ib, root_certificates := [cb]\<rparr>"
        "ensure_private_file en p = Inr ()" "fs_read fs p = (Inr ib, fs1)" "fs_read fs1 q = (Inr cb, fs')"
      by (auto simp: client_credentials_def result_simps)
    have "files fs' = files fs" using b(3,4) fs_read_files by (metis snd_conv)
    moreover have "\<exists>md. rc_metadata en p = Inr md \<and> md_is_file md \<and> md_mode md AND 0x3F = 0"
      using b(2) by (auto simp: ensure_private_file_def result_simps)
    ultimately show ?thesis using Some q none sock proxy client b(1) by (auto split: option.splits)
  qed
qed

section \<open>What the program writes\<close>

text \<open>The file a command may create.\<close>

fun output_path :: "rsctl_command \<Rightarrow> string option" where
  "output_path (Membership (McCreate args)) = Some (ca_output args)"
| "output_path (Membership (McSign args)) = Some (sa_output args)"
| "output_path (Membership (McAssemble args)) = Some (am_output args)"
| "output_path command = None"

text \<open>\<open>only_creates F p\<close> holds of a disk that differs from \<open>F\<close> at most in a new file \<open>p\<close>.\<close>

definition only_creates :: "(string \<Rightarrow> bytes option) \<Rightarrow> string option \<Rightarrow> file_system \<Rightarrow> bool" where
  "only_creates F p fs \<longleftrightarrow> (\<forall>q. files fs q = F q \<or> F q = None \<and> p = Some q)"

lemma only_creates_same: "files fs = F \<Longrightarrow> only_creates F p fs"
  by (simp add: only_creates_def)

text \<open>A step that only reads, before the step that writes.\<close>

lemma only_creates_stage:
  assumes "files (snd r) = F" and "\<And>x s. files s = F \<Longrightarrow> only_creates F p (snd (f x s))"
  shows "only_creates F p (snd (io_bind r f))"
  using assms by (cases r; cases "fst r") (auto simp: only_creates_same)

lemma only_creates_bind:
  assumes "only_creates F p (snd r)" and "\<And>x s. r = (Inr x, s) \<Longrightarrow> only_creates F p s \<Longrightarrow> only_creates F p (snd (f x s))"
  shows "only_creates F p (snd (io_bind r f))"
  using assms by (rule fs_bind_frame [where P = "only_creates F p"])

lemma snd_io_lift [simp]: "snd (io_lift r s) = s"
  by (simp add: io_lift_def)

lemma read_json_files: "files (snd (read_json j path fs)) = files fs"
  unfolding read_json_def by (rule fs_bind_frame [where P = "\<lambda>t. files t = files fs"]) simp_all

lemma read_secret_files: "files (snd (read_secret en path fs)) = files fs"
  unfolding read_secret_def
  by (intro fs_bind_frame [where P = "\<lambda>t. files t = files fs"]) (simp_all split: option.split)

lemma collect_signed_files: "files (snd (collect_signed en expected paths sigs fs)) = files fs"
proof (induction en expected paths sigs fs rule: collect_signed.induct)
  case (2 en expected path paths sigs fs)
  show ?case unfolding collect_signed.simps
    by (rule fs_bind_frame [where P = "\<lambda>t. files t = files fs"]) (auto simp: read_json_files "2.IH")
qed simp

lemma client_credentials_files: "files (snd (client_credentials en h i ca b fs)) = files fs"
  unfolding client_credentials_def
  by (auto split: option.split intro!: fs_bind_frame [where P = "\<lambda>t. files t = files fs"])

lemma admin_client_files: "files (snd (admin_client en h t i ca socks socket fs)) = files fs"
  unfolding admin_client_def Let_def
  by (intro fs_bind_frame [where P = "\<lambda>t. files t = files fs"]) (simp_all add: client_credentials_files)

lemma load_profile_files: "files (snd (load_profile en name fs)) = files fs"
  unfolding load_profile_def
  by (auto split: option.split intro!: fs_bind_frame [where P = "\<lambda>t. files t = files fs"])

lemma artifact_verify_files: "files (snd (artifact_verify en path e fs)) = files fs"
  unfolding artifact_verify_def Let_def
  by (rule fs_bind_frame [where P = "\<lambda>t. files t = files fs"]) (auto split: option.split)

lemma membership_verify_files: "files (snd (membership_verify en args fs)) = files fs"
  unfolding membership_verify_def
  by (intro fs_bind_frame [where P = "\<lambda>t. files t = files fs"]) (simp_all add: read_json_files)

lemma write_private_json_creates:
  assumes "files fs = F"
  shows "only_creates F (Some p) (snd (write_private_json j p x fs))"
  using assms
  by (cases "to_vec j x")
    (auto simp: write_private_json_def io_lift_def lift_err_def fs_create_new_def fs_append_def Let_def only_creates_def split: option.split)

text \<open>The common end of the commands that write: the file, then the answer.\<close>

lemma write_then_answer:
  "files fs = F \<Longrightarrow> only_creates F (Some p) (snd (io_bind (write_private_json j p x fs) (\<lambda>_ t. (Inr y, t))))"
  by (rule only_creates_bind) (simp_all add: write_private_json_creates)

lemma membership_create_creates:
  "files fs = F \<Longrightarrow> only_creates F (Some (ca_output args)) (snd (membership_create en args fs))"
  unfolding membership_create_def Let_def
  by (rule only_creates_stage) (simp_all add: read_json_files only_creates_same write_then_answer)

lemma membership_sign_creates:
  "files fs = F \<Longrightarrow> only_creates F (Some (sa_output args)) (snd (membership_sign en args fs))"
  unfolding membership_sign_def
  by (rule only_creates_stage, simp add: read_json_files, rule only_creates_stage, simp add: read_secret_files,
      rule only_creates_stage, simp, rule write_then_answer)

lemma membership_assemble_creates:
  "files fs = F \<Longrightarrow> only_creates F (Some (am_output args)) (snd (membership_assemble en args fs))"
  unfolding membership_assemble_def Let_def
  by (rule only_creates_stage, simp add: read_json_files, rule only_creates_stage, simp add: collect_signed_files, rule write_then_answer)

lemma fst_on_files: "fst (snd (on_files f st)) = snd (f (fst st))"
  by (cases st; cases "f (fst st)") (auto simp: on_files_def)

lemma fst_on_network: "fst (snd (on_network f st)) = fst st"
  by (cases st; cases "f (snd st)") (auto simp: on_network_def)

lemma publish_client_files: "files (snd (publish_client en h args fs)) = files fs"
  unfolding publish_client_def Let_def
  by (intro fs_bind_frame [where P = "\<lambda>t. files t = files fs"]) (simp_all add: read_json_files)

lemma membership_publish_files: "files (fst (snd (membership_publish en h args st))) = files (fst st)"
  using publish_client_files [of en h args "fst st"]
  by (auto simp: membership_publish_def split: prod.splits sum.splits)

lemma run_command_creates:
  assumes "files (fst st) = F"
  shows "only_creates F (output_path command) (fst (snd (run_command en h ss command st)))"
proof -
  have same: "only_creates F p (fst st')" if "files (fst st') = F" for p and st' :: "file_system \<times> 'a" using that by (simp add: only_creates_def)
  have get: "fst (snd (node_get en h ss path st')) = fst st'" "fst (snd (vault_get en h ss v path st')) = fst st'" for path v and st' :: "file_system \<times> 'a"
    by (cases "node_endpoint en ss"; cases "vault_endpoint en ss v"; simp add: node_get_def vault_get_def io_lift_def fst_on_network)+
  show ?thesis
  proof (cases command)
    case (Membership mc)
    then show ?thesis using assms membership_create_creates membership_sign_creates membership_assemble_creates
      by (cases mc) (auto simp: fst_on_files membership_publish_files membership_verify_files only_creates_def [of F None])
  next
    case Doctor
    have "files (fst (snd (doctor en h ss st))) = F"
      unfolding doctor_def by (intro fs_bind_frame [where P = "\<lambda>t. files (fst t) = F"]) (auto simp: get assms)
    then show ?thesis using Doctor by (simp add: only_creates_def)
  qed (use assms in \<open>simp_all add: get fst_on_files artifact_verify_files only_creates_def\<close>)
qed

text \<open>
  C28. The tool never overwrites a file. Whatever the command, the network and the disk do, a run
  leaves every existing file as it was, and the only file that can come into existence is the
  output of \<open>membership create\<close>, \<open>sign\<close> or \<open>assemble\<close>.
\<close>

theorem rsctl_never_overwrites:
  "files (fst (snd (rsctl_main en h args st))) q = files (fst st) q \<or>
     files (fst st) q = None \<and> output_path (cl_command args) = Some q"
proof -
  let ?F = "files (fst st)" and ?p = "output_path (cl_command args)"
  have stage: "only_creates ?F ?p (fst (snd (io_bind r f)))"
    if "files (fst (snd r)) = ?F" and "\<And>x t. files (fst t) = ?F \<Longrightarrow> only_creates ?F ?p (fst (snd (f x t)))" for r f
    using that by (cases r; cases "fst r") (auto simp: only_creates_def)
  have "only_creates ?F ?p (fst (snd (rsctl_main en h args st)))"
    unfolding rsctl_main_def Let_def
    by (rule stage, simp add: fst_on_files load_profile_files, rule stage, simp add: fst_on_files admin_client_files,
        rule stage, simp add: fst_on_files admin_client_files split: option.split,
        rule fs_bind_frame [where P = "\<lambda>t. only_creates ?F ?p (fst t)"]) (simp_all add: run_command_creates)
  then show ?thesis by (simp add: only_creates_def)
qed

section \<open>Files of the ceremony\<close>

definition stored :: "'a codec \<Rightarrow> file_system \<Rightarrow> string \<Rightarrow> 'a \<Rightarrow> bool" where
  "stored j fs path x \<longleftrightarrow> (\<exists>b. files fs path = Some b \<and> from_slice j b = Inr x)"

text \<open>No file that existed has changed.\<close>

definition keeps_files :: "file_system \<Rightarrow> file_system \<Rightarrow> bool" where
  "keeps_files fs fs' \<longleftrightarrow> (\<forall>q b. files fs q = Some b \<longrightarrow> files fs' q = Some b)"

lemma keeps_files_trans: "keeps_files a b \<Longrightarrow> keeps_files b c \<Longrightarrow> keeps_files a c"
  by (simp add: keeps_files_def)

lemma stored_kept: "stored j fs p x \<Longrightarrow> keeps_files fs fs' \<Longrightarrow> stored j fs' p x"
  by (auto simp: stored_def keeps_files_def)

lemma stored_unique: "stored j fs p x \<Longrightarrow> stored j fs p y \<Longrightarrow> x = y"
  by (auto simp: stored_def)

lemma read_json_ok: "read_json j p fs = (Inr x, fs') \<Longrightarrow> stored j fs p x \<and> files fs' = files fs"
  by (auto simp: read_json_def result_simps stored_def fs_read_def split: option.splits)

lemma read_json_succeeds:
  assumes "stored j fs p x" and "\<forall>n. io_faults fs n = None"
  shows "read_json j p fs = (Inr x, io_call fs)"
  using assms by (auto simp: read_json_def stored_def fs_read_def fault_now_def)

lemma write_private_json_ok:
  assumes "codec_ok j" and "write_private_json j p x fs = (Inr u, fs')"
  shows "stored j fs' p x \<and> keeps_files fs fs'"
  using assms
  by (auto simp: write_private_json_def result_simps fs_create_new_def fs_append_def Let_def stored_def keeps_files_def codec_ok_def
      split: option.splits if_splits)

definition secret_in :: "rsctl_env \<Rightarrow> file_system \<Rightarrow> string \<Rightarrow> bytes \<Rightarrow> bool" where
  "secret_in en fs p sk \<longleftrightarrow>
     (\<exists>b. files fs p = Some b \<and> hex_decode (rc_crypto en) (trim (bytes_str b)) = Some sk \<and> length sk = 32)"

lemma secret_kept: "secret_in en fs p sk \<Longrightarrow> keeps_files fs fs' \<Longrightarrow> secret_in en fs' p sk"
  by (auto simp: secret_in_def keeps_files_def)

lemma fs_read_to_string_ok:
  assumes "fs_read_to_string fs p = (Inr s, fs')"
  shows "\<exists>b. files fs p = Some b \<and> s = bytes_str b \<and> files fs' = files fs"
proof -
  obtain r fs1 where r: "fs_read fs p = (r, fs1)" by force
  then have "files fs1 = files fs" using fs_read_files [of fs p] by simp
  with r assms show ?thesis
    by (cases r) (auto simp: fs_read_to_string_def fs_read_def split: if_splits option.splits)
qed

lemma read_secret_ok:
  assumes "read_secret en p fs = (Inr sk, fs')"
  shows "secret_in en fs p sk \<and> files fs' = files fs"
proof -
  obtain r fs1 where r: "fs_read_to_string fs p = (r, fs1)" by force
  obtain t where t: "r = Inr t" "hex_decode (rc_crypto en) (trim t) = Some sk" "length sk = 32" "fs' = fs1"
    using assms r by (cases r) (auto simp: read_secret_def result_simps split: option.splits if_splits)
  then show ?thesis using fs_read_to_string_ok [of fs p t fs1] r by (auto simp: secret_in_def)
qed

lemma secret_unique: "secret_in en fs p sk \<Longrightarrow> secret_in en fs p sk' \<Longrightarrow> sk = sk'"
  by (auto simp: secret_in_def)

lemma same_files_stored: "files fs = files fs' \<Longrightarrow> stored j fs p x \<longleftrightarrow> stored j fs' p x"
  by (simp add: stored_def)

lemma keeps_files_refl: "files fs' = files fs \<Longrightarrow> keeps_files fs fs'"
  by (simp add: keeps_files_def)

lemma membership_create_ok:
  assumes "codec_ok (rc_manifest_codec en)" and "membership_create en args fs = (Inr r, fs')"
  shows "\<exists>members. stored (rc_members_codec en) fs (ca_members args) members \<and>
    stored (rc_manifest_codec en) fs' (ca_output args) (proposed_manifest en args members) \<and> keeps_files fs fs'"
proof -
  from assms(2) obtain members fs1 where m: "read_json (rc_members_codec en) (ca_members args) fs = (Inr members, fs1)"
      "write_private_json (rc_manifest_codec en) (ca_output args) (proposed_manifest en args members) fs1 = (Inr (), fs')"
    by (auto simp: membership_create_def result_simps Let_def split: if_splits)
  note r = read_json_ok [OF m(1)] and w = write_private_json_ok [OF assms(1) m(2)]
  then show ?thesis by (auto simp: keeps_files_def)
qed

lemma membership_sign_ok:
  assumes "codec_ok (rc_manifest_codec en)" and "membership_sign en args fs = (Inr r, fs')"
  shows "\<exists>m sk signed. stored (rc_manifest_codec en) fs (sa_manifest args) m \<and> secret_in en fs (sa_identity args) sk \<and>
    sign_with en sk m = Inr signed \<and> stored (rc_manifest_codec en) fs' (sa_output args) signed \<and> keeps_files fs fs'"
proof -
  from assms(2) obtain m fs1 sk fs2 signed where run:
      "read_json (rc_manifest_codec en) (sa_manifest args) fs = (Inr m, fs1)" "read_secret en (sa_identity args) fs1 = (Inr sk, fs2)"
      "sign_with en sk m = Inr signed" "write_private_json (rc_manifest_codec en) (sa_output args) signed fs2 = (Inr (), fs')"
    by (auto simp: membership_sign_def result_simps)
  note 1 = read_json_ok [OF run(1)] and 2 = read_secret_ok [OF run(2)] and 3 = write_private_json_ok [OF assms(1) run(4)]
  have "secret_in en fs (sa_identity args) sk" using 1 2 by (simp add: secret_in_def)
  then show ?thesis using 1 2 3 run(3) by (auto simp: keeps_files_def)
qed

text \<open>Several members sign the same file, one after the other.\<close>

fun sign_copies :: "rsctl_env \<Rightarrow> string \<Rightarrow> (string \<times> string) list \<Rightarrow> file_system \<Rightarrow> (anyhow_error + unit) \<times> file_system" where
  "sign_copies en p [] fs = (Inr (), fs)"
| "sign_copies en p ((identity, out) # zs) fs =
     io_bind (membership_sign en \<lparr>sa_manifest = p, sa_identity = identity, sa_output = out\<rparr> fs) (\<lambda>_ fs1. sign_copies en p zs fs1)"

lemma sign_copies_ok:
  assumes "codec_ok (rc_manifest_codec en)" and "stored (rc_manifest_codec en) fs p m"
    and "list_all2 (\<lambda>(i, q) sk. secret_in en fs i sk) zs sks" and "sign_copies en p zs fs = (Inr (), fs')"
  shows "list_all2 (\<lambda>(i, q) sk. \<exists>signed. sign_with en sk m = Inr signed \<and> stored (rc_manifest_codec en) fs' q signed) zs sks \<and>
    keeps_files fs fs'"
  using assms(3,2,4)
proof (induction zs arbitrary: fs sks)
  case Nil
  then show ?case by (simp add: keeps_files_refl)
next
  case (Cons z zs)
  obtain i q where z: "z = (i, q)" by force
  from Cons.prems(1) obtain sk sks' where sks: "sks = sk # sks'" "secret_in en fs i sk"
      "list_all2 (\<lambda>(i, q) sk. secret_in en fs i sk) zs sks'"
    by (auto simp: z list_all2_Cons1)
  from Cons.prems(3) obtain r fs1 where run: "membership_sign en \<lparr>sa_manifest = p, sa_identity = i, sa_output = q\<rparr> fs = (Inr r, fs1)"
      "sign_copies en p zs fs1 = (Inr (), fs')"
    by (auto simp: z result_simps)
  obtain m' sk' signed where s: "stored (rc_manifest_codec en) fs p m'" "secret_in en fs i sk'" "sign_with en sk' m' = Inr signed"
      "stored (rc_manifest_codec en) fs1 q signed" "keeps_files fs fs1"
    using membership_sign_ok [OF assms(1) run(1)] by auto
  note same = stored_unique [OF s(1) Cons.prems(2)] secret_unique [OF s(2) sks(2)]
  have "stored (rc_manifest_codec en) fs1 p m" using stored_kept [OF Cons.prems(2) s(5)] .
  moreover have "list_all2 (\<lambda>(i, q) sk. secret_in en fs1 i sk) zs sks'"
    by (rule list_all2_mono [OF sks(3)]) (auto intro: secret_kept [OF _ s(5)])
  ultimately have rest: "list_all2 (\<lambda>(i, q) sk. \<exists>signed. sign_with en sk m = Inr signed \<and> stored (rc_manifest_codec en) fs' q signed) zs sks'"
      "keeps_files fs1 fs'"
    using Cons.IH run(2) by simp_all
  have "stored (rc_manifest_codec en) fs' q signed" using stored_kept [OF s(4) rest(2)] .
  with s(3) same rest keeps_files_trans [OF s(5) rest(2)] show ?case by (auto simp: z sks(1))
qed

section \<open>Signatures of an assembled manifest\<close>

lemma put_signature_new:
  "signer_id sig \<notin> signer_id ` set sigs \<Longrightarrow> put_signature sig sigs = sigs @ [sig]"
  unfolding put_signature_def by (metis (mono_tags, lifting) filter_True image_eqI)

lemma put_signatures_distinct:
  "distinct (map signer_id sigs) \<Longrightarrow> distinct (map signer_id (fold put_signature new sigs))"
proof (induction new arbitrary: sigs)
  case (Cons x new)
  have "distinct (map signer_id (put_signature x sigs))"
    using Cons.prems by (auto simp: put_signature_def distinct_map_filter)
  then show ?case using Cons.IH by simp
qed simp

lemma put_signatures_append:
  "distinct (map signer_id (sigs @ new)) \<Longrightarrow> fold put_signature new sigs = sigs @ new"
proof (induction new arbitrary: sigs)
  case (Cons x new)
  then have "put_signature x sigs = sigs @ [x]" by (intro put_signature_new) auto
  then show ?case using Cons.IH [of "sigs @ [x]"] Cons.prems by simp
qed simp

lemma collect_signed_distinct:
  "collect_signed en expected paths sigs fs = (Inr out, fs') \<Longrightarrow> distinct (map signer_id sigs) \<Longrightarrow>
     distinct (map signer_id out) \<and> files fs' = files fs"
proof (induction en expected paths sigs fs rule: collect_signed.induct)
  case (2 en expected path paths sigs fs)
  from "2.prems"(1) obtain signed fs1 where r: "read_json (rc_manifest_codec en) path fs = (Inr signed, fs1)"
      "\<not> manifest_signing_bytes (rc_contracts en) signed \<noteq> expected"
      "collect_signed en expected paths (fold put_signature (mf_signatures signed) sigs) fs1 = (Inr out, fs')"
    by (auto simp: result_simps split: if_splits)
  then show ?case
    using "2.IH" [OF r(2,3)] put_signatures_distinct [OF "2.prems"(2)] read_json_ok [OF r(1)] by simp
qed simp

text \<open>The signature of a secret on a proposal that nobody has signed yet.\<close>

lemma sign_with_fresh:
  assumes "mf_signatures m = []" and "sign_with en sk m = Inr sm"
  shows "sm = m\<lparr>mf_signatures := [signature_by en sk m]\<rparr>"
proof -
  have "m\<lparr>mf_signatures := filter P (mf_signatures m)\<rparr> = m" for P using assms(1) by simp
  then have "sm = m\<lparr>mf_signatures := mf_signatures m @ [signature_by en sk m]\<rparr>"
    using assms(2) by (simp add: sign_with_def Let_def result_simps)
  then show ?thesis using assms(1) by simp
qed

lemma collect_signed_copies:
  assumes "mf_signatures m = []" and "\<forall>s. manifest_signing_bytes (rc_contracts en) (m\<lparr>mf_signatures := s\<rparr>) = expected"
    and "list_all2 (\<lambda>q sk. stored (rc_manifest_codec en) fs q (m\<lparr>mf_signatures := [signature_by en sk m]\<rparr>)) paths sks"
    and "collect_signed en expected paths sigs fs = (Inr out, fs')"
    and "distinct (map signer_id (sigs @ map (\<lambda>sk. signature_by en sk m) sks))"
  shows "out = sigs @ map (\<lambda>sk. signature_by en sk m) sks"
  using assms(3,4,5)
proof (induction paths arbitrary: sks sigs fs)
  case Nil
  then show ?case by simp
next
  case (Cons q paths)
  from Cons.prems(1) obtain sk sks' where sks: "sks = sk # sks'"
      "stored (rc_manifest_codec en) fs q (m\<lparr>mf_signatures := [signature_by en sk m]\<rparr>)"
      "list_all2 (\<lambda>q sk. stored (rc_manifest_codec en) fs q (m\<lparr>mf_signatures := [signature_by en sk m]\<rparr>)) paths sks'"
    by (auto simp: list_all2_Cons1)
  let ?sig = "signature_by en sk m"
  from Cons.prems(2) obtain signed fs1 where r: "read_json (rc_manifest_codec en) q fs = (Inr signed, fs1)"
      "collect_signed en expected paths (fold put_signature (mf_signatures signed) sigs) fs1 = (Inr out, fs')"
    by (auto simp: result_simps split: if_splits)
  note s = read_json_ok [OF r(1)]
  have "signed = m\<lparr>mf_signatures := [?sig]\<rparr>" by (rule stored_unique [OF conjunct1 [OF s] sks(2)])
  then have "fold put_signature (mf_signatures signed) sigs = sigs @ [?sig]"
    using Cons.prems(3) by (simp add: put_signature_new sks(1))
  moreover have "list_all2 (\<lambda>q sk. stored (rc_manifest_codec en) fs1 q (m\<lparr>mf_signatures := [signature_by en sk m]\<rparr>)) paths sks'"
    using sks(3) s by (simp add: stored_def)
  ultimately show ?case using Cons.IH [of fs1 sks' "sigs @ [?sig]"] r(2) Cons.prems(3) by (simp add: sks(1))
qed

lemma membership_assemble_ok:
  assumes "codec_ok (rc_manifest_codec en)" and "membership_assemble en args fs = (Inr r, fs')"
  shows "\<exists>m sigs fs1 fs2. stored (rc_manifest_codec en) fs (am_manifest args) m \<and> files fs1 = files fs \<and>
    collect_signed en (manifest_signing_bytes (rc_contracts en) m) (signed_manifests args) (mf_signatures m) fs1 = (Inr sigs, fs2) \<and>
    (files fs2 = files fs \<longrightarrow> keeps_files fs fs' \<and> stored (rc_manifest_codec en) fs' (am_output args) (m\<lparr>mf_signatures := sort_key signer_id sigs\<rparr>))"
proof -
  from assms(2) obtain m fs1 sigs fs2 where run: "read_json (rc_manifest_codec en) (am_manifest args) fs = (Inr m, fs1)"
      "collect_signed en (manifest_signing_bytes (rc_contracts en) m) (signed_manifests args) (mf_signatures m) fs1 = (Inr sigs, fs2)"
      "write_private_json (rc_manifest_codec en) (am_output args) (m\<lparr>mf_signatures := sort_key signer_id sigs\<rparr>) fs2 = (Inr (), fs')"
    by (auto simp: membership_assemble_def result_simps Let_def)
  note r = read_json_ok [OF run(1)] and w = write_private_json_ok [OF assms(1) run(3)]
  have "files fs2 = files fs \<longrightarrow> keeps_files fs fs' \<and>
      stored (rc_manifest_codec en) fs' (am_output args) (m\<lparr>mf_signatures := sort_key signer_id sigs\<rparr>)"
    using w by (simp add: keeps_files_def)
  with r run(2) show ?thesis by blast
qed

section \<open>A ceremony ends with an accepted manifest\<close>

definition signer_of :: "rsctl_env \<Rightarrow> membership_manifest \<Rightarrow> bytes \<Rightarrow> string" where
  "signer_of en m sk = contract_member_id (rc_contracts en) (mf_network_id m) (verifying_key (rc_signing en) sk)"

text \<open>The signers among \<open>sks\<close> that a key map lists with the key they sign with.\<close>

definition authorized_signers :: "rsctl_env \<Rightarrow> membership_manifest \<Rightarrow> (string, string) hashmap \<Rightarrow> bytes list \<Rightarrow> bytes list" where
  "authorized_signers en m keys sks =
     filter (\<lambda>sk. map_of keys (signer_of en m sk) = Some (hex_encode (rc_crypto en) (verifying_key (rc_signing en) sk))) sks"

lemma signers_signature_by: "map signer_id (map (\<lambda>sk. signature_by en sk m) sks) = map (signer_of en m) sks"
  by (simp add: signature_by_def signer_of_def)

lemma secrets_length: "list_all2 (\<lambda>(i, q) sk. secret_in en fs i sk) zs sks \<Longrightarrow> \<forall>sk \<in> set sks. length sk = 32"
  by (induction zs sks rule: list_all2_induct) (auto simp: secret_in_def)

lemma signature_by_accepted:
  assumes "crypto_ok (rc_crypto en)" and "signing_ok (rc_crypto en) (rc_signing en)" and "length sk = 32"
    and "map_of keys (signer_of en m sk) = Some (hex_encode (rc_crypto en) (verifying_key (rc_signing en) sk))"
    and "manifest_signing_bytes (rc_contracts en) m' = manifest_signing_bytes (rc_contracts en) m"
  shows "signed_by (rc_crypto en) (rc_contracts en) m' keys (signature_by en sk m)"
  using assms
  by (simp add: signed_by_def signature_by_def signer_of_def manifest_signature_valid_def decode_array_def crypto_ok_def signing_ok_def)

lemma validate_structure_signed:
  "validate_structure c k v m = Inr () \<Longrightarrow> distinct (map signer_id sigs) \<Longrightarrow>
     validate_structure c k v (m\<lparr>mf_signatures := sigs\<rparr>) = Inr ()"
  by (simp add: validate_structure_def result_simps cong: membership_phase.case_cong option.case_cong)

lemma signed_count_sorted:
  "length (filter P (sort_key f xs)) = length (filter P xs)"
  by (metis mset_filter mset_sort size_mset)

lemma distinct_sorted_signers:
  "distinct (map signer_id (sort_key signer_id sigs)) \<longleftrightarrow> distinct (map signer_id sigs)"
  by (metis mset_map mset_sort mset_eq_imp_distinct_iff)

lemma filter_length_mono: "(\<And>x. x \<in> set xs \<Longrightarrow> P x \<Longrightarrow> Q x) \<Longrightarrow> length (filter P xs) \<le> length (filter Q xs)"
  by (induction xs) (auto intro: le_SucI)

lemma require_signatures_collected:
  assumes "crypto_ok (rc_crypto en)" and "signing_ok (rc_crypto en) (rc_signing en)" and "\<forall>sk \<in> set sks. length sk = 32"
    and "\<forall>s. manifest_signing_bytes (rc_contracts en) (m\<lparr>mf_signatures := s\<rparr>) = manifest_signing_bytes (rc_contracts en) m"
    and "unat t \<le> length (authorized_signers en m keys sks)"
  shows "require_signatures (rc_crypto en) (rc_contracts en)
    (m\<lparr>mf_signatures := sort_key signer_id (map (\<lambda>sk. signature_by en sk m) sks)\<rparr>) keys t = Inr ()"
proof -
  let ?m = "m\<lparr>mf_signatures := sort_key signer_id (map (\<lambda>sk. signature_by en sk m) sks)\<rparr>"
  let ?ok = "signed_by (rc_crypto en) (rc_contracts en) ?m keys"
  have "length (authorized_signers en m keys sks) \<le> length (filter (\<lambda>sk. ?ok (signature_by en sk m)) sks)"
    unfolding authorized_signers_def using assms(3)
    by (intro filter_length_mono signature_by_accepted [OF assms(1,2)]) (auto simp: assms(4))
  also have "\<dots> = length (filter ?ok (mf_signatures ?m))"
    by (simp add: signed_count_sorted filter_map comp_def)
  finally show ?thesis using assms(5) by (simp add: require_signatures_def result_simps)
qed

lemma assembled_copies:
  assumes "codec_ok (rc_manifest_codec en)" and "mf_signatures m = []"
    and "\<forall>s. manifest_signing_bytes (rc_contracts en) (m\<lparr>mf_signatures := s\<rparr>) = manifest_signing_bytes (rc_contracts en) m"
    and "stored (rc_manifest_codec en) fs p m" and "list_all2 (\<lambda>(i, q) sk. secret_in en fs i sk) zs sks"
    and "sign_copies en p zs fs = (Inr (), fs1)"
    and "membership_assemble en \<lparr>am_manifest = p, signed_manifests = map snd zs, am_output = out\<rparr> fs1 = (Inr r, fs2)"
    and "distinct (map (signer_of en m) sks)"
  shows "stored (rc_manifest_codec en) fs2 out (m\<lparr>mf_signatures := sort_key signer_id (map (\<lambda>sk. signature_by en sk m) sks)\<rparr>) \<and>
    keeps_files fs fs2"
proof -
  note copies = sign_copies_ok [OF assms(1,4,5,6)]
  obtain m' sigs fs3 fs4 where a: "stored (rc_manifest_codec en) fs1 p m'" "files fs3 = files fs1"
      "collect_signed en (manifest_signing_bytes (rc_contracts en) m') (map snd zs) (mf_signatures m') fs3 = (Inr sigs, fs4)"
      "files fs4 = files fs1 \<longrightarrow> keeps_files fs1 fs2 \<and> stored (rc_manifest_codec en) fs2 out (m'\<lparr>mf_signatures := sort_key signer_id sigs\<rparr>)"
    using membership_assemble_ok [OF assms(1,7)] by auto
  have m: "m' = m" using stored_unique [OF a(1)] stored_kept [OF assms(4)] copies by blast
  have new: "distinct (map signer_id ([] @ map (\<lambda>sk. signature_by en sk m) sks))"
    using assms(8) by (simp add: signers_signature_by del: map_map)
  have "list_all2 (\<lambda>q sk. stored (rc_manifest_codec en) fs3 q (m\<lparr>mf_signatures := [signature_by en sk m]\<rparr>)) (map snd zs) sks"
    unfolding list_all2_map1
    by (rule list_all2_mono [OF conjunct1 [OF copies]]) (auto simp: stored_def a(2) dest!: sign_with_fresh [OF assms(2)])
  then have "sigs = map (\<lambda>sk. signature_by en sk m) sks"
    using collect_signed_copies [OF assms(2,3), of fs3 "map snd zs" sks "[]"] a(3) new unfolding m assms(2) by simp
  moreover have "files fs4 = files fs1" using collect_signed_distinct [OF a(3)] a(2) by (simp add: m assms(2))
  ultimately show ?thesis using a(4) m copies keeps_files_trans by blast
qed

text \<open>
  C9. A membership ceremony ends with a manifest that a verifier accepts. An operator creates a
  first manifest, members sign copies of it with their key files, and the operator assembles the
  copies. If these commands succeed, the proposal has the shape of a first manifest, the signers
  are different members, and enough of them are in the trust bundle with their keys, then
  \<open>membership verify\<close> with that bundle accepts the assembled file.
\<close>

theorem manifest_ceremony_verifies:
  assumes "crypto_ok (rc_crypto en)" and "signing_ok (rc_crypto en) (rc_signing en)" and "codec_ok (rc_manifest_codec en)"
    and "\<forall>m s. manifest_signing_bytes (rc_contracts en) (m\<lparr>mf_signatures := s\<rparr>) = manifest_signing_bytes (rc_contracts en) m"
    and "membership_create en args fs = (Inr r1, fs1)" and "stored (rc_members_codec en) fs (ca_members args) members"
    and "list_all2 (\<lambda>(identity, copy) sk. secret_in en fs identity sk) zs sks"
    and "sign_copies en (ca_output args) zs fs1 = (Inr (), fs2)"
    and "membership_assemble en \<lparr>am_manifest = ca_output args, signed_manifests = map snd zs, am_output = out\<rparr> fs2 = (Inr r2, fs3)"
    and "m = proposed_manifest en args members" and "distinct (map (signer_of en m) sks)"
    and "ca_epoch args \<noteq> 0" and "\<not> ca_joint args" and "ca_previous_manifest_hash args = zero_hash"
    and "stored (rc_bundle_codec en) fs trust_bundle tb"
    and "verifier_new (rc_crypto en) (rc_contracts en) tb (ca_plane args) = Inr v"
    and "validate_structure (rc_crypto en) (rc_contracts en) v m = Inr ()"
    and "unat (tp_threshold (mv_genesis v)) \<le> length (authorized_signers en m (trust_keys (tp_members (mv_genesis v))) sks)"
    and "\<forall>n. io_faults fs3 n = None"
  shows "\<exists>answer fs4. membership_verify en \<lparr>va_manifest = out, va_trust_bundle = trust_bundle\<rparr> fs3 = (Inr answer, fs4)"
proof -
  let ?sm = "m\<lparr>mf_signatures := sort_key signer_id (map (\<lambda>sk. signature_by en sk m) sks)\<rparr>"
  have fresh: "mf_signatures m = []" "mf_plane m = ca_plane args" by (simp_all add: assms(10) proposed_manifest_def)
  have created: "stored (rc_manifest_codec en) fs1 (ca_output args) m" "keeps_files fs fs1"
    using membership_create_ok [OF assms(3,5)] stored_unique [OF assms(6)] by (auto simp: assms(10))
  have "list_all2 (\<lambda>(identity, copy) sk. secret_in en fs1 identity sk) zs sks"
    by (rule list_all2_mono [OF assms(7)]) (auto intro: secret_kept [OF _ created(2)])
  then have assembled: "stored (rc_manifest_codec en) fs3 out ?sm" "keeps_files fs1 fs3"
    using assembled_copies [OF assms(3) fresh(1) _ created(1) _ assms(8,9,11)] assms(4) by simp_all
  have tb: "stored (rc_bundle_codec en) fs3 trust_bundle tb"
    by (rule stored_kept [OF assms(15) keeps_files_trans [OF created(2) assembled(2)]])
  have "\<forall>sk \<in> set sks. length sk = 32" using secrets_length [OF assms(7)] .
  then have signed: "require_signatures (rc_crypto en) (rc_contracts en) ?sm (trust_keys (tp_members (mv_genesis v))) (tp_threshold (mv_genesis v)) = Inr ()"
    using require_signatures_collected [OF assms(1,2)] assms(4,18) by simp
  have "validate_structure (rc_crypto en) (rc_contracts en) v ?sm = Inr ()"
    using validate_structure_signed [OF assms(17)] assms(11) by (simp add: distinct_sorted_signers signers_signature_by del: map_map)
  moreover have "mv_current v = None" using assms(16) by (auto simp: verifier_new_def result_simps)
  moreover have "mf_phase ?sm = Stable" "mf_epoch ?sm \<noteq> 0" "previous_manifest_hash ?sm = zero_hash"
    using assms(12-14) by (simp_all add: assms(10) proposed_manifest_def)
  ultimately have "verify_next (rc_crypto en) (rc_contracts en) v ?sm = Inr ()"
    using signed by (simp add: verify_next_def verify_initial_def result_simps)
  then have acc: "accept (rc_crypto en) (rc_contracts en) v ?sm = (Inr (), v\<lparr>mv_current := Some ?sm\<rparr>)" by (simp add: accept_ok)
  have "stored (rc_bundle_codec en) (io_call fs3) trust_bundle tb" "\<forall>n. io_faults (io_call fs3) n = None"
    using tb assms(19) by (simp_all add: stored_def)
  then show ?thesis
    using read_json_succeeds [OF assembled(1) assms(19)] read_json_succeeds [of "rc_bundle_codec en" "io_call fs3"] assms(16) acc fresh(2)
    by (simp add: membership_verify_def io_lift_def lift_err_def)
qed

section \<open>A ceremony of the demonstration network\<close>

text \<open>A codec for the manifests of the ceremony: the bytes list the signers.\<close>

definition demo_manifest_codec :: "membership_manifest codec" where
  "demo_manifest_codec = \<lparr>to_vec = (\<lambda>m. ok_or (find (\<lambda>b. demo_manifest 1 zero_hash b = m) [[], [7], [8], [7, 8], [8, 7]]) ''unsupported''),
     from_slice = (\<lambda>b. Inr (demo_manifest 1 zero_hash b))\<rparr>"

definition demo_rsctl :: rsctl_env where
  "demo_rsctl = \<lparr>rc_crypto = demo_sign_crypto, rc_contracts = demo_contracts, rc_signing = demo_signing,
     rc_members_codec = \<lparr>to_vec = (\<lambda>_. Inl ''unsupported''), from_slice = (\<lambda>_. Inr (demo_roster [7, 8, 9]))\<rparr>,
     rc_manifest_codec = demo_manifest_codec, rc_wire_manifest_codec = demo_manifest_codec,
     rc_bundle_codec = \<lparr>to_vec = (\<lambda>_. Inl ''unsupported''), from_slice = (\<lambda>_. Inr demo_bundle)\<rparr>,
     rc_json_codec = \<lparr>to_vec = (\<lambda>_. Inl ''unsupported''), from_slice = (\<lambda>_. Inr JNull)\<rparr>, rc_json_pretty = (\<lambda>_. Inr []), rc_json_compact = (\<lambda>_. Inr []),
     rc_hex_error = (\<lambda>_. ''invalid digit''), rc_metadata = (\<lambda>_. Inr \<lparr>md_is_file = True, md_mode = 0x180\<rparr>),
     rc_profiles = (\<lambda>_. Inr []), rc_env_vars = Map.empty, rc_process_id = 1\<rparr>"

definition demo_create :: create_manifest where
  "demo_create = \<lparr>ca_network = ''net'', ca_plane = VaultPlane, ca_epoch = 1, ca_threshold = 2, ca_members = ''members'',
     ca_output = ''m'', ca_joint = False, ca_previous_manifest_hash = zero_hash, ca_next_epoch = None\<rparr>"

definition demo_key_file :: "u8 \<Rightarrow> bytes" where
  "demo_key_file b = str_bytes (demo_key b) @ [10]"

definition demo_desk :: file_system where
  "demo_desk = (demo_fs {})\<lparr>files := [''members'' \<mapsto> [], ''k7'' \<mapsto> demo_key_file 7, ''k8'' \<mapsto> demo_key_file 8, ''tb'' \<mapsto> []]\<rparr>"

lemma demo_manifest_codec_ok: "codec_ok demo_manifest_codec"
  by (auto simp: codec_ok_def demo_manifest_codec_def result_simps find_Some_iff)

lemma demo_manifest_encodes:
  "bs \<in> {[], [7], [8], [7, 8], [8, 7]} \<Longrightarrow> \<exists>b. to_vec demo_manifest_codec (demo_manifest 1 zero_hash bs) = Inr b"
  by (simp add: demo_manifest_codec_def ok_or_def) blast

lemma write_private_json_succeeds:
  assumes "\<exists>b. to_vec j x = Inr b" and "files fs p = None" and "\<forall>n. io_faults fs n = None"
  shows "\<exists>b fs'. write_private_json j p x fs = (Inr (), fs') \<and> files fs' = (files fs)(p \<mapsto> b) \<and> (\<forall>n. io_faults fs' n = None)"
  using assms
  by (auto simp: write_private_json_def io_lift_def lift_err_def fs_create_new_def fs_append_def fault_now_def Let_def)

lemma demo_key_file_read:
  "utf8_valid (demo_key_file b)" "trim (bytes_str (demo_key_file b)) = demo_key b"
proof -
  show "utf8_valid (demo_key_file b)"
    using key_file_utf8 [OF demo_crypto_ok, of "replicate 32 b"] by (simp add: demo_crypto_def demo_key_file_def demo_key_def)
  show "trim (bytes_str (demo_key_file b)) = demo_key b"
    using trim_line [of "demo_key b"] bytes_str_inverse [of "demo_key b"] hex_not_space demo_hex_encode_digits [of "replicate 32 b"]
    by (auto simp: demo_key_file_def demo_key_def bytes_str_def newline_char)
qed

lemma demo_secret: "files fs p = Some (demo_key_file b) \<Longrightarrow> secret_in demo_rsctl fs p (replicate 32 b)"
  by (simp add: secret_in_def demo_key_file_read demo_rsctl_def demo_sign_crypto_def demo_crypto_def demo_key_def demo_hex_roundtrip)

lemma demo_read_secret:
  assumes "files fs p = Some (demo_key_file b)" and "\<forall>n. io_faults fs n = None"
  shows "read_secret demo_rsctl p fs = (Inr (replicate 32 b), io_call fs)"
proof -
  have "ensure_private_file demo_rsctl p = Inr ()" by (simp add: ensure_private_file_def demo_rsctl_def lift_err_def require_def)
  moreover have "fs_read_to_string fs p = (Inr (bytes_str (demo_key_file b)), io_call fs)"
    using assms by (simp add: fs_read_to_string_def fs_read_def fault_now_def demo_key_file_read)
  moreover have "hex_decode (rc_crypto demo_rsctl) (demo_key b) = Some (replicate 32 b)"
    by (simp add: demo_rsctl_def demo_sign_crypto_def demo_crypto_def demo_key_def demo_hex_roundtrip)
  ultimately show ?thesis by (simp add: read_secret_def io_lift_def demo_key_file_read)
qed

lemma demo_proposal: "proposed_manifest demo_rsctl demo_create (demo_roster [7, 8, 9]) = demo_manifest 1 zero_hash []"
  by (simp add: proposed_manifest_def demo_create_def demo_manifest_def demo_rsctl_def demo_contracts_def)

lemma demo_signature:
  "signature_by demo_rsctl (replicate 32 b) (demo_manifest 1 zero_hash bs) = \<lparr>signer_id = demo_key b, ms_signature = demo_sig 1\<rparr>"
  by (simp add: signature_by_def demo_rsctl_def demo_contracts_def demo_signing_def demo_sign_crypto_def demo_crypto_def demo_key_def
      demo_sig_def demo_manifest_def u64_le_def)

lemma demo_signer: "signer_of demo_rsctl m (replicate 32 b) = demo_key b"
  by (simp add: signer_of_def demo_rsctl_def demo_contracts_def demo_signing_def demo_key_def)

lemma demo_with_signers:
  "(demo_manifest 1 zero_hash bs)\<lparr>mf_signatures := map (\<lambda>b. \<lparr>signer_id = demo_key b, ms_signature = demo_sig 1\<rparr>) cs\<rparr> = demo_manifest 1 zero_hash cs"
  by (simp add: demo_manifest_def)

lemma demo_sign_with:
  assumes "b \<in> {7, 8}"
  shows "sign_with demo_rsctl (replicate 32 b) (demo_manifest 1 zero_hash []) = Inr (demo_manifest 1 zero_hash [b])"
proof -
  have "\<exists>member \<in> set (mf_members (demo_manifest 1 zero_hash [])). mm_member_id member = demo_key b"
    using assms by (auto simp: demo_manifest_def demo_roster_def)
  moreover have "contract_member_id (rc_contracts demo_rsctl) n (verifying_key (rc_signing demo_rsctl) (replicate 32 b)) = demo_key b" for n
    by (simp add: demo_rsctl_def demo_contracts_def demo_signing_def demo_key_def)
  ultimately obtain sm where sm: "sign_with demo_rsctl (replicate 32 b) (demo_manifest 1 zero_hash []) = Inr sm"
    by (auto simp: sign_with_def Let_def require_def)
  have "mf_signatures (demo_manifest 1 zero_hash []) = []" by (simp add: demo_manifest_def)
  from sign_with_fresh [OF this sm] have "sm = demo_manifest 1 zero_hash [b]"
    by (simp only: demo_signature) (simp add: demo_manifest_def)
  with sm show ?thesis by simp
qed

text \<open>A successful step of the ceremony: one new file, and the disk still has no faults.\<close>

definition adds_file :: "file_system \<Rightarrow> string \<Rightarrow> file_system \<Rightarrow> bool" where
  "adds_file fs p fs' \<longleftrightarrow> (\<exists>b. files fs' = (files fs)(p \<mapsto> b)) \<and> (\<forall>n. io_faults fs' n = None)"

lemma demo_reads:
  "files fs p = Some b \<Longrightarrow> \<forall>n. io_faults fs n = None \<Longrightarrow> from_slice j b = Inr x \<Longrightarrow> read_json j p fs = (Inr x, io_call fs)"
  using read_json_succeeds [of j fs p x] by (simp add: stored_def)

lemma demo_creates:
  assumes "files fs ''members'' = Some b" and "files fs ''m'' = None" and "\<forall>n. io_faults fs n = None"
  shows "\<exists>r fs'. membership_create demo_rsctl demo_create fs = (Inr r, fs') \<and> adds_file fs ''m'' fs'"
proof -
  have args: "ca_members demo_create = ''members''" "ca_output demo_create = ''m''" "rc_manifest_codec demo_rsctl = demo_manifest_codec"
    by (simp_all add: demo_create_def demo_rsctl_def)
  have read: "read_json (rc_members_codec demo_rsctl) ''members'' fs = (Inr (demo_roster [7, 8, 9]), io_call fs)"
    using assms by (intro demo_reads) (simp_all add: demo_rsctl_def)
  obtain b' fs' where w: "write_private_json demo_manifest_codec ''m'' (demo_manifest 1 zero_hash []) (io_call fs) = (Inr (), fs')"
      "files fs' = (files (io_call fs))(''m'' \<mapsto> b')" "\<forall>n. io_faults fs' n = None"
    using write_private_json_succeeds [OF demo_manifest_encodes [of "[]"], of "io_call fs" "''m''"] assms(2,3) by auto
  have "demo_roster [7, 8, 9] \<noteq> []" by (simp add: demo_roster_def)
  with read w(1) have "\<exists>r. membership_create demo_rsctl demo_create fs = (Inr r, fs')"
    by (simp add: membership_create_def args demo_proposal Let_def)
  with w(2,3) show ?thesis by (auto simp: adds_file_def)
qed

lemma demo_signs:
  assumes "b \<in> {7, 8}" and "stored demo_manifest_codec fs ''m'' (demo_manifest 1 zero_hash [])"
    and "files fs key = Some (demo_key_file b)" and "files fs out = None" and "\<forall>n. io_faults fs n = None"
  shows "\<exists>r fs'. membership_sign demo_rsctl \<lparr>sa_manifest = ''m'', sa_identity = key, sa_output = out\<rparr> fs = (Inr r, fs') \<and> adds_file fs out fs'"
proof -
  have codec: "rc_manifest_codec demo_rsctl = demo_manifest_codec" by (simp add: demo_rsctl_def)
  let ?fs = "io_call (io_call fs)"
  have "[b] \<in> {[], [7], [8], [7, 8], [8, 7]}" using assms(1) by simp
  then obtain b' fs' where w: "write_private_json demo_manifest_codec out (demo_manifest 1 zero_hash [b]) ?fs = (Inr (), fs')"
      "files fs' = (files ?fs)(out \<mapsto> b')" "\<forall>n. io_faults fs' n = None"
    using write_private_json_succeeds [OF demo_manifest_encodes, of "[b]" ?fs out] assms(4,5) by auto
  have "\<exists>r. membership_sign demo_rsctl \<lparr>sa_manifest = ''m'', sa_identity = key, sa_output = out\<rparr> fs = (Inr r, fs')"
    using read_json_succeeds [OF assms(2,5)] demo_read_secret [of "io_call fs" key b] demo_sign_with [OF assms(1)] w(1) assms(3,5)
    by (simp add: membership_sign_def codec io_lift_def)
  with w(2,3) show ?thesis by (auto simp: adds_file_def)
qed

lemma demo_collects:
  assumes "stored demo_manifest_codec fs ''s7'' (demo_manifest 1 zero_hash [7])" and "stored demo_manifest_codec fs ''s8'' (demo_manifest 1 zero_hash [8])"
    and "\<forall>n. io_faults fs n = None"
  shows "collect_signed demo_rsctl (manifest_signing_bytes demo_contracts (demo_manifest 1 zero_hash [])) [''s7'', ''s8''] [] fs =
    (Inr (mf_signatures (demo_manifest 1 zero_hash [7, 8])), io_call (io_call fs))"
proof -
  have codec: "rc_manifest_codec demo_rsctl = demo_manifest_codec" "rc_contracts demo_rsctl = demo_contracts" by (simp_all add: demo_rsctl_def)
  have same: "manifest_signing_bytes demo_contracts (demo_manifest e prev s) = manifest_signing_bytes demo_contracts (demo_manifest e prev s')" for e prev s s'
    by (simp add: demo_contracts_def demo_manifest_def)
  have "stored demo_manifest_codec (io_call fs) ''s8'' (demo_manifest 1 zero_hash [8])" "\<forall>n. io_faults (io_call fs) n = None"
    using assms(2,3) by (simp_all add: stored_def)
  moreover have "put_signature \<lparr>signer_id = demo_key 8, ms_signature = s\<rparr> [\<lparr>signer_id = demo_key 7, ms_signature = s\<rparr>] =
      [\<lparr>signer_id = demo_key 7, ms_signature = s\<rparr>, \<lparr>signer_id = demo_key 8, ms_signature = s\<rparr>]" for s
    by (simp add: put_signature_def demo_key_eq)
  moreover have "put_signature x [] = [x]" for x by (simp add: put_signature_def)
  moreover have "mf_signatures (demo_manifest 1 zero_hash bs) = map (\<lambda>b. \<lparr>signer_id = demo_key b, ms_signature = demo_sig 1\<rparr>) bs" for bs
    by (simp add: demo_manifest_def)
  ultimately show ?thesis
    using read_json_succeeds [OF assms(1,3)] read_json_succeeds [of demo_manifest_codec "io_call fs" "''s8''"]
      same [of 1 zero_hash "[7]" "[]"] same [of 1 zero_hash "[8]" "[]"]
    by (simp add: codec)
qed

lemma demo_assembles:
  assumes "stored demo_manifest_codec fs ''m'' (demo_manifest 1 zero_hash [])" and "stored demo_manifest_codec fs ''s7'' (demo_manifest 1 zero_hash [7])"
    and "stored demo_manifest_codec fs ''s8'' (demo_manifest 1 zero_hash [8])" and "files fs ''f'' = None" and "\<forall>n. io_faults fs n = None"
  shows "\<exists>r fs'. membership_assemble demo_rsctl \<lparr>am_manifest = ''m'', signed_manifests = [''s7'', ''s8''], am_output = ''f''\<rparr> fs = (Inr r, fs') \<and>
    adds_file fs ''f'' fs'"
proof -
  have codec: "rc_manifest_codec demo_rsctl = demo_manifest_codec" "rc_contracts demo_rsctl = demo_contracts" by (simp_all add: demo_rsctl_def)
  let ?fs = "io_call (io_call (io_call fs))" and ?sigs = "mf_signatures (demo_manifest 1 zero_hash [7, 8])"
  have collect: "collect_signed demo_rsctl (manifest_signing_bytes demo_contracts (demo_manifest 1 zero_hash [])) [''s7'', ''s8''] [] (io_call fs) =
      (Inr ?sigs, ?fs)"
    using assms by (intro demo_collects) (simp_all add: stored_def)
  have "\<exists>bs \<in> {[7, 8], [8, 7]}. sort_key signer_id ?sigs = map (\<lambda>b. \<lparr>signer_id = demo_key b, ms_signature = demo_sig 1\<rparr>) bs"
    by (simp add: demo_manifest_def)
  then obtain bs where bs: "bs \<in> {[7, 8], [8, 7]}" "(demo_manifest 1 zero_hash [])\<lparr>mf_signatures := sort_key signer_id ?sigs\<rparr> = demo_manifest 1 zero_hash bs"
    by (metis demo_with_signers)
  then have "\<exists>b. to_vec demo_manifest_codec (demo_manifest 1 zero_hash bs) = Inr b" by (intro demo_manifest_encodes) auto
  then obtain b' fs' where w: "write_private_json demo_manifest_codec ''f'' (demo_manifest 1 zero_hash bs) ?fs = (Inr (), fs')"
      "files fs' = (files ?fs)(''f'' \<mapsto> b')" "\<forall>n. io_faults fs' n = None"
    using write_private_json_succeeds [of demo_manifest_codec _ ?fs "''f''"] assms(4,5) by fastforce
  have "mf_signatures (demo_manifest 1 zero_hash []) = []" by (simp add: demo_manifest_def)
  then have "\<exists>r. membership_assemble demo_rsctl \<lparr>am_manifest = ''m'', signed_manifests = [''s7'', ''s8''], am_output = ''f''\<rparr> fs = (Inr r, fs')"
    using read_json_succeeds [OF assms(1,5)] collect w(1) bs(2) by (simp add: membership_assemble_def codec Let_def del: collect_signed.simps)
  with w(2,3) show ?thesis by (auto simp: adds_file_def)
qed

lemma demo_sign_crypto_same: "validate_member demo_sign_crypto = validate_member demo_crypto"
  by (simp add: fun_eq_iff validate_member_def decode_array_def demo_sign_crypto_def)

lemma demo_rsctl_verifier:
  "verifier_new demo_sign_crypto demo_contracts demo_bundle VaultPlane = Inr demo_verifier"
  "validate_structure demo_sign_crypto demo_contracts demo_verifier (demo_manifest 1 zero_hash []) = Inr ()"
proof -
  show "verifier_new demo_sign_crypto demo_contracts demo_bundle VaultPlane = Inr demo_verifier"
    using demo_new by (simp only: verifier_new_def validate_trust_plane_def demo_sign_crypto_same)
  show "validate_structure demo_sign_crypto demo_contracts demo_verifier (demo_manifest 1 zero_hash []) = Inr ()"
    using demo_structure [of "[]" demo_verifier 1 zero_hash]
    by (simp only: validate_structure_def validate_manifest_members_def demo_sign_crypto_same) (simp add: demo_verifier_def)
qed

lemma demo_ceremony_quorum:
  "unat (tp_threshold (mv_genesis demo_verifier)) \<le>
     length (authorized_signers demo_rsctl (demo_manifest 1 zero_hash []) (trust_keys (tp_members (mv_genesis demo_verifier))) [replicate 32 7, replicate 32 8])"
proof -
  have keys: "trust_keys (tp_members (mv_genesis demo_verifier)) = collect_map (map (\<lambda>b. (demo_key b, demo_key b)) [7, 8, 9])"
    using demo_genesis_keys by (simp add: authorized_keys_def demo_verifier_def)
  have "hex_encode (rc_crypto demo_rsctl) (verifying_key (rc_signing demo_rsctl) (replicate 32 b)) = demo_key b" for b
    by (simp add: demo_rsctl_def demo_sign_crypto_def demo_crypto_def demo_signing_def demo_key_def)
  then have "map_of (collect_map (map (\<lambda>b. (demo_key b, demo_key b)) [7, 8, 9])) (signer_of demo_rsctl (demo_manifest 1 zero_hash []) (replicate 32 b)) =
      Some (hex_encode (rc_crypto demo_rsctl) (verifying_key (rc_signing demo_rsctl) (replicate 32 b)))" if "b \<in> {7, 8}" for b
    unfolding demo_signer demo_keys_get using that by auto
  then have "authorized_signers demo_rsctl (demo_manifest 1 zero_hash []) (trust_keys (tp_members (mv_genesis demo_verifier)))
      (map (replicate 32) [7, 8]) = map (replicate 32) [7, 8]"
    unfolding authorized_signers_def keys by (intro filter_True) auto
  then show ?thesis by (simp add: demo_verifier_def demo_bundle_def Let_def)
qed

lemma demo_ceremony_runs:
  "\<exists>r1 fs1 fs2 r2 fs3. membership_create demo_rsctl demo_create demo_desk = (Inr r1, fs1) \<and>
     sign_copies demo_rsctl ''m'' [(''k7'', ''s7''), (''k8'', ''s8'')] fs1 = (Inr (), fs2) \<and>
     membership_assemble demo_rsctl \<lparr>am_manifest = ''m'', signed_manifests = [''s7'', ''s8''], am_output = ''f''\<rparr> fs2 = (Inr r2, fs3) \<and>
     (\<forall>n. io_faults fs3 n = None)"
proof -
  note codec_ok = demo_manifest_codec_ok and codec = demo_rsctl_def
  have j: "rc_manifest_codec demo_rsctl = demo_manifest_codec" "codec_ok (rc_manifest_codec demo_rsctl)"
      "from_slice (rc_members_codec demo_rsctl) b = Inr (demo_roster [7, 8, 9])" for b
    by (simp_all add: codec codec_ok)
  have disk: "files demo_desk = [''members'' \<mapsto> [], ''k7'' \<mapsto> demo_key_file 7, ''k8'' \<mapsto> demo_key_file 8, ''tb'' \<mapsto> []]"
      "\<forall>n. io_faults demo_desk n = None"
    by (simp_all add: demo_desk_def demo_fs_def)
  obtain r1 fs1 where c: "membership_create demo_rsctl demo_create demo_desk = (Inr r1, fs1)" "adds_file demo_desk ''m'' fs1"
    using demo_creates [of demo_desk "[]"] disk by auto
  have m: "stored demo_manifest_codec fs1 ''m'' (demo_manifest 1 zero_hash [])"
    using membership_create_ok [OF j(2) c(1)] disk demo_proposal
    by (auto simp: j stored_def demo_create_def)
  have f1: "files fs1 ''k7'' = Some (demo_key_file 7)" "files fs1 ''s7'' = None" "\<forall>n. io_faults fs1 n = None"
    using c(2) disk(1) by (auto simp: adds_file_def)
  obtain r7 fs7 where s7: "membership_sign demo_rsctl \<lparr>sa_manifest = ''m'', sa_identity = ''k7'', sa_output = ''s7''\<rparr> fs1 = (Inr r7, fs7)"
      "adds_file fs1 ''s7'' fs7"
    using demo_signs [OF _ m f1] by auto
  have m7: "stored demo_manifest_codec fs7 ''m'' (demo_manifest 1 zero_hash [])"
    using m s7(2) by (auto simp: stored_def adds_file_def)
  have f7: "files fs7 ''k8'' = Some (demo_key_file 8)" "files fs7 ''s8'' = None" "\<forall>n. io_faults fs7 n = None"
    using c(2) s7(2) disk(1) by (auto simp: adds_file_def)
  obtain r8 fs8 where s8: "membership_sign demo_rsctl \<lparr>sa_manifest = ''m'', sa_identity = ''k8'', sa_output = ''s8''\<rparr> fs7 = (Inr r8, fs8)"
      "adds_file fs7 ''s8'' fs8"
    using demo_signs [OF _ m7 f7] by auto
  have run: "sign_copies demo_rsctl ''m'' [(''k7'', ''s7''), (''k8'', ''s8'')] fs1 = (Inr (), fs8)" using s7(1) s8(1) by simp
  have "list_all2 (\<lambda>(i, q) sk. secret_in demo_rsctl fs1 i sk) [(''k7'', ''s7''), (''k8'', ''s8'')] [replicate 32 7, replicate 32 8]"
    using c(2) disk(1) demo_secret by (auto simp: adds_file_def)
  from sign_copies_ok [OF j(2) _ this run, of "demo_manifest 1 zero_hash []"] m
  have signed: "stored demo_manifest_codec fs8 ''s7'' (demo_manifest 1 zero_hash [7])" "stored demo_manifest_codec fs8 ''s8'' (demo_manifest 1 zero_hash [8])"
    by (auto simp: j demo_sign_with)
  have "stored demo_manifest_codec fs8 ''m'' (demo_manifest 1 zero_hash [])" "files fs8 ''f'' = None" "\<forall>n. io_faults fs8 n = None"
    using m7 s8(2) s7(2) c(2) disk(1) by (auto simp: stored_def adds_file_def)
  from demo_assembles [OF this(1) signed this(2,3)] c(1) run show ?thesis unfolding adds_file_def by blast
qed

theorem manifest_ceremony_verifies_witness:
  "\<exists>fs answer fs'. membership_verify demo_rsctl \<lparr>va_manifest = ''f'', va_trust_bundle = ''tb''\<rparr> fs = (Inr answer, fs')"
proof -
  have env: "rc_crypto demo_rsctl = demo_sign_crypto" "rc_signing demo_rsctl = demo_signing" "rc_contracts demo_rsctl = demo_contracts"
      "rc_manifest_codec demo_rsctl = demo_manifest_codec" "ca_plane demo_create = VaultPlane" "ca_output demo_create = ''m''"
    by (simp_all add: demo_rsctl_def demo_create_def)
  have bytes: "\<forall>m s. manifest_signing_bytes demo_contracts (m\<lparr>mf_signatures := s\<rparr>) = manifest_signing_bytes demo_contracts m"
    by (simp add: demo_contracts_def)
  have disk: "stored (rc_members_codec demo_rsctl) demo_desk (ca_members demo_create) (demo_roster [7, 8, 9])"
      "stored (rc_bundle_codec demo_rsctl) demo_desk ''tb'' demo_bundle"
      "list_all2 (\<lambda>(identity, copy) sk. secret_in demo_rsctl demo_desk identity sk) [(''k7'', ''s7''), (''k8'', ''s8'')] [replicate 32 7, replicate 32 8]"
    using demo_secret [of demo_desk] by (auto simp: stored_def demo_desk_def demo_rsctl_def demo_create_def)
  obtain r1 fs1 fs2 r2 fs3 where run: "membership_create demo_rsctl demo_create demo_desk = (Inr r1, fs1)"
      "sign_copies demo_rsctl (ca_output demo_create) [(''k7'', ''s7''), (''k8'', ''s8'')] fs1 = (Inr (), fs2)"
      "membership_assemble demo_rsctl \<lparr>am_manifest = ca_output demo_create, signed_manifests = map snd [(''k7'', ''s7''), (''k8'', ''s8'')], am_output = ''f''\<rparr> fs2 = (Inr r2, fs3)"
      "\<forall>n. io_faults fs3 n = None"
    using demo_ceremony_runs by (auto simp: env)
  have signers: "distinct (map (signer_of demo_rsctl (demo_manifest 1 zero_hash [])) [replicate 32 7, replicate 32 8])"
    by (simp only: list.map demo_signer) (simp add: demo_key_eq)
  have args: "ca_epoch demo_create \<noteq> 0" "\<not> ca_joint demo_create" "ca_previous_manifest_hash demo_create = zero_hash"
    by (simp_all add: demo_create_def)
  show ?thesis
    using manifest_ceremony_verifies [where en = demo_rsctl and args = demo_create, unfolded env, OF demo_signing_ok demo_manifest_codec_ok bytes run(1) disk(1,3)
        run(2,3) [unfolded env] demo_proposal [symmetric] signers args disk(2) demo_rsctl_verifier demo_ceremony_quorum run(4)]
    by blast
qed

definition demo_reqwest :: "unit reqwest" where
  "demo_reqwest = \<lparr>proxy_all = (\<lambda>_. Inr ()), identity_from_pem = (\<lambda>_. Inr ()), certificate_from_pem = (\<lambda>_. Inr ()), client_build = (\<lambda>_. Inr ()),
     http_send = (\<lambda>_ _ n. (Inl ''down'', n)), redirects = (\<lambda>_ _ _. []), status_error = (\<lambda>_ _. ''status'')\<rparr>"

theorem admin_client_exact_witness:
  "\<exists>client fs'. admin_client demo_rsctl demo_reqwest 15 (Some ''k7'') (Some ''members'') (Some ''socks5h://tor:9050'') None demo_desk =
     (Inr client, fs') \<and> https_only client"
proof -
  have "ensure_private_file demo_rsctl ''k7'' = Inr ()" by (simp add: ensure_private_file_def demo_rsctl_def lift_err_def require_def)
  moreover have "fs_read demo_desk ''k7'' = (Inr (demo_key_file 7), io_call demo_desk)"
      "fs_read (io_call demo_desk) ''members'' = (Inr [], io_call (io_call demo_desk))"
    by (simp_all add: fs_read_def fault_now_def demo_desk_def demo_fs_def)
  ultimately obtain client fs' where run: "admin_client demo_rsctl demo_reqwest 15 (Some ''k7'') (Some ''members'') (Some ''socks5h://tor:9050'') None
      demo_desk = (Inr client, fs')"
    by (simp add: admin_client_def client_credentials_def io_lift_def lift_err_def require_def starts_with_def demo_reqwest_def)
  from admin_client_exact [OF this] have "https_only client" by simp
  with run show ?thesis by blast
qed

end
