(* ===== verification/Spec2Isabelle.thy ===== *)
theory Spec2Isabelle
  imports Account_Stores Utxo_Store Double_Entry State_Machine Replication Settlement Withdrawal
    Wallet Store_Simulation Store_Interleaving Node_Process Keygen Rsctl
begin

text \<open>
  \<^bold>\<open>Verification of the Kerosene node.\<close>

  The repository has a ledger (\<open>kerosene-ledger\<close>) and a network of nodes around it
  (\<open>kerosene-identity-core\<close>, \<open>kerosene-discovery\<close>, \<open>kerosene-membership\<close>, \<open>kerosene-sync\<close>,
  \<open>kerosene-node\<close>) with an administration client (\<open>kerosene-rsctl\<close>) and a key generator. This
  development translates the whole implementation, tests apart, into executable definitions and
  proves what makes the parts and their composition correct. Paths below are relative to
  \<open>src/crates\<close>.

  \<^bold>\<open>How the program is modelled.\<close> Structs are records, enums datatypes, machine integers words of
  their width, so that overflow, wrap-around and saturation are those of the code. A function of
  the code is a function here, with every early return. A method that changes its object returns
  the changed object beside its result; where the code changes the object and then fails, the
  model keeps the change. A \<open>HashMap\<close> is an association list without a promise about its order; the
  balances of the double-entry ledger, where an answer depends on the order in which the map is
  visited, are a map, and the order is an argument of the call. A method behind one mutex is one step. The requests and background tasks of a process are
  sequences of such steps, and theorems quantify over all sequences. Calls of the file system, of
  the database and of the network can fail at every step: a fault schedule or an arbitrary answer
  is an argument, and a failing operation may leave part of its effect.

  \<^bold>\<open>What is a parameter.\<close> SHA-256, hexadecimal and Ed25519 (\<open>crypto\<close>, \<open>signing\<close>; documented laws
  \<open>crypto_ok\<close>, \<open>signing_ok\<close>, and collision-freeness on the texts at hand where a theorem needs it);
  \<open>kerosene_contracts\<close> and \<open>url\<close> (\<open>contracts\<close>); \<open>serde_json\<close> (codecs, with \<open>codec_ok\<close> stating that
  decoding inverts encoding); sled (\<open>sled\<close>, with the locale \<open>sled_db\<close> stating what an operation
  does to the records it names); \<open>reqwest\<close> on an arbitrary network, with the redirects it follows
  (\<open>redirects_documented\<close>); rustls, TOML, clap and the parser of
  socket addresses; clocks and random bytes. Every theorem with a hypothesis about a parameter
  has a witness on a concrete instance.

  \<^bold>\<open>The ledger.\<close>
  \<^item> \<open>Kerosene_Prelude\<close>: machine arithmetic, byte encodings, decimal printing and parsing, results,
    association lists, hash texts. \<open>Ledger_Types\<close>: \<open>account.rs\<close>, \<open>error.rs\<close> and shared enums.
  \<^item> \<open>Account_State\<close> (\<open>account_state.rs\<close>, \<open>command.rs\<close>, \<open>reservation.rs\<close>, \<open>idempotency.rs\<close>): every
    balance operation refines an abstract operation on natural numbers.
  \<^item> \<open>Account_Stores\<close> (\<open>in_memory.rs\<close>, \<open>traits.rs\<close>): the three in-memory stores under locales for the
    ports; atomicity of transfers, and the transfer of an account to itself that mints.
  \<^item> \<open>Chain\<close>, \<open>Utxo_Store\<close> (\<open>chain.rs\<close>, \<open>utxo_store.rs\<close>): outputs, the transition gate,
    reorganisations, replacement, the root, and the store under its contract.
  \<^item> \<open>Double_Entry\<close> (\<open>double_entry.rs\<close>): over every history of calls, refused ones included, the hash
    chain, the books as the journal and the entries refused for a sign, which keep their postings,
    and what a refusal leaves behind.
  \<^item> \<open>Ledger_State\<close>, \<open>State_Machine\<close> (\<open>state_root.rs\<close>, \<open>state_machine.rs\<close>): validation and
    application of every command, conservation, receipts, invariants of reachable states, and the
    root as a commitment to the content, as far as reservations and entries can be told apart by
    the texts that are hashed for them.
  \<^item> \<open>Certificate\<close>, \<open>Replication\<close> (\<open>certificate.rs\<close>, \<open>snapshot.rs\<close>, \<open>replication.rs\<close>): what a
    certificate proves, that conflicting ones need a double signer, which snapshots install, and both
    recovery flows.
  \<^item> \<open>Settlement\<close>, \<open>Withdrawal\<close> (\<open>settlement.rs\<close>, \<open>nonce.rs\<close>, \<open>withdrawal.rs\<close>): exactly when the
    vault signs, single use of nonces, and the life of a withdrawal over any calls.
  \<^item> \<open>Node_Roles\<close>, \<open>Reconciliation\<close>, \<open>Gates\<close>, \<open>Wallet\<close> (\<open>membership.rs\<close>, \<open>reconciliation.rs\<close>,
    \<open>gates.rs\<close>, \<open>metrics.rs\<close>, \<open>wallet.rs\<close>, \<open>invariants.rs\<close>): admission of voters, totals with
    saturation, the financial gates and the degraded mode.
  \<^item> \<open>Sled\<close>, \<open>Sled_Stores\<close>, \<open>Sled_Refinement\<close> (\<open>persistent.rs\<close>): the eight stores over one
    database; their isolation, and that they keep the contracts of the in-memory stores over any
    calls and failures, with the lost update of two interleaved commands. \<open>Store_Simulation\<close>:
    the in-memory stores of a node as one state, and the simulation between it and the database
    for every call, with the differences named there, and for every read but two: \<open>latest_snapshot\<close>,
    which answers with the snapshot saved last instead of the newest, and \<open>is_consumed_sync\<close>, which
    hides errors of the database. \<open>Store_Interleaving\<close>: the two halves of an update, and what
    concurrent updates of one record lose.

  \<^bold>\<open>The network.\<close>
  \<^item> \<open>Contracts\<close>: types and functions of the contracts crate, and the endpoint check.
  \<^item> \<open>Manifest_Verifier\<close> (\<open>kerosene-membership\<close>): what an accepted manifest proves, forks, history.
  \<^item> \<open>File_System\<close>, \<open>Lifecycle\<close> (\<open>kerosene-sync\<close>), \<open>Identity\<close> (\<open>kerosene-identity-core\<close>): files that
    may be torn, atomic replacement, the life cycle, keys and greetings.
  \<^item> \<open>Discovery\<close>, \<open>Http_Client\<close>, \<open>Tor_Client\<close> (\<open>kerosene-discovery\<close>): challenges, authentication, the
    peer store, candidates, and the handshake client; the locale \<open>traffic\<close> follows every request that
    is handed to the HTTP library.
  \<^item> \<open>Node_Service\<close>, \<open>Node_Router\<close> (\<open>kerosene-node/src/lib.rs\<close>): the service, its handlers and
    routes; financial readiness is backed by a live quorum and a verified state, and the manifests
    on disk restore to the membership in memory. \<open>Handshake\<close>: two nodes authenticate each other.
  \<^item> \<open>Process_Env\<close>, \<open>Node_Process\<close> (\<open>kerosene-node/src/main.rs\<close>): configuration, start, the discovery
    task and runs of the process; restarts keep the membership, discovery sends its requests to
    onion services through the proxy (redirects included, but these to any host), and the wait for
    the onion host name ends. \<open>Keygen\<close> (\<open>kerosene-node-keygen.rs\<close>).
  \<^item> \<open>Rsctl\<close> (\<open>kerosene-rsctl/src/main.rs\<close>): profiles, clients, requests and the membership ceremony;
    a ceremony ends with a manifest that verifies, and no file is ever overwritten.
  \<^item> This theory: properties across components, of a process and its life cycle, of publishing
    a manifest with the tool to a running node, and of the vault on the persistent nonces.

  \<^bold>\<open>Loops and fuel.\<close> All loops are structural recursions or have a termination proof, except the
  wait for the onion host name, which is a \<open>partial_function\<close>: \<open>onion_wait_ends\<close> shows
  that it returns, because each of its rounds sleeps, and \<open>from_env_ends\<close> that the configuration does. No definition has a fuel argument.

  \<^bold>\<open>Interfaces.\<close> The ports of the code are locales (stores, snapshot and output stores, logs,
  atomic file replacement, the database, traffic), interpreted on the definitions of the code;
  in-memory and persistent stores share them.

  \<^bold>\<open>Not modelled.\<close> The tests; logging; the internals of axum beyond the dispatch on method and path
  and the JSON extractor; preemption inside a handler, except for the interleaving of the
  persistent stores, which is modelled because their operations are not atomic; sockets and
  TLS handshakes; file permissions other than the check of the administration client;
  \<open>balance.rs\<close>, \<open>observer.rs\<close> and the re-exports of \<open>lib.rs\<close>, which hold no behaviour. Integer
  overflow where the code uses plain \<open>+=\<close> on versions wraps as in a release build.
\<close>

section \<open>A process and its life cycle\<close>

text \<open>
  C12. A node process never verifies a state by itself. Start a process whose life cycle has not
  passed \<open>Syncing\<close>, let it serve any requests and run any discovery rounds: its life cycle does
  not pass \<open>Syncing\<close>, and \<open>/ready-financial\<close> does not answer 200. The service offers
  \<open>synchronize_state\<close>, but neither a route nor a task of the process calls it.
\<close>

theorem process_never_verifies_state:
  assumes "start_node lb en cfg secret fs = (Inr p, fs1)"
    and "lc_state (sv_lifecycle (np_service p)) \<notin> {StateVerified, Eligible, Active}"
    and "process_run h en w cfg (np_client p) evs (np_service p, n) = (s, n')"
  shows "lc_state (sv_lifecycle s) \<notin> {StateVerified, Eligible, Active} \<and>
    hr_status (fst (router en w s random_bytes now HttpGet ''/ready-financial'' body)) \<noteq> 200"
proof -
  have late: "lifecycle_index q < 7 \<longleftrightarrow> q \<notin> {StateVerified, Eligible, Active}" for q by (cases q) simp_all
  have "node_reaches en (np_service p) s" using process_run_reaches [of en "np_service p" h w cfg "np_client p" evs n] assms(3) by simp
  then have s: "lc_state (sv_lifecycle s) \<notin> {StateVerified, Eligible, Active}"
    using node_reaches_stage [of en "np_service p" s] assms(2) unfolding late by blast
  then have "\<not> financial_ready (fst (service_readiness en s now))"
    by (auto simp: service_readiness_def readiness_of_def expire_peers_def Let_def)
  then have "hr_status (fst (ready_response en w financial_ready s now)) \<noteq> 200"
    by (auto simp: ready_response_def ready_route_def readiness_status_def json_response_def split: prod.splits sum.splits)
  with s show ?thesis by (simp add: router_def Let_def)
qed

theorem process_never_verifies_state_witness:
  "\<exists>p fs fs1. start_node demo_libs demo_env demo_config [] fs = (Inr p, fs1) \<and>
     hr_status (fst (router demo_env demo_wire
       (fst (process_run (pl_reqwest demo_libs) demo_env demo_wire demo_config (np_client p) [PrRequest [] 5 HttpGet ''/v1/readiness'' None] (np_service p, ())))
       [] 6 HttpGet ''/ready-financial'' None)) \<noteq> 200"
proof -
  obtain p fs1 where p: "start_node demo_libs demo_env demo_config [] demo_disk = (Inr p, fs1)" "stage (np_service p) < 7"
    using demo_starts [OF demo_disk_ok, of "[]" "[]"] by (auto simp: demo_config_same)
  have "lc_state (sv_lifecycle (np_service p)) \<notin> {StateVerified, Eligible, Active}" using p(2) by auto
  from process_never_verifies_state [OF p(1) this prod.collapse [symmetric], of "pl_reqwest demo_libs" demo_wire
      "[PrRequest [] 5 HttpGet ''/v1/readiness'' None]" "()" "[]" 6 None] p(1)
  show ?thesis by blast
qed

section \<open>From the tool to a node\<close>

lemma activation_membership: "sv_membership (activate_if_quorum en s now) = sv_membership s"
  by (simp add: activate_if_quorum_def service_readiness_def Let_def expire_peers_def save_lifecycle_def split: prod.splits)

text \<open>
  C11. What \<open>membership publish\<close> reports as done is done. Let the command talk to the routes of a
  node. If it succeeds, the node's current manifest has the hash of the published one; and unless
  the node had that manifest already, a quorum of the members in force before has signed it.
\<close>

theorem publish_means_adopted:
  assumes "membership_publish rc (served_by en w (trim_end (CHR ''/'') (pa_endpoint args))) args (fs, n) = (Inr answer, fs', n')"
    and "stored (rc_manifest_codec rc) fs (pa_manifest args) m"
    and "\<forall>b. to_vec (rc_wire_manifest_codec rc) m = Inr b \<longrightarrow> from_slice (manifest_codec (nw_codecs w)) b = Inr m"
    and "v = sv_membership (srv_service n)"
  shows "current_hash (ne_contracts en) (sv_membership (srv_service n')) = Some (canonical_hash (ne_contracts en) m) \<and>
    (current_hash (ne_contracts en) v = Some (canonical_hash (ne_contracts en) m) \<or>
     quorum_signed (ne_crypto en) (ne_contracts en) (authorized_keys v) (threshold v) m)"
proof -
  let ?ep = "trim_end (CHR ''/'') (pa_endpoint args)" and ?s = "srv_service n"
  let ?now = "srv_clock n (srv_requests n)"
  have sent: "http_send (served_by en w ?ep) cl \<lparr>hq_method = HttpPost, hq_url = ?ep @ ''/v1/membership'', hq_headers = [], hq_body = Some b\<rparr> n =
      (case with_json w (manifest_codec (nw_codecs w)) (Some b) ?s (accept_manifest_response en w ?s ?now) of
         (r, s') \<Rightarrow> (Inr r, n\<lparr>srv_service := s', srv_requests := Suc (srv_requests n)\<rparr>))" for cl b
    by (simp add: served_by_def deliver_def starts_with_def router_def Let_def)
  obtain m' client fs1 where c: "publish_client rc (served_by en w ?ep) args fs = (Inr (m', client), fs1)"
      "post_json (served_by en w ?ep) (rc_wire_manifest_codec rc) (rc_json_codec rc) client (?ep @ ''/v1/membership'') m' n = (Inr answer, n')"
    using assms(1) by (auto simp: membership_publish_def map_err_def split: prod.splits sum.splits)
  have "stored (rc_manifest_codec rc) fs (pa_manifest args) m'"
    using c(1) by (auto simp: publish_client_def result_simps Let_def dest!: read_json_ok)
  then have m': "m' = m" using assms(2) by (rule stored_unique)
  obtain b where b: "to_vec (rc_wire_manifest_codec rc) m = Inr b" using c(2) by (auto simp: post_json_def m' split: sum.splits)
  then have "with_json w (manifest_codec (nw_codecs w)) (Some b) ?s f = f m" for f using assms(3) by (simp add: with_json_def)
  then obtain r where r: "accept_manifest_response en w ?s ?now m = (r, srv_service n')" "error_for_status (served_by en w ?ep) (?ep @ ''/v1/membership'') r = Inr r"
    using c(2) b by (auto simp: post_json_def fetch_json_def sent m' result_simps error_for_status_def split: prod.splits if_splits)
  have "fst (accept_membership en ?s m ?now) = Inr () \<and> srv_service n' = snd (accept_membership en ?s m ?now)"
    using r by (cases "accept_membership en ?s m ?now"; cases "fst (accept_membership en ?s m ?now)")
      (auto simp: accept_manifest_response_def accept_manifest_route_def Let_def error_for_status_def json_response_def split: sum.splits if_splits)
  then have acc: "accept_membership en ?s m ?now = (Inr (), srv_service n')" by (metis prod.collapse)
  show ?thesis
  proof (cases "current_hash (ne_contracts en) v = Some (canonical_hash (ne_contracts en) m)")
    case True
    then show ?thesis using acc by (simp add: accept_membership_def assms(4))
  next
    case False
    then obtain fs2 where "verify_next (ne_crypto en) (ne_contracts en) v m = Inr ()"
        "activate_if_quorum en (?s\<lparr>sv_fs := fs2, sv_membership := v\<lparr>mv_current := Some m\<rparr>\<rparr>) ?now = srv_service n'"
      using acc by (auto simp: accept_membership_def assms(4) accept_ok split: prod.splits sum.splits)
    moreover from this(2) have "sv_membership (srv_service n') = v\<lparr>mv_current := Some m\<rparr>"
      using activation_membership [of en "?s\<lparr>sv_fs := fs2, sv_membership := v\<lparr>mv_current := Some m\<rparr>\<rparr>" ?now] by simp
    ultimately show ?thesis using verify_next_signatures by (auto simp: current_hash_def)
  qed
qed

text \<open>The manifest of the demonstration network, published to a node that has none yet.\<close>

definition demo_publisher :: rsctl_env where
  "demo_publisher = demo_rsctl\<lparr>rc_manifest_codec := single_codec (demo_manifest 1 zero_hash [7, 8]),
     rc_wire_manifest_codec := single_codec (demo_manifest 1 zero_hash [7, 8])\<rparr>"

definition demo_publish :: publish_manifest where
  "demo_publish = \<lparr>pa_manifest = ''members'', pa_endpoint = demo_host, pa_identity_pem = ''k7'', pa_ca = ''k8'', pa_socks5h = None\<rparr>"

definition demo_api :: node_wire where
  "demo_api = demo_wire\<lparr>accepted_codec := \<lparr>to_vec = (\<lambda>_. Inr []), from_slice = (\<lambda>_. Inr [])\<rparr>\<rparr>"

definition demo_target :: served where
  "demo_target = \<lparr>srv_service = demo_service, srv_random = (\<lambda>_. []), srv_clock = (\<lambda>_. 5), srv_requests = 0\<rparr>"

lemma demo_accepts: "\<exists>s. accept_membership demo_env demo_service (demo_manifest 1 zero_hash [7, 8]) 5 = (Inr (), s)"
proof -
  have "accept demo_crypto demo_contracts demo_verifier (demo_manifest 1 zero_hash [7, 8]) =
      (Inr (), demo_verifier\<lparr>mv_current := Some (demo_manifest 1 zero_hash [7, 8])\<rparr>)"
    by (rule demo_accept_first) auto
  moreover have "current_hash demo_contracts demo_verifier = None" by (simp add: current_hash_def demo_verifier_def)
  moreover have "\<exists>fs. append_manifest (ne_codecs demo_env) ''r'' demo_db (demo_manifest 1 zero_hash [7, 8]) = (Inr (), fs)"
    by (simp add: append_manifest_def db_read_def db_write_def replace_file_def fs_read_def fs_write_def fs_rename_def fault_now_def
        demo_env_def demo_db_def demo_fs_def map_err_def)
  ultimately show ?thesis by (auto simp: accept_membership_def)
qed

theorem publish_means_adopted_witness:
  "\<exists>fs' n' answer. membership_publish demo_publisher (served_by demo_env demo_api demo_host) demo_publish (demo_desk, demo_target) =
       (Inr answer, fs', n') \<and>
     current_hash demo_contracts (sv_membership (srv_service n')) = Some (canonical_hash demo_contracts (demo_manifest 1 zero_hash [7, 8]))"
proof -
  let ?m = "demo_manifest 1 zero_hash [7, 8]" and ?h = "served_by demo_env demo_api demo_host"
  have ep: "trim_end (CHR ''/'') (pa_endpoint demo_publish) = demo_host" by (simp add: demo_publish_def demo_host_def trim_end_def)
  have m: "stored (rc_manifest_codec demo_publisher) demo_desk (pa_manifest demo_publish) ?m"
    by (simp add: stored_def demo_publisher_def demo_publish_def demo_desk_def single_codec_def)
  have "\<exists>client fs'. publish_client demo_publisher ?h demo_publish demo_desk = (Inr (?m, client), fs')"
    using read_json_succeeds [OF m]
    by (simp add: publish_client_def demo_publish_def Let_def io_lift_def lift_err_def served_by_def fs_read_def fault_now_def
        demo_desk_def demo_fs_def)
  then obtain client fs' where c: "publish_client demo_publisher ?h demo_publish demo_desk = (Inr (?m, client), fs')" by blast
  obtain s where "accept_membership demo_env demo_service ?m 5 = (Inr (), s)" using demo_accepts by blast
  then have "\<exists>n'. post_json ?h (rc_wire_manifest_codec demo_publisher) (rc_json_codec demo_publisher) client (demo_host @ ''/v1/membership'') ?m
      demo_target = (Inr JNull, n')"
    by (simp add: post_json_def fetch_json_def served_by_def deliver_def starts_with_def router_def Let_def with_json_def
        accept_manifest_response_def accept_manifest_route_def json_response_def error_for_status_def demo_publisher_def demo_rsctl_def
        demo_target_def demo_api_def demo_wire_def single_codec_def)
  then obtain n' where "membership_publish demo_publisher ?h demo_publish (demo_desk, demo_target) = (Inr JNull, fs', n')"
    using c ep by (auto simp: membership_publish_def)
  moreover from publish_means_adopted [of demo_publisher demo_env demo_api demo_publish demo_desk demo_target JNull fs' n' ?m, unfolded ep, OF this m _ refl]
  have "current_hash demo_contracts (sv_membership (srv_service n')) = Some (canonical_hash demo_contracts ?m)"
    by (simp add: demo_publisher_def demo_api_def demo_wire_def single_codec_def)
  ultimately show ?thesis by blast
qed

section \<open>The vault on the persistent nonces\<close>

lemma vault_verify_lookup:
  "used (nonce a) = used' (nonce a) \<Longrightarrow>
     vault_verify c a psbt inputs outputs sats p used now = vault_verify c a psbt inputs outputs sats p used' now"
  by (simp add: vault_verify_def)

lemma vault_verify_used:
  "used (nonce a) \<Longrightarrow> \<exists>e. vault_verify c a psbt inputs outputs sats p used now = Inl e \<and>
     (is_ok (sa_verify_basic c a) \<longrightarrow> e = NonceReused (nonce a))"
  by (cases "sa_verify_basic c a") (simp_all add: vault_verify_def require_def is_ok_iff)

text \<open>
  C14. Anti-replay on the database. Over any sequence of calls on the persistent nonce checker,
  whichever of them fail, \<open>mark_consumed\<close> accepts each nonce at most once and none that was in the
  database before. After it accepted the nonce of an authorization, the vault with this checker
  refuses the authorization whatever calls follow, with \<open>NonceReused\<close> if it is otherwise well formed,
  unless the lookup of the nonce fails; then the vault decides as if the nonce were new.
\<close>

theorem vault_replay_needs_fault:
  assumes "sled_db db view"
    and "nonce_run (sled_mark_consumed db) (sled_mark_consumed_sync db) d ops = (accepted, d')"
  shows "distinct accepted \<and> (\<forall>n \<in> set accepted. view d (nonce_key n) = None) \<and>
    (nonce a \<in> set accepted \<longrightarrow>
      (case fst (sl_get db d' (nonce_key (nonce a))) of
         Inr v \<Rightarrow> (\<exists>e. vault_verify c a psbt inputs outputs sats p (\<lambda>n. fst (sled_is_consumed_sync db d' n)) now = Inl e \<and>
           (is_ok (sa_verify_basic c a) \<longrightarrow> e = NonceReused (nonce a)))
       | Inl e \<Rightarrow> vault_verify c a psbt inputs outputs sats p (\<lambda>n. fst (sled_is_consumed_sync db d' n)) now =
           vault_verify c a psbt inputs outputs sats p (\<lambda>_. False) now))"
proof -
  note once = sled_db.nonce_run_once [OF assms]
  obtain q d2 where q: "sl_get db d' (nonce_key (nonce a)) = (q, d2)" by force
  have "fst (sled_is_consumed_sync db d' (nonce a)) = (case q of Inl e \<Rightarrow> False | Inr v \<Rightarrow> v \<noteq> None)"
    using q by (simp add: sled_is_consumed_sync_def split: sum.split)
  moreover have "v \<noteq> None" if "nonce a \<in> set accepted" "q = Inr v" for v
    using once that sled_db.get_ok [OF assms(1)] q unfolding nonce_consumed_def by metis
  ultimately show ?thesis
    using once q vault_verify_used [of "\<lambda>n. fst (sled_is_consumed_sync db d' n)" a]
      vault_verify_lookup [of "\<lambda>n. fst (sled_is_consumed_sync db d' n)" a "\<lambda>_. False"]
    unfolding nonce_consumed_def by (auto split: sum.split)
qed

theorem vault_replay_needs_fault_witness:
  "let run = \<lambda>faults. snd (nonce_run (sled_mark_consumed sim_sled) (sled_mark_consumed_sync sim_sled) (sim_new faults) [MarkConsumed ''n'']);
       verify = \<lambda>used. vault_verify demo_crypto demo_authorization [1, 2, 3] 1 2 5000 demo_policy used 99 in
   \<not> is_ok (verify (\<lambda>n. fst (sled_is_consumed_sync sim_sled (run (\<lambda>_. None)) n))) \<and>
   verify (\<lambda>n. fst (sled_is_consumed_sync sim_sled (run (\<lambda>n. if n = 1 then Some False else None)) n)) = verify (\<lambda>_. False)"
proof -
  have n: "nonce demo_authorization = ''n''" by (simp add: demo_authorization_def)
  let ?e = "\<lambda>faults. \<lparr>sim_map = [(nonce_key ''n'', [])], sim_faults = faults, sim_calls = 1\<rparr>"
  have run: "nonce_run (sled_mark_consumed sim_sled) (sled_mark_consumed_sync sim_sled) (sim_new faults) [MarkConsumed ''n''] =
      ([''n''], ?e faults)" if "faults 0 = None" for faults
    using that by (simp add: sled_mark_consumed_def sim_eval)
  note ok = run [of "\<lambda>_. None"] and faulty = run [of "\<lambda>n. if n = 1 then Some False else None"]
  have get: "fst (sl_get sim_sled (?e (\<lambda>_. None)) (nonce_key ''n'')) = Inr (Some [])"
      "fst (sl_get sim_sled (?e (\<lambda>n. if n = 1 then Some False else None)) (nonce_key ''n'')) = Inl ''io''"
    by (simp_all add: sim_sled_def)
  show ?thesis
    using vault_replay_needs_fault [OF sim.sled_db_axioms ok [OF refl], of demo_authorization demo_crypto "[1, 2, 3]" 1 2 5000 demo_policy 99]
      vault_replay_needs_fault [OF sim.sled_db_axioms faulty, of demo_authorization demo_crypto "[1, 2, 3]" 1 2 5000 demo_policy 99]
    by (auto simp: Let_def n ok faulty get is_ok_iff simp del: One_nat_def nonce_run.simps)
qed

end
